(* ===== verification/Prelude.thy ===== *)
theory Prelude
  imports Main "HOL-Library.Word" "HOL-Library.Monad_Syntax"
begin

text \<open>
  Shared ground of the development: the machine integer types of the C sources, the
  little- and big-endian byte views of a 32-bit word, and the list and word lemmas that
  several components use. The collections declared here are filled by the components:
  \<^item> \<open>bus_intros\<close>: how each operation extends the log of bus accesses;
  \<^item> \<open>live_intros\<close>: when each operation returns.
\<close>

unbundle bit_operations_syntax

named_theorems bus_intros "how an operation extends the bus log"
named_theorems live_intros "when an operation returns"

section \<open>Machine integers\<close>

text \<open>
  On the Pi 1 target (ARMv6, ILP32) \<open>unsigned int\<close> and \<open>unsigned long\<close> are 32 bits wide; on
  the Pi 4 target (AArch64, LP64) \<open>unsigned long\<close> is 64 bits wide. \<open>unsigned long long\<close> is
  64 bits wide on both.
\<close>

type_synonym u8 = "8 word"
type_synonym u32 = "32 word"
type_synonym u64 = "64 word"

text \<open>Reading a C truth value (\<open>if (x & mask)\<close>).\<close>

abbreviation any_bit :: "'a::len word \<Rightarrow> 'a word \<Rightarrow> bool" where
  "any_bit x msk \<equiv> x AND msk \<noteq> 0"

lemma bit_beyond [simp]:
  "32 \<le> n \<Longrightarrow> \<not> bit (v :: u32) n"
  "8 \<le> n \<Longrightarrow> \<not> bit (b :: u8) n"
  using bit_imp_le_length [of v n] bit_imp_le_length [of b n] by auto

lemma xor_cancel [simp]:
  "x XOR z = y XOR z \<longleftrightarrow> x = y" "z XOR x = z XOR y \<longleftrightarrow> x = y" for x :: "'a::len word"
  by (metis xor.assoc xor.right_neutral xor_self_eq) (metis xor.assoc xor.left_neutral xor_self_eq)

lemma xor_minus_1: "NOT x = x XOR - 1" for x :: "'a::len word"
  by (rule bit_word_eqI) (simp only: bit_not_iff bit_xor_iff bit_minus_1_iff possible_bit_word, simp)

lemma unat_add_one: "unat (x :: u32) < n \<Longrightarrow> n \<le> 0xFFFFFFFF \<Longrightarrow> unat (x + 1) = unat x + 1"
  by (subst unat_add_lem [THEN iffD1]) simp_all

lemma unat_lt_2p32: "unat (y :: u32) < 4294967296"
proof -
  have "unat y < 2 ^ LENGTH(32)" by (rule unsigned_less)
  then show ?thesis by simp
qed

lemma unat_succ_less: "x < (y :: u32) \<Longrightarrow> unat (x + 1) = unat x + 1"
  using unat_add_one [of x "unat y"] unat_lt_2p32 [of y] by (simp add: word_less_nat_alt)

lemma unat_max: "unat (- 1 :: u32) = 0xFFFFFFFF"
proof -
  have "(- 1 :: u32) = 0xFFFFFFFF" by simp
  then show ?thesis by (simp only: unat_numeral) simp
qed

lemma unat_less_max: "x \<noteq> - 1 \<Longrightarrow> unat (x :: u32) < 0xFFFFFFFF"
proof -
  assume "x \<noteq> - 1"
  then have "unat x \<noteq> unat (- 1 :: u32)" by (metis word_unat_eq_iff)
  then show ?thesis using unat_lt_2p32 [of x] by (simp add: unat_max)
qed

text \<open>Rounding up to a power of two: \<open>(x + (2 ^ n - 1)) & ~(2 ^ n - 1)\<close>.\<close>

lemma clear_low_bits: "x AND NOT (mask n) = push_bit n (drop_bit n x)" for x :: "'a::len word"
  by (rule bit_word_eqI) (auto simp: bit_simps)

lemma unat_drop: "unat (drop_bit n x) = unat x div 2 ^ n" for x :: "'a::len word"
  by (simp only: unat_drop_bit_eq) (rule drop_bit_eq_div)

lemma unat_clear_low_bits: "unat (x AND NOT (mask n)) = unat x div 2 ^ n * 2 ^ n" for x :: "'a::len word"
proof -
  have "unat x div 2 ^ n * 2 ^ n \<le> unat x" by (rule div_times_less_eq_dividend)
  then have "unat (drop_bit n x) * 2 ^ n < 2 ^ LENGTH('a)"
    unfolding unat_drop by (rule le_less_trans) (rule unsigned_less)
  then have "unat (push_bit n (drop_bit n x)) = unat (drop_bit n x) * 2 ^ n"
    by (simp only: unsigned_push_bit_eq push_bit_eq_mult [of n "unat (drop_bit n x)"] take_bit_nat_eq_self)
  then show ?thesis by (simp only: clear_low_bits unat_drop)
qed

definition round_up :: "nat \<Rightarrow> nat \<Rightarrow> nat" where
  "round_up k x = (x + (k - 1)) div k * k"

lemma round_up_bounds: "0 < k \<Longrightarrow> x \<le> round_up k x" "0 < k \<Longrightarrow> round_up k x < x + k"
proof -
  assume k: "0 < k"
  have "(x + (k - 1)) div k * k + (x + (k - 1)) mod k = x + (k - 1)" by (rule div_mult_mod_eq)
  moreover have "(x + (k - 1)) mod k < k" using k by simp
  moreover have "(x + (k - 1)) div k * k \<le> x + (k - 1)" by (rule div_times_less_eq_dividend)
  ultimately show "x \<le> round_up k x" "round_up k x < x + k"
    using k unfolding round_up_def by linarith+
qed

lemma round_up_dvd: "k dvd round_up k x"
  by (simp add: round_up_def)

lemma unat_round_8:
  "unat x + 7 < 2 ^ LENGTH('a) \<Longrightarrow> unat ((x + 7) AND NOT 7) = round_up 8 (unat x)"
  for x :: "'a::len word"
proof -
  assume x: "unat x + 7 < 2 ^ LENGTH('a)"
  then have "unat (7 :: 'a word) = 7"
    by (simp add: take_bit_nat_eq_self)
  with x have "unat (x + 7) = unat x + 7" by (subst unat_add_lem [THEN iffD1]) simp_all
  moreover have "(7 :: 'a word) = mask 3" by (simp add: mask_eq_exp_minus_1)
  ultimately show ?thesis
    using unat_clear_low_bits [of "x + 7" 3] by (simp add: round_up_def)
qed

lemma unat_round_4096:
  "unat x + 4095 < 2 ^ LENGTH('a) \<Longrightarrow> unat ((x + 4095) AND NOT 4095) = round_up 4096 (unat x)"
  for x :: "'a::len word"
proof -
  assume x: "unat x + 4095 < 2 ^ LENGTH('a)"
  then have "unat (4095 :: 'a word) = 4095"
    by (simp add: take_bit_nat_eq_self)
  with x have "unat (x + 4095) = unat x + 4095" by (subst unat_add_lem [THEN iffD1]) simp_all
  moreover have "(4095 :: 'a word) = mask 12" by (simp add: mask_eq_exp_minus_1)
  ultimately show ?thesis
    using unat_clear_low_bits [of "x + 4095" 12] by (simp add: round_up_def)
qed

section \<open>Byte views of a word\<close>

definition le_bytes :: "u32 \<Rightarrow> u8 list" where
  "le_bytes v = [ucast v, ucast (drop_bit 8 v), ucast (drop_bit 16 v), ucast (drop_bit 24 v)]"

definition le_word :: "u8 \<Rightarrow> u8 \<Rightarrow> u8 \<Rightarrow> u8 \<Rightarrow> u32" where
  "le_word b0 b1 b2 b3 =
     ((ucast b0 OR push_bit 8 (ucast b1)) OR push_bit 16 (ucast b2)) OR push_bit 24 (ucast b3)"

lemma length_le_bytes [simp]: "length (le_bytes v) = 4"
  by (simp add: le_bytes_def)

lemma bit_le_word:
  "bit (le_word b0 b1 b2 b3) n \<longleftrightarrow>
     (if n < 8 then bit b0 n else if n < 16 then bit b1 (n - 8)
      else if n < 24 then bit b2 (n - 16) else if n < 32 then bit b3 (n - 24) else False)"
  using bit_imp_le_length [of b0 n] bit_imp_le_length [of b1 "n - 8"]
    bit_imp_le_length [of b2 "n - 16"] bit_imp_le_length [of b3 "n - 24"]
  by (auto simp: le_word_def bit_simps not_less)

lemma le_word_le_bytes [simp]:
  "le_word (ucast v) (ucast (drop_bit 8 v)) (ucast (drop_bit 16 v)) (ucast (drop_bit 24 v)) = v"
  by (rule bit_word_eqI) (auto simp: bit_le_word bit_simps)

lemma ucast_le_word:
  "(ucast (le_word b0 b1 b2 b3) :: u8) = b0"
  "(ucast (drop_bit 8 (le_word b0 b1 b2 b3)) :: u8) = b1"
  "(ucast (drop_bit 16 (le_word b0 b1 b2 b3)) :: u8) = b2"
  "(ucast (drop_bit 24 (le_word b0 b1 b2 b3)) :: u8) = b3"
  by (rule bit_word_eqI, simp add: bit_le_word bit_simps)+

lemma le_word_inject:
  "le_word b0 b1 b2 b3 = le_word c0 c1 c2 c3 \<longleftrightarrow> b0 = c0 \<and> b1 = c1 \<and> b2 = c2 \<and> b3 = c3"
  by (metis ucast_le_word)

lemma le_bytes_inject [simp]: "le_bytes v = le_bytes w \<longleftrightarrow> v = w"
  by (auto simp: le_bytes_def) (metis le_word_le_bytes)

section \<open>Lists\<close>

text \<open>A loop \<open>for (i = 0; i < n; i = i + 1) acc = step(acc, xs[i])\<close> reads a prefix.\<close>

lemma foldl_nth_take:
  "n \<le> length xs \<Longrightarrow> foldl (\<lambda>acc i. f acc (xs ! i)) acc [0..<n] = foldl f acc (take n xs)"
  by (induction n) (auto simp: take_Suc_conv_app_nth)

lemma map_nth_take: "n \<le> length xs \<Longrightarrow> map (\<lambda>i. xs ! i) [0..<n] = take n xs"
  by (induction n) (auto simp: take_Suc_conv_app_nth)

text \<open>Writing \<open>src[0..<n]\<close> into \<open>dst\<close> at offset \<open>off\<close>, one element at a time.\<close>

lemma length_fold_update [simp]:
  "length (fold (\<lambda>i xs. xs[g i := f i]) is dst) = length dst"
  by (induction "is" arbitrary: dst) auto

lemma nth_fold_update:
  "fold (\<lambda>i xs. xs[off + i := f i]) [0..<n] dst ! k =
     (if off \<le> k \<and> k < off + n \<and> k < length dst then f (k - off) else dst ! k)"
proof (induction n arbitrary: k)
  case (Suc n)
  then show ?case
    by (cases "off + n < length dst") (auto simp: nth_list_update less_Suc_eq list_update_beyond)
qed auto

lemma take_Suc_update: "n < length xs \<Longrightarrow> take (Suc n) (xs[n := x]) = take n xs @ [x]"
  by (simp add: take_Suc_conv_app_nth)

end
