(* ===== verification/Crc32.thy ===== *)
theory Crc32
  imports Prelude
begin

text \<open>
  The checksum of the slot-state record, \<open>crc32_bytes\<close> of \<open>boot/stage0/stage0_main.c\<close>:
  the reflected CRC-32 with polynomial \<open>0xEDB88320\<close>, computed bit by bit. The lemmas show
  that the shift register is linear and invertible, that the routine computes the CRC-32 of
  IEEE 802.3, specified on its own as division by the standard's polynomial, and that every
  error burst of at most four consecutive bytes changes the checksum.
\<close>

section \<open>The code\<close>

definition crc32_bit :: "u32 \<Rightarrow> u32" where
  "crc32_bit crc =
     (if any_bit crc 1 then drop_bit 1 crc XOR 0xEDB88320 else drop_bit 1 crc)"

definition crc32_byte :: "u32 \<Rightarrow> u8 \<Rightarrow> u32" where
  "crc32_byte crc b = (crc32_bit ^^ 8) (crc XOR ucast b)"

definition crc32_bytes :: "u8 list \<Rightarrow> u32 \<Rightarrow> u32" where
  "crc32_bytes data len =
     foldl (\<lambda>crc i. crc32_byte crc (data ! i)) 0xFFFFFFFF [0..<unat len] XOR 0xFFFFFFFF"

section \<open>The shift register\<close>

lemma any_bit_1: "any_bit (x :: 'a::len word) 1 \<longleftrightarrow> bit x 0"
  by (simp add: and_one_eq odd_iff_mod_2_eq_one bit_0)

abbreviation poly :: u32 where
  "poly \<equiv> 0xEDB88320"

lemma bit_poly_31: "bit poly 31"
  by simp

lemma crc32_bit_alt:
  "crc32_bit x = (if bit x 0 then drop_bit 1 x XOR poly else drop_bit 1 x)"
  by (simp add: crc32_bit_def any_bit_1)

lemma crc32_bit_xor: "crc32_bit (x XOR y) = crc32_bit x XOR crc32_bit y"
  by (rule bit_word_eqI) (auto simp: crc32_bit_alt bit_simps)

text \<open>Bit 31 of the result tells which branch was taken, so a step can be undone.\<close>

definition crc32_unbit :: "u32 \<Rightarrow> u32" where
  "crc32_unbit y = (if bit y 31 then push_bit 1 (y XOR poly) OR 1 else push_bit 1 y)"

lemma push_drop_1: "push_bit 1 (drop_bit 1 x) OR of_bool (bit x 0) = x" for x :: u32
proof (rule bit_word_eqI)
  fix n
  assume "n < LENGTH(32)"
  then show "bit (push_bit 1 (drop_bit 1 x) OR of_bool (bit x 0)) n = bit x n"
    by (cases n) (auto simp only: bit_or_iff bit_push_bit_iff bit_drop_bit_eq bit_of_bool_iff
        possible_bit_word, simp_all)
qed

lemma crc32_unbit_bit: "crc32_unbit (crc32_bit x) = x"
proof (cases "bit x 0")
  case True
  then have "bit (crc32_bit x) 31" and "crc32_bit x XOR poly = drop_bit 1 x"
    by (simp_all add: crc32_bit_alt bit_simps xor.assoc)
  then have "crc32_unbit (crc32_bit x) = push_bit 1 (drop_bit 1 x) OR of_bool (bit x 0)"
    using True by (simp only: crc32_unbit_def if_True of_bool_eq)
  then show ?thesis by (simp only: push_drop_1)
next
  case False
  then have "\<not> bit (crc32_bit x) 31" and "crc32_bit x = drop_bit 1 x"
    by (simp_all add: crc32_bit_alt bit_simps)
  then have "crc32_unbit (crc32_bit x) = push_bit 1 (drop_bit 1 x) OR of_bool (bit x 0)"
    using False by (simp only: crc32_unbit_def if_False of_bool_eq or.right_neutral)
  then show ?thesis by (simp only: push_drop_1)
qed

lemma inj_crc32_bit: "inj crc32_bit"
  by (rule inj_on_inverseI [of _ crc32_unbit]) (rule crc32_unbit_bit)

abbreviation crc32_shift8 :: "u32 \<Rightarrow> u32" where
  "crc32_shift8 \<equiv> crc32_bit ^^ 8"

lemma crc32_bit_funpow_xor:
  "(crc32_bit ^^ n) (x XOR y) = (crc32_bit ^^ n) x XOR (crc32_bit ^^ n) y"
  by (induction n) (simp_all add: crc32_bit_xor)

lemma inj_crc32_shift8: "crc32_shift8 x = crc32_shift8 y \<longleftrightarrow> x = y"
  using inj_fn [OF inj_crc32_bit, of 8] by (auto simp: inj_def)

text \<open>A word whose low \<open>n\<close> bits are zero is only shifted: no feedback is taken.\<close>

lemma crc32_bit_funpow_zeros:
  "(\<And>k. k < n \<Longrightarrow> \<not> bit x k) \<Longrightarrow> (crc32_bit ^^ n) x = drop_bit n x"
proof (induction n)
  case (Suc n)
  then have IH: "(crc32_bit ^^ n) x = drop_bit n x" by simp
  moreover have "\<not> bit (drop_bit n x) 0"
    using Suc.prems [of n] by (simp add: bit_simps)
  ultimately have "crc32_bit (drop_bit n x) = drop_bit (Suc n) x"
    by (simp add: crc32_bit_alt drop_bit_drop_bit)
  with IH show ?case by simp
qed simp

section \<open>The CRC of IEEE 802.3\<close>

text \<open>
  The specification: cyclic redundancy as division of polynomials over GF(2), with no shift
  register and no reflected constant. A polynomial is the list of its coefficients, the highest
  first. The generator is that of IEEE 802.3,
  \<open>x\<^sup>3\<^sup>2 + x\<^sup>2\<^sup>6 + x\<^sup>2\<^sup>3 + x\<^sup>2\<^sup>2 + x\<^sup>1\<^sup>6 + x\<^sup>1\<^sup>2 + x\<^sup>1\<^sup>1 + x\<^sup>1\<^sup>0 + x\<^sup>8 + x\<^sup>7 + x\<^sup>5 + x\<^sup>4 + x\<^sup>2 + x + 1\<close>,
  given by its exponents below 32. The message is its bytes in order, each with its low bit
  first; its first 32 coefficients are complemented, it is multiplied by \<open>x\<^sup>3\<^sup>2\<close>, and the
  remainder, complemented, is sent with the coefficient of \<open>x\<^sup>3\<^sup>1\<close> as bit 0.
\<close>

definition crc_generator :: "bool list" where
  "crc_generator =
     map (\<lambda>e. e \<in> set [26, 23, 22, 16, 12, 11, 10, 8, 7, 5, 4, 2, 1, 0 :: nat]) (rev [0..<32])"

fun add_front :: "bool list \<Rightarrow> bool list \<Rightarrow> bool list" where
  "add_front (x # xs) (y # ys) = (x \<noteq> y) # add_front xs ys"
| "add_front [] ys = ys"
| "add_front xs [] = []"

lemma length_add_front [simp]: "length (add_front xs ys) = length ys"
  by (induction xs ys rule: add_front.induct) simp_all

lemma nth_add_front:
  "i < length ys \<Longrightarrow> add_front xs ys ! i = (if i < length xs then xs ! i \<noteq> ys ! i else ys ! i)"
  by (induction xs ys arbitrary: i rule: add_front.induct) (auto simp: nth_Cons split: nat.splits)

text \<open>Long division: a leading coefficient 1 at \<open>x\<^sup>3\<^sup>2\<close> or above subtracts the generator below it.\<close>

function poly_mod :: "bool list \<Rightarrow> bool list" where
  "poly_mod [] = []"
| "poly_mod (b # bs) =
     (if length bs < 32 then b # bs
      else poly_mod (if b then add_front crc_generator bs else bs))"
  by pat_completeness auto
termination
  by (relation "measure length") simp_all

definition message_bits :: "u8 list \<Rightarrow> bool list" where
  "message_bits data = concat (map (\<lambda>b. map (bit b) [0..<8]) data)"

definition crc32_ieee :: "u8 list \<Rightarrow> u32" where
  "crc32_ieee data =
     NOT (horner_sum of_bool 2
       (poly_mod (add_front (replicate 32 True) (message_bits data @ replicate 32 False))))"

text \<open>The register of the code holds the leading 32 coefficients, that of \<open>x\<^sup>3\<^sup>1\<close> in bit 0.\<close>

abbreviation register :: "u32 \<Rightarrow> bool list" where
  "register s \<equiv> map (bit s) [0..<32]"

lemma crc_generator_poly: "crc_generator = register poly"
  by code_simp

definition crc32_feed :: "u32 \<Rightarrow> bool \<Rightarrow> u32" where
  "crc32_feed s b = crc32_bit (s XOR of_bool b)"

lemma register_step:
  assumes "32 \<le> length ys"
  shows "add_front (register (crc32_feed s b)) ys =
    (let zs = add_front (map (bit s) [1..<32]) ys
     in if bit s 0 \<noteq> b then add_front crc_generator zs else zs)"
proof (rule nth_equalityI)
  fix i
  assume "i < length (add_front (register (crc32_feed s b)) ys)"
  then show "add_front (register (crc32_feed s b)) ys ! i =
      (let zs = add_front (map (bit s) [1..<32]) ys
       in if bit s 0 \<noteq> b then add_front crc_generator zs else zs) ! i"
    by (auto simp: Let_def nth_add_front crc_generator_poly crc32_feed_def crc32_bit_alt bit_xor_iff
        bit_drop_bit_eq bit_of_bool_iff dest: bit_imp_le_length)
qed (simp add: Let_def)

lemma poly_mod_register:
  "poly_mod (add_front (register s) (bits @ replicate 32 False)) =
     register (foldl crc32_feed s bits)"
proof (induction bits arbitrary: s)
  case Nil
  have "add_front (register s) (replicate 32 False) = register s"
    by (rule nth_equalityI) (auto simp: nth_add_front)
  moreover have "poly_mod bs = bs" if "length bs = 32" for bs
    using that by (cases bs) simp_all
  ultimately show ?case by simp
next
  case (Cons b bits)
  let ?ys = "bits @ replicate 32 False"
  have "register s = bit s 0 # map (bit s) [1..<32]"
    by (simp add: upt_conv_Cons)
  then have "poly_mod (add_front (register s) (b # ?ys)) = poly_mod (add_front (register (crc32_feed s b)) ?ys)"
    by (simp add: register_step Let_def)
  with Cons show ?case by simp
qed

lemma crc32_feed_bits:
  "foldl crc32_feed s (map (bit w) [0..<n]) = (crc32_bit ^^ n) (s XOR take_bit n w)" for w :: u32
proof (induction n)
  case (Suc n)
  have "take_bit (Suc n) w = take_bit n w XOR push_bit n (of_bool (bit w n))"
    by (rule bit_word_eqI) (auto simp: bit_simps less_Suc_eq)
  moreover have "(crc32_bit ^^ n) (push_bit n (of_bool (bit w n))) = of_bool (bit w n)" if "n < 32"
    using that by (subst crc32_bit_funpow_zeros) (auto simp: bit_simps intro!: bit_word_eqI)
  moreover have "push_bit n (of_bool (bit w n)) = 0 \<and> \<not> bit w n" if "\<not> n < 32"
    using that by (auto intro!: bit_word_eqI simp: bit_simps dest: bit_imp_le_length)
  ultimately show ?case
    using Suc by (cases "n < 32") (simp_all add: crc32_feed_def crc32_bit_funpow_xor xor.assoc)
qed simp

lemma crc32_feed_byte: "foldl crc32_feed s (map (bit b) [0..<8]) = crc32_byte s b"
proof -
  have "map (bit b) [0..<8] = map (bit (ucast b :: u32)) [0..<8]"
    by (auto simp: bit_simps)
  moreover have "take_bit 8 (ucast b :: u32) = ucast b"
    by (rule bit_word_eqI) (auto simp: bit_simps dest: bit_imp_le_length)
  ultimately show ?thesis
    by (simp only: crc32_feed_bits crc32_byte_def)
qed

lemma crc32_ieee_foldl: "crc32_ieee data = foldl crc32_byte 0xFFFFFFFF data XOR 0xFFFFFFFF"
proof -
  have ones: "(0xFFFFFFFF :: u32) = - 1" by simp
  have "foldl crc32_feed s (message_bits data) = foldl crc32_byte s data" for s
    by (induction data arbitrary: s) (simp_all add: message_bits_def crc32_feed_byte del: upt_rec_numeral)
  moreover have "replicate 32 True = register (- 1)"
    by (rule nth_equalityI) simp_all
  moreover have "horner_sum of_bool 2 (register s) = s" for s
    by (simp add: horner_sum_bit_eq_take_bit take_bit_word_eq_self del: upt_rec_numeral)
  ultimately show ?thesis
    by (simp only: crc32_ieee_def poly_mod_register ones xor_minus_1)
qed

section \<open>Error bursts\<close>

fun le_of :: "u8 list \<Rightarrow> u32" where
  "le_of [] = 0"
| "le_of (b # bs) = ucast b XOR push_bit 8 (le_of bs)"

lemma bit_le_of_high: "8 * length bs \<le> n \<Longrightarrow> \<not> bit (le_of bs) n"
  by (induction bs arbitrary: n) (auto simp: bit_simps)

lemma drop_push_le_of:
  assumes "length bs < 4"
  shows "drop_bit 8 (push_bit 8 (le_of bs)) = le_of bs"
proof -
  have "n < 24" if "bit (le_of bs) n" for n
    using bit_le_of_high [of bs n] that assms by linarith
  then show ?thesis
    by (intro bit_word_eqI) (auto simp: bit_simps)
qed

lemma le_of_Cons_parts:
  "(ucast (le_of (b # bs)) :: u8) = b"
  "length bs < 4 \<Longrightarrow> drop_bit 8 (le_of (b # bs)) = le_of bs"
proof -
  show "(ucast (le_of (b # bs)) :: u8) = b"
    by (rule bit_word_eqI) (auto simp: bit_simps)
  assume "length bs < 4"
  moreover have "drop_bit 8 (ucast b :: u32) = 0"
    by (rule bit_word_eqI) (auto simp: bit_simps)
  ultimately show "drop_bit 8 (le_of (b # bs)) = le_of bs"
    by (simp add: drop_push_le_of)
qed

lemma le_of_inject:
  "length xs = length ys \<Longrightarrow> length xs \<le> 4 \<Longrightarrow> le_of xs = le_of ys \<Longrightarrow> xs = ys"
proof (induction xs ys rule: list_induct2)
  case (Cons x xs y ys)
  then have "x = y" and "le_of xs = le_of ys"
    by (metis le_of_Cons_parts(1), metis le_of_Cons_parts(2) Suc_le_lessD length_Cons)
  with Cons show ?case by simp
qed simp

text \<open>Up to four bytes enter the register as one word, followed by the shifts of all of them.\<close>

lemma foldl_crc32_byte_short:
  "length bs \<le> 4 \<Longrightarrow>
     foldl crc32_byte s bs = (crc32_bit ^^ (8 * length bs)) (s XOR le_of bs)"
proof (induction bs arbitrary: s)
  case (Cons b bs)
  have "crc32_shift8 (push_bit 8 (le_of bs)) = le_of bs"
    using Cons.prems drop_push_le_of [of bs]
    by (subst crc32_bit_funpow_zeros) (auto simp: bit_simps)
  then have "crc32_byte s b XOR le_of bs = crc32_shift8 (s XOR le_of (b # bs))"
    by (simp only: crc32_byte_def crc32_bit_funpow_xor le_of.simps xor.assoc)
  with Cons show ?case
    by (simp add: funpow_add add.commute [of 8] del: le_of.simps)
qed simp

lemma foldl_crc32_byte_inj: "foldl crc32_byte s bs = foldl crc32_byte t bs \<longleftrightarrow> s = t"
  by (induction bs arbitrary: s t) (auto simp: crc32_byte_def inj_crc32_shift8)

lemma foldl_crc32_byte_burst:
  assumes "length xs = length ys" and "length xs \<le> 4" and "xs \<noteq> ys"
  shows "foldl crc32_byte s (pre @ xs @ post) \<noteq> foldl crc32_byte s (pre @ ys @ post)"
proof
  let ?t = "foldl crc32_byte s pre"
  assume "foldl crc32_byte s (pre @ xs @ post) = foldl crc32_byte s (pre @ ys @ post)"
  then have "foldl crc32_byte ?t xs = foldl crc32_byte ?t ys"
    by (simp add: foldl_crc32_byte_inj)
  then have "(crc32_bit ^^ (8 * length ys)) (?t XOR le_of xs) =
      (crc32_bit ^^ (8 * length ys)) (?t XOR le_of ys)"
    using assms(1,2) by (simp only: foldl_crc32_byte_short)
  then have "?t XOR le_of xs = ?t XOR le_of ys"
    by (rule injD [OF inj_fn [OF inj_crc32_bit]])
  then have "le_of xs = le_of ys" by simp
  with assms show False
    using le_of_inject by blast
qed

lemma crc32_bytes_foldl:
  "unat len \<le> length data \<Longrightarrow>
     crc32_bytes data len = foldl crc32_byte 0xFFFFFFFF (take (unat len) data) XOR 0xFFFFFFFF"
  by (simp add: crc32_bytes_def foldl_nth_take)

section \<open>Properties\<close>

text \<open>
  C30. The bit-by-bit \<open>crc32_bytes\<close> of the loader computes the CRC-32 of IEEE 802.3 (the one of
  zlib and Ethernet), for every buffer and length: the remainder of the message under division by
  the standard's generator polynomial, with the standard's complements and bit order. The
  specification shares no constant and no routine with the code.
\<close>

theorem crc32_bytes_is_ieee:
  assumes "unat len \<le> length data"
  shows "crc32_bytes data len = crc32_ieee (take (unat len) data)"
  using crc32_bytes_foldl [OF assms] by (simp only: crc32_ieee_foldl)

text \<open>The standard's check value: the checksum of the digits 1 to 9 in ASCII.\<close>

theorem crc32_bytes_is_ieee_witness:
  "crc32_bytes [0x31, 0x32, 0x33, 0x34, 0x35, 0x36, 0x37, 0x38, 0x39, 0xFF] 9
     = crc32_ieee [0x31, 0x32, 0x33, 0x34, 0x35, 0x36, 0x37, 0x38, 0x39]
   \<and> crc32_ieee [0x31, 0x32, 0x33, 0x34, 0x35, 0x36, 0x37, 0x38, 0x39] = 0xCBF43926"
proof
  let ?digits = "[0x31, 0x32, 0x33, 0x34, 0x35, 0x36, 0x37, 0x38, 0x39 :: u8]"
  show "crc32_bytes [0x31, 0x32, 0x33, 0x34, 0x35, 0x36, 0x37, 0x38, 0x39, 0xFF] 9 = crc32_ieee ?digits"
    using crc32_bytes_is_ieee [of 9 "?digits @ [0xFF]"] by simp
  show "crc32_ieee ?digits = 0xCBF43926"
    by code_simp
qed

end
