(* ===== verification/Interfaces.thy ===== *)
theory Interfaces
  imports Prelude
begin

text \<open>
  The contracts between the components, as locales. \<open>stream_hash\<close> is what the loader relies on
  when it feeds a payload to a hash in pieces; \<open>record_codec\<close> is a record format with a
  reader that refuses what is not a record; \<open>versioned_store\<close> extends it with a generation
  number: two copies of a record, the newer valid one is used and the other one is overwritten,
  so that a write that is cut off never loses the last committed record. \<open>console\<close> is a
  character device, \<open>live_console\<close> one that always takes the next character. The providers
  interpret them on their own definitions.
\<close>

section \<open>A hash fed in pieces\<close>

locale stream_hash =
  fixes init :: "'c \<Rightarrow> 'c"
    and upd :: "'c \<Rightarrow> u8 list \<Rightarrow> u32 \<Rightarrow> 'c"
    and fin :: "'c \<Rightarrow> ('c \<times> u8 list) option"
    and fresh :: "'c \<Rightarrow> bool"
    and absorbed :: "'c \<Rightarrow> u8 list \<Rightarrow> bool"
    and hash :: "u8 list \<Rightarrow> u8 list"
  assumes init_absorbed: "fresh c \<Longrightarrow> absorbed (init c) []"
    and upd_absorbed: "absorbed c msg \<Longrightarrow> length data = unat len \<Longrightarrow> absorbed (upd c data len) (msg @ data)"
    and fin_hash: "absorbed c msg \<Longrightarrow> \<exists>c'. fin c = Some (c', hash msg)"
begin

definition feed :: "'c \<Rightarrow> u8 list list \<Rightarrow> 'c" where
  "feed c chunks = foldl (\<lambda>c d. upd c d (of_nat (length d))) c chunks"

lemma feed_absorbed:
  "absorbed c msg \<Longrightarrow> \<forall>d \<in> set chunks. length d < 2 ^ 32 \<Longrightarrow> absorbed (feed c chunks) (msg @ concat chunks)"
proof (induction chunks arbitrary: c msg)
  case (Cons d chunks)
  then have "absorbed (upd c d (of_nat (length d))) (msg @ d)"
    by (intro upd_absorbed) (simp_all add: unat_of_nat)
  from Cons.IH [OF this] Cons.prems(2) show ?case by (simp add: feed_def)
qed (simp add: feed_def)

text \<open>The digest does not depend on how the message was cut.\<close>

lemma feed_hash:
  assumes "fresh c" and "\<forall>d \<in> set chunks. length d < 2 ^ 32"
  shows "\<exists>c'. fin (feed (init c) chunks) = Some (c', hash (concat chunks))"
  using fin_hash [OF feed_absorbed [OF init_absorbed [OF assms(1)] assms(2)]] by simp

end

section \<open>A character device\<close>

text \<open>
  \<open>putc\<close> is all that the printing code needs: \<open>out\<close> is what has come out so far. The printing
  routines that use it stand here because they are the same code for every board.
\<close>

fun puts_with :: "(char \<Rightarrow> 'm \<Rightarrow> 'm option) \<Rightarrow> string \<Rightarrow> 'm \<Rightarrow> 'm option" where
  "puts_with putc [] m = Some m"
| "puts_with putc (c # s) m = do { m \<leftarrow> putc c m; puts_with putc s m }"

locale console =
  fixes putc :: "char \<Rightarrow> 'm \<Rightarrow> 'm option"
    and out :: "'m \<Rightarrow> u32 list"
  assumes putc_out: "putc c m = Some m' \<Longrightarrow> out m' = out m @ [of_char c]"
begin

lemma puts_out: "puts_with putc s m = Some m' \<Longrightarrow> out m' = out m @ map of_char s"
  by (induction s arbitrary: m) (auto simp: putc_out split: Option.bind_splits)

end

locale live_console = console putc out for putc :: "char \<Rightarrow> 'm \<Rightarrow> 'm option" and out +
  fixes live :: bool
  assumes putc_live: "live \<Longrightarrow> \<exists>m'. putc c m = Some m'"
begin

lemma puts_live: "live \<Longrightarrow> \<exists>m'. puts_with putc s m = Some m'"
proof (induction s arbitrary: m)
  case (Cons c s)
  obtain m1 where "putc c m = Some m1" using putc_live [OF Cons.prems] by blast
  with Cons show ?case by simp
qed simp

end

section \<open>An allocator that never frees\<close>

text \<open>
  \<open>alloc r m\<close> is the offset a request \<open>r\<close> was given and the state after it, or \<open>None\<close> when the
  allocator did not come back. The provider promises that each answer lies between the old and
  the new high-water mark.
\<close>

locale bump_allocator =
  fixes alloc :: "'r \<Rightarrow> 'm \<Rightarrow> (nat \<times> 'm) option"
    and size :: "'r \<Rightarrow> nat"
    and used :: "'m \<Rightarrow> nat"
    and capacity :: nat
    and req_ok :: "'r \<Rightarrow> bool"
    and inv :: "'m \<Rightarrow> bool"
  assumes alloc_inv: "inv m \<Longrightarrow> req_ok r \<Longrightarrow> alloc r m = Some (off, m') \<Longrightarrow> inv m'"
    and alloc_above: "inv m \<Longrightarrow> req_ok r \<Longrightarrow> alloc r m = Some (off, m') \<Longrightarrow> used m \<le> off"
    and alloc_below: "inv m \<Longrightarrow> req_ok r \<Longrightarrow> alloc r m = Some (off, m') \<Longrightarrow> off + size r \<le> used m'"
    and used_le: "inv m \<Longrightarrow> used m \<le> capacity"
begin

fun run :: "'r list \<Rightarrow> 'm \<Rightarrow> (nat list \<times> 'm) option" where
  "run [] m = Some ([], m)"
| "run (r # rs) m = do {
     (off, m) \<leftarrow> alloc r m;
     (offs, m) \<leftarrow> run rs m;
     Some (off # offs, m) }"

lemma run_bounds:
  "inv m \<Longrightarrow> \<forall>r \<in> set rs. req_ok r \<Longrightarrow> run rs m = Some (offs, m') \<Longrightarrow>
     inv m' \<and> length offs = length rs \<and> used m \<le> used m'
     \<and> (\<forall>i < length rs. used m \<le> offs ! i \<and> offs ! i + size (rs ! i) \<le> used m')"
proof (induction rs arbitrary: m offs)
  case (Cons r rs)
  then obtain off m1 offs1 where a: "alloc r m = Some (off, m1)" "run rs m1 = Some (offs1, m')"
      "offs = off # offs1"
    by (auto split: Option.bind_splits)
  have one: "inv m1" "used m \<le> off" "off + size r \<le> used m1"
    using Cons.prems a(1) alloc_inv alloc_above alloc_below by auto
  have rest: "inv m' \<and> length offs1 = length rs \<and> used m1 \<le> used m'
     \<and> (\<forall>i < length rs. used m1 \<le> offs1 ! i \<and> offs1 ! i + size (rs ! i) \<le> used m')"
    using Cons.IH [OF one(1) _ a(2)] Cons.prems(2) by simp
  show ?case
  proof (intro conjI allI impI)
    fix i assume "i < length (r # rs)"
    then show "used m \<le> offs ! i" and "offs ! i + size ((r # rs) ! i) \<le> used m'"
      using one rest a(3) by (cases i; force)+
  qed (use rest one a(3) in auto)
qed simp

text \<open>No two regions of a sequence of allocations overlap, and all lie inside the capacity.\<close>

lemma run_disjoint:
  assumes "inv m" and "\<forall>r \<in> set rs. req_ok r" and "run rs m = Some (offs, m')"
    and "i < j" and "j < length rs"
  shows "offs ! i + size (rs ! i) \<le> offs ! j" and "offs ! j + size (rs ! j) \<le> capacity"
proof -
  show "offs ! j + size (rs ! j) \<le> capacity"
    using run_bounds [OF assms(1-3)] assms(5) used_le [of m'] by fastforce
  show "offs ! i + size (rs ! i) \<le> offs ! j"
    using assms
  proof (induction rs arbitrary: m offs i j)
    case (Cons r rs)
    then obtain off m1 offs1 where a: "alloc r m = Some (off, m1)" "run rs m1 = Some (offs1, m')"
        "offs = off # offs1"
      by (auto split: Option.bind_splits)
    have one: "inv m1" "off + size r \<le> used m1"
      using Cons.prems a(1) alloc_inv alloc_below by auto
    obtain j' where j: "j = Suc j'" using Cons.prems(4) by (cases j) auto
    show ?case
    proof (cases i)
      case 0
      with run_bounds [OF one(1) _ a(2)] Cons.prems one(2) j a(3) show ?thesis by fastforce
    next
      case (Suc i')
      with Cons.IH [OF one(1) _ a(2), of i' j'] Cons.prems j a(3) show ?thesis by simp
    qed
  qed simp
qed

end

section \<open>Two copies of a record\<close>

text \<open>
  The newer of two copies, and whether the stale one is the second. With equal generations
  the first copy is used.
\<close>

fun pick :: "('r \<Rightarrow> u32) \<Rightarrow> 'r option \<Rightarrow> 'r option \<Rightarrow> ('r \<times> bool) option" where
  "pick gen (Some a) (Some b) = Some (if gen a \<ge> gen b then (a, True) else (b, False))"
| "pick gen (Some a) None = Some (a, True)"
| "pick gen None (Some b) = Some (b, False)"
| "pick gen None None = None"

text \<open>Writing a block over the stale copy.\<close>

definition overwrite :: "bool \<Rightarrow> 'b \<Rightarrow> 'b \<times> 'b \<Rightarrow> 'b \<times> 'b" where
  "overwrite stale_b x p = (if stale_b then (fst p, x) else (x, snd p))"

locale record_codec =
  fixes enc :: "'r \<Rightarrow> u8 list \<Rightarrow> u8 list"
    and dec :: "u8 list \<Rightarrow> 'r option"
    and wf :: "'r \<Rightarrow> bool"
    and room :: "u8 list \<Rightarrow> bool"
  assumes dec_enc: "wf r \<Longrightarrow> room out \<Longrightarrow> dec (enc r out) = Some r"
    and room_enc: "wf r \<Longrightarrow> room out \<Longrightarrow> room (enc r out)"
    and dec_wf: "dec x = Some r \<Longrightarrow> wf r"
begin

lemma enc_inject:
  assumes "wf r" "wf s" "room out" "enc r out = enc s out"
  shows "r = s"
proof -
  have "Some r = dec (enc s out)" using dec_enc [OF assms(1,3)] assms(4) by simp
  also have "\<dots> = Some s" by (rule dec_enc [OF assms(2,3)])
  finally show ?thesis by simp
qed

end

text \<open>
  \<open>step\<close> relates a record to its possible updates, each with the next generation number.
\<close>

locale versioned_store = record_codec enc dec wf room
  for enc :: "'r \<Rightarrow> u8 list \<Rightarrow> u8 list" and dec :: "u8 list \<Rightarrow> 'r option" and wf and room +
  fixes gen :: "'r \<Rightarrow> u32"
    and step :: "'r \<Rightarrow> 'r \<Rightarrow> bool"
  assumes step_wf: "step r r' \<Longrightarrow> wf r \<Longrightarrow> wf r'"
    and step_gen: "step r r' \<Longrightarrow> gen r' = gen r + 1"
begin

definition current :: "u8 list \<times> u8 list \<Rightarrow> ('r \<times> bool) option" where
  "current p = pick gen (dec (fst p)) (dec (snd p))"

text \<open>One round of the protocol; a torn write leaves anything unreadable in the stale copy.\<close>

inductive round :: "u8 list \<times> u8 list \<Rightarrow> bool \<Rightarrow> u8 list \<times> u8 list \<Rightarrow> bool" where
  committed: "current p = Some (r, sb) \<Longrightarrow> room out \<Longrightarrow> step r r' \<Longrightarrow>
     round p True (overwrite sb (enc r' out) p)"
| torn: "current p = Some (r, sb) \<Longrightarrow> dec x = None \<Longrightarrow> round p False (overwrite sb x p)"

lemma current_wf: "current p = Some (r, sb) \<Longrightarrow> wf r"
  by (cases "dec (fst p)"; cases "dec (snd p)")
    (auto simp: current_def dec_wf split: if_splits)

lemma current_kept: "current p = Some (r, sb) \<Longrightarrow> dec (if sb then fst p else snd p) = Some r"
  by (cases "dec (fst p)"; cases "dec (snd p)") (auto simp: current_def split: if_splits)

lemma torn_keeps:
  assumes "current p = Some (r, sb)" and "dec x = None"
  shows "current (overwrite sb x p) = Some (r, sb)"
  using current_kept [OF assms(1)] assms(2) by (cases sb) (simp_all add: current_def overwrite_def)

lemma gen_succ: "step r r' \<Longrightarrow> gen r \<noteq> - 1 \<Longrightarrow> gen r < gen r'"
  by (simp add: step_gen unat_less_max [THEN unat_add_one] word_less_nat_alt)

lemma committed_seen:
  assumes "current p = Some (r, sb)" and "room out" and "step r r'" and "gen r \<noteq> - 1"
  shows "current (overwrite sb (enc r' out) p) = Some (r', \<not> sb)"
proof -
  have "dec (enc r' out) = Some r'"
    using assms current_wf by (blast intro: dec_enc step_wf)
  then show ?thesis
    using current_kept [OF assms(1)] gen_succ [OF assms(3,4)]
    by (cases sb) (auto simp: current_def overwrite_def)
qed

text \<open>
  After any sequence of rounds the record in use is reached from the start record by exactly
  one step per committed round, whatever the torn ones left behind, as long as the generation
  has not reached its last value.
\<close>

inductive rounds :: "u8 list \<times> u8 list \<Rightarrow> nat \<Rightarrow> u8 list \<times> u8 list \<Rightarrow> bool" where
  none: "rounds p 0 p"
| more: "rounds p n q \<Longrightarrow> round q ok q' \<Longrightarrow> rounds p (if ok then Suc n else n) q'"

lemma gen_steps: "(step ^^ n) r r' \<Longrightarrow> gen r' = gen r + of_nat n"
  by (induction n arbitrary: r') (auto simp: step_gen)

lemma rounds_current:
  assumes "rounds p n q" and "current p = Some (r, sb)" and "unat (gen r) + n < 2 ^ 32"
  shows "\<exists>r' sb'. current q = Some (r', sb') \<and> (step ^^ n) r r'"
  using assms
proof (induction rule: rounds.induct)
  case (more p n q ok q')
  have le: "unat (gen r) + n < 2 ^ 32"
    using more.prems(2) by (auto split: if_splits)
  with more obtain r1 sb' where cur: "current q = Some (r1, sb')" "(step ^^ n) r r1" by blast
  from more.hyps(2) show ?case
  proof (cases rule: round.cases)
    case (committed r' sb'' out r'')
    then have "unat (gen r) + Suc n < 2 ^ 32"
      using more.prems(2) by simp
    then have "unat (gen r1) \<noteq> unat (- 1 :: u32)"
      by (simp add: gen_steps [OF cur(2)] unat_word_ariths unat_of_nat unat_max)
    then have "gen r1 \<noteq> - 1" by metis
    then show ?thesis
      using committed_seen [of q r1 sb' out r''] committed cur by auto
  next
    case (torn r' sb'' x)
    then show ?thesis using torn_keeps [of q] cur by auto
  qed
qed auto

end

end
