(* ===== verification/Slot_State.thy ===== *)
theory Slot_State
  imports Crc32 Interfaces
begin

text \<open>
  The slot-state record of \<open>boot/stage0/stage0_main.c\<close> and its 512-byte on-disk form:
  \<open>struct slot_state\<close>, the little-endian accessors, \<open>parse_slot_state\<close> and
  \<open>build_slot_state\<close>. A buffer is the list of its bytes. The lemmas give the byte layout of a
  built block, the round trip through the parser, and the rejection of damaged blocks.
\<close>

section \<open>The code\<close>

definition read_u32_le :: "u8 list \<Rightarrow> nat \<Rightarrow> u32" where
  "read_u32_le buf off =
     ((ucast (buf ! off) OR push_bit 8 (ucast (buf ! (off + 1))))
      OR push_bit 16 (ucast (buf ! (off + 2)))) OR push_bit 24 (ucast (buf ! (off + 3)))"

definition write_u32_le :: "u8 list \<Rightarrow> nat \<Rightarrow> u32 \<Rightarrow> u8 list" where
  "write_u32_le buf off v =
     buf[off := ucast v, off + 1 := ucast (drop_bit 8 v),
         off + 2 := ucast (drop_bit 16 v), off + 3 := ucast (drop_bit 24 v)]"

definition REASON_POWER_ON :: u8 where "REASON_POWER_ON = 0"
definition REASON_CLEAN_REBOOT :: u8 where "REASON_CLEAN_REBOOT = 1"
definition REASON_WATCHDOG_OR_HANG :: u8 where "REASON_WATCHDOG_OR_HANG = 2"
definition REASON_AUTO_FALLBACK :: u8 where "REASON_AUTO_FALLBACK = 3"

record slot_state =
  generation :: u32
  active_slot :: u8
  preferred_slot :: u8
  last_reset_reason :: u8
  attempt_count :: u32
  bootlimit :: u32
  slot_a_ready :: u8
  slot_b_ready :: u8
  slot_a_len :: u32
  slot_b_len :: u32
  slot_a_sha256 :: "u8 list"
  slot_b_sha256 :: "u8 list"

definition SLOT_MAGIC :: u32 where "SLOT_MAGIC = 0x44485342"

definition parse_slot_state :: "u8 list \<Rightarrow> slot_state option" where
  "parse_slot_state raw =
     (let magic = read_u32_le raw 0; crc_stored = read_u32_le raw 96 in
      if magic \<noteq> SLOT_MAGIC then None
      else if crc32_bytes raw 96 \<noteq> crc_stored then None
      else Some
        \<lparr> generation = read_u32_le raw 4,
          active_slot = raw ! 8,
          preferred_slot = raw ! 9,
          last_reset_reason = raw ! 10,
          attempt_count = read_u32_le raw 12,
          bootlimit = read_u32_le raw 16,
          slot_a_ready = raw ! 20,
          slot_b_ready = raw ! 21,
          slot_a_len = read_u32_le raw 24,
          slot_b_len = read_u32_le raw 28,
          slot_a_sha256 = map (\<lambda>i. raw ! (32 + i)) [0..<32],
          slot_b_sha256 = map (\<lambda>i. raw ! (64 + i)) [0..<32] \<rparr>)"

definition BLOCK_SIZE :: nat where "BLOCK_SIZE = 512"

text \<open>The body of the record, up to the checksum, as \<open>build_slot_state\<close> writes it.\<close>

definition build_slot_body :: "slot_state \<Rightarrow> u8 list \<Rightarrow> u8 list" where
  "build_slot_body s out =
     (let out = fold (\<lambda>i out. out[i := 0]) [0..<BLOCK_SIZE] out;
          out = write_u32_le out 0 SLOT_MAGIC;
          out = write_u32_le out 4 (generation s);
          out = out[8 := active_slot s];
          out = out[9 := preferred_slot s];
          out = out[10 := last_reset_reason s];
          out = write_u32_le out 12 (attempt_count s);
          out = write_u32_le out 16 (bootlimit s);
          out = out[20 := slot_a_ready s];
          out = out[21 := slot_b_ready s];
          out = write_u32_le out 24 (slot_a_len s);
          out = write_u32_le out 28 (slot_b_len s)
      in fold (\<lambda>i out. out[32 + i := slot_a_sha256 s ! i, 64 + i := slot_b_sha256 s ! i])
           [0..<32] out)"

definition build_slot_state :: "slot_state \<Rightarrow> u8 list \<Rightarrow> u8 list" where
  "build_slot_state s out =
     (let out = build_slot_body s out; crc = crc32_bytes out 96 in write_u32_le out 96 crc)"

section \<open>The byte layout\<close>

text \<open>
  The wire format, as \<open>test/kernel_slot_layout.py\<close> documents it: 96 bytes of fields, with the
  reserved bytes zero, then the checksum of those 96 bytes, then zeros up to the block size.
\<close>

definition slot_fields :: "slot_state \<Rightarrow> u8 list" where
  "slot_fields s =
     le_bytes 0x44485342 @ le_bytes (generation s)
     @ [active_slot s, preferred_slot s, last_reset_reason s, 0]
     @ le_bytes (attempt_count s) @ le_bytes (bootlimit s)
     @ [slot_a_ready s, slot_b_ready s, 0, 0]
     @ le_bytes (slot_a_len s) @ le_bytes (slot_b_len s)
     @ slot_a_sha256 s @ slot_b_sha256 s"

definition slot_wire :: "slot_state \<Rightarrow> u8 list" where
  "slot_wire s =
     slot_fields s @ le_bytes (crc32_ieee (slot_fields s)) @ replicate 412 0"

text \<open>The digests of a record are 32-byte arrays.\<close>

definition slot_ok :: "slot_state \<Rightarrow> bool" where
  "slot_ok s \<longleftrightarrow> length (slot_a_sha256 s) = 32 \<and> length (slot_b_sha256 s) = 32"

lemma length_slot_fields: "slot_ok s \<Longrightarrow> length (slot_fields s) = 96"
  by (simp add: slot_fields_def slot_ok_def)

lemma fold_zero: "fold (\<lambda>i xs. xs[i := v]) [0..<n] dst = replicate (min n (length dst)) v @ drop n dst"
proof (rule nth_equalityI)
  show "length (fold (\<lambda>i xs. xs[i := v]) [0..<n] dst)
      = length (replicate (min n (length dst)) v @ drop n dst)"
    by simp
next
  fix k
  assume "k < length (fold (\<lambda>i xs. xs[i := v]) [0..<n] dst)"
  then show "fold (\<lambda>i xs. xs[i := v]) [0..<n] dst ! k
      = (replicate (min n (length dst)) v @ drop n dst) ! k"
    using nth_fold_update [of 0 "\<lambda>_. v" n dst k] by (auto simp: nth_append)
qed

text \<open>The two digest loops of \<open>build_slot_state\<close> run as one; they write disjoint ranges.\<close>

lemma fold_two_copies:
  "n \<le> 32 \<Longrightarrow>
   fold (\<lambda>i out. out[32 + i := f i, 64 + i := g i]) [0..<n] dst =
   fold (\<lambda>i out. out[64 + i := g i]) [0..<n] (fold (\<lambda>i out. out[32 + i := f i]) [0..<n] dst)"
proof (induction n)
  case (Suc n)
  have "(fold (\<lambda>i out. out[64 + i := g i]) [0..<m] xs)[32 + n := v] =
      fold (\<lambda>i out. out[64 + i := g i]) [0..<m] (xs[32 + n := v])" if "m \<le> n" for m xs v
    using that Suc.prems by (induction m) (auto simp: list_update_swap)
  with Suc show ?case by simp
qed simp

text \<open>A copy loop over a middle segment of an appended list.\<close>

lemma fold_copy_segment:
  assumes "off = length pre" and "length mid = n" and "length xs = n"
  shows "fold (\<lambda>i out. out[off + i := xs ! i]) [0..<n] (pre @ mid @ post) = pre @ xs @ post"
  using assms
  by (intro nth_equalityI) (auto simp: nth_fold_update nth_append)

definition slot_header :: "slot_state \<Rightarrow> u8 list" where
  "slot_header s =
     le_bytes 0x44485342 @ le_bytes (generation s)
     @ [active_slot s, preferred_slot s, last_reset_reason s, 0]
     @ le_bytes (attempt_count s) @ le_bytes (bootlimit s)
     @ [slot_a_ready s, slot_b_ready s, 0, 0]
     @ le_bytes (slot_a_len s) @ le_bytes (slot_b_len s)"

lemma length_slot_header [simp]: "length (slot_header s) = 32"
  by (simp add: slot_header_def)

lemma slot_fields_header: "slot_fields s = slot_header s @ slot_a_sha256 s @ slot_b_sha256 s"
  by (simp add: slot_fields_def slot_header_def)

lemma write_u32_le_append:
  "off + 3 < length xs \<Longrightarrow> write_u32_le (xs @ ys) off v = write_u32_le xs off v @ ys"
  by (simp add: write_u32_le_def list_update_append1)

lemma length_write_u32_le [simp]: "length (write_u32_le xs off v) = length xs"
  by (simp add: write_u32_le_def)

lemma write_u32_le_middle:
  "off = length pre \<Longrightarrow>
     write_u32_le (pre @ [b0, b1, b2, b3] @ post) off v = pre @ le_bytes v @ post"
  by (simp add: write_u32_le_def le_bytes_def list_update_append numeral_2_eq_2 numeral_3_eq_3)

lemma list_update_numeral: "(x # xs)[numeral k := y] = x # xs[pred_numeral k := y]"
  by (simp add: numeral_eq_Suc)

lemma replicate_numeral_unfold: "replicate (numeral k) x = x # replicate (pred_numeral k) x"
  by (simp add: numeral_eq_Suc)

lemma header_writes:
  "write_u32_le (write_u32_le ((write_u32_le (write_u32_le
     ((write_u32_le (write_u32_le (replicate 32 0) 0 SLOT_MAGIC) 4 (generation s))
       [8 := active_slot s, 9 := preferred_slot s, 10 := last_reset_reason s])
     12 (attempt_count s)) 16 (bootlimit s))
       [20 := slot_a_ready s, 21 := slot_b_ready s])
     24 (slot_a_len s)) 28 (slot_b_len s) = slot_header s"
  by (simp add: write_u32_le_def slot_header_def le_bytes_def SLOT_MAGIC_def
      list_update_numeral replicate_numeral_unfold)

lemma build_slot_body_layout:
  assumes "slot_ok s" and "length out = 512"
  shows "build_slot_body s out = slot_fields s @ replicate 416 0"
proof -
  let ?rest = "replicate 32 0 @ replicate 32 0 @ replicate 416 (0 :: u8)"
  have zeros: "fold (\<lambda>i out. out[i := 0]) [0..<BLOCK_SIZE] out = replicate 32 0 @ ?rest"
    using assms(2) by (simp add: fold_zero BLOCK_SIZE_def flip: replicate_add)
  have hdr: "write_u32_le (write_u32_le ((write_u32_le (write_u32_le
     ((write_u32_le (write_u32_le (replicate 32 0 @ ?rest) 0 SLOT_MAGIC) 4 (generation s))
       [8 := active_slot s, 9 := preferred_slot s, 10 := last_reset_reason s])
     12 (attempt_count s)) 16 (bootlimit s))
       [20 := slot_a_ready s, 21 := slot_b_ready s])
     24 (slot_a_len s)) 28 (slot_b_len s) = slot_header s @ ?rest"
    by (simp only: write_u32_le_append list_update_append1 length_replicate length_write_u32_le
        length_list_update flip: header_writes)
  have "fold (\<lambda>i out. out[64 + i := slot_b_sha256 s ! i]) [0..<32]
      (fold (\<lambda>i out. out[32 + i := slot_a_sha256 s ! i]) [0..<32] (slot_header s @ ?rest))
    = slot_fields s @ replicate 416 0"
    using assms(1) fold_copy_segment [of 32 "slot_header s" "replicate 32 0" 32 "slot_a_sha256 s"
        "replicate 32 0 @ replicate 416 0"]
      fold_copy_segment [of 64 "slot_header s @ slot_a_sha256 s" "replicate 32 0" 32
        "slot_b_sha256 s" "replicate 416 0"]
    by (simp add: slot_ok_def slot_fields_header)
  then show ?thesis
    by (simp only: build_slot_body_def Let_def zeros hdr fold_two_copies order_refl)
qed

lemma crc32_bytes_prefix:
  "unat len = n \<Longrightarrow> n = length xs \<Longrightarrow> crc32_bytes (xs @ ys) len = crc32_ieee xs"
  by (simp add: crc32_bytes_foldl crc32_ieee_foldl)

lemma build_slot_state_layout:
  assumes "slot_ok s" and "length out = 512"
  shows "build_slot_state s out = slot_wire s"
proof -
  have body: "build_slot_body s out = slot_fields s @ [0, 0, 0, 0] @ replicate 412 0"
    using assms by (simp add: build_slot_body_layout replicate_numeral_unfold)
  have "crc32_bytes (build_slot_body s out) 96 = crc32_ieee (slot_fields s)"
    unfolding body using assms(1)
    by (intro crc32_bytes_prefix [of _ 96]) (simp_all add: length_slot_fields)
  then have "build_slot_state s out =
      write_u32_le (slot_fields s @ [0, 0, 0, 0] @ replicate 412 0) 96 (crc32_ieee (slot_fields s))"
    by (simp add: build_slot_state_def body)
  also have "\<dots> = slot_wire s"
    unfolding slot_wire_def using assms(1)
    by (intro write_u32_le_middle) (simp add: length_slot_fields)
  finally show ?thesis .
qed

section \<open>Reading a built block\<close>

lemma read_u32_le_at:
  "off = length pre \<Longrightarrow> read_u32_le (pre @ le_bytes v @ post) off = v"
  using le_word_le_bytes [of v]
  by (simp add: read_u32_le_def le_bytes_def nth_append le_word_def numeral_2_eq_2 numeral_3_eq_3)

lemma read_header:
  assumes "bs = slot_header s @ rest"
  shows "read_u32_le bs 0 = SLOT_MAGIC" "read_u32_le bs 4 = generation s"
    "bs ! 8 = active_slot s" "bs ! 9 = preferred_slot s" "bs ! 10 = last_reset_reason s"
    "read_u32_le bs 12 = attempt_count s" "read_u32_le bs 16 = bootlimit s"
    "bs ! 20 = slot_a_ready s" "bs ! 21 = slot_b_ready s"
    "read_u32_le bs 24 = slot_a_len s" "read_u32_le bs 28 = slot_b_len s"
  by (simp_all add: assms slot_header_def read_u32_le_def le_bytes_def SLOT_MAGIC_def
      nth_Cons_numeral le_word_le_bytes [unfolded le_word_def])

lemma map_nth_segment:
  "off = length pre \<Longrightarrow> n = length mid \<Longrightarrow> map (\<lambda>i. (pre @ mid @ post) ! (off + i)) [0..<n] = mid"
  by (intro nth_equalityI) (auto simp: nth_append)

lemma parse_slot_wire:
  assumes "slot_ok s"
  shows "parse_slot_state (slot_wire s) = Some s"
proof -
  let ?bs = "slot_wire s"
  have bs: "?bs = slot_header s @ slot_a_sha256 s @ slot_b_sha256 s
      @ le_bytes (crc32_ieee (slot_fields s)) @ replicate 412 0"
    by (simp add: slot_wire_def slot_fields_header)
  note header = read_header [OF bs]
  have crc: "crc32_bytes ?bs 96 = read_u32_le ?bs 96"
    using assms by (simp add: slot_wire_def crc32_bytes_prefix [of 96 96] read_u32_le_at
        length_slot_fields)
  have a: "map (\<lambda>i. ?bs ! (32 + i)) [0..<32] = slot_a_sha256 s"
    using assms unfolding bs by (intro map_nth_segment) (simp_all add: slot_ok_def)
  have "map (\<lambda>i. ((slot_header s @ slot_a_sha256 s) @ slot_b_sha256 s
      @ le_bytes (crc32_ieee (slot_fields s)) @ replicate 412 0) ! (64 + i)) [0..<32]
      = slot_b_sha256 s"
    using assms by (intro map_nth_segment) (simp_all add: slot_ok_def)
  then have b: "map (\<lambda>i. ?bs ! (64 + i)) [0..<32] = slot_b_sha256 s"
    unfolding bs by simp
  show ?thesis
    by (simp add: parse_slot_state_def Let_def header crc a b)
qed

lemma slot_ok_parse: "parse_slot_state raw = Some s \<Longrightarrow> slot_ok s"
  by (auto simp: parse_slot_state_def Let_def slot_ok_def split: if_splits)

section \<open>Damaged blocks\<close>

text \<open>
  The record followed by its own checksum leaves a fixed residue in the shift register, so the
  check of \<open>parse_slot_state\<close> is a condition on the register after all 100 bytes.
\<close>

lemma le_of_four: "le_of [b0, b1, b2, b3] = le_word b0 b1 b2 b3"
  by (rule bit_word_eqI) (auto simp: bit_le_word bit_simps)

lemma read_u32_le_word:
  "read_u32_le raw off = le_word (raw ! off) (raw ! (off + 1)) (raw ! (off + 2)) (raw ! (off + 3))"
  by (simp add: read_u32_le_def le_word_def)

lemma take_four_more:
  "n + 4 \<le> length xs \<Longrightarrow>
     take (n + 4) xs = take n xs @ [xs ! n, xs ! (n + 1), xs ! (n + 2), xs ! (n + 3)]"
  by (simp add: take_Suc_conv_app_nth eval_nat_numeral)

definition crc32_residue :: u32 where
  "crc32_residue = (crc32_bit ^^ 32) 0xFFFFFFFF"

lemma xor_swap_eq: "x XOR m = r \<longleftrightarrow> x XOR r = m" for x :: "'a::len word"
  by (metis xor.assoc xor.left_neutral xor_self_eq)

lemma crc_check_residue:
  assumes "100 \<le> length raw"
  shows "crc32_bytes raw 96 = read_u32_le raw 96 \<longleftrightarrow>
    foldl crc32_byte 0xFFFFFFFF (take 100 raw) = crc32_residue"
proof -
  let ?s = "foldl crc32_byte 0xFFFFFFFF (take 96 raw)"
  let ?tail = "[raw ! 96, raw ! 97, raw ! 98, raw ! 99]"
  have tail: "le_of ?tail = read_u32_le raw 96"
    by (simp only: le_of_four read_u32_le_word) simp
  have "take 100 raw = take 96 raw @ ?tail"
    using assms take_four_more [of 96 raw] by simp
  then have all: "foldl crc32_byte 0xFFFFFFFF (take 100 raw) =
      (crc32_bit ^^ 32) (?s XOR read_u32_le raw 96)"
    using foldl_crc32_byte_short [of ?tail ?s, unfolded tail] by (simp only: foldl_append) simp
  have "crc32_bytes raw 96 = ?s XOR 0xFFFFFFFF"
    using assms by (simp add: crc32_bytes_foldl)
  then have "crc32_bytes raw 96 = read_u32_le raw 96 \<longleftrightarrow> ?s XOR read_u32_le raw 96 = 0xFFFFFFFF"
    by (metis xor_swap_eq)
  also have "\<dots> \<longleftrightarrow> foldl crc32_byte 0xFFFFFFFF (take 100 raw) = crc32_residue"
    unfolding all crc32_residue_def by (rule inj_eq [OF inj_fn [OF inj_crc32_bit], symmetric])
  finally show ?thesis .
qed

text \<open>Two buffers that agree outside a window split into common and differing parts.\<close>

lemma window_split:
  assumes "length xs = length ys" and "i + 4 \<le> length xs"
    and "\<And>k. k < length xs \<Longrightarrow> k < i \<or> i + 4 \<le> k \<Longrightarrow> xs ! k = ys ! k"
  shows "xs = take i xs @ take 4 (drop i xs) @ drop (i + 4) xs"
    and "ys = take i xs @ take 4 (drop i ys) @ drop (i + 4) xs"
proof -
  have split: "zs = take i zs @ take 4 (drop i zs) @ drop (i + 4) zs" for zs :: "'a list"
    by (metis append_take_drop_id drop_drop add.commute)
  have "take i xs = take i ys" and "drop (i + 4) xs = drop (i + 4) ys"
    using assms by (auto intro!: nth_equalityI)
  then show "xs = take i xs @ take 4 (drop i xs) @ drop (i + 4) xs"
    and "ys = take i xs @ take 4 (drop i ys) @ drop (i + 4) xs"
    using split [of xs] split [of ys] by simp_all
qed

lemma parse_None_crc:
  "crc32_bytes raw 96 \<noteq> read_u32_le raw 96 \<Longrightarrow> parse_slot_state raw = None"
  by (simp add: parse_slot_state_def Let_def)

lemma parse_Some_crc:
  "parse_slot_state raw = Some s \<Longrightarrow> crc32_bytes raw 96 = read_u32_le raw 96"
  by (simp add: parse_slot_state_def Let_def split: if_splits)

lemma burst_rejected:
  assumes parse: "parse_slot_state raw = Some s"
    and len: "length raw = BLOCK_SIZE" "length raw' = BLOCK_SIZE"
    and win: "i + 4 \<le> 100" "\<And>k. k < 100 \<Longrightarrow> k < i \<or> i + 4 \<le> k \<Longrightarrow> raw' ! k = raw ! k"
    and diff: "take 100 raw' \<noteq> take 100 raw"
  shows "parse_slot_state raw' = None"
proof -
  let ?xs = "take 100 raw" and ?ys = "take 100 raw'"
  have lens: "length ?xs = 100" "length ?ys = 100"
    using len by (simp_all add: BLOCK_SIZE_def)
  have agree: "?xs ! k = ?ys ! k" if "k < length ?xs" "k < i \<or> i + 4 \<le> k" for k
    using that win(2) lens by simp
  have split: "?xs = take i ?xs @ take 4 (drop i ?xs) @ drop (i + 4) ?xs"
      "?ys = take i ?xs @ take 4 (drop i ?ys) @ drop (i + 4) ?xs"
    using window_split [of ?xs ?ys i] lens win(1) agree by simp_all
  have "take 4 (drop i ?xs) \<noteq> take 4 (drop i ?ys)"
    using diff split by metis
  then have "foldl crc32_byte 0xFFFFFFFF ?xs \<noteq> foldl crc32_byte 0xFFFFFFFF ?ys"
    using lens win(1) foldl_crc32_byte_burst [of "take 4 (drop i ?xs)" "take 4 (drop i ?ys)"]
    by (subst split(1), subst split(2)) simp
  moreover have "foldl crc32_byte 0xFFFFFFFF ?xs = crc32_residue"
    using parse_Some_crc [OF parse] crc_check_residue [of raw] len by (simp add: BLOCK_SIZE_def)
  ultimately have "crc32_bytes raw' 96 \<noteq> read_u32_le raw' 96"
    using crc_check_residue [of raw'] len by (simp add: BLOCK_SIZE_def)
  then show ?thesis by (rule parse_None_crc)
qed

section \<open>The record format\<close>

definition is_block :: "u8 list \<Rightarrow> bool" where
  "is_block out \<longleftrightarrow> length out = BLOCK_SIZE"

lemma length_slot_wire: "slot_ok s \<Longrightarrow> length (slot_wire s) = 512"
  by (simp add: slot_wire_def length_slot_fields)

interpretation slot_codec: record_codec build_slot_state parse_slot_state slot_ok is_block
proof
  fix r out x
  show "slot_ok r \<Longrightarrow> is_block out \<Longrightarrow> parse_slot_state (build_slot_state r out) = Some r"
    by (simp add: build_slot_state_layout parse_slot_wire is_block_def BLOCK_SIZE_def)
  show "slot_ok r \<Longrightarrow> is_block out \<Longrightarrow> is_block (build_slot_state r out)"
    by (simp add: build_slot_state_layout length_slot_wire is_block_def BLOCK_SIZE_def)
  show "parse_slot_state x = Some r \<Longrightarrow> slot_ok r"
    by (rule slot_ok_parse)
qed

text \<open>A blank block is not a record.\<close>

lemma parse_blank: "parse_slot_state (replicate 512 0) = None"
  by (simp add: parse_slot_state_def read_u32_le_def SLOT_MAGIC_def)

section \<open>Properties\<close>

text \<open>A record with both slots ready, for the examples.\<close>

definition sample_slot :: slot_state where
  "sample_slot = \<lparr> generation = 7, active_slot = 0, preferred_slot = 0, last_reset_reason = 0,
     attempt_count = 0, bootlimit = 2, slot_a_ready = 1, slot_b_ready = 1,
     slot_a_len = 512, slot_b_len = 512,
     slot_a_sha256 = replicate 32 0, slot_b_sha256 = replicate 32 1 \<rparr>"

lemma sample_slot_ok: "slot_ok sample_slot"
  by (simp add: sample_slot_def slot_ok_def)

text \<open>
  C29. Whatever the 512-byte buffer held before, a record that \<open>build_slot_state\<close> wrote into it is
  read back by \<open>parse_slot_state\<close> with every field unchanged.
\<close>

theorem slot_state_roundtrip:
  assumes "slot_ok s" and "length out = BLOCK_SIZE"
  shows "parse_slot_state (build_slot_state s out) = Some s"
  using slot_codec.dec_enc [OF assms(1)] assms(2) by (simp add: is_block_def)

theorem slot_state_roundtrip_witness:
  "parse_slot_state (build_slot_state sample_slot (replicate BLOCK_SIZE 0xFF)) = Some sample_slot"
  by (rule slot_state_roundtrip) (simp_all add: sample_slot_ok)

text \<open>
  C28. Damage is noticed: take a block the parser accepts and change any bytes within four
  consecutive ones of the first 100 (fields or checksum). The parser refuses the result.
\<close>

theorem damaged_record_rejected:
  assumes "parse_slot_state raw = Some s" and "length raw = BLOCK_SIZE" and "length raw' = BLOCK_SIZE"
    and "i + 4 \<le> 100" and "\<And>k. k < 100 \<Longrightarrow> k < i \<or> i + 4 \<le> k \<Longrightarrow> raw' ! k = raw ! k"
    and "take 100 raw' \<noteq> take 100 raw"
  shows "parse_slot_state raw' = None"
  using burst_rejected [OF assms] .

theorem damaged_record_rejected_witness:
  "parse_slot_state (slot_wire sample_slot) = Some sample_slot
     \<and> parse_slot_state ((slot_wire sample_slot)[24 := slot_wire sample_slot ! 24 + 1]) = None"
proof -
  have len: "length (slot_wire sample_slot) = 512" by (rule length_slot_wire [OF sample_slot_ok])
  note p = parse_slot_wire [OF sample_slot_ok]
  let ?raw' = "(slot_wire sample_slot)[24 := slot_wire sample_slot ! 24 + 1]"
  have "take 100 ?raw' ! 24 \<noteq> take 100 (slot_wire sample_slot) ! 24" using len by simp
  then have "take 100 ?raw' \<noteq> take 100 (slot_wire sample_slot)" by metis
  then have "parse_slot_state ?raw' = None"
    by (intro damaged_record_rejected [OF p, of ?raw' 24]) (auto simp: len BLOCK_SIZE_def)
  with p show ?thesis by simp
qed

end
