(* ===== verification/Sha256.thy ===== *)
theory Sha256
  imports Interfaces
begin

text \<open>
  \<open>boot/stage0/sha256.c\<close>: the streaming SHA-256 that stage 0 uses to check a kernel payload
  before it jumps into it. First the code, operation by operation; then FIPS 180-4 as a
  function of the whole message; then the proof that the streaming code computes it, however
  the message is cut into \<open>sha256_update\<close> calls.
\<close>

section \<open>The code\<close>

definition K :: "u32 list" where
  "K = concat [
   [0x428a2f98,0x71374491,0xb5c0fbcf,0xe9b5dba5,0x3956c25b,0x59f111f1,0x923f82a4,0xab1c5ed5],
   [0xd807aa98,0x12835b01,0x243185be,0x550c7dc3,0x72be5d74,0x80deb1fe,0x9bdc06a7,0xc19bf174],
   [0xe49b69c1,0xefbe4786,0x0fc19dc6,0x240ca1cc,0x2de92c6f,0x4a7484aa,0x5cb0a9dc,0x76f988da],
   [0x983e5152,0xa831c66d,0xb00327c8,0xbf597fc7,0xc6e00bf3,0xd5a79147,0x06ca6351,0x14292967],
   [0x27b70a85,0x2e1b2138,0x4d2c6dfc,0x53380d13,0x650a7354,0x766a0abb,0x81c2c92e,0x92722c85],
   [0xa2bfe8a1,0xa81a664b,0xc24b8b70,0xc76c51a3,0xd192e819,0xd6990624,0xf40e3585,0x106aa070],
   [0x19a4c116,0x1e376c08,0x2748774c,0x34b0bcb5,0x391c0cb3,0x4ed8aa4a,0x5b9cca4f,0x682e6ff3],
   [0x748f82ee,0x78a5636f,0x84c87814,0x8cc70208,0x90befffa,0xa4506ceb,0xbef9a3f7,0xc67178f2]]"

record sha256_ctx =
  sha_h :: "u32 list"
  sha_buf :: "u8 list"
  buf_len :: u32
  total_len :: u64

definition rotr32 :: "u32 \<Rightarrow> nat \<Rightarrow> u32" where
  "rotr32 x n = drop_bit n x OR push_bit (32 - n) x"

text \<open>The message schedule: \<open>w\<close> grows by one word in each iteration of the two loops.\<close>

definition sched_load :: "u8 list \<Rightarrow> nat \<Rightarrow> u32" where
  "sched_load p i =
     ((push_bit 24 (ucast (p ! (i * 4))) OR push_bit 16 (ucast (p ! (i * 4 + 1))))
      OR push_bit 8 (ucast (p ! (i * 4 + 2)))) OR ucast (p ! (i * 4 + 3))"

definition sched_extend :: "u32 list \<Rightarrow> nat \<Rightarrow> u32 list" where
  "sched_extend w i =
     (let s0 = rotr32 (w ! (i - 15)) 7 XOR rotr32 (w ! (i - 15)) 18 XOR drop_bit 3 (w ! (i - 15));
          s1 = rotr32 (w ! (i - 2)) 17 XOR rotr32 (w ! (i - 2)) 19 XOR drop_bit 10 (w ! (i - 2))
      in w @ [w ! (i - 16) + s0 + w ! (i - 7) + s1])"

definition sched :: "u8 list \<Rightarrow> u32 list" where
  "sched p = foldl sched_extend (foldl (\<lambda>w i. w @ [sched_load p i]) [] [0..<16]) [16..<64]"

type_synonym vars = "u32 \<times> u32 \<times> u32 \<times> u32 \<times> u32 \<times> u32 \<times> u32 \<times> u32"

definition sha256_round :: "u32 list \<Rightarrow> vars \<Rightarrow> nat \<Rightarrow> vars" where
  "sha256_round w v i =
     (let (a, b, c, d, e, f, g, h) = v;
          s1 = rotr32 e 6 XOR rotr32 e 11 XOR rotr32 e 25;
          ch = (e AND f) XOR (NOT e AND g);
          temp1 = h + s1 + ch + K ! i + w ! i;
          s0 = rotr32 a 2 XOR rotr32 a 13 XOR rotr32 a 22;
          maj = (a AND b) XOR (a AND c) XOR (b AND c);
          temp2 = s0 + maj
      in (temp1 + temp2, a, b, c, d + temp1, e, f, g))"

definition sha256_block :: "sha256_ctx \<Rightarrow> u8 list \<Rightarrow> sha256_ctx" where
  "sha256_block ctx p =
     (let w = sched p;
          hs = sha_h ctx;
          v = (hs ! 0, hs ! 1, hs ! 2, hs ! 3, hs ! 4, hs ! 5, hs ! 6, hs ! 7);
          (a, b, c, d, e, f, g, h) = foldl (sha256_round w) v [0..<64]
      in ctx\<lparr>sha_h := [hs ! 0 + a, hs ! 1 + b, hs ! 2 + c, hs ! 3 + d,
                      hs ! 4 + e, hs ! 5 + f, hs ! 6 + g, hs ! 7 + h]\<rparr>)"

text \<open>\<open>sha256_init\<close> leaves the buffer of the context as it finds it.\<close>

definition sha256_init :: "sha256_ctx \<Rightarrow> sha256_ctx" where
  "sha256_init ctx = ctx\<lparr>
     sha_h := [0x6a09e667, 0xbb67ae85, 0x3c6ef372, 0xa54ff53a,
               0x510e527f, 0x9b05688c, 0x1f83d9ab, 0x5be0cd19],
     buf_len := 0,
     total_len := 0\<rparr>"

text \<open>\<open>ctx->buf[ctx->buf_len] = b; ctx->buf_len = ctx->buf_len + 1\<close>\<close>

definition sha_put :: "sha256_ctx \<Rightarrow> u8 \<Rightarrow> sha256_ctx" where
  "sha_put ctx b =
     ctx\<lparr>sha_buf := (sha_buf ctx)[unat (buf_len ctx) := b], buf_len := buf_len ctx + 1\<rparr>"

text \<open>The three loops of \<open>sha256_update\<close>, with the unsigned 32-bit index \<open>i\<close>.\<close>

lemma word_step_less:
  fixes i len :: u32
  assumes "i < len"
  shows "unat (len - (i + 1)) < unat (len - i)"
proof -
  have "len - (i + 1) = (len - i) - 1" and "len - i \<noteq> 0"
    using assms by auto
  then have "unat (len - (i + 1)) = unat (len - i) - 1" and "unat (len - i) \<noteq> 0"
    by (simp_all only: unat_minus_one unat_eq_0 not_False_eq_True)
  then show ?thesis by simp
qed

lemma word_block_less:
  fixes i len :: u32
  assumes "64 \<le> len - i"
  shows "unat (len - (i + 64)) < unat (len - i)"
proof -
  have "len - (i + 64) = (len - i) - 64" and "unat (64 :: u32) = 64"
    by simp_all
  then have "unat (len - (i + 64)) = unat (len - i) - 64"
    by (simp only: unat_sub [OF assms])
  moreover have "64 \<le> unat (len - i)"
    using assms by (simp add: word_le_nat_alt)
  ultimately show ?thesis by simp
qed

function sha_fill :: "u8 list \<Rightarrow> u32 \<Rightarrow> u32 \<Rightarrow> sha256_ctx \<Rightarrow> u32 \<times> sha256_ctx" where
  "sha_fill data len i ctx =
     (if i < len \<and> buf_len ctx < 64
      then sha_fill data len (i + 1) (sha_put ctx (data ! unat i))
      else (i, ctx))"
  by pat_completeness auto
termination
  by (relation "measure (\<lambda>(data, len, i, ctx). unat (len - i))") (auto simp: word_step_less)

function sha_blocks :: "u8 list \<Rightarrow> u32 \<Rightarrow> u32 \<Rightarrow> sha256_ctx \<Rightarrow> u32 \<times> sha256_ctx" where
  "sha_blocks data len i ctx =
     (if 64 \<le> len - i
      then sha_blocks data len (i + 64) (sha256_block ctx (drop (unat i) data))
      else (i, ctx))"
  by pat_completeness auto
termination
  by (relation "measure (\<lambda>(data, len, i, ctx). unat (len - i))") (auto simp: word_block_less)

function sha_tail :: "u8 list \<Rightarrow> u32 \<Rightarrow> u32 \<Rightarrow> sha256_ctx \<Rightarrow> sha256_ctx" where
  "sha_tail data len i ctx =
     (if i < len then sha_tail data len (i + 1) (sha_put ctx (data ! unat i)) else ctx)"
  by pat_completeness auto
termination
  by (relation "measure (\<lambda>(data, len, i, ctx). unat (len - i))") (auto simp: word_step_less)

declare sha_fill.simps [simp del] sha_blocks.simps [simp del] sha_tail.simps [simp del]

definition sha256_update :: "sha256_ctx \<Rightarrow> u8 list \<Rightarrow> u32 \<Rightarrow> sha256_ctx" where
  "sha256_update ctx data len =
     (let ctx = ctx\<lparr>total_len := total_len ctx + ucast len\<rparr>;
          (i, ctx) =
            (if buf_len ctx \<noteq> 0
             then let (i, ctx) = sha_fill data len 0 ctx in
               if buf_len ctx = 64
               then (i, (sha256_block ctx (sha_buf ctx))\<lparr>buf_len := 0\<rparr>)
               else (i, ctx)
             else (0, ctx));
          (i, ctx) = sha_blocks data len i ctx
      in sha_tail data len i ctx)"

text \<open>
  \<open>while (ctx->buf_len != 56) sha256_update(ctx, &zero, 1)\<close>: nothing in the loop itself
  bounds it, so a run that does not end is \<open>None\<close>.
\<close>

partial_function (option) sha_pad :: "sha256_ctx \<Rightarrow> sha256_ctx option" where
  "sha_pad ctx = (if buf_len ctx \<noteq> 56 then sha_pad (sha256_update ctx [0] 1) else Some ctx)"

definition sha256_finalize :: "sha256_ctx \<Rightarrow> (sha256_ctx \<times> u8 list) option" where
  "sha256_finalize ctx =
     do {
       let bit_len = total_len ctx * 8;
       let ctx = sha256_update ctx [0x80] 1;
       ctx \<leftarrow> sha_pad ctx;
       let lenbuf = map (\<lambda>i. ucast (drop_bit ((7 - i) * 8) bit_len) :: u8) [0..<8];
       let ctx = foldl (\<lambda>ctx j. sha_put ctx (lenbuf ! j)) ctx [0..<8];
       let ctx = sha256_block ctx (sha_buf ctx);
       Some (ctx, concat (map (\<lambda>i.
         [ucast (drop_bit 24 (sha_h ctx ! i)), ucast (drop_bit 16 (sha_h ctx ! i)),
          ucast (drop_bit 8 (sha_h ctx ! i)), ucast (sha_h ctx ! i)]) [0..<8]))
     }"

section \<open>FIPS 180-4\<close>

definition Ch :: "u32 \<Rightarrow> u32 \<Rightarrow> u32 \<Rightarrow> u32" where
  "Ch x y z = (x AND y) XOR (NOT x AND z)"
definition Maj :: "u32 \<Rightarrow> u32 \<Rightarrow> u32 \<Rightarrow> u32" where
  "Maj x y z = (x AND y) XOR (x AND z) XOR (y AND z)"
definition Sigma0 :: "u32 \<Rightarrow> u32" where
  "Sigma0 x = word_rotr 2 x XOR word_rotr 13 x XOR word_rotr 22 x"
definition Sigma1 :: "u32 \<Rightarrow> u32" where
  "Sigma1 x = word_rotr 6 x XOR word_rotr 11 x XOR word_rotr 25 x"
definition sigma0 :: "u32 \<Rightarrow> u32" where
  "sigma0 x = word_rotr 7 x XOR word_rotr 18 x XOR drop_bit 3 x"
definition sigma1 :: "u32 \<Rightarrow> u32" where
  "sigma1 x = word_rotr 17 x XOR word_rotr 19 x XOR drop_bit 10 x"

text \<open>The message schedule, by recursion on the round number.\<close>

fun fips_W :: "u8 list \<Rightarrow> nat \<Rightarrow> u32" where
  "fips_W M t =
     (if t < 16 then le_word (M ! (4 * t + 3)) (M ! (4 * t + 2)) (M ! (4 * t + 1)) (M ! (4 * t))
      else sigma1 (fips_W M (t - 2)) + fips_W M (t - 7) + sigma0 (fips_W M (t - 15))
           + fips_W M (t - 16))"

declare fips_W.simps [simp del]

fun fips_rounds :: "u8 list \<Rightarrow> nat \<Rightarrow> vars \<Rightarrow> vars" where
  "fips_rounds M 0 v = v"
| "fips_rounds M (Suc t) v =
     (let (a, b, c, d, e, f, g, h) = fips_rounds M t v;
          T1 = h + Sigma1 e + Ch e f g + K ! t + fips_W M t;
          T2 = Sigma0 a + Maj a b c
      in (T1 + T2, a, b, c, d + T1, e, f, g))"

definition fips_compress :: "u32 list \<Rightarrow> u8 list \<Rightarrow> u32 list" where
  "fips_compress H M =
     (let (a, b, c, d, e, f, g, h) =
            fips_rounds M 64 (H ! 0, H ! 1, H ! 2, H ! 3, H ! 4, H ! 5, H ! 6, H ! 7)
      in map (\<lambda>(x, y). x + y) (zip [a, b, c, d, e, f, g, h] (take 8 H)))"

definition fips_H0 :: "u32 list" where
  "fips_H0 = [0x6a09e667, 0xbb67ae85, 0x3c6ef372, 0xa54ff53a,
              0x510e527f, 0x9b05688c, 0x1f83d9ab, 0x5be0cd19]"

text \<open>Cutting a message into 64-byte blocks; a last incomplete block is left out.\<close>

function blocks64 :: "'a list \<Rightarrow> 'a list list" where
  "blocks64 xs = (if length xs < 64 then [] else take 64 xs # blocks64 (drop 64 xs))"
  by pat_completeness auto
termination by (relation "measure length") auto

declare blocks64.simps [simp del]

definition be_bytes32 :: "u32 \<Rightarrow> u8 list" where
  "be_bytes32 v = rev (le_bytes v)"

definition be_bytes64 :: "u64 \<Rightarrow> u8 list" where
  "be_bytes64 v = map (\<lambda>i. ucast (drop_bit (56 - 8 * i) v)) [0..<8]"

text \<open>
  One \<open>1\<close> bit, the least number of \<open>0\<close> bits that leaves room for the length, the length in
  bits. The length field is 64 bits wide, as FIPS 180-4 (messages below \<open>2 ^ 64\<close> bits) has it.
\<close>

definition fips_pad :: "u8 list \<Rightarrow> u8 list" where
  "fips_pad msg =
     msg @ [0x80] @ replicate ((119 - length msg mod 64) mod 64) 0
     @ be_bytes64 (word_of_nat (8 * length msg))"

definition fips_hash :: "u8 list \<Rightarrow> u32 list" where
  "fips_hash msg = foldl fips_compress fips_H0 (blocks64 (fips_pad msg))"

definition sha256_digest :: "u8 list \<Rightarrow> u8 list" where
  "sha256_digest msg = concat (map be_bytes32 (fips_hash msg))"

section \<open>The block function computes the FIPS compression\<close>

lemma rotr32_word_rotr:
  assumes "0 < n" and "n < 32"
  shows "rotr32 x n = word_rotr n x"
proof (rule bit_word_eqI)
  fix k
  assume k: "k < LENGTH(32)"
  have lhs: "bit (rotr32 x n) k \<longleftrightarrow> bit x (n + k) \<or> 32 - n \<le> k \<and> bit x (k - (32 - n))"
    using k by (simp add: rotr32_def bit_simps)
  have rhs: "bit (word_rotr n x) k \<longleftrightarrow> bit x ((k + n) mod 32)"
    using k by (simp add: bit_word_rotr_iff)
  show "bit (rotr32 x n) k = bit (word_rotr n x) k"
  proof (cases "k + n < 32")
    case True
    then have "\<not> 32 - n \<le> k" by simp
    with True show ?thesis
      by (simp add: lhs rhs add.commute [of n])
  next
    case False
    then have "(k + n) mod 32 = k - (32 - n)"
      using assms k by (simp add: mod_if)
    moreover have "32 - n \<le> k" and "\<not> n + k < 32"
      using False by simp_all
    ultimately show ?thesis
      by (simp add: lhs rhs)
  qed
qed

lemma sched_load_fips: "i < 16 \<Longrightarrow> sched_load p i = fips_W p i"
  by (subst fips_W.simps) (auto simp: sched_load_def le_word_def mult.commute or.commute or.left_commute
      or.assoc)

lemma sched_load_loop: "n \<le> 16 \<Longrightarrow> foldl (\<lambda>w i. w @ [sched_load p i]) [] [0..<n] = map (fips_W p) [0..<n]"
  by (induction n) (simp_all add: sched_load_fips)

lemma sched_extend_fips:
  assumes "16 \<le> n"
  shows "sched_extend (map (fips_W p) [0..<n]) n = map (fips_W p) [0..<Suc n]"
proof -
  have "fips_W p n = fips_W p (n - 16) + sigma0 (fips_W p (n - 15)) + fips_W p (n - 7)
      + sigma1 (fips_W p (n - 2))"
    using assms by (subst fips_W.simps) (simp add: add_ac)
  with assms show ?thesis
    by (simp add: sched_extend_def rotr32_word_rotr sigma0_def sigma1_def)
qed

lemma sched_extend_loop:
  "16 \<le> n \<Longrightarrow>
     foldl sched_extend (map (fips_W p) [0..<16]) [16..<n] = map (fips_W p) [0..<n]"
proof (induction n rule: dec_induct)
  case (step n)
  then have "[16..<Suc n] = [16..<n] @ [n]"
    by simp
  with step show ?case
    by (simp only: foldl_append foldl.simps sched_extend_fips)
qed simp

lemma sched_fips: "sched p = map (fips_W p) [0..<64]"
proof -
  have "foldl (\<lambda>w i. w @ [sched_load p i]) [] [0..<16] = map (fips_W p) [0..<16]"
    by (rule sched_load_loop) simp
  then show ?thesis
    unfolding sched_def by (simp only: sched_extend_loop)
qed

lemma sha256_rounds_fips:
  "n \<le> 64 \<Longrightarrow> foldl (sha256_round (sched p)) v [0..<n] = fips_rounds p n v"
proof (induction n)
  case (Suc n)
  then show ?case
    by (simp add: sha256_round_def sched_fips rotr32_word_rotr Sigma0_def Sigma1_def Ch_def
        Maj_def split: prod.split)
qed simp

lemma sha256_block_fips:
  assumes "length (sha_h ctx) = 8"
  shows "sha256_block ctx p = ctx\<lparr>sha_h := fips_compress (sha_h ctx) p\<rparr>"
proof -
  obtain h0 h1 h2 h3 h4 h5 h6 h7 where "sha_h ctx = [h0, h1, h2, h3, h4, h5, h6, h7]"
    using assms by (auto simp: length_Suc_conv numeral_eq_Suc)
  then show ?thesis
    by (simp add: sha256_block_def Let_def sha256_rounds_fips fips_compress_def
        add.commute split: prod.split)
qed

lemma length_fips_compress: "length H = 8 \<Longrightarrow> length (fips_compress H M) = 8"
  by (simp add: fips_compress_def split: prod.split)

lemma length_foldl_compress: "length H = 8 \<Longrightarrow> length (foldl fips_compress H Ms) = 8"
  by (induction Ms arbitrary: H) (simp_all add: length_fips_compress)

text \<open>The compression reads the first 64 bytes only, so a pointer into a longer buffer will do.\<close>

lemma fips_W_prefix: "t < 16 + n \<Longrightarrow> n \<le> 48 \<Longrightarrow> fips_W (take 64 p) t = fips_W p t"
proof (induction t arbitrary: n rule: less_induct)
  case (less t)
  show ?case
  proof (cases "t < 16")
    case True
    then show ?thesis by (simp add: fips_W.simps [of _ t])
  next
    case False
    have "fips_W (take 64 p) (t - k) = fips_W p (t - k)" if "0 < k" "k \<le> 16" for k
      using less.IH [of "t - k" n] less.prems False that by simp
    with False show ?thesis
      by (simp add: fips_W.simps [of _ t])
  qed
qed

lemma fips_compress_prefix: "fips_compress H (take 64 p) = fips_compress H p"
proof -
  have "fips_rounds (take 64 p) n v = fips_rounds p n v" if "n \<le> 64" for n v
    using that by (induction n) (simp_all add: fips_W_prefix [of _ 48])
  then show ?thesis by (simp add: fips_compress_def)
qed

section \<open>The context represents the message absorbed so far\<close>

text \<open>
  \<open>bs\<close> are the complete blocks already compressed, \<open>r\<close> the bytes waiting in the buffer.
\<close>

definition sha_repr :: "sha256_ctx \<Rightarrow> u8 list list \<Rightarrow> u8 list \<Rightarrow> bool" where
  "sha_repr ctx bs r \<longleftrightarrow>
     (\<forall>b \<in> set bs. length b = 64) \<and> length r \<le> 64 \<and>
     length (sha_buf ctx) = 64 \<and> unat (buf_len ctx) = length r \<and>
     take (length r) (sha_buf ctx) = r \<and> sha_h ctx = foldl fips_compress fips_H0 bs"

lemma sha_reprD:
  assumes "sha_repr ctx bs r"
  shows "\<forall>b \<in> set bs. length b = 64" and "sha_h ctx = foldl fips_compress fips_H0 bs"
  using assms by (simp_all add: sha_repr_def)

lemma sha_h_buf_len: "sha_h (ctx\<lparr>buf_len := n\<rparr>) = sha_h ctx"
  by simp

lemma sha_repr_h: "sha_repr ctx bs r \<Longrightarrow> length (sha_h ctx) = 8"
  by (simp add: sha_repr_def length_foldl_compress fips_H0_def)

lemma sha_repr_init: "length (sha_buf ctx) = 64 \<Longrightarrow> sha_repr (sha256_init ctx) [] []"
  by (simp add: sha_repr_def sha256_init_def fips_H0_def)

lemma sha_repr_total [simp]: "sha_repr (ctx\<lparr>total_len := n\<rparr>) bs r = sha_repr ctx bs r"
  by (simp add: sha_repr_def)

lemma sha_repr_put:
  assumes "sha_repr ctx bs r" and "length r < 64"
  shows "sha_repr (sha_put ctx b) bs (r @ [b])"
proof -
  have "unat (buf_len ctx + 1) = Suc (length r)"
    using assms unat_add_one [of "buf_len ctx" 64] by (simp add: sha_repr_def)
  with assms show ?thesis
    by (simp add: sha_repr_def sha_put_def take_Suc_update)
qed

lemma total_len_put [simp]: "total_len (sha_put ctx b) = total_len ctx"
  by (simp add: sha_put_def)

lemma sha_repr_block_buf:
  assumes "sha_repr ctx bs r" and "length r = 64"
  shows "sha_repr ((sha256_block ctx (sha_buf ctx))\<lparr>buf_len := 0\<rparr>) (bs @ [r]) []"
  using assms by (auto simp: sha256_block_fips [OF sha_repr_h [OF assms(1)]] sha_repr_def)

lemma sha_repr_block_data:
  assumes "sha_repr ctx bs []" and "64 \<le> length p"
  shows "sha_repr (sha256_block ctx p) (bs @ [take 64 p]) []"
  using assms by (auto simp: sha256_block_fips [OF sha_repr_h [OF assms(1)]] sha_repr_def
      fips_compress_prefix)

lemma total_len_block [simp]: "total_len (sha256_block ctx p) = total_len ctx"
  by (simp add: sha256_block_def Let_def split: prod.split)

lemma buf_len_eq: "sha_repr ctx bs r \<Longrightarrow> n < 2 ^ 32 \<Longrightarrow> buf_len ctx = of_nat n \<longleftrightarrow> length r = n"
  by (auto simp: sha_repr_def word_unat_eq_iff unat_of_nat)

lemma buf_len_less: "sha_repr ctx bs r \<Longrightarrow> buf_len ctx < 64 \<longleftrightarrow> length r < 64"
  by (simp add: sha_repr_def word_less_nat_alt)

text \<open>The three loops of an update, with \<open>data[i..len)\<close> still to be absorbed.\<close>

lemma sha_tail_repr:
  assumes "sha_repr ctx bs r" and "length data = unat len" and "unat i \<le> unat len"
    and "length r + (unat len - unat i) \<le> 64"
  shows "sha_repr (sha_tail data len i ctx) bs (r @ drop (unat i) data)
    \<and> total_len (sha_tail data len i ctx) = total_len ctx"
  using assms
proof (induction data len i ctx arbitrary: r rule: sha_tail.induct)
  case (1 data len i ctx)
  show ?case
  proof (cases "i < len")
    case True
    then have i: "unat i < length data" "unat (i + 1) = unat i + 1"
      using "1.prems"(2) by (simp_all add: word_less_nat_alt unat_succ_less)
    have put: "sha_repr (sha_put ctx (data ! unat i)) bs (r @ [data ! unat i])"
      using "1.prems" i by (intro sha_repr_put) simp_all
    show ?thesis
      using "1.IH" [OF True put] "1.prems" i True
      by (simp add: sha_tail.simps [of data len i] Cons_nth_drop_Suc)
  next
    case False
    then show ?thesis
      using "1.prems" by (simp add: sha_tail.simps [of data len i] word_less_nat_alt)
  qed
qed

text \<open>The number \<open>n\<close> of bytes that the filling loop takes, and what it leaves to the others.\<close>

lemma sha_fill_repr:
  assumes "sha_repr ctx bs r" and "length data = unat len" and "unat i \<le> unat len"
    and "sha_fill data len i ctx = (i', ctx')"
  shows "\<exists>n. unat i' = unat i + n \<and> unat i + n \<le> unat len
    \<and> sha_repr ctx' bs (r @ take n (drop (unat i) data)) \<and> length r + n \<le> 64
    \<and> (unat i + n = unat len \<or> length r + n = 64) \<and> total_len ctx' = total_len ctx"
  using assms
proof (induction data len i ctx arbitrary: r rule: sha_fill.induct)
  case (1 data len i ctx)
  show ?case
  proof (cases "i < len \<and> buf_len ctx < 64")
    case True
    then have "i < len" and "buf_len ctx < 64" by simp_all
    then have i: "unat i < length data" "unat (i + 1) = unat i + 1"
      using "1.prems"(2) by (simp_all add: word_less_nat_alt unat_succ_less)
    have r: "length r < 64"
      using \<open>buf_len ctx < 64\<close> "1.prems"(1) by (simp only: buf_len_less)
    have put: "sha_repr (sha_put ctx (data ! unat i)) bs (r @ [data ! unat i])"
      using "1.prems"(1) r by (rule sha_repr_put)
    have call: "sha_fill data len (i + 1) (sha_put ctx (data ! unat i)) = (i', ctx')"
      using "1.prems"(4) True by (simp add: sha_fill.simps [of data len i])
    obtain n where "unat i' = unat i + Suc n" "unat i + Suc n \<le> unat len"
        "sha_repr ctx' bs ((r @ [data ! unat i]) @ take n (drop (Suc (unat i)) data))"
        "length r + Suc n \<le> 64" "unat i + Suc n = unat len \<or> length r + Suc n = 64"
        "total_len ctx' = total_len ctx"
      using "1.IH" [OF True put "1.prems"(2) _ call] i "1.prems"(2) by auto
    moreover have "take (Suc n) (drop (unat i) data) = data ! unat i # take n (drop (Suc (unat i)) data)"
      using i(1) by (simp flip: Cons_nth_drop_Suc)
    ultimately show ?thesis
      by (intro exI [of _ "Suc n"]) simp
  next
    case False
    then have res: "i' = i" "ctx' = ctx"
      using "1.prems"(4) by (auto simp: sha_fill.simps [of data len i])
    have "unat i = unat len \<or> length r = 64"
      using False "1.prems"(1,3) by (auto simp: word_less_nat_alt sha_repr_def)
    then show ?thesis
      using res "1.prems" by (intro exI [of _ 0]) (auto simp: sha_repr_def)
  qed
qed

lemma sha_blocks_repr:
  assumes "sha_repr ctx bs []" and "length data = unat len" and "unat i \<le> unat len"
    and "sha_blocks data len i ctx = (i', ctx')"
  shows "\<exists>bs'. sha_repr ctx' (bs @ bs') [] \<and> unat i \<le> unat i' \<and> unat i' \<le> unat len
    \<and> unat len - unat i' < 64 \<and> concat bs' = take (unat i' - unat i) (drop (unat i) data)
    \<and> total_len ctx' = total_len ctx"
  using assms
proof (induction data len i ctx arbitrary: bs rule: sha_blocks.induct)
  case (1 data len i ctx)
  have sub: "unat (len - i) = unat len - unat i"
    using "1.prems"(3) by (simp add: unat_sub word_le_nat_alt)
  show ?case
  proof (cases "64 \<le> len - i")
    case True
    then have room: "64 \<le> unat len - unat i"
      using sub by (simp add: word_le_nat_alt)
    have i: "unat (i + 64) = unat i + 64"
      using room unat_lt_2p32 [of len] by (subst unat_add_lem [THEN iffD1]) simp_all
    have le: "unat (i + 64) \<le> unat len"
      using i room by simp
    let ?p = "drop (unat i) data"
    have block: "sha_repr (sha256_block ctx ?p) (bs @ [take 64 ?p]) []"
      using "1.prems"(1,2) room by (intro sha_repr_block_data) simp_all
    have call: "sha_blocks data len (i + 64) (sha256_block ctx ?p) = (i', ctx')"
      using "1.prems"(4) True by (simp add: sha_blocks.simps [of data len i])
    obtain bs' where IH: "sha_repr ctx' ((bs @ [take 64 ?p]) @ bs') []"
        "unat i + 64 \<le> unat i'" "unat i' \<le> unat len" "unat len - unat i' < 64"
        "concat bs' = take (unat i' - (unat i + 64)) (drop (unat i + 64) data)"
        "total_len ctx' = total_len ctx"
      using "1.IH" [OF True block "1.prems"(2) le call] i by auto
    have "take (unat i' - unat i) ?p = take 64 ?p @ concat bs'"
      using IH(2,5) take_add [of 64 "unat i' - (unat i + 64)" ?p] by (simp add: add.commute)
    with IH show ?thesis
      by (intro exI [of _ "take 64 ?p # bs'"]) simp
  next
    case False
    then have "i' = i" "ctx' = ctx" "unat len - unat i < 64"
      using "1.prems"(4) sub by (auto simp: sha_blocks.simps [of data len i] word_le_nat_alt not_le)
    with "1.prems" show ?thesis
      by (intro exI [of _ "[]"]) simp
  qed
qed

lemma sha_blocks_done: "unat i = unat len \<Longrightarrow> sha_blocks data len i ctx = (i, ctx)"
  by (simp add: sha_blocks.simps word_unat_eq_iff [symmetric])

text \<open>The part of an update that starts with an empty buffer: whole blocks, then the tail.\<close>

lemma sha_rest_repr:
  assumes "sha_repr ctx bs []" and "length data = unat len" and "unat i \<le> unat len"
    and "sha_blocks data len i ctx = (i', ctx')"
  shows "\<exists>bs' r'. sha_repr (sha_tail data len i' ctx') bs' r' \<and> length r' < 64
    \<and> concat bs' @ r' = concat bs @ drop (unat i) data
    \<and> total_len (sha_tail data len i' ctx') = total_len ctx"
proof -
  obtain bs' where b: "sha_repr ctx' (bs @ bs') []" "unat i \<le> unat i'" "unat i' \<le> unat len"
      "unat len - unat i' < 64" "concat bs' = take (unat i' - unat i) (drop (unat i) data)"
      "total_len ctx' = total_len ctx"
    using sha_blocks_repr [OF assms] by blast
  have t: "sha_repr (sha_tail data len i' ctx') (bs @ bs') (drop (unat i') data)"
      "total_len (sha_tail data len i' ctx') = total_len ctx'"
    using sha_tail_repr [OF b(1) assms(2) b(3)] b(4) by simp_all
  have "take (unat i' - unat i) (drop (unat i) data) @ drop (unat i') data = drop (unat i) data"
    using append_take_drop_id [of "unat i' - unat i" "drop (unat i) data"] b(2) by simp
  with t b assms(2) show ?thesis
    by (intro exI [of _ "bs @ bs'"] exI [of _ "drop (unat i') data"]) simp
qed

text \<open>An update absorbs its data, whatever the context holds already.\<close>

lemma sha256_update_repr:
  assumes "sha_repr ctx bs r" and "length r < 64" and "length data = unat len"
  shows "\<exists>bs' r'. sha_repr (sha256_update ctx data len) bs' r' \<and> length r' < 64
    \<and> concat bs' @ r' = concat bs @ r @ data
    \<and> total_len (sha256_update ctx data len) = total_len ctx + ucast len"
proof (cases "buf_len ctx = 0")
  case True
  let ?c0 = "ctx\<lparr>total_len := total_len ctx + ucast len\<rparr>"
  have "r = []" and c0: "sha_repr ?c0 bs []"
    using assms(1) True by (auto simp: sha_repr_def)
  then show ?thesis
    using sha_rest_repr [OF c0 assms(3), of 0] True
    by (simp add: sha256_update_def Let_def split: prod.split)
next
  case False
  let ?c0 = "ctx\<lparr>total_len := total_len ctx + ucast len\<rparr>"
  obtain i1 c1 where fill: "sha_fill data len 0 ?c0 = (i1, c1)" by fastforce
  obtain n where n: "unat i1 = n" "n \<le> unat len" "sha_repr c1 bs (r @ take n data)"
      "length r + n \<le> 64" "n = unat len \<or> length r + n = 64" "total_len c1 = total_len ?c0"
    using sha_fill_repr [of ?c0 bs r data len 0 i1 c1] assms fill by auto
  have full: "buf_len c1 = 64 \<longleftrightarrow> length r + n = 64"
    using buf_len_eq [OF n(3), of 64] n(2) assms(3) by simp
  show ?thesis
  proof (cases "length r + n = 64")
    case True
    let ?c = "(sha256_block c1 (sha_buf c1))\<lparr>buf_len := 0\<rparr>"
    have c: "sha_repr ?c (bs @ [r @ take n data]) []"
      using sha_repr_block_buf [OF n(3)] True n(2) assms(3) by simp
    then show ?thesis
      using sha_rest_repr [OF c assms(3), of i1] False True full fill n
      by (simp add: sha256_update_def Let_def split: prod.split)
  next
    case part: False
    then have "n = unat len" using n(5) by simp
    then have "sha256_update ctx data len = c1"
      using False part full fill n(1)
      by (simp add: sha256_update_def Let_def sha_blocks_done sha_tail.simps [of data len]
          word_less_nat_alt)
    then show ?thesis
      using n part assms(3) \<open>n = unat len\<close> by (intro exI [of _ bs] exI [of _ "r @ data"]) simp
  qed
qed

section \<open>Finalisation\<close>

lemma blocks64_concat:
  "(\<forall>b \<in> set bs. length b = 64) \<Longrightarrow> length r < 64 \<Longrightarrow> blocks64 (concat bs @ r) = bs"
  by (induction bs) (simp_all add: blocks64.simps)

lemma length_concat64: "(\<forall>b \<in> set bs. length b = 64) \<Longrightarrow> length (concat bs) = 64 * length bs"
  by (induction bs) auto

lemma sha_repr_length_mod:
  assumes "sha_repr ctx bs r" and "length r < 64"
  shows "length r = length (concat bs @ r) mod 64"
  using assms by (simp add: sha_repr_def length_concat64)

lemma pad_count:
  "n < 64 \<Longrightarrow> (120 - n) mod 64 = (if n \<le> 56 then 56 - n else 120 - n)" for n :: nat
proof (cases "n \<le> 56")
  case True
  then have "120 - n = 64 + (56 - n)" by simp
  then show ?thesis using True by (simp only: mod_add_self1) simp
qed simp

text \<open>The padding loop runs until 56 bytes wait in the buffer: at most 63 zero bytes.\<close>

lemma sha_pad_repr:
  assumes "sha_repr ctx bs r" and "length r < 64"
    and "k = (56 + 64 - length r) mod 64"
  shows "\<exists>ctx' bs' r'. sha_pad ctx = Some ctx' \<and> sha_repr ctx' bs' r' \<and> length r' = 56
    \<and> concat bs' @ r' = concat bs @ r @ replicate k 0"
  using assms
proof (induction k arbitrary: ctx bs r)
  case 0
  from "0.prems"(2,3) have "length r = 56" by (simp add: pad_count split: if_splits)
  then have "buf_len ctx = 56"
    using buf_len_eq [OF "0.prems"(1), of 56] by simp
  with \<open>length r = 56\<close> "0.prems"(1) show ?case
    by (intro exI [of _ ctx] exI [of _ bs] exI [of _ r]) (simp add: sha_pad.simps)
next
  case (Suc k)
  then have "length r \<noteq> 56" by auto
  then have call: "sha_pad ctx = sha_pad (sha256_update ctx [0] 1)"
    using buf_len_eq [OF Suc.prems(1), of 56] by (simp add: sha_pad.simps [of ctx])
  obtain bs1 r1 where up: "sha_repr (sha256_update ctx [0] 1) bs1 r1" "length r1 < 64"
      "concat bs1 @ r1 = concat bs @ r @ [0]"
    using sha256_update_repr [OF Suc.prems(1,2), of "[0]" 1] by auto
  have "length r1 = (length r + 1) mod 64"
    using sha_repr_length_mod [OF up(1,2)] sha_repr_length_mod [OF Suc.prems(1,2)] up(3)
    by (metis append.assoc length_append length_Cons list.size(3) mod_add_left_eq One_nat_def add_Suc_right
        add_0_right)
  then have "length r1 = (if length r = 63 then 0 else length r + 1)"
    using Suc.prems(2) by (auto simp: mod_Suc)
  then have "k = (56 + 64 - length r1) mod 64"
    using Suc.prems(2,3) up(2) by (auto simp: pad_count split: if_splits)
  from Suc.IH [OF up(1,2) this] obtain ctx' bs' r' where IH:
      "sha_pad (sha256_update ctx [0] 1) = Some ctx'" "sha_repr ctx' bs' r'" "length r' = 56"
      "concat bs' @ r' = concat bs1 @ r1 @ replicate k 0"
    by auto
  have "concat bs' @ r' = concat bs @ r @ replicate (Suc k) 0"
    using IH(4) up(3) by (metis append.assoc append_Cons append_Nil replicate_Suc)
  with IH show ?case
    unfolding call by blast
qed

lemma sha_repr_put_list:
  "sha_repr ctx bs r \<Longrightarrow> length r + length xs \<le> 64 \<Longrightarrow> n = length xs \<Longrightarrow>
     sha_repr (foldl (\<lambda>ctx j. sha_put ctx (xs ! j)) ctx [0..<n]) bs (r @ xs)"
proof -
  have "sha_repr (foldl sha_put ctx xs) bs (r @ xs)"
    if "sha_repr ctx bs r" "length r + length xs \<le> 64"
    using that
  proof (induction xs arbitrary: ctx r)
    case (Cons x xs)
    then show ?case
      using Cons.IH [OF sha_repr_put [OF Cons.prems(1)], of x] by simp
  qed simp
  moreover assume "n = length xs"
  moreover assume "sha_repr ctx bs r" "length r + length xs \<le> 64"
  ultimately show ?thesis
    by (simp add: foldl_nth_take)
qed

lemma be_digest_bytes:
  "length H = 8 \<Longrightarrow>
     concat (map (\<lambda>i. [ucast (drop_bit 24 (H ! i)), ucast (drop_bit 16 (H ! i)),
       ucast (drop_bit 8 (H ! i)), ucast (H ! i)]) [0..<8]) = concat (map be_bytes32 H)"
  by (auto simp: be_bytes32_def le_bytes_def length_Suc_conv numeral_eq_Suc)

lemma sha256_finalize_repr:
  assumes repr: "sha_repr ctx bs r" "length r < 64"
    and total: "total_len ctx = of_nat (length (concat bs @ r))"
  shows "\<exists>ctx'. sha256_finalize ctx = Some (ctx', sha256_digest (concat bs @ r))"
proof -
  let ?msg = "concat bs @ r"
  let ?len = "be_bytes64 (word_of_nat (8 * length ?msg))"
  obtain bs1 r1 where one: "sha_repr (sha256_update ctx [0x80] 1) bs1 r1" "length r1 < 64"
      "concat bs1 @ r1 = ?msg @ [0x80]"
    using sha256_update_repr [OF repr, of "[0x80]" 1] by auto
  obtain ctx2 bs2 r2 where two: "sha_pad (sha256_update ctx [0x80] 1) = Some ctx2"
      "sha_repr ctx2 bs2 r2" "length r2 = 56"
      "concat bs2 @ r2 = ?msg @ [0x80] @ replicate ((120 - length r1) mod 64) 0"
    using sha_pad_repr [OF one(1,2) refl] one(3) by auto
  have "(120 - length r1) mod 64 = (119 - length ?msg mod 64) mod 64"
  proof -
    have "length r1 = (length ?msg + 1) mod 64"
      using sha_repr_length_mod [OF one(1,2)] by (simp only: one(3)) simp
    then show ?thesis
      by (auto simp: mod_Suc)
  qed
  then have pad: "fips_pad ?msg = concat (bs2 @ [r2 @ ?len])"
    using two(4) by (simp add: fips_pad_def)
  have lenbuf: "map (\<lambda>i. ucast (drop_bit ((7 - i) * 8) (total_len ctx * 8)) :: u8) [0..<8] = ?len"
    unfolding be_bytes64_def total by (simp add: numeral_eq_Suc mult.commute)
  let ?c3 = "foldl (\<lambda>ctx j. sha_put ctx (?len ! j)) ctx2 [0..<8]"
  have "length ?len = 8" by (simp add: be_bytes64_def)
  then have three: "sha_repr ?c3 bs2 (r2 @ ?len)"
    using sha_repr_put_list [OF two(2), of ?len 8] two(3) by simp
  let ?c4 = "sha256_block ?c3 (sha_buf ?c3)"
  have "sha_repr (?c4\<lparr>buf_len := 0\<rparr>) (bs2 @ [r2 @ ?len]) []"
    using three two(3) \<open>length ?len = 8\<close> by (intro sha_repr_block_buf) simp_all
  from sha_reprD [OF this]
  have four: "sha_h ?c4 = foldl fips_compress fips_H0 (bs2 @ [r2 @ ?len])"
    and all64: "\<forall>b \<in> set (bs2 @ [r2 @ ?len]). length b = 64"
    by (simp_all only: sha_h_buf_len)
  have "blocks64 (concat (bs2 @ [r2 @ ?len]) @ []) = bs2 @ [r2 @ ?len]"
    using all64 by (rule blocks64_concat) simp
  then have "sha_h ?c4 = fips_hash ?msg"
    unfolding fips_hash_def pad four by (simp only: append_Nil2)
  moreover have "length (sha_h ?c4) = 8"
    unfolding four by (rule length_foldl_compress) (simp add: fips_H0_def)
  ultimately show ?thesis
    using two(1) lenbuf be_digest_bytes [of "sha_h ?c4"]
    by (simp add: sha256_finalize_def Let_def sha256_digest_def)
qed

section \<open>The streaming interface\<close>

text \<open>
  The contexts that arise: \<open>sha_absorbed ctx msg\<close> holds when \<open>ctx\<close> has taken in \<open>msg\<close>. A fresh
  context is any 64-byte buffer with whatever else is on the stack.
\<close>

definition sha_absorbed :: "sha256_ctx \<Rightarrow> u8 list \<Rightarrow> bool" where
  "sha_absorbed ctx msg \<longleftrightarrow> (\<exists>bs r. sha_repr ctx bs r \<and> length r < 64 \<and> concat bs @ r = msg)
     \<and> total_len ctx = of_nat (length msg)"

definition sha_fresh :: "sha256_ctx \<Rightarrow> bool" where
  "sha_fresh ctx \<longleftrightarrow> length (sha_buf ctx) = 64"

lemma sha_absorbed_init: "sha_fresh ctx \<Longrightarrow> sha_absorbed (sha256_init ctx) []"
  using sha_repr_init [of ctx]
  by (auto simp: sha_absorbed_def sha_fresh_def sha256_init_def intro!: exI [of _ "[]"])

lemma sha_absorbed_update:
  assumes "sha_absorbed ctx msg" and "length data = unat len"
  shows "sha_absorbed (sha256_update ctx data len) (msg @ data)"
proof -
  from assms(1) obtain bs r where "sha_repr ctx bs r" "length r < 64" "concat bs @ r = msg"
      "total_len ctx = of_nat (length msg)"
    by (auto simp: sha_absorbed_def)
  moreover from sha256_update_repr [OF this(1,2) assms(2)] obtain bs' r' where
      "sha_repr (sha256_update ctx data len) bs' r'" "length r' < 64"
      "concat bs' @ r' = concat bs @ r @ data"
      "total_len (sha256_update ctx data len) = total_len ctx + ucast len" by blast
  ultimately show ?thesis
    unfolding sha_absorbed_def using assms(2) by (intro conjI exI [of _ bs'] exI [of _ r']) auto
qed

lemma sha_absorbed_finalize:
  "sha_absorbed ctx msg \<Longrightarrow> \<exists>ctx'. sha256_finalize ctx = Some (ctx', sha256_digest msg)"
  using sha256_finalize_repr by (force simp: sha_absorbed_def)

interpretation sha_stream: stream_hash sha256_init sha256_update sha256_finalize
    sha_fresh sha_absorbed sha256_digest
  by unfold_locales (fact sha_absorbed_init sha_absorbed_update sha_absorbed_finalize)+

lemma length_sha256_digest [simp]: "length (sha256_digest msg) = 32"
proof -
  have "length (fips_hash msg) = 8"
    unfolding fips_hash_def by (rule length_foldl_compress) (simp add: fips_H0_def)
  then have "length (concat (map be_bytes32 (fips_hash msg))) = 4 * 8"
    by (simp add: length_concat comp_def be_bytes32_def sum_list_triv)
  then show ?thesis by (simp add: sha256_digest_def)
qed

section \<open>Properties\<close>

text \<open>
  C26. However a message is cut into pieces of less than 4 GiB, initialising a context with
  arbitrary previous contents, updating it with the pieces in order and finalising gives the
  SHA-256 digest of FIPS 180-4 of the whole message.
\<close>

theorem sha256_streaming_is_fips:
  assumes "length (sha_buf junk) = 64" and "\<forall>d \<in> set pieces. length d < 2 ^ 32"
  shows "\<exists>ctx'. sha256_finalize
      (foldl (\<lambda>ctx d. sha256_update ctx d (of_nat (length d))) (sha256_init junk) pieces)
    = Some (ctx', sha256_digest (concat pieces))"
  using sha_stream.feed_hash [of junk pieces] assms by (simp add: sha_fresh_def sha_stream.feed_def)

theorem sha256_streaming_is_fips_witness:
  "\<exists>ctx'. sha256_finalize
      (foldl (\<lambda>ctx d. sha256_update ctx d (of_nat (length d)))
        (sha256_init \<lparr>sha_h = [], sha_buf = replicate 64 9, buf_len = 77, total_len = 5\<rparr>)
        [replicate 100 1, [], replicate 30 2])
    = Some (ctx', sha256_digest (replicate 100 1 @ replicate 30 2))"
  using sha256_streaming_is_fips
    [of "\<lparr>sha_h = [], sha_buf = replicate 64 9, buf_len = 77, total_len = 5\<rparr>"
      "[replicate 100 1, [], replicate 30 2]"]
  by simp

end
