(* ===== verification/Mmio.thy ===== *)
theory Mmio
  imports Prelude
begin

text \<open>
  The machine the boot code runs on, as the code sees it: memory-mapped registers read and
  written one word at a time. What a register access does is the hardware's business, not the
  code's, so the hardware is a parameter: a \<open>device\<close> with a state of its own type, which a read
  may change (a FIFO is popped, a timer runs on). The \<open>bus\<close> field is a ghost log of all accesses,
  newest first, over which the properties speak; no code reads it.

  A function of the C sources that may wait for the hardware returns an \<open>option\<close>: \<open>None\<close> is a
  wait that never ends.
\<close>

section \<open>Devices and the bus\<close>

text \<open>
  The VideoCore also reads and writes one buffer in RAM, \<open>mbox_buf\<close>: \<open>mbox_load\<close> and
  \<open>mbox_store\<close> access its words, \<open>mbox_at\<close> is the address the linker gave it.
\<close>

record 's device =
  dev_read :: "u32 \<Rightarrow> 's \<Rightarrow> u32 \<times> 's"
  dev_write :: "u32 \<Rightarrow> u32 \<Rightarrow> 's \<Rightarrow> 's"
  mbox_at :: u32
  mbox_load :: "nat \<Rightarrow> 's \<Rightarrow> u32"
  mbox_store :: "nat \<Rightarrow> u32 \<Rightarrow> 's \<Rightarrow> 's"

datatype bus_event = BusRead u32 u32 | BusWrite u32 u32

record 's mach =
  hw :: 's
  bus :: "bus_event list"

definition mmio_r :: "'s device \<Rightarrow> u32 \<Rightarrow> ('s, 'z) mach_scheme \<Rightarrow> u32 \<times> ('s, 'z) mach_scheme" where
  "mmio_r D a m =
     (let (v, s) = dev_read D a (hw m) in (v, m\<lparr>hw := s, bus := BusRead a v # bus m\<rparr>))"

definition mmio_w :: "'s device \<Rightarrow> u32 \<Rightarrow> u32 \<Rightarrow> ('s, 'z) mach_scheme \<Rightarrow> ('s, 'z) mach_scheme" where
  "mmio_w D a v m = m\<lparr>hw := dev_write D a v (hw m), bus := BusWrite a v # bus m\<rparr>"

section \<open>The microsecond timer\<close>

definition TIMER_CLO_ADDR :: u32 where "TIMER_CLO_ADDR = 0x20003004"

definition now_us :: "'s device \<Rightarrow> ('s, 'z) mach_scheme \<Rightarrow> u32 \<times> ('s, 'z) mach_scheme" where
  "now_us D m = mmio_r D TIMER_CLO_ADDR m"

definition elapsed_at_least ::
    "'s device \<Rightarrow> u32 \<Rightarrow> u32 \<Rightarrow> ('s, 'z) mach_scheme \<Rightarrow> bool \<times> ('s, 'z) mach_scheme" where
  "elapsed_at_least D t0 budget_us m = (let (t, m) = now_us D m in (budget_us \<le> t - t0, m))"

partial_function (option) udelay_loop ::
    "'s device \<Rightarrow> u32 \<Rightarrow> u32 \<Rightarrow> ('s, 'z) mach_scheme \<Rightarrow> ('s, 'z) mach_scheme option" where
  "udelay_loop D t0 us m =
     (case elapsed_at_least D t0 us m of
        (done, m) \<Rightarrow> if done then Some m else udelay_loop D t0 us m)"

definition udelay_real ::
    "'s device \<Rightarrow> u32 \<Rightarrow> ('s, 'z) mach_scheme \<Rightarrow> ('s, 'z) mach_scheme option" where
  "udelay_real D us m = (let (t0, m) = now_us D m in udelay_loop D t0 us m)"

section \<open>The PL011 UART\<close>

text \<open>
  \<open>while ((*fr) & 0x20) { }\<close>, then one store to the data register. The same code is in the
  source four times: in \<open>stage0/sdread.c\<close> and twice in \<open>rpi1/runtime_stubs.c\<close> with one pair
  of addresses, in \<open>rpi4/runtime_stubs_rpi4.c\<close> with another.
\<close>

partial_function (option) uart_wait ::
    "'s device \<Rightarrow> u32 \<Rightarrow> ('s, 'z) mach_scheme \<Rightarrow> ('s, 'z) mach_scheme option" where
  "uart_wait D fr m =
     (case mmio_r D fr m of (v, m) \<Rightarrow> if any_bit v 0x20 then uart_wait D fr m else Some m)"

definition UART_FR_RPI1 :: u32 where "UART_FR_RPI1 = 0x20201018"
definition UART_DR_RPI1 :: u32 where "UART_DR_RPI1 = 0x20201000"
definition UART_FR_RPI4 :: u32 where "UART_FR_RPI4 = 0xFE201018"
definition UART_DR_RPI4 :: u32 where "UART_DR_RPI4 = 0xFE201000"

definition u_putc ::
    "'s device \<Rightarrow> char \<Rightarrow> ('s, 'z) mach_scheme \<Rightarrow> ('s, 'z) mach_scheme option" where
  "u_putc D c m =
     do { m \<leftarrow> uart_wait D UART_FR_RPI1 m; Some (mmio_w D UART_DR_RPI1 (of_char c) m) }"

fun u_puts :: "'s device \<Rightarrow> string \<Rightarrow> ('s, 'z) mach_scheme \<Rightarrow> ('s, 'z) mach_scheme option" where
  "u_puts D [] m = Some m"
| "u_puts D (c # s) m = do { m \<leftarrow> u_putc D c m; u_puts D s m }"

text \<open>\<open>for (i = 7; i >= 0; i = i - 1) u_putc(hexd[(v >> (i * 4)) & 0xF])\<close>\<close>

definition hexd :: string where "hexd = ''0123456789ABCDEF''"

fun u_hex32_loop :: "'s device \<Rightarrow> u32 \<Rightarrow> nat \<Rightarrow> ('s, 'z) mach_scheme \<Rightarrow> ('s, 'z) mach_scheme option" where
  "u_hex32_loop D v 0 m = Some m"
| "u_hex32_loop D v (Suc i) m =
     do { m \<leftarrow> u_putc D (hexd ! unat (drop_bit (i * 4) v AND 0xF)) m; u_hex32_loop D v i m }"

definition u_hex32 :: "'s device \<Rightarrow> u32 \<Rightarrow> ('s, 'z) mach_scheme \<Rightarrow> ('s, 'z) mach_scheme option" where
  "u_hex32 D v m = u_hex32_loop D v 8 m"

section \<open>What an operation does to the bus\<close>

text \<open>
  \<open>logs P m m'\<close>: the bus log of \<open>m'\<close> extends that of \<open>m\<close>, and every access in between
  satisfies \<open>P\<close>. \<open>io P m m'\<close>: moreover the program's own variables, in the extension of the
  record, are unchanged.
\<close>

definition logs :: "(bus_event \<Rightarrow> bool) \<Rightarrow> ('s, 'z) mach_scheme \<Rightarrow> ('s, 'z) mach_scheme \<Rightarrow> bool" where
  "logs P m m' \<longleftrightarrow> (\<exists>es. bus m' = es @ bus m \<and> list_all P es)"

definition io :: "(bus_event \<Rightarrow> bool) \<Rightarrow> ('s, 'z) mach_scheme \<Rightarrow> ('s, 'z) mach_scheme \<Rightarrow> bool" where
  "io P m m' \<longleftrightarrow> mach.more m' = mach.more m \<and> logs P m m'"

lemma logs_refl [simp]: "logs P m m"
  by (simp add: logs_def)

lemma logs_trans: "logs P m1 m2 \<Longrightarrow> logs P m2 m3 \<Longrightarrow> logs P m1 m3"
  by (auto simp: logs_def)

lemma logs_bus: "bus m2' = bus m2 \<Longrightarrow> logs P m1 m2' = logs P m1 m2"
  by (simp add: logs_def)

lemma io_refl [simp]: "io P m m"
  by (simp add: io_def)

lemma io_trans: "io P m1 m2 \<Longrightarrow> io P m2 m3 \<Longrightarrow> io P m1 m3"
  by (auto simp: io_def intro: logs_trans)

lemma logs_mono: "logs Q m m' \<Longrightarrow> (\<And>e. Q e \<Longrightarrow> P e) \<Longrightarrow> logs P m m'"
  by (auto simp: logs_def list_all_iff)

lemma io_mono: "io Q m m' \<Longrightarrow> (\<And>e. Q e \<Longrightarrow> P e) \<Longrightarrow> io P m m'"
  by (auto simp: io_def intro: logs_mono)

lemma io_more: "io P m m' \<Longrightarrow> mach.more m' = mach.more m"
  and io_logs: "io P m m' \<Longrightarrow> logs P m m'"
  by (simp_all add: io_def)

lemma mmio_r_io: "mmio_r D a m = (v, m') \<Longrightarrow> P (BusRead a v) \<Longrightarrow> io P m m'"
  by (auto simp: mmio_r_def io_def logs_def split: prod.splits)

lemma mmio_w_io: "P (BusWrite a v) \<Longrightarrow> io P m (mmio_w D a v m)"
  by (auto simp: mmio_w_def io_def logs_def)

text \<open>The chaining rules: a proof of \<open>io P m m'\<close> walks back from \<open>m'\<close> through the operations.\<close>

lemmas io_back = io_trans [rotated]

lemma io_back_w: "P (BusWrite a v) \<Longrightarrow> io P m m' \<Longrightarrow> io P m (mmio_w D a v m')"
  by (rule io_back [OF mmio_w_io])

lemma now_us_io: "now_us D m = (t, m') \<Longrightarrow> (\<And>v. P (BusRead TIMER_CLO_ADDR v)) \<Longrightarrow> io P m m'"
  by (simp add: now_us_def mmio_r_io)

lemma elapsed_io:
  "elapsed_at_least D t0 b m = (e, m') \<Longrightarrow> (\<And>v. P (BusRead TIMER_CLO_ADDR v)) \<Longrightarrow> io P m m'"
  by (auto simp: elapsed_at_least_def now_us_io split: prod.splits)

lemma udelay_loop_io:
  assumes "udelay_loop D t0 us m = Some m'" and P: "\<And>v. P (BusRead TIMER_CLO_ADDR v)"
  shows "io P m m'"
  by (rule udelay_loop.raw_induct [where P = "\<lambda>D t0 us m m'. io P m m'", OF _ assms(1)])
    (auto split: prod.splits if_splits intro: elapsed_io io_trans [OF elapsed_io] P)

lemma udelay_io:
  "udelay_real D us m = Some m' \<Longrightarrow> (\<And>v. P (BusRead TIMER_CLO_ADDR v)) \<Longrightarrow> io P m m'"
  by (auto simp: udelay_real_def split: prod.splits
      intro: io_trans [OF now_us_io udelay_loop_io])

lemma uart_wait_io:
  assumes "uart_wait D fr m = Some m'" and P: "\<And>v. P (BusRead fr v)"
  shows "io P m m'"
proof -
  have "(\<forall>v. P (BusRead fr v)) \<longrightarrow> io P m m'"
    by (rule uart_wait.raw_induct
        [where P = "\<lambda>D fr m m'. (\<forall>v. P (BusRead fr v)) \<longrightarrow> io P m m'", OF _ assms(1)])
      (auto split: prod.splits if_splits intro: mmio_r_io io_trans [OF mmio_r_io])
  with P show ?thesis by blast
qed

lemma bind_SomeE:
  assumes "Option.bind f g = Some y"
  obtains x where "f = Some x" "g x = Some y"
  using assms by (cases f) auto

definition uart_ev :: "bus_event \<Rightarrow> bool" where
  "uart_ev e \<longleftrightarrow> (\<exists>v. e = BusRead UART_FR_RPI1 v \<or> e = BusWrite UART_DR_RPI1 v)"

lemma uart_ev_simps [simp]:
  "uart_ev (BusRead a v) \<longleftrightarrow> a = UART_FR_RPI1" "uart_ev (BusWrite a v) \<longleftrightarrow> a = UART_DR_RPI1"
  by (auto simp: uart_ev_def)

lemma u_putc_uart: "u_putc D c m = Some m' \<Longrightarrow> io uart_ev m m'"
  by (auto simp: u_putc_def elim!: bind_SomeE intro: io_trans [OF uart_wait_io mmio_w_io])

lemma u_puts_uart: "u_puts D s m = Some m' \<Longrightarrow> io uart_ev m m'"
proof (induction s arbitrary: m)
  case (Cons c s)
  then obtain m1 where "u_putc D c m = Some m1" "u_puts D s m1 = Some m'"
    by (auto elim!: bind_SomeE)
  with Cons show ?case by (blast intro: io_trans u_putc_uart)
qed simp

lemma u_putc_io: "u_putc D c m = Some m' \<Longrightarrow> (\<And>e. uart_ev e \<Longrightarrow> P e) \<Longrightarrow> io P m m'"
  and u_puts_io: "u_puts D s m = Some m' \<Longrightarrow> (\<And>e. uart_ev e \<Longrightarrow> P e) \<Longrightarrow> io P m m'"
  by (blast intro: io_mono u_putc_uart u_puts_uart)+

lemmas [bus_intros] =
  io_back [OF mmio_r_io] io_back [OF now_us_io] io_back [OF elapsed_io]
  io_back [OF udelay_io] io_back [OF u_putc_io] io_back [OF u_puts_io]

section \<open>What was written to a register\<close>

fun written :: "u32 \<Rightarrow> bus_event list \<Rightarrow> u32 list" where
  "written a [] = []"
| "written a (BusRead b v # es) = written a es"
| "written a (BusWrite b v # es) = written a es @ (if b = a then [v] else [])"

lemma written_append [simp]: "written a (xs @ ys) = written a ys @ written a xs"
proof (induction xs)
  case (Cons e xs)
  then show ?case by (cases e) auto
qed simp

lemma written_none: "list_all (\<lambda>e. \<forall>v. e \<noteq> BusWrite a v) es \<Longrightarrow> written a es = []"
proof (induction es)
  case (Cons e es)
  then show ?case by (cases e) auto
qed simp

lemma logs_written: "logs P m m' \<Longrightarrow> (\<And>v. \<not> P (BusWrite a v)) \<Longrightarrow> written a (bus m') = written a (bus m)"
  by (force simp: logs_def list_all_iff intro!: written_none)

lemmas io_written = logs_written [OF io_logs]

lemma written_w [simp]:
  "written a (bus (mmio_w D b v m)) = written a (bus m) @ (if b = a then [v] else [])"
  by (simp add: mmio_w_def)

lemma u_putc_out:
  "u_putc D c m = Some m' \<Longrightarrow>
     written UART_DR_RPI1 (bus m') = written UART_DR_RPI1 (bus m) @ [of_char c]"
proof -
  have "uart_wait D UART_FR_RPI1 m = Some m1 \<Longrightarrow>
      written UART_DR_RPI1 (bus m1) = written UART_DR_RPI1 (bus m)" for m1
    by (rule io_written [OF uart_wait_io [where P = "\<lambda>e. \<exists>v. e = BusRead UART_FR_RPI1 v"]]) auto
  then show "u_putc D c m = Some m' \<Longrightarrow>
      written UART_DR_RPI1 (bus m') = written UART_DR_RPI1 (bus m) @ [of_char c]"
    by (auto simp: u_putc_def elim!: bind_SomeE)
qed

lemma u_puts_out:
  "u_puts D s m = Some m' \<Longrightarrow>
     written UART_DR_RPI1 (bus m') = written UART_DR_RPI1 (bus m) @ map of_char s"
  by (induction s arbitrary: m) (auto elim!: bind_SomeE simp: u_putc_out)

definition hex_digits :: "u32 \<Rightarrow> string" where
  "hex_digits v = map (\<lambda>i. hexd ! unat (drop_bit (i * 4) v AND 0xF)) [7, 6, 5, 4, 3, 2, 1, 0]"

lemma u_hex32_loop_puts:
  "u_hex32_loop D v n =
     u_puts D (map (\<lambda>i. hexd ! unat (drop_bit (i * 4) v AND 0xF)) (rev [0..<n]))"
proof (induction n)
  case (Suc n)
  then show ?case by (intro ext) simp
qed (simp add: fun_eq_iff)

lemma u_hex32_puts: "u_hex32 D v m = u_puts D (hex_digits v) m"
proof -
  have "rev [0..<8] = [7, 6, 5, 4, 3, 2, 1, 0 :: nat]"
    by (simp add: upt_rec)
  then show ?thesis
    by (simp only: u_hex32_def hex_digits_def u_hex32_loop_puts)
qed

lemma u_hex32_io: "u_hex32 D v m = Some m' \<Longrightarrow> (\<And>e. uart_ev e \<Longrightarrow> P e) \<Longrightarrow> io P m m'"
  by (simp add: u_hex32_puts u_puts_io)

lemmas [bus_intros] = io_back [OF u_hex32_io]

section \<open>Returning\<close>

text \<open>\<open>returns x\<close>: the operation came back. The rules follow the structure of a function body.\<close>

definition returns :: "'a option \<Rightarrow> bool" where
  "returns x \<longleftrightarrow> (\<exists>y. x = Some y)"

lemma returns_Some [live_intros]: "returns (Some x)"
  by (simp add: returns_def)

lemma returns_bind [live_intros]:
  "returns f \<Longrightarrow> (\<And>x. f = Some x \<Longrightarrow> returns (g x)) \<Longrightarrow> returns (Option.bind f g)"
  by (auto simp: returns_def)

lemma returns_if [live_intros]:
  "(b \<Longrightarrow> returns x) \<Longrightarrow> (\<not> b \<Longrightarrow> returns y) \<Longrightarrow> returns (if b then x else y)"
  by simp

lemma returns_prod [live_intros]:
  "(\<And>x y. p = (x, y) \<Longrightarrow> returns (f x y)) \<Longrightarrow> returns (case p of (x, y) \<Rightarrow> f x y)"
  by (cases p) simp

lemma returns_let [live_intros]: "returns (f x) \<Longrightarrow> returns (Let x f)"
  by simp

section \<open>Live hardware\<close>

text \<open>
  What the code relies on to get out of its waits. The timer counts microseconds, \<open>k\<close> ticks
  each; every bus access takes at least one tick and less than about a second
  (\<open>2 ^ 20\<close> microseconds); a read of \<open>TIMER_CLO\<close> gives the low 32 bits of the count (BCM2835
  ARM Peripherals, chapter 12). The transmit FIFO of the UART drains: \<open>busy\<close> bounds how often
  a read of the flag register can still find it full.
\<close>

definition timer_ok :: "'s device \<Rightarrow> ('s \<Rightarrow> nat) \<Rightarrow> nat \<Rightarrow> bool" where
  "timer_ok D clock k \<longleftrightarrow> 0 < k
     \<and> (\<forall>a s. clock s < clock (snd (dev_read D a s)) \<and> clock (snd (dev_read D a s)) \<le> clock s + k * 2 ^ 20)
     \<and> (\<forall>a v s. clock s \<le> clock (dev_write D a v s) \<and> clock (dev_write D a v s) \<le> clock s + k * 2 ^ 20)
     \<and> (\<forall>s. fst (dev_read D TIMER_CLO_ADDR s) = of_nat (clock (snd (dev_read D TIMER_CLO_ADDR s)) div k))"

definition uart_ok :: "'s device \<Rightarrow> u32 \<Rightarrow> ('s \<Rightarrow> nat) \<Rightarrow> bool" where
  "uart_ok D fr busy \<longleftrightarrow>
     (\<forall>s. any_bit (fst (dev_read D fr s)) 0x20 \<longrightarrow> busy (snd (dev_read D fr s)) < busy s)"

definition live :: "'s device \<Rightarrow> bool" where
  "live D \<longleftrightarrow> (\<exists>clock k. timer_ok D clock k) \<and> (\<exists>busy. uart_ok D UART_FR_RPI1 busy)"

lemma uart_wait_live:
  assumes "uart_ok D fr busy"
  shows "returns (uart_wait D fr m)"
proof (induction "busy (hw m)" arbitrary: m rule: less_induct)
  case less
  obtain v m1 where r: "mmio_r D fr m = (v, m1)" by fastforce
  then have v: "v = fst (dev_read D fr (hw m))" and m1: "hw m1 = snd (dev_read D fr (hw m))"
    by (auto simp: mmio_r_def split: prod.splits)
  show ?case
  proof (cases "any_bit v 0x20")
    case True
    with assms v m1 have "busy (hw m1) < busy (hw m)"
      by (simp add: uart_ok_def)
    from less [OF this] show ?thesis
      using True r by (simp add: uart_wait.simps [of D fr m])
  next
    case False
    then show ?thesis
      using r by (simp add: uart_wait.simps [of D fr m] returns_def)
  qed
qed

lemma u_putc_live: "uart_ok D UART_FR_RPI1 busy \<Longrightarrow> returns (u_putc D c m)"
  by (auto simp: u_putc_def intro!: live_intros uart_wait_live)

lemma u_puts_live: "uart_ok D UART_FR_RPI1 busy \<Longrightarrow> returns (u_puts D s m)"
  by (induction s arbitrary: m) (auto intro!: live_intros u_putc_live)

text \<open>Waiting for the timer ends: the clock moves on with every access.\<close>

lemma mmio_r_clock:
  assumes "timer_ok D clock k" and "mmio_r D a m = (v, m')"
  shows "clock (hw m) < clock (hw m')" and "clock (hw m') \<le> clock (hw m) + k * 2 ^ 20"
  using assms by (auto simp: timer_ok_def mmio_r_def split: prod.splits) (metis snd_conv)+

lemma elapsed_clock:
  assumes T: "timer_ok D clock k" and t0: "t0 = of_nat (c0 div k)"
    and c0: "c0 \<le> clock (hw m)" and bound: "clock (hw m) \<le> c0 + k * 2 ^ 31"
    and el: "elapsed_at_least D t0 budget m = (e, m')"
  shows "clock (hw m) < clock (hw m')" and "\<not> e \<Longrightarrow> clock (hw m') < c0 + k * unat budget"
proof -
  obtain t where r: "mmio_r D TIMER_CLO_ADDR m = (t, m')" and e: "e \<longleftrightarrow> budget \<le> t - t0"
    using el by (auto simp: elapsed_at_least_def now_us_def split: prod.splits)
  let ?c = "clock (hw m')"
  note clk = mmio_r_clock [OF T r]
  then show "clock (hw m) < ?c" by simp
  have k: "0 < k" using T by (simp add: timer_ok_def)
  have t: "t = of_nat (?c div k)"
    using T r by (auto simp: timer_ok_def mmio_r_def split: prod.splits) (metis fst_conv snd_conv)
  have le: "c0 div k \<le> ?c div k"
    using c0 clk by (intro div_le_mono) simp
  have "?c \<le> c0 + k * (2 ^ 31 + 2 ^ 20)"
    using bound clk by (simp add: distrib_left)
  then have "?c div k \<le> (c0 + k * (2 ^ 31 + 2 ^ 20)) div k"
    by (rule div_le_mono)
  also have "\<dots> = c0 div k + (2 ^ 31 + 2 ^ 20)"
    using k by (subst mult.commute) (simp only: div_mult_self1)
  finally have small: "?c div k - c0 div k < 2 ^ 32" by simp
  have "t - t0 = of_nat (?c div k - c0 div k)"
    using le by (simp add: t t0 of_nat_diff)
  then have "unat (t - t0) = ?c div k - c0 div k"
    using small by (simp add: unat_of_nat)
  then have "\<not> e \<Longrightarrow> ?c div k < unat budget + c0 div k"
    using le by (simp add: e word_le_nat_alt not_le)
  then have "\<not> e \<Longrightarrow> ?c < (unat budget + c0 div k) * k"
    using k by (simp add: div_less_iff_less_mult)
  moreover have "(unat budget + c0 div k) * k \<le> c0 + k * unat budget"
    using div_times_less_eq_dividend [of c0 k] by (simp add: algebra_simps)
  ultimately show "\<not> e \<Longrightarrow> ?c < c0 + k * unat budget" by simp
qed

text \<open>
  The timed loops all have one shape: at the head, the timer read \<open>t0\<close> was taken at a clock
  \<open>c0\<close> in the past, and less than the budget has gone by. \<open>in_budget\<close> is that invariant.
\<close>

definition in_budget ::
    "('s \<Rightarrow> nat) \<Rightarrow> nat \<Rightarrow> nat \<Rightarrow> u32 \<Rightarrow> u32 \<Rightarrow> ('s, 'z) mach_scheme \<Rightarrow> bool" where
  "in_budget clock k c0 t0 budget m \<longleftrightarrow>
     t0 = of_nat (c0 div k) \<and> c0 \<le> clock (hw m) \<and> clock (hw m) \<le> c0 + k * unat budget"

lemma in_budget_start:
  assumes "timer_ok D clock k" and "now_us D m = (t0, m')"
  shows "in_budget clock k (clock (hw m')) t0 budget m'"
  using assms
  by (auto simp: timer_ok_def in_budget_def now_us_def mmio_r_def split: prod.splits)
    (metis fst_conv snd_conv)

lemma elapsed_in_budget:
  assumes T: "timer_ok D clock k" and c0: "t0 = of_nat (c0 div k)" "c0 \<le> clock (hw m)"
    and bound: "clock (hw m) \<le> c0 + k * 2 ^ 31"
    and el: "elapsed_at_least D t0 budget m = (False, m')"
  shows "in_budget clock k c0 t0 budget m'" and "clock (hw m) < clock (hw m')"
  using elapsed_clock [OF T c0 bound el] c0 by (auto simp: in_budget_def)

lemma udelay_loop_live:
  assumes T: "timer_ok D clock k" and us: "unat us \<le> 2 ^ 31"
  shows "in_budget clock k c0 t0 us m \<Longrightarrow> returns (udelay_loop D t0 us m)"
proof (induction "c0 + k * unat us - clock (hw m)" arbitrary: m rule: less_induct)
  case less
  obtain e m1 where el: "elapsed_at_least D t0 us m = (e, m1)" by fastforce
  have "clock (hw m) \<le> c0 + k * 2 ^ 31"
    using less.prems us unfolding in_budget_def by (meson add_left_mono le_trans mult_le_mono2)
  note next_in = elapsed_in_budget [OF T _ _ this, of t0 us m1]
  show ?case
  proof (cases e)
    case False
    with next_in less.prems el
    have "in_budget clock k c0 t0 us m1" "clock (hw m) < clock (hw m1)"
      by (auto simp: in_budget_def)
    with less.prems have "returns (udelay_loop D t0 us m1)"
      by (intro less.hyps) (auto simp: in_budget_def)
    with False el show ?thesis by (simp add: udelay_loop.simps [of D t0 us m])
  qed (use el in \<open>simp add: udelay_loop.simps [of D t0 us m] returns_def\<close>)
qed

lemma udelay_live:
  assumes "timer_ok D clock k" and "unat us \<le> 2 ^ 31"
  shows "returns (udelay_real D us m)"
  using udelay_loop_live [OF assms in_budget_start [OF assms(1)]]
  by (auto simp: udelay_real_def split: prod.split)

text \<open>
  The other timed loop reads one register until its value satisfies a condition, and gives up
  (returns \<open>None\<close> in place of the value) when the budget is spent. The driver has four such loops.
\<close>

partial_function (option) poll_reg ::
    "'s device \<Rightarrow> u32 \<Rightarrow> (u32 \<Rightarrow> bool) \<Rightarrow> u32 \<Rightarrow> u32 \<Rightarrow> ('s, 'z) mach_scheme
      \<Rightarrow> (u32 option \<times> ('s, 'z) mach_scheme) option" where
  "poll_reg D a stop t0 budget m =
     (case mmio_r D a m of (v, m) \<Rightarrow>
        if stop v then Some (Some v, m)
        else case elapsed_at_least D t0 budget m of (e, m) \<Rightarrow>
          if e then Some (None, m) else poll_reg D a stop t0 budget m)"

lemma poll_reg_ev:
  assumes "poll_reg D a stop t0 budget m = Some (r, m')"
  shows "io (\<lambda>e. \<exists>v. e = BusRead a v \<or> e = BusRead TIMER_CLO_ADDR v) m m'
    \<and> (\<forall>v. r = Some v \<longrightarrow> stop v)"
proof -
  let ?Q = "\<lambda>a e. \<exists>v. e = BusRead a v \<or> e = BusRead TIMER_CLO_ADDR v"
  let ?P = "\<lambda>a stop m x. io (?Q a) m (snd x) \<and> (\<forall>v. fst x = Some v \<longrightarrow> stop v)"
  have "?P a stop m (r, m')"
  proof (rule poll_reg.raw_induct [where P = "\<lambda>D a stop t0 budget. ?P a stop", OF _ assms])
    fix poll_reg D a stop t0 budget m x
    assume IH: "\<And>D a stop t0 budget m x. poll_reg D a stop t0 budget m = Some x \<Longrightarrow> ?P a stop m x"
      and eq: "(case mmio_r D a m of (v, m) \<Rightarrow>
        if stop v then Some (Some v, m)
        else case elapsed_at_least D t0 budget m of (e, m) \<Rightarrow>
          if e then Some (None, m) else poll_reg D a stop t0 budget m) = Some x"
    obtain v m1 where rd: "mmio_r D a m = (v, m1)" by fastforce
    obtain e m2 where el: "elapsed_at_least D t0 budget m1 = (e, m2)" by fastforce
    have "io (?Q a) m m1" "io (?Q a) m m2"
      using mmio_r_io [OF rd, of "?Q a"] elapsed_io [OF el, of "?Q a"] by (auto intro: io_trans)
    then show "?P a stop m x"
      using eq IH [of D a stop t0 budget m2 x] by (auto simp: rd el split: if_splits intro: io_trans)
  qed
  then show ?thesis by simp
qed

lemma poll_reg_io:
  assumes "poll_reg D a stop t0 budget m = Some (r, m')"
    and "\<And>v. P (BusRead a v)" and "\<And>v. P (BusRead TIMER_CLO_ADDR v)"
  shows "io P m m'"
  using poll_reg_ev [OF assms(1)] assms(2,3) by (blast intro: io_mono)

lemmas poll_reg_stop = poll_reg_ev [THEN conjunct2, rule_format]

lemmas [bus_intros] = io_back [OF poll_reg_io]

lemma poll_reg_live:
  assumes T: "timer_ok D clock k" and us: "unat us \<le> 2 ^ 30"
  shows "in_budget clock k c0 t0 us m \<Longrightarrow> returns (poll_reg D a stop t0 us m)"
proof (induction "c0 + k * unat us - clock (hw m)" arbitrary: m rule: less_induct)
  case less
  obtain v m1 where rd: "mmio_r D a m = (v, m1)" by fastforce
  obtain e m2 where el: "elapsed_at_least D t0 us m1 = (e, m2)" by fastforce
  note clk = mmio_r_clock [OF T rd]
  have "k * unat us + k * 2 ^ 20 \<le> k * 2 ^ 31"
    using us mult_le_mono2 [of "unat us + 2 ^ 20" "2 ^ 31" k] by (simp add: distrib_left)
  moreover have head: "c0 \<le> clock (hw m)" "clock (hw m) \<le> c0 + k * unat us"
    using less.prems by (simp_all add: in_budget_def)
  ultimately have "clock (hw m1) \<le> c0 + k * 2 ^ 31" and "c0 \<le> clock (hw m1)"
    using clk by linarith+
  note next_in = elapsed_in_budget [OF T _ this(2,1), of t0 us m2]
  show ?case
  proof (cases "stop v \<or> e")
    case False
    with next_in less.prems el
    have "in_budget clock k c0 t0 us m2" "clock (hw m) < clock (hw m2)"
      using clk(1) by (auto simp: in_budget_def)
    with less.prems have "returns (poll_reg D a stop t0 us m2)"
      by (intro less.hyps) (auto simp: in_budget_def)
    with False rd el show ?thesis by (simp add: poll_reg.simps [of D a stop t0 us m])
  qed (use rd el in \<open>auto simp: poll_reg.simps [of D a stop t0 us m] returns_def\<close>)
qed

text \<open>All of the above from \<open>live\<close>.\<close>

lemma live_uart [live_intros]:
  assumes "live D"
  shows "returns (u_putc D c m)" "returns (u_puts D s m)" "returns (u_hex32 D v m)"
  using assms u_putc_live u_puts_live by (auto simp: live_def u_hex32_puts)

lemma live_udelay [live_intros]:
  "live D \<Longrightarrow> unat us \<le> 2 ^ 31 \<Longrightarrow> returns (udelay_real D us m)"
  using udelay_live by (auto simp: live_def)

lemma live_poll [live_intros]:
  assumes "live D" and "unat us \<le> 2 ^ 30" and "now_us D m = (t0, m')"
  shows "returns (poll_reg D a stop t0 us m')"
proof -
  obtain clock k where "timer_ok D clock k"
    using assms(1) by (auto simp: live_def)
  from poll_reg_live [OF this assms(2) in_budget_start [OF this assms(3)]] show ?thesis .
qed

text \<open>Messages are not unfolded letter by letter.\<close>

declare u_puts.simps [simp del]

end
