(* ===== verification/Sd_Driver.thy ===== *)
theory Sd_Driver
  imports Mmio
begin

text \<open>
  The SD driver of the boot loader, \<open>boot/stage0/sdread.c\<close>: the register map, the command
  dispatcher \<open>stage0_send_cmd\<close>, the bring-up \<open>stage0_sd_init\<close>, and the block transfers
  \<open>stage0_sd_read_block\<close> and \<open>stage0_sd_write_block\<close>. The static variables \<open>s_rca\<close> and
  \<open>s_is_sdhc\<close> are fields of the state; a result is the return code with the new state, or
  \<open>None\<close> when a wait for the hardware never ends. A buffer handed to a block transfer is the
  list of its 32-bit words, as the code accesses it.
\<close>

section \<open>Registers and constants\<close>

definition SDCMD_ADDR :: u32 where "SDCMD_ADDR = 0x20202000"
definition SDARG_ADDR :: u32 where "SDARG_ADDR = 0x20202004"
definition SDTOUT_ADDR :: u32 where "SDTOUT_ADDR = 0x20202008"
definition SDCDIV_ADDR :: u32 where "SDCDIV_ADDR = 0x2020200C"
definition SDRSP0_ADDR :: u32 where "SDRSP0_ADDR = 0x20202010"
definition SDRSP1_ADDR :: u32 where "SDRSP1_ADDR = 0x20202014"
definition SDRSP2_ADDR :: u32 where "SDRSP2_ADDR = 0x20202018"
definition SDRSP3_ADDR :: u32 where "SDRSP3_ADDR = 0x2020201C"
definition SDHSTS_ADDR :: u32 where "SDHSTS_ADDR = 0x20202020"
definition SDVDD_ADDR :: u32 where "SDVDD_ADDR = 0x20202030"
definition SDEDM_ADDR :: u32 where "SDEDM_ADDR = 0x20202034"
definition SDHCFG_ADDR :: u32 where "SDHCFG_ADDR = 0x20202038"
definition SDHBCT_ADDR :: u32 where "SDHBCT_ADDR = 0x2020203C"
definition SDHBLC_ADDR :: u32 where "SDHBLC_ADDR = 0x20202050"
definition SDDATA_ADDR :: u32 where "SDDATA_ADDR = 0x20202040"
definition GPFSEL4_ADDR :: u32 where "GPFSEL4_ADDR = 0x20200010"
definition GPFSEL5_ADDR :: u32 where "GPFSEL5_ADDR = 0x20200014"

definition SDCMD_NEW_FLAG :: u32 where "SDCMD_NEW_FLAG = 0x8000"
definition SDCMD_FAIL_FLAG :: u32 where "SDCMD_FAIL_FLAG = 0x4000"
definition SDCMD_BUSYWAIT :: u32 where "SDCMD_BUSYWAIT = 0x800"
definition SDCMD_NO_RESPONSE :: u32 where "SDCMD_NO_RESPONSE = 0x400"
definition SDCMD_LONG_RESPONSE :: u32 where "SDCMD_LONG_RESPONSE = 0x200"
definition SDCMD_READ_CMD :: u32 where "SDCMD_READ_CMD = 0x40"
definition SDCMD_WRITE_CMD :: u32 where "SDCMD_WRITE_CMD = 0x80"
definition SDCMD_CMD_MASK :: u32 where "SDCMD_CMD_MASK = 0x3f"

definition SDHSTS_ERROR_MASK :: u32 where "SDHSTS_ERROR_MASK = 0xF8"
definition SDHSTS_CRC7_ERROR :: u32 where "SDHSTS_CRC7_ERROR = 0x10"

definition SDEDM_FSM_MASK :: u32 where "SDEDM_FSM_MASK = 0xF"
definition SDEDM_FSM_IDENTMODE :: u32 where "SDEDM_FSM_IDENTMODE = 0x0"
definition SDEDM_FSM_DATAMODE :: u32 where "SDEDM_FSM_DATAMODE = 0x1"
definition SDEDM_FSM_READDATA :: u32 where "SDEDM_FSM_READDATA = 0x2"
definition SDEDM_FSM_READWAIT :: u32 where "SDEDM_FSM_READWAIT = 0x4"
definition SDEDM_FSM_WRITESTART1 :: u32 where "SDEDM_FSM_WRITESTART1 = 0xA"
definition SDEDM_FORCE_DATA_MODE_BIT :: u32 where "SDEDM_FORCE_DATA_MODE_BIT = push_bit 19 1"

definition SDDATA_FIFO_PIO_BURST :: nat where "SDDATA_FIFO_PIO_BURST = 8"

definition OCR_BUSY :: u32 where "OCR_BUSY = 0x80000000"
definition OCR_HCS :: u32 where "OCR_HCS = 0x40000000"

definition TIMEOUT_US :: u32 where "TIMEOUT_US = 1000000"
definition CMD_TIMEOUT_US :: u32 where "CMD_TIMEOUT_US = 100000"

lemmas reg_defs = SDCMD_ADDR_def SDARG_ADDR_def SDTOUT_ADDR_def SDCDIV_ADDR_def SDRSP0_ADDR_def
  SDRSP1_ADDR_def SDRSP2_ADDR_def SDRSP3_ADDR_def SDHSTS_ADDR_def SDVDD_ADDR_def SDEDM_ADDR_def
  SDHCFG_ADDR_def SDHBCT_ADDR_def SDHBLC_ADDR_def SDDATA_ADDR_def GPFSEL4_ADDR_def
  GPFSEL5_ADDR_def UART_DR_RPI1_def UART_FR_RPI1_def TIMER_CLO_ADDR_def

lemmas sd_flag_defs = SDCMD_NEW_FLAG_def SDCMD_FAIL_FLAG_def SDCMD_BUSYWAIT_def
  SDCMD_NO_RESPONSE_def SDCMD_LONG_RESPONSE_def SDCMD_READ_CMD_def SDCMD_WRITE_CMD_def
  SDCMD_CMD_MASK_def SDHSTS_ERROR_MASK_def SDHSTS_CRC7_ERROR_def SDEDM_FSM_MASK_def
  SDEDM_FSM_IDENTMODE_def SDEDM_FSM_DATAMODE_def SDEDM_FSM_READDATA_def SDEDM_FSM_READWAIT_def
  SDEDM_FSM_WRITESTART1_def SDEDM_FORCE_DATA_MODE_BIT_def OCR_BUSY_def OCR_HCS_def
  TIMEOUT_US_def CMD_TIMEOUT_US_def SDDATA_FIFO_PIO_BURST_def

section \<open>Commands\<close>

record cmd_result =
  response :: "u32 list"
  err :: int

record 's stage0 = "'s mach" +
  s_rca :: u32
  s_is_sdhc :: bool
  block_buf :: "u8 list"
  ram :: "u32 \<Rightarrow> u8"

text \<open>\<open>edm & SDEDM_FSM_MASK\<close>, and the two loops that wait for \<open>SDCMD_NEW_FLAG\<close> to clear.\<close>

definition fsm_idle :: "u32 \<Rightarrow> bool" where
  "fsm_idle edm \<longleftrightarrow> edm AND SDEDM_FSM_MASK = SDEDM_FSM_IDENTMODE
     \<or> edm AND SDEDM_FSM_MASK = SDEDM_FSM_DATAMODE"

definition new_flag_wait ::
    "'s device \<Rightarrow> ('s, 'z) mach_scheme \<Rightarrow> (u32 option \<times> ('s, 'z) mach_scheme) option" where
  "new_flag_wait D m =
     (let (t0, m) = now_us D m
      in poll_reg D SDCMD_ADDR (\<lambda>sdcmd. \<not> any_bit sdcmd SDCMD_NEW_FLAG) t0 CMD_TIMEOUT_US m)"

text \<open>The value written to \<open>SDCMD\<close>.\<close>

definition sdcmd_word :: "u32 \<Rightarrow> bool \<Rightarrow> bool \<Rightarrow> bool \<Rightarrow> bool \<Rightarrow> bool \<Rightarrow> u32" where
  "sdcmd_word cmd_idx resp_present resp_136 resp_busy is_read is_write =
     (let sdcmd = cmd_idx AND SDCMD_CMD_MASK;
          sdcmd = (if \<not> resp_present then sdcmd OR SDCMD_NO_RESPONSE
            else (let sdcmd = (if resp_136 then sdcmd OR SDCMD_LONG_RESPONSE else sdcmd)
              in if resp_busy then sdcmd OR SDCMD_BUSYWAIT else sdcmd));
          sdcmd = (if is_read then sdcmd OR SDCMD_READ_CMD else sdcmd);
          sdcmd = (if is_write then sdcmd OR SDCMD_WRITE_CMD else sdcmd)
      in sdcmd OR SDCMD_NEW_FLAG)"

text \<open>The response registers; a long response arrives in the opposite order.\<close>

definition read_response ::
    "'s device \<Rightarrow> bool \<Rightarrow> bool \<Rightarrow> ('s, 'z) mach_scheme \<Rightarrow> cmd_result \<times> ('s, 'z) mach_scheme" where
  "read_response D resp_present resp_136 m =
     (if \<not> resp_present then (\<lparr>response = [0, 0, 0, 0], err = 0\<rparr>, m)
      else if resp_136 then
        (let (r0, m) = mmio_r D SDRSP0_ADDR m; (r1, m) = mmio_r D SDRSP1_ADDR m;
             (r2, m) = mmio_r D SDRSP2_ADDR m; (r3, m) = mmio_r D SDRSP3_ADDR m
         in (\<lparr>response = [r3, r2, r1, r0], err = 0\<rparr>, m))
      else
        (let (r0, m) = mmio_r D SDRSP0_ADDR m in (\<lparr>response = [r0, 0, 0, 0], err = 0\<rparr>, m)))"

definition cmd_failed :: "int \<Rightarrow> cmd_result" where
  "cmd_failed e = \<lparr>response = [0, 0, 0, 0], err = e\<rparr>"

text \<open>What \<open>stage0_send_cmd\<close> does once \<open>SDCMD_NEW_FLAG\<close> is clear again.\<close>

definition send_cmd_finish ::
    "'s device \<Rightarrow> u32 \<Rightarrow> bool \<Rightarrow> bool \<Rightarrow> bool \<Rightarrow> bool \<Rightarrow> u32 \<Rightarrow> ('s, 'z) mach_scheme
      \<Rightarrow> (cmd_result \<times> ('s, 'z) mach_scheme) option" where
  "send_cmd_finish D cmd_idx resp_present resp_136 allow_crc7_tolerance ignore_fail_flag sdcmd m =
     (if any_bit sdcmd SDCMD_FAIL_FLAG then
        (let (sdhsts, m) = mmio_r D SDHSTS_ADDR m; m = mmio_w D SDHSTS_ADDR SDHSTS_ERROR_MASK m in
         if allow_crc7_tolerance \<and> any_bit sdhsts SDHSTS_CRC7_ERROR then
           Some (read_response D resp_present resp_136 m)
         else if ignore_fail_flag then Some (read_response D resp_present resp_136 m)
         else do {
           m \<leftarrow> u_puts D ''stage0: cmd='' m;
           m \<leftarrow> u_hex32 D cmd_idx m;
           m \<leftarrow> u_puts D '' FAIL_FLAG SDHSTS=0x'' m;
           m \<leftarrow> u_hex32 D sdhsts m;
           m \<leftarrow> u_puts D ''\<newline>'' m;
           Some (cmd_failed (- 2), m) })
      else Some (read_response D resp_present resp_136 m))"

definition stage0_send_cmd ::
    "'s device \<Rightarrow> u32 \<Rightarrow> u32 \<Rightarrow> bool \<Rightarrow> bool \<Rightarrow> bool \<Rightarrow> u32 \<Rightarrow> u32 \<Rightarrow> bool \<Rightarrow> bool \<Rightarrow> bool \<Rightarrow> bool
      \<Rightarrow> ('s, 'z) mach_scheme \<Rightarrow> (cmd_result \<times> ('s, 'z) mach_scheme) option" where
  "stage0_send_cmd D cmd_idx arg resp_present resp_136 resp_busy data_blksz data_blocks
       is_read is_write allow_crc7_tolerance ignore_fail_flag m =
     (let (edm, m) = mmio_r D SDEDM_ADDR m in
      if \<not> fsm_idle edm then do {
        m \<leftarrow> u_puts D ''stage0: FSM not idle before cmd='' m;
        m \<leftarrow> u_hex32 D cmd_idx m;
        m \<leftarrow> u_puts D '' SDEDM=0x'' m;
        m \<leftarrow> u_hex32 D edm m;
        m \<leftarrow> u_puts D ''\<newline>'' m;
        Some (cmd_failed (- 3), m) }
      else do {
        (ready, m) \<leftarrow> new_flag_wait D m;
        if ready = None then do {
          m \<leftarrow> u_puts D ''stage0: previous command never completed before cmd='' m;
          m \<leftarrow> u_hex32 D cmd_idx m;
          m \<leftarrow> u_puts D ''\<newline>'' m;
          Some (cmd_failed (- 1), m) }
        else
          let (sdhsts, m) = mmio_r D SDHSTS_ADDR m;
              m = (if any_bit sdhsts SDHSTS_ERROR_MASK then mmio_w D SDHSTS_ADDR sdhsts m else m);
              m = (if data_blksz \<noteq> 0
                then mmio_w D SDHBLC_ADDR data_blocks (mmio_w D SDHBCT_ADDR data_blksz m) else m);
              m = mmio_w D SDARG_ADDR arg m;
              m = mmio_w D SDCMD_ADDR
                (sdcmd_word cmd_idx resp_present resp_136 resp_busy is_read is_write) m
          in do {
            (done, m) \<leftarrow> new_flag_wait D m;
            case done of
              None \<Rightarrow> do {
                m \<leftarrow> u_puts D ''stage0: command phase never completed cmd='' m;
                m \<leftarrow> u_hex32 D cmd_idx m;
                m \<leftarrow> u_puts D ''\<newline>'' m;
                Some (cmd_failed (- 1), m) }
            | Some sdcmd \<Rightarrow>
                send_cmd_finish D cmd_idx resp_present resp_136 allow_crc7_tolerance
                  ignore_fail_flag sdcmd m } })"

section \<open>Bring-up\<close>

text \<open>\<open>while (fifo_preclear_iter < 1000)\<close>: read the data register until the FIFO is empty.\<close>

fun fifo_preclear :: "'s device \<Rightarrow> nat \<Rightarrow> ('s, 'z) mach_scheme \<Rightarrow> ('s, 'z) mach_scheme" where
  "fifo_preclear D 0 m = m"
| "fifo_preclear D (Suc left) m =
     (let (edm, m) = mmio_r D SDEDM_ADDR m in
      if drop_bit 4 edm AND 0x1F = 0 then m
      else let (_, m) = mmio_r D SDDATA_ADDR m in fifo_preclear D left m)"

definition stage0_reset_and_ident_clock ::
    "'s device \<Rightarrow> ('s, 'z) mach_scheme \<Rightarrow> ('s, 'z) mach_scheme option" where
  "stage0_reset_and_ident_clock D m =
     (let (r4, m) = mmio_r D GPFSEL4_ADDR m;
          m = mmio_w D GPFSEL4_ADDR ((r4 AND 0xC0FFFFFF) OR 0x24000000) m;
          (r5, m) = mmio_r D GPFSEL5_ADDR m;
          m = mmio_w D GPFSEL5_ADDR ((r5 AND 0xFFFFF000) OR 0x00000924) m;
          (temp, m) = mmio_r D SDEDM_ADDR m;
          temp = temp AND NOT (push_bit 14 0x1F OR push_bit 9 0x1F);
          temp = temp OR (push_bit 14 4 OR push_bit 9 4);
          m = mmio_w D SDEDM_ADDR temp m
      in do {
        m \<leftarrow> udelay_real D 20000 m;
        m \<leftarrow> udelay_real D 20000 (mmio_w D SDVDD_ADDR 0 m);
        m \<leftarrow> udelay_real D 20000 (mmio_w D SDVDD_ADDR 1 m);
        let m = fifo_preclear D 1000 m;
            m = mmio_w D SDCDIV_ADDR 0x148 m;
            m = mmio_w D SDTOUT_ADDR 0xF00000 m;
            m = mmio_w D SDHBCT_ADDR 0 m;
            m = mmio_w D SDHBLC_ADDR 0 m;
            m = mmio_w D SDHCFG_ADDR 0 m
        in Some m })"

definition MBOX_READ_ADDR :: u32 where "MBOX_READ_ADDR = 0x2000B880"
definition MBOX_STATUS_ADDR :: u32 where "MBOX_STATUS_ADDR = 0x2000B898"
definition MBOX_WRITE_ADDR :: u32 where "MBOX_WRITE_ADDR = 0x2000B8A0"
definition MBOX_FULL :: u32 where "MBOX_FULL = 0x80000000"
definition MBOX_EMPTY :: u32 where "MBOX_EMPTY = 0x40000000"

text \<open>
  The two mailbox polls, bounded by 100000 reads each; the argument is the number of reads
  left. The first says whether the mailbox had room; the second gives the value returned.
\<close>

fun mbox_wait_room :: "'s device \<Rightarrow> nat \<Rightarrow> ('s, 'z) mach_scheme \<Rightarrow> bool \<times> ('s, 'z) mach_scheme" where
  "mbox_wait_room D 0 m = (False, m)"
| "mbox_wait_room D (Suc left) m =
     (let (v, m) = mmio_r D MBOX_STATUS_ADDR m in
      if \<not> any_bit v MBOX_FULL then (True, m) else mbox_wait_room D left m)"

fun mbox_wait_reply ::
    "'s device \<Rightarrow> u32 \<Rightarrow> nat \<Rightarrow> ('s, 'z) mach_scheme \<Rightarrow> u32 \<times> ('s, 'z) mach_scheme" where
  "mbox_wait_reply D addr 0 m = (0, m)"
| "mbox_wait_reply D addr (Suc left) m =
     (let (st, m) = mmio_r D MBOX_STATUS_ADDR m in
      if \<not> any_bit st MBOX_EMPTY then
        let (v, m) = mmio_r D MBOX_READ_ADDR m in
        if v = addr then
          (if mbox_load D 1 (hw m) = 0x80000000 then (mbox_load D 6 (hw m), m) else (0, m))
        else mbox_wait_reply D addr left m
      else mbox_wait_reply D addr left m)"

definition mbox_put :: "'s device \<Rightarrow> nat \<Rightarrow> u32 \<Rightarrow> ('s, 'z) mach_scheme \<Rightarrow> ('s, 'z) mach_scheme" where
  "mbox_put D i v m = m\<lparr>hw := mbox_store D i v (hw m)\<rparr>"

definition stage0_get_core_clock_hz ::
    "'s device \<Rightarrow> ('s, 'z) mach_scheme \<Rightarrow> u32 \<times> ('s, 'z) mach_scheme" where
  "stage0_get_core_clock_hz D m =
     (let m = mbox_put D 0 32 m;
          m = mbox_put D 1 0 m;
          m = mbox_put D 2 0x00030002 m;
          m = mbox_put D 3 8 m;
          m = mbox_put D 4 0 m;
          m = mbox_put D 5 4 m;
          m = mbox_put D 6 0 m;
          m = mbox_put D 7 0 m;
          addr = (mbox_at D AND NOT 0xF) OR 8;
          (room, m) = mbox_wait_room D 100000 m
      in if \<not> room then (0, m)
         else mbox_wait_reply D addr 100000 (mmio_w D MBOX_WRITE_ADDR addr m))"

text \<open>The divisor for a target of 1 MHz, and the clock it achieves.\<close>

definition clock_divisor :: "u32 \<Rightarrow> u32" where
  "clock_divisor core_clock_hz =
     (let target_hz = 1000000; max_div = 0x7FF;
          div0 = core_clock_hz div target_hz;
          div1 = (if div0 < 2 then 2 else div0);
          div2 = (if core_clock_hz div div1 > target_hz then div1 + 1 else div1);
          div3 = div2 - 2
      in if div3 > max_div then max_div else div3)"

definition achieved_clock_hz :: "u32 \<Rightarrow> u32" where
  "achieved_clock_hz core_clock_hz = core_clock_hz div (clock_divisor core_clock_hz + 2)"

text \<open>\<open>for (iter = 0; iter < 1000; ...)\<close>, with the number of reads left.\<close>

fun force_settle_loop :: "'s device \<Rightarrow> nat \<Rightarrow> ('s, 'z) mach_scheme \<Rightarrow> ('s, 'z) mach_scheme" where
  "force_settle_loop D 0 m =
     (let (edm, m) = mmio_r D SDEDM_ADDR m
      in mmio_w D SDEDM_ADDR (edm AND NOT SDEDM_FORCE_DATA_MODE_BIT) m)"
| "force_settle_loop D (Suc left) m =
     (let (edm, m) = mmio_r D SDEDM_ADDR m in
      if fsm_idle edm then mmio_w D SDEDM_ADDR (edm AND NOT SDEDM_FORCE_DATA_MODE_BIT) m
      else force_settle_loop D left m)"

definition stage0_force_data_mode_settle ::
    "'s device \<Rightarrow> ('s, 'z) mach_scheme \<Rightarrow> ('s, 'z) mach_scheme" where
  "stage0_force_data_mode_settle D m = force_settle_loop D 1000 m"

text \<open>
  The \<open>ACMD41\<close> loop; its argument is \<open>retry\<close>. The result is the return code so far (0 or -3)
  with the last response.
\<close>

fun acmd41_loop ::
    "'s device \<Rightarrow> nat \<Rightarrow> ('s, 'z) mach_scheme \<Rightarrow> (int \<times> cmd_result \<times> ('s, 'z) mach_scheme) option" where
  "acmd41_loop D retry m = do {
     (r, m) \<leftarrow> stage0_send_cmd D 55 0 True False False 0 0 False False False True m;
     if err r \<noteq> 0 then Some (- 3, r, m) else do {
       (r, m) \<leftarrow> stage0_send_cmd D 41 (0x00FF8000 OR OCR_HCS) True False False 0 0 False False True True m;
       if err r \<noteq> 0 then Some (- 3, r, m)
       else if any_bit (response r ! 0) OCR_BUSY then Some (0, r, m)
       else case retry of
         0 \<Rightarrow> Some (0, r, m)
       | Suc retry \<Rightarrow> do { m \<leftarrow> udelay_real D 1000 m; acmd41_loop D retry m } } }"

declare acmd41_loop.simps [simp del]

definition stage0_sd_init ::
    "'s device \<Rightarrow> ('s, 'z) stage0_scheme \<Rightarrow> (int \<times> ('s, 'z) stage0_scheme) option" where
  "stage0_sd_init D m = do {
     m \<leftarrow> stage0_reset_and_ident_clock D m;
     (r, m) \<leftarrow> stage0_send_cmd D 0 0 False False False 0 0 False False False False m;
     if err r \<noteq> 0 then Some (- 1, m) else do {
     (r, m) \<leftarrow> stage0_send_cmd D 8 0x1AA True False False 0 0 False False False True m;
     if err r \<noteq> 0 then Some (- 2, m) else do {
     (rc, r, m) \<leftarrow> acmd41_loop D 1000 m;
     if rc \<noteq> 0 then Some (rc, m) else do {
     let m = m\<lparr>s_is_sdhc := any_bit (response r ! 0) OCR_HCS\<rparr>;
     (r, m) \<leftarrow> stage0_send_cmd D 2 0 True True False 0 0 False False False False m;
     if err r \<noteq> 0 then Some (- 4, m) else do {
     (r, m) \<leftarrow> stage0_send_cmd D 3 0 True False False 0 0 False False False False m;
     if err r \<noteq> 0 then Some (- 5, m) else do {
     let m = m\<lparr>s_rca := drop_bit 16 (response r ! 0) AND 0xFFFF\<rparr>;
     (r, m) \<leftarrow> stage0_send_cmd D 9 (push_bit 16 (s_rca m)) True True False 0 0 False False False False m;
     if err r \<noteq> 0 then Some (- 6, m) else do {
     (r, m) \<leftarrow> stage0_send_cmd D 7 (push_bit 16 (s_rca m)) True False True 0 0 False False False False m;
     if err r \<noteq> 0 then Some (- 7, m) else do {
     let (core_clock_hz, m) = stage0_get_core_clock_hz D m;
     m \<leftarrow> (if core_clock_hz > 0 then
         (let m = mmio_w D SDCDIV_ADDR (clock_divisor core_clock_hz) m;
              m = mmio_w D SDTOUT_ADDR (achieved_clock_hz core_clock_hz div 2) m
          in udelay_real D 10000 m)
       else Some m);
     Some (0, mmio_w D SDHCFG_ADDR 0x40A m) } } } } } } } }"

section \<open>Block transfers\<close>

definition fifo_fill :: "u32 \<Rightarrow> nat" where
  "fifo_fill edm = unat (drop_bit 4 edm AND 0x1F)"

definition burst_words :: "nat \<Rightarrow> nat" where
  "burst_words left = (if SDDATA_FIFO_PIO_BURST < left then SDDATA_FIFO_PIO_BURST else left)"

text \<open>\<open>while (words > 0) { *rbuf = mmio_r(SDDATA_ADDR); rbuf = rbuf + 1; words = words - 1; }\<close>\<close>

fun pop_words ::
    "'s device \<Rightarrow> nat \<Rightarrow> nat \<Rightarrow> u32 list \<Rightarrow> ('s, 'z) mach_scheme \<Rightarrow> u32 list \<times> ('s, 'z) mach_scheme" where
  "pop_words D 0 pos rbuf m = (rbuf, m)"
| "pop_words D (Suc words) pos rbuf m =
     (let (v, m) = mmio_r D SDDATA_ADDR m in pop_words D words (pos + 1) (rbuf[pos := v]) m)"

text \<open>
  The drain loop; \<open>pos\<close> is the position of \<open>rbuf\<close> in the buffer. It ends: a pass takes at
  least one word, or counts in \<open>room_wait_iters\<close>, which is bounded.
\<close>

definition ROOM_WAIT_MAX :: nat where "ROOM_WAIT_MAX = 20000000"

function drain_loop ::
    "'s device \<Rightarrow> nat \<Rightarrow> nat \<Rightarrow> nat \<Rightarrow> u32 list \<Rightarrow> ('s, 'z) mach_scheme
      \<Rightarrow> bool \<times> u32 list \<times> ('s, 'z) mach_scheme" where
  "drain_loop D copy_words room_wait_iters pos rbuf m =
     (if copy_words = 0 then (True, rbuf, m)
      else
        let (edm, m) = mmio_r D SDEDM_ADDR m; fill = fifo_fill edm in
        if fill < burst_words copy_words then
          (let room_wait_iters = room_wait_iters + 1 in
           if room_wait_iters > ROOM_WAIT_MAX then (False, rbuf, m)
           else drain_loop D copy_words room_wait_iters pos rbuf m)
        else
          (let words = (if fill > copy_words then copy_words else fill);
               (rbuf, m) = pop_words D words pos rbuf m
           in drain_loop D (copy_words - words) room_wait_iters (pos + words) rbuf m))"
  by pat_completeness auto

lemma burst_words_bounds: "0 < left \<Longrightarrow> 0 < burst_words left \<and> burst_words left \<le> left"
  by (simp add: burst_words_def SDDATA_FIFO_PIO_BURST_def)

termination drain_loop
proof (relation "measures [\<lambda>(D, c, i, p, b, m). c, \<lambda>(D, c, i, p, b, m). ROOM_WAIT_MAX - i]")
  fix D :: "'s device" and c i p b and m :: "('s, 'z) mach_scheme" and x y edm m' f w z r m''
  assume "c \<noteq> 0" and "\<not> f < burst_words c" and "w = (if f > c then c else f)"
  then have "0 < c" "0 < w" using burst_words_bounds [of c] by auto
  then show "((D, c - w, i, p + w, r, m''), (D, c, i, p, b, m)) \<in>
      measures [\<lambda>(D, c, i, p, b, m). c, \<lambda>(D, c, i, p, b, m). ROOM_WAIT_MAX - i]"
    by simp
qed auto

declare drain_loop.simps [simp del]

text \<open>
  The end of a transfer, the same in both directions: wait for the state machine, forcing it
  back to data mode where it sits in one of three transfer states, then check and clear the
  error bits of \<open>SDHSTS\<close>.
\<close>

definition fsm_transfer :: "u32 \<Rightarrow> bool" where
  "fsm_transfer edm \<longleftrightarrow>
     (let fsm = edm AND SDEDM_FSM_MASK in
      fsm = SDEDM_FSM_READWAIT \<or> fsm = SDEDM_FSM_WRITESTART1 \<or> fsm = SDEDM_FSM_READDATA)"

definition transfer_end ::
    "'s device \<Rightarrow> ('s, 'z) mach_scheme \<Rightarrow> (int \<times> ('s, 'z) mach_scheme) option" where
  "transfer_end D m =
     (let (sdhsts2, m) = mmio_r D SDHSTS_ADDR m in
      if any_bit sdhsts2 (0x20 OR 0x10 OR 0x08 OR 0x40 OR 0x80) then Some (- 9, m)
      else
        let (t0, m) = now_us D m in do {
          (r, m) \<leftarrow> poll_reg D SDEDM_ADDR (\<lambda>edm. fsm_idle edm \<or> fsm_transfer edm) t0 TIMEOUT_US m;
          case r of
            None \<Rightarrow> Some (- 9, m)
          | Some edm \<Rightarrow>
              (let m = (if fsm_idle edm then m
                   else stage0_force_data_mode_settle D
                     (mmio_w D SDEDM_ADDR (edm OR SDEDM_FORCE_DATA_MODE_BIT) m));
                   (sdhsts2, m) = mmio_r D SDHSTS_ADDR m;
                   sdhsts2 = sdhsts2 AND SDHSTS_ERROR_MASK;
                   m = mmio_w D SDHSTS_ADDR sdhsts2 m
               in Some (if sdhsts2 \<noteq> 0 then - 9 else 0, m)) })"

definition card_addr :: "('s, 'z) stage0_scheme \<Rightarrow> u32 \<Rightarrow> u32" where
  "card_addr m block_num = (if s_is_sdhc m then block_num else block_num * 512)"

definition stage0_sd_read_block ::
    "'s device \<Rightarrow> u32 \<Rightarrow> u32 list \<Rightarrow> ('s, 'z) stage0_scheme
      \<Rightarrow> (int \<times> u32 list \<times> ('s, 'z) stage0_scheme) option" where
  "stage0_sd_read_block D block_num rbuf m =
     (let addr = card_addr m block_num in do {
        (_, m) \<leftarrow> stage0_send_cmd D 16 512 True False False 0 0 False False False False m;
        let m = mmio_w D SDHCFG_ADDR 0x40A m;
        (rr, m) \<leftarrow> stage0_send_cmd D 17 addr True False False 512 1 True False False False m;
        if err rr \<noteq> 0 then Some (- 9, rbuf, m)
        else
          let (drained, rbuf, m) = drain_loop D 128 0 0 rbuf m in
          if \<not> drained then Some (- 9, rbuf, m)
          else do { (rc, m) \<leftarrow> transfer_end D m; Some (rc, rbuf, m) } })"

text \<open>The write side: \<open>while (words > 0) { mmio_w(SDDATA_ADDR, *wbuf); ... }\<close> and the fill loop.\<close>

fun push_words ::
    "'s device \<Rightarrow> nat \<Rightarrow> nat \<Rightarrow> u32 list \<Rightarrow> ('s, 'z) mach_scheme \<Rightarrow> ('s, 'z) mach_scheme" where
  "push_words D 0 pos wbuf m = m"
| "push_words D (Suc words) pos wbuf m =
     push_words D words (pos + 1) wbuf (mmio_w D SDDATA_ADDR (wbuf ! pos) m)"

text \<open>\<open>room = 16 - fill\<close> is a signed number: a fill level above 16 leaves negative room.\<close>

definition fifo_room :: "u32 \<Rightarrow> int" where
  "fifo_room edm = 16 - int (fifo_fill edm)"

function fill_loop ::
    "'s device \<Rightarrow> nat \<Rightarrow> nat \<Rightarrow> nat \<Rightarrow> u32 list \<Rightarrow> ('s, 'z) mach_scheme
      \<Rightarrow> bool \<times> ('s, 'z) mach_scheme" where
  "fill_loop D fill_words room_wait_iters pos wbuf m =
     (if fill_words = 0 then (True, m)
      else
        let (edm, m) = mmio_r D SDEDM_ADDR m; room = fifo_room edm in
        if room < int (burst_words fill_words) then
          (let room_wait_iters = room_wait_iters + 1 in
           if room_wait_iters > ROOM_WAIT_MAX then (False, m)
           else fill_loop D fill_words room_wait_iters pos wbuf m)
        else
          (let words = (if nat room > fill_words then fill_words else nat room);
               m = push_words D words pos wbuf m
           in fill_loop D (fill_words - words) room_wait_iters (pos + words) wbuf m))"
  by pat_completeness auto

termination fill_loop
proof (relation "measures [\<lambda>(D, c, i, p, b, m). c, \<lambda>(D, c, i, p, b, m). ROOM_WAIT_MAX - i]")
  fix D :: "'s device" and c i p b and m :: "('s, 'z) mach_scheme" and x y edm m' f w m''
  assume "c \<noteq> 0" and "\<not> f < int (burst_words c)" and "w = (if nat f > c then c else nat f)"
  then have "0 < c" "0 < w" using burst_words_bounds [of c] by auto
  then show "((D, c - w, i, p + w, b, m''), (D, c, i, p, b, m)) \<in>
      measures [\<lambda>(D, c, i, p, b, m). c, \<lambda>(D, c, i, p, b, m). ROOM_WAIT_MAX - i]"
    by simp
qed auto

declare fill_loop.simps [simp del]

text \<open>The bounded wait for the FIFO to drain: a timeout here is not an error.\<close>

fun fifo_drain_wait :: "'s device \<Rightarrow> nat \<Rightarrow> ('s, 'z) mach_scheme \<Rightarrow> ('s, 'z) mach_scheme" where
  "fifo_drain_wait D 0 m = m"
| "fifo_drain_wait D (Suc left) m =
     (let (edm, m) = mmio_r D SDEDM_ADDR m in
      if fifo_fill edm = 0 then m else fifo_drain_wait D left m)"

definition stage0_sd_write_block ::
    "'s device \<Rightarrow> u32 \<Rightarrow> u32 list \<Rightarrow> ('s, 'z) stage0_scheme
      \<Rightarrow> (int \<times> ('s, 'z) stage0_scheme) option" where
  "stage0_sd_write_block D block_num wbuf m =
     (let addr = card_addr m block_num in do {
        (_, m) \<leftarrow> stage0_send_cmd D 16 512 True False False 0 0 False False False False m;
        let m = mmio_w D SDHCFG_ADDR 0x40A m;
        (rr, m) \<leftarrow> stage0_send_cmd D 24 addr True False False 512 1 False True False False m;
        if err rr \<noteq> 0 then Some (- 9, m)
        else
          let (filled, m) = fill_loop D 128 0 0 wbuf m in
          if \<not> filled then Some (- 9, m)
          else transfer_end D (fifo_drain_wait D 1000000 m) })"

end
