(* ===== verification/Stage0_Main.thy ===== *)
theory Stage0_Main
  imports Slot_State Sha256 Sd_Driver
begin

text \<open>
  \<open>stage0_main\<close> of \<open>boot/stage0/stage0_main.c\<close>: read both copies of the slot-state record,
  choose one, count the attempt and fall back to the other slot where the limit is exceeded,
  write the record back to the stale copy, load the payload of the active slot, verify its
  SHA-256, and jump. The build option \<open>STAGE0_PREJUMP_WATCHDOG_FOR_REAL_HARDWARE\<close> is the
  argument \<open>wd\<close>. A run ends in an \<open>outcome\<close>: halted with a fault code, or jumped to the
  payload with a value in \<open>r0\<close>.
\<close>

section \<open>Constants and outcomes\<close>

definition SLOT_STATE_BLOCK_A :: u32 where "SLOT_STATE_BLOCK_A = 9216"
definition SLOT_STATE_BLOCK_B :: u32 where "SLOT_STATE_BLOCK_B = 9217"
definition SLOT_A_BASE_BLOCK :: u32 where "SLOT_A_BASE_BLOCK = 10240"
definition SLOT_B_BASE_BLOCK :: u32 where "SLOT_B_BASE_BLOCK = 22528"
definition SLOT_SIZE_BYTES :: u32 where "SLOT_SIZE_BYTES = 12288 * 512"
definition REAL_KERNEL_LOAD_ADDR :: u32 where "REAL_KERNEL_LOAD_ADDR = 0x00200000"
definition DEFAULT_BOOTLIMIT :: u32 where "DEFAULT_BOOTLIMIT = 3"

lemmas stage0_const_defs = SLOT_STATE_BLOCK_A_def SLOT_STATE_BLOCK_B_def SLOT_A_BASE_BLOCK_def
  SLOT_B_BASE_BLOCK_def SLOT_SIZE_BYTES_def REAL_KERNEL_LOAD_ADDR_def DEFAULT_BOOTLIMIT_def

datatype outcome = Halted u32 | Jumped u32

section \<open>Watchdog and fault\<close>

definition PM_RSTC :: u32 where "PM_RSTC = 0x2010001C"
definition PM_WDOG :: u32 where "PM_WDOG = 0x20100024"

definition stage0_arm_watchdog :: "'s device \<Rightarrow> ('s, 'z) mach_scheme \<Rightarrow> ('s, 'z) mach_scheme" where
  "stage0_arm_watchdog D m =
     (let password = 0x5A000000; wrcfg_clr = 0xFFFFFFCF; wrcfg_full_reset = 0x00000020;
          fifteen_seconds_in_ticks = 983040;
          m = mmio_w D PM_WDOG (password OR (fifteen_seconds_in_ticks AND 0xFFFFF)) m;
          (cur, m) = mmio_r D PM_RSTC m
      in mmio_w D PM_RSTC ((password OR (cur AND wrcfg_clr)) OR wrcfg_full_reset) m)"

text \<open>\<open>#if STAGE0_PREJUMP_WATCHDOG_FOR_REAL_HARDWARE\<close> around a call.\<close>

definition kick :: "'s device \<Rightarrow> bool \<Rightarrow> ('s, 'z) mach_scheme \<Rightarrow> ('s, 'z) mach_scheme" where
  "kick D wd m = (if wd then stage0_arm_watchdog D m else m)"

text \<open>\<open>stage0_fault\<close> prints the code and never comes back: the run ends there.\<close>

definition stage0_fault ::
    "'s device \<Rightarrow> u32 \<Rightarrow> ('s, 'z) mach_scheme \<Rightarrow> (outcome \<times> ('s, 'z) mach_scheme) option" where
  "stage0_fault D code m = do {
     m \<leftarrow> u_puts D ''\<newline>stage0: FATAL, halting (code=0x'' m;
     m \<leftarrow> u_hex32 D code m;
     m \<leftarrow> u_puts D '')\<newline>'' m;
     Some (Halted code, m) }"

section \<open>The boot decision\<close>

text \<open>Which copy of the record is used, and which block gets the updated one.\<close>

definition select_record :: "slot_state option \<Rightarrow> slot_state option \<Rightarrow> (slot_state \<times> u32) option" where
  "select_record a b =
     (case (a, b) of
        (Some a_state, Some b_state) \<Rightarrow>
          if generation a_state \<ge> generation b_state then Some (a_state, SLOT_STATE_BLOCK_B)
          else Some (b_state, SLOT_STATE_BLOCK_A)
      | (Some a_state, None) \<Rightarrow> Some (a_state, SLOT_STATE_BLOCK_B)
      | (None, Some b_state) \<Rightarrow> Some (b_state, SLOT_STATE_BLOCK_A)
      | (None, None) \<Rightarrow> None)"

definition effective_limit :: "slot_state \<Rightarrow> u32" where
  "effective_limit s = (if bootlimit s \<noteq> 0 then bootlimit s else DEFAULT_BOOTLIMIT)"

definition bump_attempt :: "slot_state \<Rightarrow> slot_state" where
  "bump_attempt s = s\<lparr>attempt_count := attempt_count s + 1\<rparr>"

definition other_ready :: "slot_state \<Rightarrow> u8" where
  "other_ready s = (if active_slot s = 0 then slot_b_ready s else slot_a_ready s)"

text \<open>The fallback, after the attempt was counted: the record and whether it fell back.\<close>

definition apply_fallback :: "slot_state \<Rightarrow> slot_state \<times> bool" where
  "apply_fallback s =
     (if attempt_count s > effective_limit s \<and> other_ready s \<noteq> 0
      then (s\<lparr>active_slot := (if active_slot s = 0 then 1 else 0), attempt_count := 0\<rparr>, True)
      else (s, False))"

definition reset_reason :: "bool \<Rightarrow> u8 \<Rightarrow> u32 \<Rightarrow> u8" where
  "reset_reason fell_back prior_reason prior_attempt_count =
     (if fell_back then REASON_AUTO_FALLBACK
      else if prior_reason = REASON_CLEAN_REBOOT then REASON_CLEAN_REBOOT
      else if prior_attempt_count > 0 then REASON_WATCHDOG_OR_HANG
      else REASON_POWER_ON)"

text \<open>The whole decision: the record that is written back and booted from.\<close>

definition boot_decide :: "slot_state \<Rightarrow> slot_state" where
  "boot_decide chosen =
     (let prior_attempt_count = attempt_count chosen;
          prior_reason = last_reset_reason chosen;
          (chosen, fell_back) = apply_fallback (bump_attempt chosen);
          chosen = chosen\<lparr>last_reset_reason := reset_reason fell_back prior_reason prior_attempt_count\<rparr>
      in chosen\<lparr>generation := generation chosen + 1\<rparr>)"

definition slot_base :: "slot_state \<Rightarrow> u32" where
  "slot_base s = (if active_slot s = 0 then SLOT_A_BASE_BLOCK else SLOT_B_BASE_BLOCK)"

definition slot_len :: "slot_state \<Rightarrow> u32" where
  "slot_len s = (if active_slot s = 0 then slot_a_len s else slot_b_len s)"

definition slot_sha :: "slot_state \<Rightarrow> u8 list" where
  "slot_sha s = (if active_slot s = 0 then slot_a_sha256 s else slot_b_sha256 s)"

text \<open>What the decision prints.\<close>

definition slot_letter :: "slot_state \<Rightarrow> char" where
  "slot_letter s = (if active_slot s = 0 then CHR ''A'' else CHR ''B'')"

definition report_attempt ::
    "'s device \<Rightarrow> slot_state \<Rightarrow> ('s, 'z) mach_scheme \<Rightarrow> ('s, 'z) mach_scheme option" where
  "report_attempt D s m = do {
     m \<leftarrow> u_puts D ''stage0: active_slot='' m;
     m \<leftarrow> u_putc D (slot_letter s) m;
     m \<leftarrow> u_puts D '' attempt_count='' m;
     m \<leftarrow> u_hex32 D (attempt_count s) m;
     m \<leftarrow> u_puts D '' bootlimit='' m;
     m \<leftarrow> u_hex32 D (effective_limit s) m;
     u_puts D ''\<newline>'' m }"

definition report_fallback ::
    "'s device \<Rightarrow> slot_state \<Rightarrow> ('s, 'z) mach_scheme \<Rightarrow> ('s, 'z) mach_scheme option" where
  "report_fallback D s m =
     (if attempt_count s > effective_limit s then
        (case apply_fallback s of (s', fell_back) \<Rightarrow>
           if fell_back then do {
             m \<leftarrow> u_puts D ''stage0: bootlimit exceeded, falling back to slot '' m;
             m \<leftarrow> u_putc D (slot_letter s') m;
             u_puts D ''\<newline>'' m }
           else u_puts D
             ''stage0: bootlimit exceeded but other slot not ready, retrying active slot anyway\<newline>'' m)
      else Some m)"

section \<open>Blocks and bytes\<close>

text \<open>The casts between \<open>unsigned char *\<close> and \<open>unsigned int *\<close> of a block buffer.\<close>

fun words_of :: "u8 list \<Rightarrow> u32 list" where
  "words_of (b0 # b1 # b2 # b3 # bs) = le_word b0 b1 b2 b3 # words_of bs"
| "words_of bs = []"

definition bytes_of :: "u32 list \<Rightarrow> u8 list" where
  "bytes_of ws = concat (map le_bytes ws)"

definition read_to_buf ::
    "'s device \<Rightarrow> u32 \<Rightarrow> ('s, 'z) stage0_scheme \<Rightarrow> (int \<times> ('s, 'z) stage0_scheme) option" where
  "read_to_buf D block m = do {
     (rc, ws, m) \<leftarrow> stage0_sd_read_block D block (words_of (block_buf m)) m;
     Some (rc, m\<lparr>block_buf := bytes_of ws\<rparr>) }"

text \<open>\<open>have_x = (rc == 0) && parse_slot_state(block_buf, &x_state)\<close>\<close>

definition read_record ::
    "'s device \<Rightarrow> u32 \<Rightarrow> ('s, 'z) stage0_scheme \<Rightarrow> (slot_state option \<times> ('s, 'z) stage0_scheme) option" where
  "read_record D block m = do {
     (rc, m) \<leftarrow> read_to_buf D block m;
     Some (if rc = 0 then parse_slot_state (block_buf m) else None, m) }"

text \<open>\<open>for (b = 0; b < BLOCK_SIZE; b = b + 1) dest[b] = block_buf[b]\<close>\<close>

definition copy_block :: "u32 \<Rightarrow> u8 list \<Rightarrow> (u32 \<Rightarrow> u8) \<Rightarrow> u32 \<Rightarrow> u8" where
  "copy_block dest buf mem = fold (\<lambda>b mem. mem(dest + of_nat b := buf ! b)) [0..<BLOCK_SIZE] mem"

section \<open>Loading the payload\<close>

definition num_blocks :: "u32 \<Rightarrow> u32" where
  "num_blocks len_bytes = (len_bytes + of_nat BLOCK_SIZE - 1) div of_nat BLOCK_SIZE"

text \<open>
  The load loop; the arguments are the number of blocks left, \<open>i\<close>, and \<open>dest\<close>. The result
  is the outcome of a fault, if a read failed.
\<close>

fun load_loop ::
    "'s device \<Rightarrow> bool \<Rightarrow> u32 \<Rightarrow> nat \<Rightarrow> u32 \<Rightarrow> u32 \<Rightarrow> ('s, 'z) stage0_scheme
      \<Rightarrow> (outcome option \<times> ('s, 'z) stage0_scheme) option" where
  "load_loop D wd base 0 i dest m = Some (None, m)"
| "load_loop D wd base (Suc left) i dest m =
     (let m = (if i AND 511 = 0 then kick D wd m else m) in do {
        (rc, m) \<leftarrow> read_to_buf D (base + i) m;
        if rc \<noteq> 0 then do {
          m \<leftarrow> u_puts D ''stage0: read failed at block offset '' m;
          m \<leftarrow> u_hex32 D i m;
          m \<leftarrow> u_puts D ''\<newline>'' m;
          (f, m) \<leftarrow> stage0_fault D 0xDEAD0004 m;
          Some (Some f, m) }
        else load_loop D wd base left (i + 1) (dest + of_nat BLOCK_SIZE)
          (m\<lparr>ram := copy_block dest (block_buf m) (ram m)\<rparr>) })"

text \<open>The bytes at an address, and the hash loop in pieces of 256 KiB.\<close>

definition ram_bytes :: "(u32 \<Rightarrow> u8) \<Rightarrow> u32 \<Rightarrow> nat \<Rightarrow> u8 list" where
  "ram_bytes mem a n = map (\<lambda>i. mem (a + of_nat i)) [0..<n]"

function sha_loop ::
    "'s device \<Rightarrow> bool \<Rightarrow> u32 \<Rightarrow> u32 \<Rightarrow> sha256_ctx \<Rightarrow> ('s, 'z) stage0_scheme
      \<Rightarrow> sha256_ctx \<times> ('s, 'z) stage0_scheme" where
  "sha_loop D wd len_bytes sha_off ctx m =
     (if sha_off < len_bytes then
        let sha_chunk = 262144; this_len = len_bytes - sha_off;
            this_len = (if this_len > sha_chunk then sha_chunk else this_len);
            m = kick D wd m;
            ctx = sha256_update ctx
              (ram_bytes (ram m) (REAL_KERNEL_LOAD_ADDR + sha_off) (unat this_len)) this_len
        in sha_loop D wd len_bytes (sha_off + this_len) ctx m
      else (ctx, m))"
  by pat_completeness auto

lemma sha_chunk_step:
  assumes "off < (len :: u32)"
  defines "this \<equiv> (if len - off > 262144 then 262144 else len - off)"
  shows "unat (off + this) = unat off + unat this" and "0 < unat this" and "unat off + unat this \<le> unat len"
proof -
  have u: "unat (len - off) = unat len - unat off"
    using assms(1) by (intro unat_sub) (simp add: less_imp_le)
  have "unat off < unat len" using assms(1) by (simp add: word_less_nat_alt)
  then show "unat off + unat this \<le> unat len" and "0 < unat this"
    using u by (auto simp: this_def word_less_nat_alt)
  then show "unat (off + this) = unat off + unat this"
    using unat_lt_2p32 [of len] by (subst unat_add_lem [THEN iffD1]) simp_all
qed

termination sha_loop
proof (relation "measure (\<lambda>(D, wd, len, off, ctx, m). unat len - unat off)")
  fix D :: "'s device" and wd and len off :: u32 and ctx and m :: "('s, 'z) stage0_scheme" and x xa xb xc xd
  assume "off < len" and "x = 262144" and "xa = len - off" and "xb = (if xa > x then x else xa)"
  then have "unat (off + xb) = unat off + unat xb" "0 < unat xb" "unat off + unat xb \<le> unat len"
    using sha_chunk_step [of off len] by auto
  then show "((D, wd, len, off + xb, xd, xc), (D, wd, len, off, ctx, m)) \<in>
      measure (\<lambda>(D, wd, len, off, ctx, m). unat len - unat off)"
    by simp
qed simp

declare sha_loop.simps [simp del]

text \<open>\<open>for (i = 0; i < 32; i = i + 1) if (actual[i] != expect_sha256[i]) { match = 0; break; }\<close>\<close>

definition digest_match :: "u8 list \<Rightarrow> u8 list \<Rightarrow> bool" where
  "digest_match actual expect \<longleftrightarrow> list_all (\<lambda>i. actual ! i = expect ! i) [0..<32]"

text \<open>
  Loading and verifying the active slot's payload. \<open>junk\<close> is what the uninitialised \<open>ctx\<close> on
  the stack holds.
\<close>

definition stage0_verify ::
    "'s device \<Rightarrow> bool \<Rightarrow> sha256_ctx \<Rightarrow> slot_state \<Rightarrow> ('s, 'z) stage0_scheme
      \<Rightarrow> (outcome \<times> ('s, 'z) stage0_scheme) option" where
  "stage0_verify D wd junk chosen m =
     (let m = kick D wd m;
          (ctx, m) = sha_loop D wd (slot_len chosen) 0 (sha256_init junk) m
      in do {
        (_, actual) \<leftarrow> sha256_finalize ctx;
        if \<not> digest_match actual (slot_sha chosen) then do {
          m \<leftarrow> u_puts D ''stage0: payload SHA-256 mismatch, refusing to jump\<newline>'' m;
          stage0_fault D 0xDEAD0006 m }
        else do {
          m \<leftarrow> u_puts D ''stage0: verified, jumping to 0x00200000\<newline>'' m;
          let m = kick D wd m;
          Some (Jumped (push_bit 8 (ucast (last_reset_reason chosen)) OR ucast (active_slot chosen)), m) } })"

definition stage0_load ::
    "'s device \<Rightarrow> bool \<Rightarrow> sha256_ctx \<Rightarrow> slot_state \<Rightarrow> ('s, 'z) stage0_scheme
      \<Rightarrow> (outcome \<times> ('s, 'z) stage0_scheme) option" where
  "stage0_load D wd junk chosen m =
     (let len_bytes = slot_len chosen in
      if len_bytes = 0 \<or> len_bytes > SLOT_SIZE_BYTES then do {
        m \<leftarrow> u_puts D ''stage0: active slot has invalid recorded length\<newline>'' m;
        stage0_fault D 0xDEAD0003 m }
      else do {
        m \<leftarrow> u_puts D ''stage0: loading len=0x'' m;
        m \<leftarrow> u_hex32 D len_bytes m;
        m \<leftarrow> u_puts D ''\<newline>'' m;
        let m = kick D wd m;
        (f, m) \<leftarrow> load_loop D wd (slot_base chosen) (unat (num_blocks len_bytes)) 0
          REAL_KERNEL_LOAD_ADDR m;
        case f of
          Some f \<Rightarrow> Some (f, m)
        | None \<Rightarrow> stage0_verify D wd junk chosen m })"

text \<open>Counting the attempt, falling back, and writing the record back to the stale copy.\<close>

definition stage0_commit ::
    "'s device \<Rightarrow> slot_state \<Rightarrow> u32 \<Rightarrow> ('s, 'z) stage0_scheme \<Rightarrow> ('s, 'z) stage0_scheme option" where
  "stage0_commit D chosen stale_block m = do {
     m \<leftarrow> report_attempt D (bump_attempt chosen) m;
     m \<leftarrow> report_fallback D (bump_attempt chosen) m;
     let m = m\<lparr>block_buf := build_slot_state (boot_decide chosen) (block_buf m)\<rparr>;
     (rc, m) \<leftarrow> stage0_sd_write_block D stale_block (words_of (block_buf m)) m;
     if rc \<noteq> 0 then do {
       m \<leftarrow> u_puts D ''stage0: WARNING slot-state write-back failed (block '' m;
       m \<leftarrow> u_hex32 D stale_block m;
       u_puts D ''), continuing anyway\<newline>'' m }
     else Some m }"

definition stage0_main ::
    "'s device \<Rightarrow> bool \<Rightarrow> sha256_ctx \<Rightarrow> ('s, 'z) stage0_scheme
      \<Rightarrow> (outcome \<times> ('s, 'z) stage0_scheme) option" where
  "stage0_main D wd junk m = do {
     m \<leftarrow> u_puts D ''\<newline>stage0: A/B kernel-slot loader starting\<newline>'' m;
     let m = kick D wd m;
     (rc, m) \<leftarrow> stage0_sd_init D m;
     if rc \<noteq> 0 then do {
       m \<leftarrow> u_puts D ''stage0: SD init failed, stage='' m;
       m \<leftarrow> u_hex32 D (of_int rc) m;
       m \<leftarrow> u_puts D ''\<newline>'' m;
       stage0_fault D 0xDEAD0001 m }
     else do {
       (a, m) \<leftarrow> read_record D SLOT_STATE_BLOCK_A m;
       (b, m) \<leftarrow> read_record D SLOT_STATE_BLOCK_B m;
       case select_record a b of
         None \<Rightarrow> do {
           m \<leftarrow> u_puts D ''stage0: no valid slot-state record found (blocks '' m;
           m \<leftarrow> u_hex32 D SLOT_STATE_BLOCK_A m;
           m \<leftarrow> u_puts D ''/'' m;
           m \<leftarrow> u_hex32 D SLOT_STATE_BLOCK_B m;
           m \<leftarrow> u_puts D '') -- fresh/corrupt card, nothing to boot\<newline>'' m;
           stage0_fault D 0xDEAD0002 m }
       | Some (chosen, stale_block) \<Rightarrow> do {
           m \<leftarrow> stage0_commit D chosen stale_block m;
           stage0_load D wd junk (boot_decide chosen) m } } }"

end
