(* ===== verification/Sd_Proofs.thy ===== *)
theory Sd_Proofs
  imports Sd_Driver
begin

text \<open>
  The lemmas on the commands of the SD driver: which registers a command cycle reads and writes
  (\<open>bus_intros\<close>), and that every operation of the driver, the block transfers included, returns
  on live hardware (\<open>live_intros\<close>). What the transfers do to the card is in \<open>Sd_Transfer\<close>.
\<close>

section \<open>Registers are distinct\<close>

lemma reg_neq [simp]:
  "SDCMD_ADDR \<noteq> SDARG_ADDR" "SDARG_ADDR \<noteq> SDCMD_ADDR"
  "SDCMD_ADDR \<noteq> SDHSTS_ADDR" "SDHSTS_ADDR \<noteq> SDCMD_ADDR" "SDARG_ADDR \<noteq> SDHSTS_ADDR" "SDHSTS_ADDR \<noteq> SDARG_ADDR"
  "SDCMD_ADDR \<noteq> UART_DR_RPI1" "UART_DR_RPI1 \<noteq> SDCMD_ADDR" "SDARG_ADDR \<noteq> UART_DR_RPI1" "UART_DR_RPI1 \<noteq> SDARG_ADDR"
  "SDDATA_ADDR \<noteq> UART_DR_RPI1" "UART_DR_RPI1 \<noteq> SDDATA_ADDR" "SDDATA_ADDR \<noteq> SDCMD_ADDR" "SDCMD_ADDR \<noteq> SDDATA_ADDR"
  "SDDATA_ADDR \<noteq> SDARG_ADDR" "SDARG_ADDR \<noteq> SDDATA_ADDR" "SDDATA_ADDR \<noteq> SDHSTS_ADDR" "SDHSTS_ADDR \<noteq> SDDATA_ADDR"
  "SDDATA_ADDR \<noteq> SDEDM_ADDR" "SDEDM_ADDR \<noteq> SDDATA_ADDR" "SDEDM_ADDR \<noteq> SDCMD_ADDR" "SDCMD_ADDR \<noteq> SDEDM_ADDR"
  "SDEDM_ADDR \<noteq> SDARG_ADDR" "SDARG_ADDR \<noteq> SDEDM_ADDR" "SDEDM_ADDR \<noteq> SDHSTS_ADDR" "SDHSTS_ADDR \<noteq> SDEDM_ADDR"
  "SDEDM_ADDR \<noteq> UART_DR_RPI1" "UART_DR_RPI1 \<noteq> SDEDM_ADDR"
  by (simp_all add: reg_defs)

section \<open>The command dispatcher\<close>

text \<open>
  A command cycle never reads the data register, and writes no register beside \<open>SDARG\<close> and
  \<open>SDCMD\<close> but the four here.
\<close>

primrec cmd_quiet :: "bus_event \<Rightarrow> bool" where
  "cmd_quiet (BusRead a v) \<longleftrightarrow> a \<noteq> SDDATA_ADDR"
| "cmd_quiet (BusWrite a v) \<longleftrightarrow> a \<in> {UART_DR_RPI1, SDHSTS_ADDR, SDHBCT_ADDR, SDHBLC_ADDR}"

lemma uart_ev_quiet [simp]: "uart_ev e \<Longrightarrow> cmd_quiet e"
  by (cases e) (auto simp: reg_defs)

lemma quiet_reads [simp]:
  "TIMER_CLO_ADDR \<noteq> SDDATA_ADDR" "SDRSP0_ADDR \<noteq> SDDATA_ADDR" "SDRSP1_ADDR \<noteq> SDDATA_ADDR"
  "SDRSP2_ADDR \<noteq> SDDATA_ADDR" "SDRSP3_ADDR \<noteq> SDDATA_ADDR" "UART_FR_RPI1 \<noteq> SDDATA_ADDR"
  by (simp_all add: reg_defs)

lemma new_flag_wait_io: "new_flag_wait D m = Some (r, m') \<Longrightarrow> io cmd_quiet m m'"
  by (auto simp: new_flag_wait_def split: prod.splits) (erule bus_intros | simp)+

lemma read_response_io: "read_response D p l m = (r, m') \<Longrightarrow> io cmd_quiet m m'"
  by (auto simp: read_response_def split: prod.splits if_splits)
    (erule bus_intros | simp)+

lemma read_response_err [simp]: "read_response D p l m = (r, m') \<Longrightarrow> err r = 0"
  by (auto simp: read_response_def split: prod.splits if_splits)

lemmas [bus_intros] = io_back [OF new_flag_wait_io] io_back [OF read_response_io]

lemma send_cmd_finish_io:
  "send_cmd_finish D c p l t g sdcmd m = Some (r, m') \<Longrightarrow> io cmd_quiet m m'"
  by (auto simp: send_cmd_finish_def Let_def split: prod.splits if_splits elim!: bind_SomeE)
    (erule bus_intros | rule io_back_w | simp)+

lemmas [bus_intros] = io_back [OF send_cmd_finish_io]

text \<open>Up to the command itself, a cycle does not read the response register either.\<close>

definition wait_ev :: "bus_event \<Rightarrow> bool" where
  "wait_ev e \<longleftrightarrow> cmd_quiet e \<and> (\<forall>v. e \<noteq> BusRead SDRSP0_ADDR v)"

lemma wait_ev_quiet: "wait_ev e \<Longrightarrow> cmd_quiet e"
  by (simp add: wait_ev_def)

lemma wait_ev_simps [simp]:
  "uart_ev e \<Longrightarrow> wait_ev e"
  "wait_ev (BusRead a v) \<longleftrightarrow> a \<noteq> SDDATA_ADDR \<and> a \<noteq> SDRSP0_ADDR"
  "wait_ev (BusWrite a v) \<longleftrightarrow> a \<in> {UART_DR_RPI1, SDHSTS_ADDR, SDHBCT_ADDR, SDHBLC_ADDR}"
  by (cases e) (auto simp: wait_ev_def reg_defs)

lemma rsp0_neq [simp]:
  "TIMER_CLO_ADDR \<noteq> SDRSP0_ADDR" "SDCMD_ADDR \<noteq> SDRSP0_ADDR" "SDEDM_ADDR \<noteq> SDRSP0_ADDR"
  "SDHSTS_ADDR \<noteq> SDRSP0_ADDR" "UART_FR_RPI1 \<noteq> SDRSP0_ADDR"
  by (simp_all add: reg_defs)

lemma new_flag_wait_wait: "new_flag_wait D m = Some (r, m') \<Longrightarrow> io wait_ev m m'"
  by (auto simp: new_flag_wait_def split: prod.splits) (erule bus_intros | simp)+

text \<open>A cycle that does not fail ends by reading the response.\<close>

lemma send_cmd_finish_response:
  assumes "send_cmd_finish D c p l t g sdcmd m = Some (r, m')" and "err r = 0"
  shows "\<exists>mb. io cmd_quiet m mb \<and> read_response D p l mb = (r, m')"
proof -
  obtain sdhsts m1 where st: "mmio_r D SDHSTS_ADDR m = (sdhsts, m1)" by fastforce
  let ?m2 = "mmio_w D SDHSTS_ADDR SDHSTS_ERROR_MASK m1"
  have "read_response D p l m = (r, m') \<or> read_response D p l ?m2 = (r, m')"
    using assms st by (auto simp: send_cmd_finish_def cmd_failed_def Let_def split: if_splits elim!: bind_SomeE)
  moreover have "io cmd_quiet m ?m2"
    by (rule io_back_w [OF _ mmio_r_io [OF st]]) simp_all
  ultimately show ?thesis using io_refl [of cmd_quiet m] by blast
qed

text \<open>A command cycle either stops before it has written the command, or sends it once.\<close>

lemma send_cmd_cases:
  assumes "stage0_send_cmd D c arg p l b bs bn rd wr t g m = Some (r, m')"
  obtains (refused) "io cmd_quiet m m'" "err r \<in> {- 1, - 3}"
  | (sent) ma where "io wait_ev m ma"
      "io cmd_quiet (mmio_w D SDCMD_ADDR (sdcmd_word c p l b rd wr) (mmio_w D SDARG_ADDR arg ma)) m'"
      "err r = 0 \<Longrightarrow> \<exists>mb. io cmd_quiet (mmio_w D SDCMD_ADDR (sdcmd_word c p l b rd wr) (mmio_w D SDARG_ADDR arg ma)) mb
        \<and> read_response D p l mb = (r, m')"
proof -
  obtain edm m1 where edm: "mmio_r D SDEDM_ADDR m = (edm, m1)" by fastforce
  show thesis
  proof (cases "fsm_idle edm")
    case False
    show thesis
    proof (rule refused)
      show "io cmd_quiet m m'"
        using assms edm False
        by (auto simp: stage0_send_cmd_def elim!: bind_SomeE) (erule bus_intros | simp)+
      show "err r \<in> {- 1, - 3}"
        using assms edm False by (auto simp: stage0_send_cmd_def cmd_failed_def elim!: bind_SomeE)
    qed
  next
    case True
    obtain ready m2 where w1: "new_flag_wait D m1 = Some (ready, m2)"
      using assms edm True by (auto simp: stage0_send_cmd_def elim!: bind_SomeE)
    show thesis
    proof (cases ready)
      case None
      show thesis
      proof (rule refused)
        show "io cmd_quiet m m'"
          using assms edm True w1 None
          by (auto simp: stage0_send_cmd_def elim!: bind_SomeE) (erule bus_intros | simp)+
        show "err r \<in> {- 1, - 3}"
          using assms edm True w1 None
          by (auto simp: stage0_send_cmd_def cmd_failed_def elim!: bind_SomeE)
      qed
    next
      case (Some v)
      obtain sdhsts m3 where st: "mmio_r D SDHSTS_ADDR m2 = (sdhsts, m3)" by fastforce
      define m4 where "m4 = (if any_bit sdhsts SDHSTS_ERROR_MASK then mmio_w D SDHSTS_ADDR sdhsts m3 else m3)"
      define m5 where "m5 = (if bs \<noteq> 0
        then mmio_w D SDHBLC_ADDR bn (mmio_w D SDHBCT_ADDR bs m4) else m4)"
      let ?m6 = "mmio_w D SDCMD_ADDR (sdcmd_word c p l b rd wr) (mmio_w D SDARG_ADDR arg m5)"
      have "io wait_ev m m3"
        using st w1 edm by - (erule bus_intros | erule io_back [OF new_flag_wait_wait] | simp)+
      then have "io wait_ev m m5"
        by (auto simp: m4_def m5_def intro!: io_back_w)
      moreover have "stage0_send_cmd D c arg p l b bs bn rd wr t g m = do {
          (done, m) \<leftarrow> new_flag_wait D ?m6;
          case done of
            None \<Rightarrow> do {
              m \<leftarrow> u_puts D ''stage0: command phase never completed cmd='' m;
              m \<leftarrow> u_hex32 D c m;
              m \<leftarrow> u_puts D ''\<newline>'' m;
              Some (cmd_failed (- 1), m) }
          | Some sdcmd \<Rightarrow> send_cmd_finish D c p l t g sdcmd m }"
        using edm True w1 Some st by (simp add: stage0_send_cmd_def Let_def m4_def m5_def)
      note run = trans [OF this [symmetric] assms]
      from run have "io cmd_quiet ?m6 m'"
        by (auto elim!: bind_SomeE split: option.splits)
          (erule bus_intros | simp)+
      moreover have "\<exists>mb. io cmd_quiet ?m6 mb \<and> read_response D p l mb = (r, m')" if "err r = 0"
      proof -
        obtain ready2 m7 where w2: "new_flag_wait D ?m6 = Some (ready2, m7)"
          using run by (auto elim!: bind_SomeE)
        with run that obtain sdcmd where "send_cmd_finish D c p l t g sdcmd m7 = Some (r, m')"
          by (auto simp: cmd_failed_def split: option.splits elim!: bind_SomeE)
        from send_cmd_finish_response [OF this that] new_flag_wait_io [OF w2] show ?thesis
          by (blast intro: io_trans)
      qed
      ultimately show thesis by (rule sent)
    qed
  qed
qed

lemma send_cmd_io:
  assumes "stage0_send_cmd D c arg p l b bs bn rd wr t g m = Some (r, m')"
    and "\<And>e. cmd_quiet e \<Longrightarrow> W e" and "W (BusWrite SDARG_ADDR arg)"
    and "W (BusWrite SDCMD_ADDR (sdcmd_word c p l b rd wr))"
  shows "io W m m'"
  using assms(1)
proof (cases rule: send_cmd_cases)
  case refused
  then show ?thesis using assms(2) by (rule_tac io_mono)
next
  case (sent ma)
  have "io W m ma" using sent(1) assms(2) wait_ev_quiet by (blast intro: io_mono)
  then have "io W m (mmio_w D SDCMD_ADDR (sdcmd_word c p l b rd wr) (mmio_w D SDARG_ADDR arg ma))"
    using assms(3,4) by (intro io_back_w)
  moreover have "io W (mmio_w D SDCMD_ADDR (sdcmd_word c p l b rd wr) (mmio_w D SDARG_ADDR arg ma)) m'"
    using sent(2) assms(2) by (rule io_mono)
  ultimately show ?thesis by (rule io_trans)
qed

lemmas [bus_intros] = io_back [OF send_cmd_io]

section \<open>Every operation returns\<close>

lemma budgets [simp]: "unat CMD_TIMEOUT_US \<le> 1073741824" "unat TIMEOUT_US \<le> 1073741824"
  by (simp_all add: CMD_TIMEOUT_US_def TIMEOUT_US_def)

lemma new_flag_wait_live [live_intros]: "live D \<Longrightarrow> returns (new_flag_wait D m)"
  unfolding new_flag_wait_def by (intro live_intros) simp_all

lemma returns_option [live_intros]:
  "returns f \<Longrightarrow> (\<And>x. returns (g x)) \<Longrightarrow> returns (case r of None \<Rightarrow> f | Some x \<Rightarrow> g x)"
  by (cases r) simp_all

lemma returns_nat [live_intros]:
  "(n = 0 \<Longrightarrow> returns f) \<Longrightarrow> (\<And>k. n = Suc k \<Longrightarrow> returns (g k)) \<Longrightarrow>
     returns (case n of 0 \<Rightarrow> f | Suc k \<Rightarrow> g k)"
  by (cases n) simp_all

lemma send_cmd_finish_live [live_intros]:
  "live D \<Longrightarrow> returns (send_cmd_finish D c p l t g sdcmd m)"
  unfolding send_cmd_finish_def by (intro live_intros)

lemma send_cmd_live [live_intros]:
  "live D \<Longrightarrow> returns (stage0_send_cmd D c arg p l b bs bn rd wr t g m)"
  unfolding stage0_send_cmd_def by (intro live_intros)

lemma reset_live [live_intros]: "live D \<Longrightarrow> returns (stage0_reset_and_ident_clock D m)"
  unfolding stage0_reset_and_ident_clock_def by (intro live_intros) simp_all

lemma acmd41_live [live_intros]: "live D \<Longrightarrow> returns (acmd41_loop D n m)"
proof (induction n arbitrary: m)
  case 0
  then show ?case by (subst acmd41_loop.simps) (intro live_intros, simp_all)
next
  case (Suc n)
  from Suc.prems show ?case
    by (subst acmd41_loop.simps, insert Suc.IH) (intro live_intros, simp_all)
qed

lemma sd_init_live [live_intros]: "live D \<Longrightarrow> returns (stage0_sd_init D m)"
  unfolding stage0_sd_init_def by (intro live_intros) simp_all

lemma transfer_end_live [live_intros]: "live D \<Longrightarrow> returns (transfer_end D m)"
  unfolding transfer_end_def by (intro live_intros) simp_all

lemma read_block_live [live_intros]: "live D \<Longrightarrow> returns (stage0_sd_read_block D n buf m)"
  unfolding stage0_sd_read_block_def by (intro live_intros)

lemma write_block_live [live_intros]: "live D \<Longrightarrow> returns (stage0_sd_write_block D n buf m)"
  unfolding stage0_sd_write_block_def by (intro live_intros)

end
