(* ===== verification/Sd_Transfer.thy ===== *)
theory Sd_Transfer
  imports Sd_Proofs
begin

text \<open>
  What the SD driver does to the card: which commands it issues with which argument, and that
  a block transfer moves the words of the block in order and within the FIFO's bounds.
\<close>

section \<open>Commands on the bus\<close>

text \<open>
  The commands in a bus log, oldest first: each write to \<open>SDCMD\<close> with the value that \<open>SDARG\<close>
  held. A command with the write bit makes the card store the data at that argument.
\<close>

fun last_arg :: "bus_event list \<Rightarrow> u32" where
  "last_arg [] = 0"
| "last_arg (BusRead a v # es) = last_arg es"
| "last_arg (BusWrite a v # es) = (if a = SDARG_ADDR then v else last_arg es)"

fun issued :: "bus_event list \<Rightarrow> (u32 \<times> u32) list" where
  "issued [] = []"
| "issued (BusRead a v # es) = issued es"
| "issued (BusWrite a v # es) = issued es @ (if a = SDCMD_ADDR then [(v, last_arg es)] else [])"

definition write_targets :: "bus_event list \<Rightarrow> u32 list" where
  "write_targets es = map snd (filter (\<lambda>(w, _). any_bit w SDCMD_WRITE_CMD) (issued es))"

definition read_targets :: "bus_event list \<Rightarrow> u32 list" where
  "read_targets es = map snd (filter (\<lambda>(w, _). any_bit w SDCMD_READ_CMD) (issued es))"

text \<open>
  How the card is addressed is what it said in its operating-conditions register: the value last
  read from \<open>SDRSP0\<close> while command 41 was the last one sent. Bit 30 stands for a card that takes
  block numbers; other cards take byte addresses.
\<close>

fun last_index :: "bus_event list \<Rightarrow> u32" where
  "last_index [] = 0"
| "last_index (BusRead a v # es) = last_index es"
| "last_index (BusWrite a v # es) = (if a = SDCMD_ADDR then v AND 0x3F else last_index es)"

fun card_ocr :: "bus_event list \<Rightarrow> u32" where
  "card_ocr [] = 0"
| "card_ocr (BusRead a v # es) = (if a = SDRSP0_ADDR \<and> last_index es = 41 then v else card_ocr es)"
| "card_ocr (BusWrite a v # es) = card_ocr es"

definition block_addr :: "bus_event list \<Rightarrow> u32 \<Rightarrow> u32" where
  "block_addr es n = (if bit (card_ocr es) 30 then n else n * 512)"

definition cmd_silent :: "bus_event \<Rightarrow> bool" where
  "cmd_silent e \<longleftrightarrow> (\<forall>v. e \<noteq> BusWrite SDARG_ADDR v \<and> e \<noteq> BusWrite SDCMD_ADDR v)"

lemma issued_silent_append:
  "list_all cmd_silent es \<Longrightarrow> last_arg (es @ es') = last_arg es' \<and> issued (es @ es') = issued es'"
proof (induction es)
  case (Cons e es)
  then show ?case by (cases e) (auto simp: cmd_silent_def)
qed simp

lemma logs_silent: "logs cmd_silent m m' \<Longrightarrow> issued (bus m') = issued (bus m)"
  by (auto simp: logs_def issued_silent_append)

lemma write_targets_silent: "logs cmd_silent m m' \<Longrightarrow> write_targets (bus m') = write_targets (bus m)"
  by (simp add: write_targets_def logs_silent)

lemma cmd_quiet_silent: "cmd_quiet e \<Longrightarrow> cmd_silent e"
  by (cases e) (auto simp: cmd_silent_def reg_defs)

lemma quiet_issued: "io cmd_quiet m m' \<Longrightarrow> issued (bus m') = issued (bus m)"
  by (blast intro: logs_silent logs_mono io_logs cmd_quiet_silent)

lemma send_cmd_issued:
  assumes "stage0_send_cmd D c arg p l b bs bn rd wr t g m = Some (r, m')"
  shows "issued (bus m') = issued (bus m) @ [(sdcmd_word c p l b rd wr, arg)]
    \<or> issued (bus m') = issued (bus m) \<and> err r \<noteq> 0"
  using assms
proof (cases rule: send_cmd_cases)
  case refused
  then show ?thesis by (auto dest: quiet_issued)
next
  case (sent ma)
  then have "issued (bus m') = issued (bus ma) @ [(sdcmd_word c p l b rd wr, arg)]"
    by (auto dest!: quiet_issued(1) simp: mmio_w_def)
  then show ?thesis using quiet_issued [OF io_mono [OF sent(1) wait_ev_quiet]] by simp
qed

text \<open>An access other than sending command 41 leaves the answer alone, once another command is sent.\<close>

primrec steady_ev :: "bus_event \<Rightarrow> bool" where
  "steady_ev (BusRead a v) \<longleftrightarrow> True"
| "steady_ev (BusWrite a v) \<longleftrightarrow> a = SDCMD_ADDR \<longrightarrow> v AND 0x3F \<noteq> 41"

abbreviation steady :: "('s, 'z) mach_scheme \<Rightarrow> ('s, 'z) mach_scheme \<Rightarrow> bool" where
  "steady \<equiv> logs steady_ev"

lemma silent_steady [simp]: "cmd_silent e \<Longrightarrow> steady_ev e"
  by (cases e) (auto simp: cmd_silent_def)

lemma quiet_steady [simp]: "cmd_quiet e \<Longrightarrow> steady_ev e"
  by (simp add: cmd_quiet_silent)

lemma io_steady: "io P m m' \<Longrightarrow> (\<And>e. P e \<Longrightarrow> steady_ev e) \<Longrightarrow> steady m m'"
  by (rule logs_mono [OF io_logs])

lemma steady_ocr:
  assumes "steady m m'" and "last_index (bus m) \<noteq> 41"
  shows "card_ocr (bus m') = card_ocr (bus m) \<and> last_index (bus m') \<noteq> 41"
proof -
  obtain es where "bus m' = es @ bus m" "list_all steady_ev es" using assms(1) by (auto simp: logs_def)
  moreover have "list_all steady_ev es \<Longrightarrow> card_ocr (es @ bus m) = card_ocr (bus m) \<and> last_index (es @ bus m) \<noteq> 41"
  proof (induction es)
    case (Cons e es)
    then show ?case by (cases e) auto
  qed (simp add: assms(2))
  ultimately show ?thesis by simp
qed

lemma sdcmd_word_index: "sdcmd_word c p l b rd wr AND 0x3F = c AND 0x3F"
  by (simp add: sdcmd_word_def Let_def sd_flag_defs bit.conj_disj_distrib2 and.assoc)

lemma send_cmd_steady:
  assumes "stage0_send_cmd D c arg p l b bs bn rd wr t g m = Some (r, m')" and "c AND 0x3F \<noteq> 41"
  shows "io steady_ev m m'"
  by (rule send_cmd_io [OF assms(1)]) (simp_all add: sdcmd_word_index assms(2))

text \<open>The last access of a command that gets a short response is reading it.\<close>

lemma send_cmd_response:
  assumes "stage0_send_cmd D c arg True False b bs bn rd wr t g m = Some (r, m')" and "err r = 0"
  shows "\<exists>es. bus m' = BusRead SDRSP0_ADDR (response r ! 0) # es \<and> last_index es = c AND 0x3F"
  using assms(1)
proof (cases rule: send_cmd_cases)
  case refused
  with assms(2) show ?thesis by simp
next
  case (sent ma)
  let ?m1 = "mmio_w D SDCMD_ADDR (sdcmd_word c True False b rd wr) (mmio_w D SDARG_ADDR arg ma)"
  obtain mb where mb: "io cmd_quiet ?m1 mb" "read_response D True False mb = (r, m')"
    using sent(3) [OF assms(2)] by blast
  have "list_all cmd_quiet es \<Longrightarrow> last_index (es @ es') = last_index es'" for es es'
  proof (induction es)
    case (Cons e es)
    then show ?case by (cases e) (auto simp: reg_defs)
  qed simp
  moreover have "last_index (bus ?m1) = c AND 0x3F"
    by (simp add: mmio_w_def sdcmd_word_index)
  ultimately have "last_index (bus mb) = c AND 0x3F"
    using io_logs [OF mb(1)] by (auto simp: logs_def)
  with mb(2) show ?thesis by (auto simp: read_response_def mmio_r_def split: prod.splits)
qed

text \<open>A command other than 41 that does not fail is the last one sent, and the answer stays.\<close>

lemma send_cmd_ocr:
  assumes "stage0_send_cmd D c arg p l b bs bn rd wr t g m = Some (r, m')" and "err r = 0"
    and "c AND 0x3F \<noteq> 41"
  shows "card_ocr (bus m') = card_ocr (bus m) \<and> last_index (bus m') \<noteq> 41"
  using assms(1)
proof (cases rule: send_cmd_cases)
  case refused
  with assms(2) show ?thesis by simp
next
  case (sent ma)
  let ?m1 = "mmio_w D SDCMD_ADDR (sdcmd_word c p l b rd wr) (mmio_w D SDARG_ADDR arg ma)"
  have "list_all wait_ev es \<Longrightarrow> card_ocr (es @ es') = card_ocr es'" for es es'
  proof (induction es)
    case (Cons e es)
    then show ?case by (cases e) (auto simp: wait_ev_def)
  qed simp
  then have "card_ocr (bus ma) = card_ocr (bus m)"
    using io_logs [OF sent(1)] by (auto simp: logs_def)
  moreover have "card_ocr (bus ?m1) = card_ocr (bus ma)" and "last_index (bus ?m1) \<noteq> 41"
    by (simp_all add: mmio_w_def sdcmd_word_index assms(3))
  ultimately show ?thesis
    using steady_ocr [OF io_steady [OF sent(2)]] by simp
qed

lemma any_bit_7: "any_bit x 0x80 \<longleftrightarrow> bit x 7" for x :: u32
  by (simp add: bit_iff_and_push_bit_not_eq_0)

lemma sdcmd_word_write_bit: "any_bit (sdcmd_word c p l b rd wr) SDCMD_WRITE_CMD \<longleftrightarrow> wr"
proof -
  have "\<not> bit (0x3f :: u32) 7" "\<not> bit (0x400 :: u32) 7" "\<not> bit (0x200 :: u32) 7"
    "\<not> bit (0x800 :: u32) 7" "\<not> bit (0x40 :: u32) 7" "bit (0x80 :: u32) 7" "\<not> bit (0x8000 :: u32) 7"
    by (simp_all add: bit_iff_odd_drop_bit)
  then show ?thesis
    unfolding SDCMD_WRITE_CMD_def any_bit_7
    by (simp add: sdcmd_word_def Let_def bit_or_iff bit_and_iff sd_flag_defs)
qed

lemma any_bit_6: "any_bit x 0x40 \<longleftrightarrow> bit x 6" for x :: u32
  by (simp add: bit_iff_and_push_bit_not_eq_0)

lemma sdcmd_word_read_bit: "any_bit (sdcmd_word c p l b rd wr) SDCMD_READ_CMD \<longleftrightarrow> rd"
proof -
  have "\<not> bit (0x3f :: u32) 6" "\<not> bit (0x400 :: u32) 6" "\<not> bit (0x200 :: u32) 6"
    "\<not> bit (0x800 :: u32) 6" "bit (0x40 :: u32) 6" "\<not> bit (0x80 :: u32) 6" "\<not> bit (0x8000 :: u32) 6"
    by (simp_all add: bit_iff_odd_drop_bit)
  then show ?thesis
    unfolding SDCMD_READ_CMD_def any_bit_6
    by (simp add: sdcmd_word_def Let_def bit_or_iff bit_and_iff sd_flag_defs)
qed

lemma send_cmd_targets:
  assumes "stage0_send_cmd D c arg p l b bs bn rd wr t g m = Some (r, m')"
  shows "write_targets (bus m') = write_targets (bus m) @ (if wr then [arg] else [])
    \<or> write_targets (bus m') = write_targets (bus m) \<and> err r \<noteq> 0"
  using send_cmd_issued [OF assms] by (auto simp: write_targets_def sdcmd_word_write_bit)

lemma send_cmd_no_write:
  "stage0_send_cmd D c arg p l b bs bn rd False t g m = Some (r, m') \<Longrightarrow>
     write_targets (bus m') = write_targets (bus m)"
  using send_cmd_targets [of D c arg p l b bs bn rd False t g m r m'] by auto

section \<open>The read side\<close>

fun reads :: "u32 \<Rightarrow> bus_event list \<Rightarrow> u32 list" where
  "reads a [] = []"
| "reads a (BusRead b v # es) = reads a es @ (if b = a then [v] else [])"
| "reads a (BusWrite b v # es) = reads a es"

lemma reads_r: "mmio_r D b m = (v, m') \<Longrightarrow> reads a (bus m') = reads a (bus m) @ (if b = a then [v] else [])"
  by (auto simp: mmio_r_def split: prod.splits)

definition put_words :: "nat \<Rightarrow> u32 list \<Rightarrow> u32 list \<Rightarrow> u32 list" where
  "put_words pos ws buf = take pos buf @ ws @ drop (pos + length ws) buf"

lemma put_words_Nil [simp]: "put_words pos [] buf = buf"
  by (simp add: put_words_def)

lemma put_words_Cons:
  "pos < length buf \<Longrightarrow> put_words (Suc pos) ws (buf[pos := v]) = put_words pos (v # ws) buf"
  by (simp add: put_words_def take_Suc_conv_app_nth)

lemma put_words_append:
  "pos + length ws \<le> length buf \<Longrightarrow>
     put_words (pos + length ws) us (put_words pos ws buf) = put_words pos (ws @ us) buf"
  by (simp add: put_words_def add.commute add.left_commute)

lemma length_put_words [simp]: "pos + length ws \<le> length buf \<Longrightarrow> length (put_words pos ws buf) = length buf"
  by (simp add: put_words_def)

text \<open>The reads of a transfer loop: the fill level and the data register only.\<close>

definition drain_ev :: "bus_event \<Rightarrow> bool" where
  "drain_ev e \<longleftrightarrow> (\<exists>v. e = BusRead SDEDM_ADDR v \<or> e = BusRead SDDATA_ADDR v)"

lemma drain_ev_simps [simp]: "drain_ev (BusRead SDEDM_ADDR v)" "drain_ev (BusRead SDDATA_ADDR v)"
  by (auto simp: drain_ev_def)

lemma pop_words_spec:
  assumes "pop_words D n pos buf m = (buf', m')" and "pos + n \<le> length buf"
  shows "\<exists>ws. length ws = n \<and> buf' = put_words pos ws buf
    \<and> reads SDDATA_ADDR (bus m') = reads SDDATA_ADDR (bus m) @ ws \<and> io drain_ev m m'"
  using assms
proof (induction D n pos buf m rule: pop_words.induct)
  case (2 D n pos buf m)
  obtain v m1 where r: "mmio_r D SDDATA_ADDR m = (v, m1)" by fastforce
  have io1: "io drain_ev m m1" by (rule mmio_r_io [OF r]) simp
  have "pop_words D n (pos + 1) (buf[pos := v]) m1 = (buf', m')"
    using "2.prems"(1) r by simp
  from "2.IH" [OF r [symmetric] refl this] "2.prems"(2)
  obtain ws where "length ws = n" "buf' = put_words (pos + 1) ws (buf[pos := v])"
    "reads SDDATA_ADDR (bus m') = reads SDDATA_ADDR (bus m1) @ ws" "io drain_ev m1 m'"
    by auto
  with 2 r show ?case
    by (intro exI [of _ "v # ws"]) (auto simp: put_words_Cons reads_r [OF r] intro: io_trans [OF io1])
qed simp

lemma drain_loop_spec:
  assumes "drain_loop D n iters pos buf m = (ok, buf', m')" and "pos + n \<le> length buf"
  shows "\<exists>ws. length ws \<le> n \<and> (ok \<longrightarrow> length ws = n) \<and> buf' = put_words pos ws buf
    \<and> reads SDDATA_ADDR (bus m') = reads SDDATA_ADDR (bus m) @ ws \<and> io drain_ev m m'"
  using assms
proof (induction D n iters pos buf m arbitrary: ok buf' m' rule: drain_loop.induct)
  case (1 D n iters pos buf m)
  obtain edm m1 where r: "mmio_r D SDEDM_ADDR m = (edm, m1)" by fastforce
  have rm: "reads SDDATA_ADDR (bus m1) = reads SDDATA_ADDR (bus m)"
    using reads_r [OF r, of SDDATA_ADDR] by simp
  have io1: "io drain_ev m m1" by (rule mmio_r_io [OF r]) simp
  note eq = "1.prems"(1) [unfolded drain_loop.simps [of D n iters pos buf m] r Let_def prod.case]
  show ?case
  proof (cases "n = 0")
    case True
    with eq show ?thesis by auto
  next
    case n: False
    show ?thesis
    proof (cases "fifo_fill edm < burst_words n")
      case True
      show ?thesis
      proof (cases "ROOM_WAIT_MAX < iters + 1")
        case True
        with eq n \<open>fifo_fill edm < burst_words n\<close> rm io1 show ?thesis
          by (intro exI [of _ "[]"]) auto
      next
        case False
        from "1.IH"(1) [OF n r [symmetric] refl refl True refl False] eq n True False "1.prems"(2)
        show ?thesis
          using rm by (auto intro: io_trans [OF io1])
      qed
    next
      case fill: False
      define w where "w = (if n < fifo_fill edm then n else fifo_fill edm)"
      obtain buf1 m2 where p: "pop_words D w pos buf m1 = (buf1, m2)" by fastforce
      have wn: "w \<le> n" by (simp add: w_def)
      then obtain ws where ws: "length ws = w" "buf1 = put_words pos ws buf"
          "reads SDDATA_ADDR (bus m2) = reads SDDATA_ADDR (bus m1) @ ws" "io drain_ev m1 m2"
        using pop_words_spec [OF p] "1.prems"(2) by auto
      have "drain_loop D (n - w) iters (pos + w) buf1 m2 = (ok, buf', m')"
        using eq n fill p by (simp flip: w_def)
      from "1.IH"(2) [OF n r [symmetric] refl refl fill w_def p [symmetric] refl this]
      obtain us where "length us \<le> n - w" "ok \<longrightarrow> length us = n - w" "buf' = put_words (pos + w) us buf1"
        "reads SDDATA_ADDR (bus m') = reads SDDATA_ADDR (bus m2) @ us" "io drain_ev m2 m'"
        using wn "1.prems"(2) ws(1,2) by auto
      with ws wn rm "1.prems"(2) show ?thesis
        by (intro exI [of _ "ws @ us"])
          (auto simp flip: put_words_append intro: io_trans [OF io1] io_trans [OF ws(4)])
    qed
  qed
qed

section \<open>The write side\<close>

text \<open>
  The room in the FIFO that the log vouches for: what the last read of \<open>SDEDM\<close> reported, less
  the words written since. A log is \<open>tx_safe\<close> when no word was written without room for it.
\<close>

fun tx_room :: "bus_event list \<Rightarrow> nat" where
  "tx_room [] = 0"
| "tx_room (BusRead a v # es) = (if a = SDEDM_ADDR then nat (fifo_room v) else tx_room es)"
| "tx_room (BusWrite a v # es) = (if a = SDDATA_ADDR then tx_room es - 1 else tx_room es)"

fun tx_safe :: "bus_event list \<Rightarrow> bool" where
  "tx_safe [] \<longleftrightarrow> True"
| "tx_safe (BusRead a v # es) \<longleftrightarrow> tx_safe es"
| "tx_safe (BusWrite a v # es) \<longleftrightarrow> tx_safe es \<and> (a = SDDATA_ADDR \<longrightarrow> 0 < tx_room es)"

lemma tx_safe_append: "list_all (\<lambda>e. \<forall>v. e \<noteq> BusWrite SDDATA_ADDR v) es \<Longrightarrow> tx_safe (es @ es') = tx_safe es'"
proof (induction es)
  case (Cons e es)
  then show ?case by (cases e) auto
qed simp

lemma logs_no_write:
  assumes "logs P m m'" and "\<And>v. \<not> P (BusWrite a v)"
  obtains es where "bus m' = es @ bus m" "list_all (\<lambda>e. \<forall>v. e \<noteq> BusWrite a v) es"
proof -
  obtain es where es: "bus m' = es @ bus m" "list_all P es"
    using assms(1) by (auto simp: logs_def)
  from es(2) assms(2) have "list_all (\<lambda>e. \<forall>v. e \<noteq> BusWrite a v) es"
    unfolding list_all_iff by blast
  with es(1) show thesis by (rule that)
qed

lemma logs_tx_safe:
  "logs P m m' \<Longrightarrow> (\<And>v. \<not> P (BusWrite SDDATA_ADDR v)) \<Longrightarrow> tx_safe (bus m') = tx_safe (bus m)"
  by (erule logs_no_write) (auto simp: tx_safe_append)

definition fill_ev :: "bus_event \<Rightarrow> bool" where
  "fill_ev e \<longleftrightarrow> (\<exists>v. e = BusRead SDEDM_ADDR v \<or> e = BusWrite SDDATA_ADDR v)"

lemma fill_ev_simps [simp]: "fill_ev (BusRead SDEDM_ADDR v)" "fill_ev (BusWrite SDDATA_ADDR v)"
  by (auto simp: fill_ev_def)

lemma push_words_spec:
  "pos + n \<le> length wbuf \<Longrightarrow> n \<le> tx_room (bus m) \<Longrightarrow>
     (let m' = push_words D n pos wbuf m in
      written SDDATA_ADDR (bus m') = written SDDATA_ADDR (bus m) @ take n (drop pos wbuf)
      \<and> io fill_ev m m' \<and> (tx_safe (bus m) \<longrightarrow> tx_safe (bus m')))"
proof (induction D n pos wbuf m rule: push_words.induct)
  case (2 D n pos wbuf m)
  let ?m1 = "mmio_w D SDDATA_ADDR (wbuf ! pos) m"
  have "io fill_ev m ?m1" by (rule mmio_w_io) simp
  moreover have "tx_room (bus ?m1) = tx_room (bus m) - 1" "tx_safe (bus m) \<longrightarrow> tx_safe (bus ?m1)"
    using "2.prems" by (auto simp: mmio_w_def)
  moreover have "take (Suc n) (drop pos wbuf) = wbuf ! pos # take n (drop (Suc pos) wbuf)"
    using "2.prems"(1) by (simp add: Cons_nth_drop_Suc [symmetric])
  ultimately show ?case
    using 2 by (auto simp: Let_def intro: io_trans)
qed simp

lemma fill_loop_spec:
  assumes "fill_loop D n iters pos wbuf m = (ok, m')" and "pos + n \<le> length wbuf"
  shows "\<exists>k \<le> n. (ok \<longrightarrow> k = n)
    \<and> written SDDATA_ADDR (bus m') = written SDDATA_ADDR (bus m) @ take k (drop pos wbuf)
    \<and> io fill_ev m m' \<and> (tx_safe (bus m) \<longrightarrow> tx_safe (bus m'))"
  using assms
proof (induction D n iters pos wbuf m arbitrary: ok m' rule: fill_loop.induct)
  case (1 D n iters pos wbuf m)
  obtain edm m1 where r: "mmio_r D SDEDM_ADDR m = (edm, m1)" by fastforce
  have io1: "io fill_ev m m1" by (rule mmio_r_io [OF r]) simp
  have m1: "written SDDATA_ADDR (bus m1) = written SDDATA_ADDR (bus m)"
      "tx_safe (bus m1) = tx_safe (bus m)" "tx_room (bus m1) = nat (fifo_room edm)"
    using r by (auto simp: mmio_r_def split: prod.splits)
  note eq = "1.prems"(1) [unfolded fill_loop.simps [of D n iters pos wbuf m] r Let_def prod.case]
  show ?case
  proof (cases "n = 0")
    case True
    with eq show ?thesis by auto
  next
    case n: False
    show ?thesis
    proof (cases "fifo_room edm < int (burst_words n)")
      case room: True
      show ?thesis
      proof (cases "ROOM_WAIT_MAX < iters + 1")
        case True
        with eq n room m1 io1 show ?thesis by (intro exI [of _ 0]) auto
      next
        case False
        from "1.IH"(1) [OF n r [symmetric] refl refl room refl False] eq n room False "1.prems"(2) m1
        show ?thesis by (auto intro: io_trans [OF io1])
      qed
    next
      case room: False
      define w where "w = (if n < nat (fifo_room edm) then n else nat (fifo_room edm))"
      let ?m2 = "push_words D w pos wbuf m1"
      have wn: "w \<le> n" by (simp add: w_def)
      have w: "written SDDATA_ADDR (bus ?m2) = written SDDATA_ADDR (bus m1) @ take w (drop pos wbuf)"
          "io fill_ev m1 ?m2" "tx_safe (bus m1) \<longrightarrow> tx_safe (bus ?m2)"
        using push_words_spec [of pos w wbuf m1 D] wn "1.prems"(2) m1
        by (auto simp: Let_def w_def)
      have "fill_loop D (n - w) iters (pos + w) wbuf ?m2 = (ok, m')"
        using eq n room by (simp flip: w_def)
      from "1.IH"(2) [OF n r [symmetric] refl refl room w_def refl this]
      obtain k where k: "k \<le> n - w" "ok \<longrightarrow> k = n - w" "io fill_ev ?m2 m'" "tx_safe (bus ?m2) \<longrightarrow> tx_safe (bus m')"
        "written SDDATA_ADDR (bus m') = written SDDATA_ADDR (bus ?m2) @ take k (drop (pos + w) wbuf)"
        using wn "1.prems"(2) w(3) by auto
      then have "take w (drop pos wbuf) @ take k (drop (pos + w) wbuf) = take (w + k) (drop pos wbuf)"
        by (simp add: take_add drop_drop add.commute [of pos])
      with k w wn m1 show ?thesis
        by (intro exI [of _ "w + k"]) (auto intro: io_trans [OF io1] io_trans [OF w(2)])
    qed
  qed
qed

section \<open>The end of a transfer\<close>

text \<open>
  \<open>force_left\<close>: the last value written to \<open>SDEDM\<close> has the force bit set. Every path out of
  \<open>stage0_force_data_mode_settle\<close> clears it.
\<close>

fun force_left :: "bus_event list \<Rightarrow> bool" where
  "force_left [] \<longleftrightarrow> False"
| "force_left (BusRead a v # es) \<longleftrightarrow> force_left es"
| "force_left (BusWrite a v # es) \<longleftrightarrow>
     (if a = SDEDM_ADDR then any_bit v SDEDM_FORCE_DATA_MODE_BIT else force_left es)"

lemma force_left_append: "list_all (\<lambda>e. \<forall>v. e \<noteq> BusWrite SDEDM_ADDR v) es \<Longrightarrow> force_left (es @ es') = force_left es'"
proof (induction es)
  case (Cons e es)
  then show ?case by (cases e) auto
qed simp

lemma logs_force_left:
  "logs P m m' \<Longrightarrow> (\<And>v. \<not> P (BusWrite SDEDM_ADDR v)) \<Longrightarrow> force_left (bus m') = force_left (bus m)"
  by (erule logs_no_write) (auto simp: force_left_append)

primrec end_ev :: "bus_event \<Rightarrow> bool" where
  "end_ev (BusRead a v) \<longleftrightarrow> a \<noteq> SDDATA_ADDR"
| "end_ev (BusWrite a v) \<longleftrightarrow> a \<in> {SDEDM_ADDR, SDHSTS_ADDR}"

lemma force_cleared [simp]: "(x AND NOT y) AND y = 0" for y :: "'a::len word"
  by (simp add: and.assoc)

lemma force_settle_spec:
  "io end_ev m (force_settle_loop D n m) \<and> \<not> force_left (bus (force_settle_loop D n m))"
proof (induction D n m rule: force_settle_loop.induct)
  case (1 D m)
  obtain edm m1 where r: "mmio_r D SDEDM_ADDR m = (edm, m1)" by fastforce
  have "io end_ev m m1" by (rule mmio_r_io [OF r]) simp
  then have "io end_ev m (mmio_w D SDEDM_ADDR v m1)" for v
    by (rule io_back_w [rotated]) simp
  then show ?case using r by (simp add: mmio_w_def)
next
  case (2 D n m)
  obtain edm m1 where r: "mmio_r D SDEDM_ADDR m = (edm, m1)" by fastforce
  have io1: "io end_ev m m1" by (rule mmio_r_io [OF r]) simp
  then have "io end_ev m (mmio_w D SDEDM_ADDR v m1)" for v
    by (rule io_back_w [rotated]) simp
  with 2 r io1 show ?case by (auto simp: mmio_w_def intro: io_trans [OF io1])
qed

lemma transfer_end_spec:
  assumes "transfer_end D m = Some (rc, m')"
  shows "io end_ev m m'" and "\<not> force_left (bus m) \<Longrightarrow> \<not> force_left (bus m')"
    and "rc = 0 \<or> rc = - 9"
proof -
  obtain st m1 where r: "mmio_r D SDHSTS_ADDR m = (st, m1)" by fastforce
  have io1: "io end_ev m m1" by (rule mmio_r_io [OF r]) simp
  have f1: "force_left (bus m1) = force_left (bus m)"
    using r by (auto simp: mmio_r_def split: prod.splits)
  obtain t0 m2 where t: "now_us D m1 = (t0, m2)" by fastforce
  have io2: "io end_ev m m2" by (rule io_back [OF now_us_io [OF t] io1]) simp
  have f2: "force_left (bus m2) = force_left (bus m)"
    using t f1 by (auto simp: now_us_def mmio_r_def split: prod.splits)
  have "io end_ev m m' \<and> (\<not> force_left (bus m) \<longrightarrow> \<not> force_left (bus m')) \<and> (rc = 0 \<or> rc = - 9)"
  proof (cases "any_bit st (0x20 OR 0x10 OR 0x08 OR 0x40 OR 0x80)")
    case True
    with assms r io1 f1 show ?thesis by (auto simp: transfer_end_def)
  next
    case False
    obtain q m3 where p: "poll_reg D SDEDM_ADDR (\<lambda>edm. fsm_idle edm \<or> fsm_transfer edm) t0 TIMEOUT_US m2
        = Some (q, m3)"
      using assms r t False by (auto simp: transfer_end_def Let_def elim!: bind_SomeE)
    have io3: "io end_ev m m3" by (rule io_back [OF poll_reg_io [OF p] io2]) simp_all
    have f3: "force_left (bus m3) = force_left (bus m)"
      using logs_force_left [OF io_logs [OF poll_reg_ev [OF p, THEN conjunct1]]] f2 by simp
    show ?thesis
    proof (cases q)
      case None
      with assms r t False p io3 f3 show ?thesis by (auto simp: transfer_end_def Let_def)
    next
      case (Some edm)
      define m4 where "m4 = (if fsm_idle edm then m3
        else stage0_force_data_mode_settle D
          (mmio_w D SDEDM_ADDR (edm OR SDEDM_FORCE_DATA_MODE_BIT) m3))"
      have "io end_ev m (mmio_w D SDEDM_ADDR v m3)" for v
        by (rule io_back_w [OF _ io3]) simp
      then have io4: "io end_ev m m4" and f4: "\<not> force_left (bus m) \<longrightarrow> \<not> force_left (bus m4)"
        using io3 f3 force_settle_spec
        by (auto simp: m4_def stage0_force_data_mode_settle_def
            intro: io_back [OF force_settle_spec [THEN conjunct1]])
      obtain st2 m5 where r5: "mmio_r D SDHSTS_ADDR m4 = (st2, m5)" by fastforce
      have "io end_ev m m5" by (rule io_back [OF mmio_r_io [OF r5] io4]) simp
      then have "io end_ev m (mmio_w D SDHSTS_ADDR v m5)" for v
        by (rule io_back_w [rotated]) simp
      moreover have "force_left (bus (mmio_w D SDHSTS_ADDR v m5)) = force_left (bus m4)" for v
        using r5 by (auto simp: mmio_r_def mmio_w_def split: prod.splits)
      ultimately show ?thesis
        using assms r t False p Some r5 f4
        by (auto simp: transfer_end_def Let_def simp flip: m4_def split: if_splits)
    qed
  qed
  then show "io end_ev m m'" and "\<not> force_left (bus m) \<Longrightarrow> \<not> force_left (bus m')"
    and "rc = 0 \<or> rc = - 9" by auto
qed

section \<open>Whole transfers\<close>

text \<open>Operations only add to the log.\<close>

abbreviation grows :: "('s, 'z) mach_scheme \<Rightarrow> ('s, 'z) mach_scheme \<Rightarrow> bool" where
  "grows \<equiv> logs (\<lambda>e. True)"

lemma io_grows: "io P m m' \<Longrightarrow> grows m m'"
  by (rule logs_mono [OF io_logs]) simp_all

lemma io_reads: "logs P m m' \<Longrightarrow> (\<And>v. \<not> P (BusRead a v)) \<Longrightarrow> reads a (bus m') = reads a (bus m)"
proof -
  assume "logs P m m'" and P: "\<And>v. \<not> P (BusRead a v)"
  then obtain es where es: "bus m' = es @ bus m" "list_all P es" by (auto simp: logs_def)
  from es(2) P have "reads a (es @ bus m) = reads a (bus m)"
  proof (induction es)
    case (Cons e es)
    then show ?case by (cases e) auto
  qed simp
  with es(1) show ?thesis by simp
qed

lemma drain_ev_silent: "drain_ev e \<Longrightarrow> cmd_silent e"
  and fill_ev_silent: "fill_ev e \<Longrightarrow> cmd_silent e"
  and end_ev_silent: "end_ev e \<Longrightarrow> cmd_silent e"
  by (cases e; auto simp: drain_ev_def fill_ev_def cmd_silent_def reg_defs)+

lemmas io_silent = logs_mono [OF io_logs]

lemma steady_grows: "steady m m' \<Longrightarrow> grows m m'"
  by (rule logs_mono) simp_all

text \<open>
  The part both transfers have in common: \<open>CMD16\<close>, the configuration write, and the transfer
  command. \<open>setup_ev\<close> are the accesses it may make.
\<close>

primrec setup_ev :: "bus_event \<Rightarrow> bool" where
  "setup_ev (BusRead a v) \<longleftrightarrow> a \<noteq> SDDATA_ADDR"
| "setup_ev (BusWrite a v) \<longleftrightarrow> a \<noteq> SDDATA_ADDR \<and> a \<noteq> SDEDM_ADDR"

lemma quiet_setup: "cmd_quiet e \<Longrightarrow> setup_ev e"
  by (cases e) (auto simp: reg_defs)

lemma setup_hcfg [simp]: "SDHCFG_ADDR \<noteq> SDDATA_ADDR" "SDHCFG_ADDR \<noteq> SDEDM_ADDR"
    "SDHCFG_ADDR \<noteq> SDCMD_ADDR" "SDHCFG_ADDR \<noteq> SDARG_ADDR"
  by (simp_all add: reg_defs)

lemma setup_spec:
  assumes c1: "stage0_send_cmd D 16 512 True False False 0 0 False False False False m = Some (r1, m1)"
    and c2: "stage0_send_cmd D c addr True False False 512 1 rd wr False False
        (mmio_w D SDHCFG_ADDR 0x40A m1) = Some (rr, m2)"
  shows "io setup_ev m m2"
    and "write_targets (bus m2) = write_targets (bus m) @ (if wr then [addr] else [])
      \<or> write_targets (bus m2) = write_targets (bus m) \<and> err rr \<noteq> 0"
    and "err rr = 0 \<Longrightarrow> \<exists>us. issued (bus m2) =
      issued (bus m) @ us @ [(sdcmd_word c True False False rd wr, addr)]
      \<and> set us \<subseteq> {(sdcmd_word 16 True False False False False, 512)}"
proof -
  let ?m1' = "mmio_w D SDHCFG_ADDR 0x40A m1"
  have "io setup_ev m ?m1'"
    by (rule io_back_w [OF _ send_cmd_io [OF c1]]) (simp_all add: quiet_setup)
  then show "io setup_ev m m2"
    by (rule io_back [OF send_cmd_io [OF c2], rotated 3]) (simp_all add: quiet_setup)
  have h: "issued (bus ?m1') = issued (bus m1)"
    by (rule logs_silent [OF io_logs [OF mmio_w_io]]) (simp add: cmd_silent_def)
  then have "write_targets (bus ?m1') = write_targets (bus m)"
    using send_cmd_no_write [OF c1] by (simp add: write_targets_def)
  then show "write_targets (bus m2) = write_targets (bus m) @ (if wr then [addr] else [])
      \<or> write_targets (bus m2) = write_targets (bus m) \<and> err rr \<noteq> 0"
    using send_cmd_targets [OF c2] by simp
  show "err rr = 0 \<Longrightarrow> \<exists>us. issued (bus m2) =
      issued (bus m) @ us @ [(sdcmd_word c True False False rd wr, addr)]
      \<and> set us \<subseteq> {(sdcmd_word 16 True False False False False, 512)}"
    using send_cmd_issued [OF c1] send_cmd_issued [OF c2] h by auto
qed

lemma setup_steady:
  assumes "stage0_send_cmd D 16 512 True False False 0 0 False False False False m = Some (r1, m1)"
    and "stage0_send_cmd D c addr True False False 512 1 rd wr False False
        (mmio_w D SDHCFG_ADDR 0x40A m1) = Some (rr, m2)"
    and "c AND 0x3F \<noteq> 41"
  shows "steady m m2"
proof -
  have "io steady_ev m (mmio_w D SDHCFG_ADDR 0x40A m1)"
    by (rule io_back_w [OF _ send_cmd_steady [OF assms(1)]]) simp_all
  then show ?thesis
    by (rule io_logs [OF io_back [OF send_cmd_steady [OF assms(2,3)]]])
qed

lemma setup_keeps:
  assumes "stage0_send_cmd D 16 512 True False False 0 0 False False False False m = Some (r1, m1)"
    and "stage0_send_cmd D c addr True False False 512 1 rd wr False False
        (mmio_w D SDHCFG_ADDR 0x40A m1) = Some (rr, m2)"
  shows "mach.more m2 = mach.more m" and "force_left (bus m2) = force_left (bus m)"
    and "reads SDDATA_ADDR (bus m2) = reads SDDATA_ADDR (bus m)"
    and "written SDDATA_ADDR (bus m2) = written SDDATA_ADDR (bus m)"
    and "tx_safe (bus m2) = tx_safe (bus m)"
proof -
  note st = setup_spec(1) [OF assms]
  show "mach.more m2 = mach.more m" "force_left (bus m2) = force_left (bus m)"
      "reads SDDATA_ADDR (bus m2) = reads SDDATA_ADDR (bus m)"
      "written SDDATA_ADDR (bus m2) = written SDDATA_ADDR (bus m)" "tx_safe (bus m2) = tx_safe (bus m)"
    using io_more [OF st] logs_force_left [OF io_logs [OF st]] io_reads [OF io_logs [OF st]]
      io_written [OF st] logs_tx_safe [OF io_logs [OF st]] by auto
qed

lemma transfer_end_keeps:
  assumes "transfer_end D m = Some (rc, m')"
  shows "mach.more m' = mach.more m" and "issued (bus m') = issued (bus m)"
    and "reads SDDATA_ADDR (bus m') = reads SDDATA_ADDR (bus m)"
  using io_more [OF transfer_end_spec(1) [OF assms]]
    logs_silent [OF io_silent [OF transfer_end_spec(1) [OF assms] end_ev_silent]]
    io_reads [OF io_logs [OF transfer_end_spec(1) [OF assms]]] by auto

text \<open>How a block read goes: the set-up, the words, the end of the transfer.\<close>

lemma read_block_cases:
  assumes "stage0_sd_read_block D n buf m = Some (rc, buf', m')"
  obtains r1 m1 rr m2
  where "stage0_send_cmd D 16 512 True False False 0 0 False False False False m = Some (r1, m1)"
    "stage0_send_cmd D 17 (card_addr m n) True False False 512 1 True False False False
      (mmio_w D SDHCFG_ADDR 0x40A m1) = Some (rr, m2)"
    "err rr \<noteq> 0 \<and> rc = - 9 \<and> buf' = buf \<and> m' = m2
      \<or> err rr = 0 \<and> (\<exists>m3. drain_loop D 128 0 0 buf m2 = (False, buf', m3) \<and> rc = - 9 \<and> m' = m3)
      \<or> err rr = 0 \<and> (\<exists>m3. drain_loop D 128 0 0 buf m2 = (True, buf', m3) \<and> transfer_end D m3 = Some (rc, m'))"
  using assms by (auto simp: stage0_sd_read_block_def Let_def split: if_splits prod.splits elim!: bind_SomeE)

lemma drain_block:
  assumes "drain_loop D 128 0 0 buf m = (ok, buf', m')" and "length buf = 128"
  shows "mach.more m' = mach.more m" and "issued (bus m') = issued (bus m)"
    and "force_left (bus m') = force_left (bus m)" and "length buf' = 128"
    and "ok \<Longrightarrow> reads SDDATA_ADDR (bus m') = reads SDDATA_ADDR (bus m) @ buf'"
    and "io drain_ev m m'"
proof -
  from drain_loop_spec [OF assms(1)] assms(2) obtain ws where ws: "length ws \<le> 128" "ok \<longrightarrow> length ws = 128"
      "buf' = put_words 0 ws buf" "reads SDDATA_ADDR (bus m') = reads SDDATA_ADDR (bus m) @ ws"
      and io: "io drain_ev m m'" by auto
  show "mach.more m' = mach.more m" "issued (bus m') = issued (bus m)"
      "force_left (bus m') = force_left (bus m)" "length buf' = 128" "io drain_ev m m'"
    using io_more [OF io] logs_silent [OF io_silent [OF io drain_ev_silent]]
      logs_force_left [OF io_logs [OF io]] ws assms(2) io by (auto simp: drain_ev_def)
  show "ok \<Longrightarrow> reads SDDATA_ADDR (bus m') = reads SDDATA_ADDR (bus m) @ buf'"
    using ws assms(2) by (simp add: put_words_def)
qed

lemma read_block_spec:
  assumes call: "stage0_sd_read_block D n buf m = Some (rc, buf', m')" and len: "length buf = 128"
  shows "mach.more m' = mach.more m" and "length buf' = 128"
    and "write_targets (bus m') = write_targets (bus m)"
    and "\<not> force_left (bus m) \<Longrightarrow> \<not> force_left (bus m')"
    and "rc = 0 \<Longrightarrow> reads SDDATA_ADDR (bus m') = reads SDDATA_ADDR (bus m) @ buf'
      \<and> (\<exists>us. issued (bus m') = issued (bus m) @ us @
          [(sdcmd_word 17 True False False True False, card_addr m n)]
          \<and> set us \<subseteq> {(sdcmd_word 16 True False False False False, 512)})"
    and "rc = 0 \<or> rc = - 9" and "steady m m'"
proof -
  obtain r1 m1 rr m2 where
      c: "stage0_send_cmd D 16 512 True False False 0 0 False False False False m = Some (r1, m1)"
        "stage0_send_cmd D 17 (card_addr m n) True False False 512 1 True False False False
          (mmio_w D SDHCFG_ADDR 0x40A m1) = Some (rr, m2)"
    and how: "err rr \<noteq> 0 \<and> rc = - 9 \<and> buf' = buf \<and> m' = m2
      \<or> err rr = 0 \<and> (\<exists>m3. drain_loop D 128 0 0 buf m2 = (False, buf', m3) \<and> rc = - 9 \<and> m' = m3)
      \<or> err rr = 0 \<and> (\<exists>m3. drain_loop D 128 0 0 buf m2 = (True, buf', m3) \<and> transfer_end D m3 = Some (rc, m'))"
    using read_block_cases [OF call] .
  note st = setup_spec [OF c] and k = setup_keeps [OF c]
  have g2: "steady m m2" by (rule setup_steady [OF c]) simp
  have "mach.more m' = mach.more m \<and> length buf' = 128 \<and> write_targets (bus m') = write_targets (bus m)
    \<and> (\<not> force_left (bus m) \<longrightarrow> \<not> force_left (bus m')) \<and> (rc = 0 \<or> rc = - 9) \<and> steady m m'
    \<and> (rc = 0 \<longrightarrow> reads SDDATA_ADDR (bus m') = reads SDDATA_ADDR (bus m) @ buf' \<and> issued (bus m') = issued (bus m2)
        \<and> err rr = 0)"
    using how
  proof (elim disjE conjE exE)
    fix m3
    assume d: "drain_loop D 128 0 0 buf m2 = (True, buf', m3)" and te: "transfer_end D m3 = Some (rc, m')"
      and "err rr = 0"
    note dr = drain_block [OF d len] and e = transfer_end_keeps [OF te] and es = transfer_end_spec [OF te]
    show ?thesis
      using st(2) k dr e es(2,3) logs_trans [OF logs_trans [OF g2 io_steady [OF dr(6)]] io_steady [OF es(1)]] drain_ev_silent end_ev_silent
        \<open>err rr = 0\<close>
      by (auto simp: write_targets_def)
  next
    fix m3
    assume d: "drain_loop D 128 0 0 buf m2 = (False, buf', m3)" and "rc = - 9" "m' = m3"
    then show ?thesis
      using st(2) k drain_block [OF d len] logs_trans [OF g2 io_steady [OF drain_block(6) [OF d len]]] drain_ev_silent
      by (auto simp: write_targets_def)
  qed (use st(2) k len g2 in auto)
  then show "mach.more m' = mach.more m" "length buf' = 128" "write_targets (bus m') = write_targets (bus m)"
    "\<not> force_left (bus m) \<Longrightarrow> \<not> force_left (bus m')" "rc = 0 \<or> rc = - 9" "steady m m'"
    "rc = 0 \<Longrightarrow> reads SDDATA_ADDR (bus m') = reads SDDATA_ADDR (bus m) @ buf'
      \<and> (\<exists>us. issued (bus m') = issued (bus m) @ us @
          [(sdcmd_word 17 True False False True False, card_addr m n)]
          \<and> set us \<subseteq> {(sdcmd_word 16 True False False False False, 512)})"
    using st(3) by auto
qed

lemma read_block_targets:
  assumes call: "stage0_sd_read_block D n buf m = Some (0, buf', m')" and len: "length buf = 128"
  shows "read_targets (bus m') = read_targets (bus m) @ [card_addr m n]"
proof -
  from read_block_spec(5) [OF assms refl] obtain us where "issued (bus m') = issued (bus m) @ us @
      [(sdcmd_word 17 True False False True False, card_addr m n)]"
    and "set us \<subseteq> {(sdcmd_word 16 True False False False False, 512)}" by blast
  moreover from this(2) have "filter (\<lambda>(w, _). any_bit w SDCMD_READ_CMD) us = []"
    by (auto simp: filter_empty_conv sdcmd_word_read_bit)
  ultimately show ?thesis by (simp add: read_targets_def sdcmd_word_read_bit)
qed

lemma fifo_drain_wait_ev: "io drain_ev m (fifo_drain_wait D n m)"
proof (induction D n m rule: fifo_drain_wait.induct)
  case (2 D left m)
  obtain edm m1 where r: "mmio_r D SDEDM_ADDR m = (edm, m1)" by fastforce
  have io1: "io drain_ev m m1" by (rule mmio_r_io [OF r]) simp
  with 2 r show ?case by (auto intro: io_trans [OF io1])
qed simp

lemma setup_no_data: "\<not> setup_ev (BusWrite SDDATA_ADDR v)" by simp

lemma write_block_cases:
  assumes "stage0_sd_write_block D n wbuf m = Some (rc, m')"
  obtains r1 m1 rr m2
  where "stage0_send_cmd D 16 512 True False False 0 0 False False False False m = Some (r1, m1)"
    "stage0_send_cmd D 24 (card_addr m n) True False False 512 1 False True False False
      (mmio_w D SDHCFG_ADDR 0x40A m1) = Some (rr, m2)"
    "err rr \<noteq> 0 \<and> rc = - 9 \<and> m' = m2
      \<or> err rr = 0 \<and> (\<exists>m3. fill_loop D 128 0 0 wbuf m2 = (False, m3) \<and> rc = - 9 \<and> m' = m3)
      \<or> err rr = 0 \<and> (\<exists>m3. fill_loop D 128 0 0 wbuf m2 = (True, m3)
        \<and> transfer_end D (fifo_drain_wait D 1000000 m3) = Some (rc, m'))"
  using assms by (auto simp: stage0_sd_write_block_def Let_def split: if_splits prod.splits elim!: bind_SomeE)

lemma fill_block:
  assumes "fill_loop D 128 0 0 wbuf m = (ok, m')" and "length wbuf = 128"
  shows "mach.more m' = mach.more m" and "issued (bus m') = issued (bus m)"
    and "force_left (bus m') = force_left (bus m)" and "tx_safe (bus m) \<Longrightarrow> tx_safe (bus m')"
    and "\<exists>k \<le> 128. (ok \<longrightarrow> k = 128) \<and> written SDDATA_ADDR (bus m') = written SDDATA_ADDR (bus m) @ take k wbuf"
    and "io fill_ev m m'"
proof -
  from fill_loop_spec [OF assms(1)] assms(2) obtain k where k: "ok \<longrightarrow> k = 128" "k \<le> 128"
      "written SDDATA_ADDR (bus m') = written SDDATA_ADDR (bus m) @ take k wbuf"
      and io: "io fill_ev m m'" and safe: "tx_safe (bus m) \<longrightarrow> tx_safe (bus m')" by auto
  show "mach.more m' = mach.more m" "issued (bus m') = issued (bus m)" "force_left (bus m') = force_left (bus m)"
      "tx_safe (bus m) \<Longrightarrow> tx_safe (bus m')" "io fill_ev m m'"
    using io_more [OF io] logs_silent [OF io_silent [OF io fill_ev_silent]]
      logs_force_left [OF io_logs [OF io]] safe io by (auto simp: fill_ev_def)
  show "\<exists>k \<le> 128. (ok \<longrightarrow> k = 128) \<and> written SDDATA_ADDR (bus m') = written SDDATA_ADDR (bus m) @ take k wbuf"
    using k by blast
qed

text \<open>After the last word: waiting for the FIFO to drain, and the end of the transfer.\<close>

lemma write_end:
  assumes "transfer_end D (fifo_drain_wait D 1000000 m) = Some (rc, m')"
  shows "mach.more m' = mach.more m" and "issued (bus m') = issued (bus m)"
    and "written SDDATA_ADDR (bus m') = written SDDATA_ADDR (bus m)"
    and "tx_safe (bus m) \<Longrightarrow> tx_safe (bus m')"
    and "\<not> force_left (bus m) \<Longrightarrow> \<not> force_left (bus m')" and "rc = 0 \<or> rc = - 9" and "steady m m'"
proof -
  note te = transfer_end_spec [OF assms]
  have io: "io (\<lambda>e. drain_ev e \<or> end_ev e) m m'"
    by (rule io_trans [OF io_mono [OF fifo_drain_wait_ev] io_mono [OF te(1)]]) simp_all
  have nw: "\<not> (drain_ev (BusWrite SDDATA_ADDR v) \<or> end_ev (BusWrite SDDATA_ADDR v))" for v
    by (simp add: drain_ev_def)
  have "logs cmd_silent m m'"
    by (rule io_silent [OF io]) (use drain_ev_silent end_ev_silent in blast)
  then show "issued (bus m') = issued (bus m)" "steady m m'" by (auto intro: logs_silent logs_mono)
  show "mach.more m' = mach.more m" "written SDDATA_ADDR (bus m') = written SDDATA_ADDR (bus m)"
    using io_more [OF io] io_written [OF io nw] by simp_all
  show "tx_safe (bus m) \<Longrightarrow> tx_safe (bus m')" using logs_tx_safe [OF io_logs [OF io] nw] by simp
  have "force_left (bus (fifo_drain_wait D 1000000 m)) = force_left (bus m)"
    using logs_force_left [OF io_logs [OF fifo_drain_wait_ev]] by (auto simp: drain_ev_def)
  then show "\<not> force_left (bus m) \<Longrightarrow> \<not> force_left (bus m')" "rc = 0 \<or> rc = - 9" using te(2,3) by auto
qed

lemma write_block_spec:
  assumes call: "stage0_sd_write_block D n wbuf m = Some (rc, m')" and len: "length wbuf = 128"
  shows "mach.more m' = mach.more m"
    and "write_targets (bus m') = write_targets (bus m)
      \<or> write_targets (bus m') = write_targets (bus m) @ [card_addr m n]"
    and "\<not> force_left (bus m) \<Longrightarrow> \<not> force_left (bus m')"
    and "tx_safe (bus m) \<Longrightarrow> tx_safe (bus m')"
    and "rc = 0 \<Longrightarrow>
      written SDDATA_ADDR (bus m') = written SDDATA_ADDR (bus m) @ wbuf
      \<and> write_targets (bus m') = write_targets (bus m) @ [card_addr m n]"
    and "rc = 0 \<or> rc = - 9"
    and "\<exists>k \<le> 128. written SDDATA_ADDR (bus m') = written SDDATA_ADDR (bus m) @ take k wbuf"
    and "steady m m'"
proof -
  obtain r1 m1 rr m2 where
      c: "stage0_send_cmd D 16 512 True False False 0 0 False False False False m = Some (r1, m1)"
        "stage0_send_cmd D 24 (card_addr m n) True False False 512 1 False True False False
          (mmio_w D SDHCFG_ADDR 0x40A m1) = Some (rr, m2)"
    and how: "err rr \<noteq> 0 \<and> rc = - 9 \<and> m' = m2
      \<or> err rr = 0 \<and> (\<exists>m3. fill_loop D 128 0 0 wbuf m2 = (False, m3) \<and> rc = - 9 \<and> m' = m3)
      \<or> err rr = 0 \<and> (\<exists>m3. fill_loop D 128 0 0 wbuf m2 = (True, m3)
        \<and> transfer_end D (fifo_drain_wait D 1000000 m3) = Some (rc, m'))"
    using write_block_cases [OF call] .
  note st = setup_spec [OF c] and s = setup_keeps [OF c]
  have g2: "steady m m2" by (rule setup_steady [OF c]) simp
  have "mach.more m' = mach.more m \<and> issued (bus m') = issued (bus m2)
    \<and> (\<not> force_left (bus m) \<longrightarrow> \<not> force_left (bus m')) \<and> (tx_safe (bus m) \<longrightarrow> tx_safe (bus m'))
    \<and> (rc = 0 \<longrightarrow> err rr = 0) \<and> (rc = 0 \<or> rc = - 9) \<and> steady m m'
    \<and> (\<exists>k \<le> 128. (rc = 0 \<longrightarrow> k = 128) \<and> written SDDATA_ADDR (bus m') = written SDDATA_ADDR (bus m) @ take k wbuf)"
    using how
  proof (elim disjE conjE exE)
    fix m3
    assume d: "fill_loop D 128 0 0 wbuf m2 = (True, m3)" and "err rr = 0"
      and te: "transfer_end D (fifo_drain_wait D 1000000 m3) = Some (rc, m')"
    note f = fill_block [OF d len] and w = write_end [OF te]
    show ?thesis
      using s f w(1-6) logs_trans [OF logs_trans [OF g2 io_steady [OF f(6)]] w(7)] fill_ev_silent \<open>err rr = 0\<close> by auto
  next
    fix m3
    assume d: "fill_loop D 128 0 0 wbuf m2 = (False, m3)" and "rc = - 9" "m' = m3"
    then show ?thesis
      using s fill_block [OF d len] logs_trans [OF g2 io_steady [OF fill_block(6) [OF d len]]] fill_ev_silent by auto
  qed (use s g2 in \<open>auto intro!: exI [of _ 0]\<close>)
  then show "mach.more m' = mach.more m" "\<not> force_left (bus m) \<Longrightarrow> \<not> force_left (bus m')"
    "tx_safe (bus m) \<Longrightarrow> tx_safe (bus m')" "rc = 0 \<or> rc = - 9" "steady m m'"
    "\<exists>k \<le> 128. written SDDATA_ADDR (bus m') = written SDDATA_ADDR (bus m) @ take k wbuf"
    "write_targets (bus m') = write_targets (bus m)
      \<or> write_targets (bus m') = write_targets (bus m) @ [card_addr m n]"
    "rc = 0 \<Longrightarrow> written SDDATA_ADDR (bus m') = written SDDATA_ADDR (bus m) @ wbuf
      \<and> write_targets (bus m') = write_targets (bus m) @ [card_addr m n]"
    using st(2) len by (auto simp: write_targets_def)
qed

end
