(* ===== verification/Sd_Init.thy ===== *)
theory Sd_Init
  imports Sd_Transfer
begin

text \<open>
  The lemmas of the bring-up: it never issues a write command, the mailbox query is bounded,
  and the divisor it computes keeps the card clock at or below 1 MHz.
\<close>

section \<open>No write command\<close>

primrec no_write_ev :: "bus_event \<Rightarrow> bool" where
  "no_write_ev (BusRead a v) \<longleftrightarrow> True"
| "no_write_ev (BusWrite a v) \<longleftrightarrow>
     a \<noteq> SDDATA_ADDR \<and> (a = SDCMD_ADDR \<longrightarrow> \<not> any_bit v SDCMD_WRITE_CMD)"

lemma no_write_targets: "list_all no_write_ev es \<Longrightarrow> write_targets (es @ es') = write_targets es'"
proof (induction es)
  case (Cons e es)
  then show ?case by (cases e) (auto simp: write_targets_def)
qed simp

lemma logs_no_write_targets: "logs no_write_ev m m' \<Longrightarrow> write_targets (bus m') = write_targets (bus m)"
  by (auto simp: logs_def no_write_targets)

lemma uart_ev_no_write [simp]: "uart_ev e \<Longrightarrow> no_write_ev e"
  by (cases e) (auto simp: reg_defs)

lemma quiet_no_write [simp]: "cmd_quiet e \<Longrightarrow> no_write_ev e"
  by (cases e) (auto simp: reg_defs)

lemma setup_regs [simp]:
  "SDVDD_ADDR \<noteq> SDDATA_ADDR" "SDVDD_ADDR \<noteq> SDCMD_ADDR" "SDCDIV_ADDR \<noteq> SDDATA_ADDR"
  "SDCDIV_ADDR \<noteq> SDCMD_ADDR" "SDTOUT_ADDR \<noteq> SDDATA_ADDR" "SDTOUT_ADDR \<noteq> SDCMD_ADDR"
  "SDHBCT_ADDR \<noteq> SDDATA_ADDR" "SDHBCT_ADDR \<noteq> SDCMD_ADDR" "SDHBLC_ADDR \<noteq> SDDATA_ADDR"
  "SDHBLC_ADDR \<noteq> SDCMD_ADDR" "GPFSEL4_ADDR \<noteq> SDDATA_ADDR" "GPFSEL4_ADDR \<noteq> SDCMD_ADDR"
  "GPFSEL5_ADDR \<noteq> SDDATA_ADDR" "GPFSEL5_ADDR \<noteq> SDCMD_ADDR"
  "MBOX_WRITE_ADDR \<noteq> SDDATA_ADDR" "MBOX_WRITE_ADDR \<noteq> SDCMD_ADDR"
  by (simp_all add: reg_defs MBOX_WRITE_ADDR_def)

lemma fifo_preclear_io: "io no_write_ev m (fifo_preclear D n m)"
proof (induction D n m rule: fifo_preclear.induct)
  case (2 D left m)
  obtain edm m1 where r: "mmio_r D SDEDM_ADDR m = (edm, m1)" by fastforce
  obtain v m2 where r2: "mmio_r D SDDATA_ADDR m1 = (v, m2)" by fastforce
  have "io no_write_ev m m1" by (rule mmio_r_io [OF r]) simp
  moreover from this have "io no_write_ev m m2" by (rule io_back [OF mmio_r_io [OF r2], rotated]) simp
  ultimately show ?case using 2 r r2 by (auto intro: io_trans)
qed simp

lemma reset_io: "stage0_reset_and_ident_clock D m = Some m' \<Longrightarrow> io no_write_ev m m'"
  by (auto simp: stage0_reset_and_ident_clock_def Let_def split: prod.splits elim!: bind_SomeE)
    (erule bus_intros | rule io_back_w | rule io_back [OF fifo_preclear_io] | simp)+

text \<open>The mailbox query reads registers and writes the mailbox's.\<close>

primrec mbox_ev :: "bus_event \<Rightarrow> bool" where
  "mbox_ev (BusRead a v) \<longleftrightarrow> True"
| "mbox_ev (BusWrite a v) \<longleftrightarrow> a = MBOX_WRITE_ADDR"

lemma mbox_ev_no_write: "mbox_ev e \<Longrightarrow> no_write_ev e"
  by (cases e) auto

lemma mbox_ev_steady: "mbox_ev e \<Longrightarrow> steady_ev e"
  by (cases e) auto

lemma mbox_wait_room_io: "mbox_wait_room D n m = (b, m') \<Longrightarrow> io mbox_ev m m'"
proof (induction D n m rule: mbox_wait_room.induct)
  case (2 D left m)
  then show ?case
    by (auto split: prod.splits if_splits intro: io_trans [OF mmio_r_io] mmio_r_io)
qed simp

lemma mbox_wait_reply_io: "mbox_wait_reply D addr n m = (v, m') \<Longrightarrow> io mbox_ev m m'"
proof (induction D addr n m rule: mbox_wait_reply.induct)
  case (2 D addr left m)
  obtain st m1 where r1: "mmio_r D MBOX_STATUS_ADDR m = (st, m1)" by fastforce
  obtain w m2 where r2: "mmio_r D MBOX_READ_ADDR m1 = (w, m2)" by fastforce
  have io1: "io mbox_ev m m1" by (rule mmio_r_io [OF r1]) simp
  have io2: "io mbox_ev m m2" by (rule io_back [OF mmio_r_io [OF r2] io1]) simp
  show ?case
    using "2.prems" r1 r2 io1 io2 "2.IH" by (auto split: if_splits intro: io_trans)
qed simp

lemma mbox_put_io: "io P m m' \<Longrightarrow> io P m (mbox_put D i v m')"
  by (simp add: io_def logs_def mbox_put_def)

lemma core_clock_io: "stage0_get_core_clock_hz D m = (v, m') \<Longrightarrow> io mbox_ev m m'"
proof -
  assume call: "stage0_get_core_clock_hz D m = (v, m')"
  define m0 where "m0 = mbox_put D 7 0 (mbox_put D 6 0 (mbox_put D 5 4 (mbox_put D 4 0
    (mbox_put D 3 8 (mbox_put D 2 0x00030002 (mbox_put D 1 0 (mbox_put D 0 32 m)))))))"
  obtain b m1 where room: "mbox_wait_room D 100000 m0 = (b, m1)" by fastforce
  have "io mbox_ev m m0" unfolding m0_def by (intro mbox_put_io io_refl)
  then have io1: "io mbox_ev m m1" using mbox_wait_room_io [OF room] by (rule io_trans)
  then have "io mbox_ev m (mmio_w D MBOX_WRITE_ADDR a m1)" for a
    by (rule io_back_w [rotated]) simp
  with io1 show ?thesis
    using call [unfolded stage0_get_core_clock_hz_def Let_def, folded m0_def] room mbox_wait_reply_io
    by (auto split: if_splits intro: io_back [OF mbox_wait_reply_io])
qed

text \<open>
  The bring-up writes two variables of its own, so what it keeps is stated without the frame of
  \<open>io\<close>: the log grows by accesses without a write command, buffer and RAM are untouched.
\<close>

definition init_keeps :: "('s, 'z) stage0_scheme \<Rightarrow> ('s, 'z) stage0_scheme \<Rightarrow> bool" where
  "init_keeps m m' \<longleftrightarrow> logs no_write_ev m m' \<and> block_buf m' = block_buf m \<and> ram m' = ram m"

lemma io_init_keeps:
  assumes "io no_write_ev m (m' :: ('s, 'z) stage0_scheme)"
  shows "init_keeps m m'"
  using io_more [OF assms] io_logs [OF assms] by (cases m; cases m') (simp add: init_keeps_def)

lemma init_keeps_trans: "init_keeps m1 m2 \<Longrightarrow> init_keeps m2 m3 \<Longrightarrow> init_keeps m1 m3"
  by (auto simp: init_keeps_def intro: logs_trans)

lemma init_keeps_fields [simp]:
  "init_keeps m m" "init_keeps m (m'\<lparr>s_is_sdhc := b\<rparr>) = init_keeps m m'"
  "init_keeps m (m'\<lparr>s_rca := x\<rparr>) = init_keeps m m'"
  by (simp_all add: init_keeps_def logs_def)

lemma send_cmd_nw:
  "stage0_send_cmd D c arg p l b bs bn rd False t g m = Some (r, m') \<Longrightarrow> io no_write_ev m m'"
  by (erule send_cmd_io) (auto simp: sdcmd_word_write_bit)

lemma acmd41_io: "acmd41_loop D n m = Some (rc, r, m') \<Longrightarrow> io no_write_ev m m'"
proof (induction n arbitrary: m)
  case 0
  then show ?case
    by (auto simp: acmd41_loop.simps [of D 0] split: if_splits elim!: bind_SomeE)
      (erule io_back [OF send_cmd_nw] | simp)+
next
  case (Suc n)
  obtain r1 m1 where c1: "stage0_send_cmd D 55 0 True False False 0 0 False False False True m = Some (r1, m1)"
    using Suc.prems by (auto simp: acmd41_loop.simps [of D "Suc n"] elim!: bind_SomeE)
  have io1: "io no_write_ev m m1" by (rule send_cmd_nw [OF c1])
  show ?case
  proof (cases "err r1 = 0")
    case True
    then obtain r2 m2 where c2: "stage0_send_cmd D 41 (0x00FF8000 OR OCR_HCS) True False False 0 0
        False False True True m1 = Some (r2, m2)"
      using Suc.prems c1 by (auto simp: acmd41_loop.simps [of D "Suc n"] elim!: bind_SomeE)
    have io2: "io no_write_ev m m2" by (rule io_back [OF send_cmd_nw [OF c2] io1])
    have io3: "udelay_real D 1000 m2 = Some m3 \<Longrightarrow> io no_write_ev m m3" for m3
      by (rule io_back [OF udelay_io io2]) simp_all
    show ?thesis
      using Suc.prems c1 c2 True io2 io3 Suc.IH
      by (auto simp: acmd41_loop.simps [of D "Suc n"] split: if_splits elim!: bind_SomeE
          intro: io_trans)
  qed (use Suc.prems c1 io1 in \<open>auto simp: acmd41_loop.simps [of D "Suc n"]\<close>)
qed

lemmas init_back = init_keeps_trans [rotated]

lemma init_back_w: "no_write_ev (BusWrite a v) \<Longrightarrow> init_keeps m m' \<Longrightarrow> init_keeps m (mmio_w D a v m')"
  by (rule init_back [OF io_init_keeps [OF mmio_w_io]])

lemmas init_chain = init_back [OF io_init_keeps [OF send_cmd_nw]]
  init_back [OF io_init_keeps [OF acmd41_io]] init_back [OF io_init_keeps [OF reset_io]]
  init_back [OF io_init_keeps [OF io_mono [OF core_clock_io mbox_ev_no_write]]] init_back [OF io_init_keeps [OF udelay_io]]

lemma sd_init_keeps: "stage0_sd_init D m = Some (rc, m') \<Longrightarrow> init_keeps m m'"
  unfolding stage0_sd_init_def Let_def
  by (auto split: prod.splits if_splits elim!: bind_SomeE)
    (erule init_chain | rule init_back_w | simp)+

section \<open>How the card is addressed\<close>

text \<open>
  The bring-up sets \<open>s_is_sdhc\<close> to what the card said in its last answer to command 41; no later
  command sends 41 again.
\<close>

definition ocr_keeps :: "('s, 'z) stage0_scheme \<Rightarrow> ('s, 'z) stage0_scheme \<Rightarrow> bool" where
  "ocr_keeps m m' \<longleftrightarrow> steady m m' \<and> s_is_sdhc m' = s_is_sdhc m"

lemma io_ocr_keeps:
  assumes "io steady_ev m (m' :: ('s, 'z) stage0_scheme)"
  shows "ocr_keeps m m'"
  using io_more [OF assms] io_logs [OF assms] by (cases m; cases m') (simp add: ocr_keeps_def)

lemma ocr_keeps_trans: "ocr_keeps m1 m2 \<Longrightarrow> ocr_keeps m2 m3 \<Longrightarrow> ocr_keeps m1 m3"
  by (auto simp: ocr_keeps_def intro: logs_trans)

lemma ocr_keeps_fields [simp]: "ocr_keeps m m" "ocr_keeps m (m'\<lparr>s_rca := x\<rparr>) = ocr_keeps m m'"
  by (simp_all add: ocr_keeps_def logs_def)

lemmas ocr_back = ocr_keeps_trans [rotated]

lemma ocr_back_w: "steady_ev (BusWrite a v) \<Longrightarrow> ocr_keeps m m' \<Longrightarrow> ocr_keeps m (mmio_w D a v m')"
  by (rule ocr_back [OF io_ocr_keeps [OF mmio_w_io]])

lemmas ocr_chain = ocr_back [OF io_ocr_keeps [OF send_cmd_steady]]
  ocr_back [OF io_ocr_keeps [OF io_mono [OF core_clock_io mbox_ev_steady]]] ocr_back [OF io_ocr_keeps [OF udelay_io]]

lemma acmd41_ocr: "acmd41_loop D n m = Some (0, r, m') \<Longrightarrow> card_ocr (bus m') = response r ! 0"
proof (induction n arbitrary: m)
  case 0
  then show ?case
    by (auto simp: acmd41_loop.simps [of D 0] split: if_splits elim!: bind_SomeE dest!: send_cmd_response)
next
  case (Suc n)
  then show ?case
    by (auto simp: acmd41_loop.simps [of D "Suc n"] split: if_splits elim!: bind_SomeE dest!: send_cmd_response)
qed

lemma any_bit_30: "any_bit x 0x40000000 \<longleftrightarrow> bit x 30" for x :: u32
  by (simp add: bit_iff_and_push_bit_not_eq_0)

lemma sd_init_ocr:
  assumes "stage0_sd_init D m = Some (0, m')"
  shows "s_is_sdhc m' = bit (card_ocr (bus m')) 30 \<and> last_index (bus m') \<noteq> 41"
proof -
  obtain m3 r m4 r2 m5 r3 m6 r9 m7 r7 m8 hz m9 where loop: "acmd41_loop D 1000 m3 = Some (0, r, m4)"
    and c2: "stage0_send_cmd D 2 0 True True False 0 0 False False False False
        (m4\<lparr>s_is_sdhc := any_bit (response r ! 0) OCR_HCS\<rparr>) = Some (r2, m5)" "err r2 = 0"
    and c3: "stage0_send_cmd D 3 0 True False False 0 0 False False False False m5 = Some (r3, m6)"
    and c9: "stage0_send_cmd D 9 (push_bit 16 (drop_bit 16 (response r3 ! 0) AND 0xFFFF)) True True False 0 0
        False False False False (m6\<lparr>s_rca := drop_bit 16 (response r3 ! 0) AND 0xFFFF\<rparr>) = Some (r9, m7)"
    and c7: "stage0_send_cmd D 7 (push_bit 16 (s_rca m7)) True False True 0 0 False False False False m7 = Some (r7, m8)"
    and hz: "stage0_get_core_clock_hz D m8 = (hz, m9)"
    and last: "if hz > 0 then \<exists>m10. udelay_real D 10000 (mmio_w D SDTOUT_ADDR (achieved_clock_hz hz div 2)
          (mmio_w D SDCDIV_ADDR (clock_divisor hz) m9)) = Some m10 \<and> m' = mmio_w D SDHCFG_ADDR 0x40A m10
        else m' = mmio_w D SDHCFG_ADDR 0x40A m9"
    using assms unfolding stage0_sd_init_def Let_def
    by (auto split: prod.splits if_splits elim!: bind_SomeE)
  let ?m4 = "m4\<lparr>s_is_sdhc := any_bit (response r ! 0) OCR_HCS\<rparr>"
  have "ocr_keeps m5 m9"
    using c3 c9 c7 hz by - (erule ocr_chain | simp)+
  with last have rest: "ocr_keeps m5 m'"
    by (auto split: if_splits) (erule ocr_chain | rule ocr_back_w | simp)+
  have "s_is_sdhc m5 = s_is_sdhc ?m4"
    using io_ocr_keeps [OF send_cmd_steady [OF c2(1)]] by (simp add: ocr_keeps_def)
  then have "s_is_sdhc m' = bit (response r ! 0) 30"
    using rest by (simp add: ocr_keeps_def OCR_HCS_def any_bit_30)
  moreover have "card_ocr (bus m5) = response r ! 0 \<and> last_index (bus m5) \<noteq> 41"
    using send_cmd_ocr [OF c2] acmd41_ocr [OF loop] by simp
  ultimately show ?thesis
    using rest steady_ocr [of m5 m'] by (simp add: ocr_keeps_def)
qed

section \<open>The clock divisor\<close>

lemma clock_divisor_nat:
  assumes "unat hz \<le> 2049000000"
  defines "d1 \<equiv> max 2 (unat hz div 1000000)"
  defines "d2 \<equiv> if unat hz div d1 > 1000000 then d1 + 1 else d1"
  shows "unat (clock_divisor hz) + 2 = d2" and "d2 \<le> 2049" and "2 \<le> d2"
proof -
  have d1: "2 \<le> d1" "d1 \<le> 2049"
    using div_le_mono [OF assms(1), of 1000000] by (simp_all add: d1_def)
  show "2 \<le> d2" using d1 by (simp add: d2_def)
  show d2: "d2 \<le> 2049"
  proof (cases "d1 = 2049")
    case True
    then show ?thesis using div_le_mono [OF assms(1), of 2049] by (simp add: d2_def)
  qed (use d1 in \<open>simp add: d2_def\<close>)
  define div1 where "div1 = (if hz div 1000000 < 2 then 2 else hz div 1000000)"
  have u1: "unat div1 = d1"
    by (auto simp: div1_def d1_def word_less_nat_alt unat_div max_def)
  define div2 where "div2 = (if hz div div1 > 1000000 then div1 + 1 else div1)"
  have "unat (div1 + 1) = d1 + 1"
    using unat_add_one [of div1 "d1 + 1"] u1 d1 by simp
  then have u2: "unat div2 = d2"
    using u1 by (auto simp: div2_def d2_def word_less_nat_alt unat_div)
  have "(2 :: u32) \<le> div2" using u2 \<open>2 \<le> d2\<close> by (simp add: word_le_nat_alt)
  then have u3: "unat (div2 - 2) = d2 - 2" using u2 by (simp add: unat_sub)
  have "\<not> (0x7FF :: u32) < div2 - 2" using u3 d2 by (simp add: word_less_nat_alt)
  then have "clock_divisor hz = div2 - 2"
    by (simp only: clock_divisor_def Let_def div1_def [symmetric] div2_def [symmetric] if_False)
  then show "unat (clock_divisor hz) + 2 = d2" using u3 \<open>2 \<le> d2\<close> by simp
qed

lemma achieved_clock_le:
  assumes "hz \<le> 2049000000"
  shows "unat (achieved_clock_hz hz) \<le> 1000000" and "unat (clock_divisor hz) \<le> 0x7FF"
proof -
  have hz: "unat hz \<le> 2049000000" using assms by (simp add: word_le_nat_alt)
  define d1 where "d1 = max 2 (unat hz div 1000000)"
  define d2 where "d2 = (if unat hz div d1 > 1000000 then d1 + 1 else d1)"
  note cd = clock_divisor_nat [OF hz, folded d1_def, folded d2_def]
  show "unat (clock_divisor hz) \<le> 0x7FF" using cd by simp
  have "unat (clock_divisor hz + 2) = d2"
    using cd unat_add_lem [of "clock_divisor hz" 2] by simp
  then have "unat (achieved_clock_hz hz) = unat hz div d2"
    by (simp add: achieved_clock_hz_def unat_div)
  also have "\<dots> \<le> 1000000"
  proof (cases "unat hz div d1 > 1000000")
    case True
    have "unat hz < (unat hz div 1000000 + 1) * 1000000"
      using div_mult_mod_eq [of "unat hz" 1000000] mod_less_divisor [of 1000000 "unat hz"] by simp
    also have "\<dots> \<le> (d1 + 1) * 1000000" by (simp add: d1_def)
    finally have "unat hz div (d1 + 1) < 1000001"
      by (simp add: div_less_iff_less_mult algebra_simps)
    with True show ?thesis by (simp add: d2_def)
  qed (simp add: d2_def)
  finally show "unat (achieved_clock_hz hz) \<le> 1000000" .
qed

end
