(* ===== verification/Stage0_Load.thy ===== *)
theory Stage0_Load
  imports Stage0_Main Sd_Init
begin

text \<open>
  The lemmas of the boot loader up to the jump: the casts between bytes and words, the contents of
  RAM after the load loop, the digest the hash loop computes, and that every operation of this
  part only adds to the bus log.
\<close>

section \<open>Bytes and words\<close>

lemma words_of_bytes_of [simp]: "words_of (bytes_of ws) = ws"
  by (induction ws) (simp_all add: bytes_of_def le_bytes_def)

lemma length_bytes_of [simp]: "length (bytes_of ws) = 4 * length ws"
  by (induction ws) (simp_all add: bytes_of_def)

lemma bytes_of_append [simp]: "bytes_of (xs @ ys) = bytes_of xs @ bytes_of ys"
  by (simp add: bytes_of_def)

lemma bytes_of_words_of: "4 dvd length bs \<Longrightarrow> bytes_of (words_of bs) = bs"
proof (induction bs rule: words_of.induct)
  case (1 b0 b1 b2 b3 bs)
  have "length (b0 # b1 # b2 # b3 # bs) = length bs + 4" by simp
  with 1 have "bytes_of (words_of bs) = bs" by (metis dvd_add_triv_right_iff)
  then show ?case by (simp add: bytes_of_def le_bytes_def ucast_le_word)
qed (auto simp: bytes_of_def, presburger+)

lemma length_words_of: "4 dvd length bs \<Longrightarrow> 4 * length (words_of bs) = length bs"
  by (metis bytes_of_words_of length_bytes_of)

text \<open>RAM.\<close>

lemma length_ram_bytes [simp]: "length (ram_bytes mem a n) = n"
  by (simp add: ram_bytes_def)

lemma ram_bytes_append: "ram_bytes mem a (n + k) = ram_bytes mem a n @ ram_bytes mem (a + of_nat n) k"
  by (rule nth_equalityI) (auto simp: ram_bytes_def nth_append add.assoc simp flip: of_nat_add)

lemma fold_copy_mem:
  "unat dest + n \<le> 2 ^ 32 \<Longrightarrow>
     fold (\<lambda>b mem. mem(dest + of_nat b := buf ! b)) [0..<n] mem a =
     (if unat dest \<le> unat a \<and> unat a < unat dest + n then buf ! (unat a - unat dest) else mem a)"
  for dest a :: u32
proof (induction n)
  case (Suc n)
  then have "unat (dest + of_nat n) = unat dest + n"
    by (simp add: unat_word_ariths unat_of_nat)
  then have "a = dest + of_nat n \<longleftrightarrow> unat a = unat dest + n"
    by (metis word_unat_eq_iff)
  with Suc show ?case by auto
qed auto

lemma copy_block_at:
  assumes "unat dest + 512 \<le> 2 ^ 32" and "length buf = 512"
  shows "ram_bytes (copy_block dest buf mem) dest 512 = buf"
    and "\<And>a. unat a < unat dest \<or> unat dest + 512 \<le> unat a \<Longrightarrow> copy_block dest buf mem a = mem a"
proof -
  show "ram_bytes (copy_block dest buf mem) dest 512 = buf"
  proof (rule nth_equalityI)
    fix i assume "i < length (ram_bytes (copy_block dest buf mem) dest 512)"
    then have i: "i < 512" by simp
    then have "unat (dest + of_nat i) = unat dest + i"
      using assms(1) by (simp add: unat_word_ariths unat_of_nat)
    with i assms show "ram_bytes (copy_block dest buf mem) dest 512 ! i = buf ! i"
      by (simp add: ram_bytes_def copy_block_def BLOCK_SIZE_def fold_copy_mem)
  qed (use assms in simp)
  show "copy_block dest buf mem a = mem a" if "unat a < unat dest \<or> unat dest + 512 \<le> unat a" for a
    using that assms by (auto simp: copy_block_def BLOCK_SIZE_def fold_copy_mem)
qed

lemma ram_bytes_cong:
  "unat a + n \<le> 2 ^ 32 \<Longrightarrow>
   (\<And>x. unat a \<le> unat x \<Longrightarrow> unat x < unat a + n \<Longrightarrow> mem x = mem' x) \<Longrightarrow>
   ram_bytes mem a n = ram_bytes mem' a n"
  unfolding ram_bytes_def by (auto simp: unat_word_ariths unat_of_nat)

section \<open>The frame of the driver's calls\<close>

text \<open>The program's variables, for operations that only use the bus.\<close>

lemma io_vars:
  assumes "io P m (m' :: ('s, 'z) stage0_scheme)"
  shows "ram m' = ram m" "s_is_sdhc m' = s_is_sdhc m" "block_buf m' = block_buf m"
  using io_more [OF assms] by (cases m; cases m'; simp)+

lemma more_vars:
  assumes "mach.more m' = mach.more (m :: ('s, 'z) stage0_scheme)"
  shows "ram m' = ram m" "s_is_sdhc m' = s_is_sdhc m" "block_buf m' = block_buf m"
  using assms by (cases m; cases m'; simp)+

primrec kick_ev :: "bus_event \<Rightarrow> bool" where
  "kick_ev (BusRead a v) \<longleftrightarrow> a = PM_RSTC"
| "kick_ev (BusWrite a v) \<longleftrightarrow> a = PM_WDOG \<or> a = PM_RSTC"

lemma kick_io: "io kick_ev m (kick D wd m)"
proof -
  obtain cur m1 where r: "mmio_r D PM_RSTC (mmio_w D PM_WDOG (0x5A000000 OR (983040 AND 0xFFFFF)) m) = (cur, m1)"
    by fastforce
  have "io kick_ev m m1"
    by (rule io_back [OF mmio_r_io [OF r] io_back_w]) simp_all
  then have "io kick_ev m (mmio_w D PM_RSTC v m1)" for v
    by (rule io_back_w [rotated]) simp
  with r show ?thesis by (simp add: kick_def stage0_arm_watchdog_def Let_def)
qed

lemma kick_vars [simp]:
  "ram (kick D wd m) = ram m" "s_is_sdhc (kick D wd m) = s_is_sdhc m" "block_buf (kick D wd m) = block_buf m"
  by (rule io_vars [OF kick_io])+

lemma kick_ev_no_write: "kick_ev e \<Longrightarrow> no_write_ev e"
  by (cases e) (auto simp: PM_WDOG_def PM_RSTC_def reg_defs)

text \<open>Talking to the UART or to the watchdog changes nothing that the properties look at.\<close>

definition chat_ev :: "bus_event \<Rightarrow> bool" where
  "chat_ev e \<longleftrightarrow> uart_ev e \<or> kick_ev e"

lemma chat_ev_simps: "uart_ev e \<Longrightarrow> chat_ev e" "kick_ev e \<Longrightarrow> chat_ev e"
  by (simp_all add: chat_ev_def)

lemma chat_silent:
  assumes "io chat_ev m m'"
  shows "issued (bus m') = issued (bus m)" "reads SDDATA_ADDR (bus m') = reads SDDATA_ADDR (bus m)"
    "write_targets (bus m') = write_targets (bus m)" "read_targets (bus m') = read_targets (bus m)"
    "written SDDATA_ADDR (bus m') = written SDDATA_ADDR (bus m)"
proof -
  have "chat_ev e \<Longrightarrow> cmd_silent e" for e
    by (cases e) (auto simp: chat_ev_def cmd_silent_def PM_WDOG_def PM_RSTC_def reg_defs)
  then show i: "issued (bus m') = issued (bus m)"
    by (intro logs_silent io_silent [OF assms])
  then show "write_targets (bus m') = write_targets (bus m)" "read_targets (bus m') = read_targets (bus m)"
    by (simp_all add: write_targets_def read_targets_def)
  show "reads SDDATA_ADDR (bus m') = reads SDDATA_ADDR (bus m)"
    by (rule io_reads [OF io_logs [OF assms]]) (auto simp: chat_ev_def PM_RSTC_def reg_defs)
  show "written SDDATA_ADDR (bus m') = written SDDATA_ADDR (bus m)"
    by (rule io_written [OF assms])
      (auto simp: chat_ev_def PM_WDOG_def PM_RSTC_def reg_defs)
qed

lemma chat_kick: "io chat_ev m (kick D wd m)"
  by (rule io_mono [OF kick_io]) (rule chat_ev_simps)

lemma chat_steady [simp]: "chat_ev e \<Longrightarrow> steady_ev e"
  by (cases e) (auto simp: chat_ev_def PM_WDOG_def PM_RSTC_def reg_defs)

lemmas chat_kick_then = io_trans [OF chat_kick]

lemma stage0_fault_io:
  "stage0_fault D c m = Some (f, m') \<Longrightarrow> io uart_ev m m' \<and> f = Halted c"
  by (auto simp: stage0_fault_def elim!: bind_SomeE) (erule bus_intros | simp)+

section \<open>Reading into the block buffer\<close>

lemma read_to_buf_spec:
  assumes "read_to_buf D n m = Some (rc, m')" and "length (block_buf m) = 512"
  shows "length (block_buf m') = 512" and "ram m' = ram m" and "s_is_sdhc m' = s_is_sdhc m"
    and "write_targets (bus m') = write_targets (bus m)"
    and "rc = 0 \<Longrightarrow> \<exists>ws. length ws = 128 \<and> block_buf m' = bytes_of ws
      \<and> reads SDDATA_ADDR (bus m') = reads SDDATA_ADDR (bus m) @ ws
      \<and> read_targets (bus m') = read_targets (bus m) @ [card_addr m n]"
proof -
  obtain ws m1 where call: "stage0_sd_read_block D n (words_of (block_buf m)) m = Some (rc, ws, m1)"
      and m': "m' = m1\<lparr>block_buf := bytes_of ws\<rparr>"
    using assms(1) by (auto simp: read_to_buf_def elim!: bind_SomeE)
  have len: "length (words_of (block_buf m)) = 128"
    using length_words_of [of "block_buf m"] assms(2) by simp
  note spec = read_block_spec [OF call len]
  show "length (block_buf m') = 512" "ram m' = ram m" "s_is_sdhc m' = s_is_sdhc m"
    "write_targets (bus m') = write_targets (bus m)"
    using spec(2,3) more_vars [OF spec(1)] by (simp_all add: m')
  show "rc = 0 \<Longrightarrow> \<exists>ws. length ws = 128 \<and> block_buf m' = bytes_of ws
      \<and> reads SDDATA_ADDR (bus m') = reads SDDATA_ADDR (bus m) @ ws
      \<and> read_targets (bus m') = read_targets (bus m) @ [card_addr m n]"
    using spec(2,5) read_block_targets [OF _ len] call by (intro exI [of _ ws]) (auto simp: m')
qed

lemma card_addr_cong: "s_is_sdhc m' = s_is_sdhc m \<Longrightarrow> card_addr m' n = card_addr m n"
  by (simp add: card_addr_def)

section \<open>The load loop\<close>

text \<open>
  \<open>loaded base dest n m m'\<close>: \<open>n\<close> blocks from \<open>base\<close> on were read, in order, and RAM from \<open>dest\<close>
  on holds the words that came out of the data register, in order; nothing else changed.
\<close>

definition loaded ::
    "u32 \<Rightarrow> u32 \<Rightarrow> nat \<Rightarrow> ('s, 'z) stage0_scheme \<Rightarrow> ('s, 'z) stage0_scheme \<Rightarrow> bool" where
  "loaded base dest n m m' \<longleftrightarrow>
     (\<exists>ws. length ws = 128 * n \<and> reads SDDATA_ADDR (bus m') = reads SDDATA_ADDR (bus m) @ ws
        \<and> ram_bytes (ram m') dest (512 * n) = bytes_of ws)
     \<and> read_targets (bus m') = read_targets (bus m) @ map (\<lambda>k. card_addr m (base + of_nat k)) [0..<n]
     \<and> (\<forall>a. unat a < unat dest \<or> unat dest + 512 * n \<le> unat a \<longrightarrow> ram m' a = ram m a)
     \<and> s_is_sdhc m' = s_is_sdhc m \<and> length (block_buf m') = 512"

lemma loaded_0: "length (block_buf m) = 512 \<Longrightarrow> loaded base dest 0 m m"
  by (simp add: loaded_def bytes_of_def ram_bytes_def)

lemma loadedD:
  assumes "loaded base dest n m m'"
  shows "\<exists>ws. length ws = 128 * n \<and> reads SDDATA_ADDR (bus m') = reads SDDATA_ADDR (bus m) @ ws
        \<and> ram_bytes (ram m') dest (512 * n) = bytes_of ws"
    and "read_targets (bus m') = read_targets (bus m) @ map (\<lambda>k. card_addr m (base + of_nat k)) [0..<n]"
    and "unat a < unat dest \<or> unat dest + 512 * n \<le> unat a \<Longrightarrow> ram m' a = ram m a"
    and "s_is_sdhc m' = s_is_sdhc m" and "length (block_buf m') = 512"
  using assms unfolding loaded_def by blast+

lemma loaded_append:
  assumes l1: "loaded base dest a m m1"
    and l2: "loaded (base + of_nat a) (dest + of_nat (512 * a)) b m1 m2"
    and top: "unat dest + 512 * (a + b) < 2 ^ 32"
  shows "loaded base dest (a + b) m m2"
proof -
  let ?d2 = "dest + of_nat (512 * a)"
  have d2: "unat ?d2 = unat dest + 512 * a"
    using top by (simp add: unat_word_ariths unat_of_nat)
  from loadedD(1) [OF l1] obtain ws1 where w1: "length ws1 = 128 * a"
      "reads SDDATA_ADDR (bus m1) = reads SDDATA_ADDR (bus m) @ ws1"
      "ram_bytes (ram m1) dest (512 * a) = bytes_of ws1" by blast
  from loadedD(1) [OF l2] obtain ws2 where w2: "length ws2 = 128 * b"
      "reads SDDATA_ADDR (bus m2) = reads SDDATA_ADDR (bus m1) @ ws2"
      "ram_bytes (ram m2) ?d2 (512 * b) = bytes_of ws2" by blast
  have "ram_bytes (ram m2) dest (512 * a) = ram_bytes (ram m1) dest (512 * a)"
    by (intro ram_bytes_cong loadedD(3) [OF l2]) (use top d2 in simp_all)
  then have bytes: "ram_bytes (ram m2) dest (512 * (a + b)) = bytes_of (ws1 @ ws2)"
    using w1 w2 by (simp add: distrib_left ram_bytes_append)
  have "map (\<lambda>k. card_addr m1 (base + of_nat a + of_nat k)) [0..<b]
      = map (\<lambda>k. card_addr m (base + of_nat k)) [a..<a + b]"
    by (rule nth_equalityI) (simp_all add: card_addr_cong [OF loadedD(4) [OF l1]] add.assoc)
  then have targets: "read_targets (bus m2)
      = read_targets (bus m) @ map (\<lambda>k. card_addr m (base + of_nat k)) [0..<a + b]"
    by (simp add: loadedD(2) [OF l1] loadedD(2) [OF l2] upt_add_eq_append [of 0 a b])
  have frame: "ram m2 x = ram m x" if "unat x < unat dest \<or> unat dest + 512 * (a + b) \<le> unat x" for x
  proof -
    have "unat x < unat ?d2 \<or> unat ?d2 + 512 * b \<le> unat x"
      and "unat x < unat dest \<or> unat dest + 512 * a \<le> unat x"
      unfolding d2 using that by (auto simp only: distrib_left)
    with loadedD(3) [OF l1] loadedD(3) [OF l2] show ?thesis by metis
  qed
  show ?thesis
    unfolding loaded_def
  proof (intro conjI exI)
    show "length (ws1 @ ws2) = 128 * (a + b)" using w1 w2 by simp
    show "reads SDDATA_ADDR (bus m2) = reads SDDATA_ADDR (bus m) @ (ws1 @ ws2)" using w1 w2 by simp
    show "s_is_sdhc m2 = s_is_sdhc m" using loadedD(4) [OF l1] loadedD(4) [OF l2] by (rule trans [rotated])
    show "length (block_buf m2) = 512" by (rule loadedD(5) [OF l2])
  qed (use bytes targets frame in blast)+
qed

lemma loaded_cong:
  assumes "io chat_ev m m1" and "loaded base dest n m1 m2"
  shows "loaded base dest n m m2"
  using assms(2) chat_silent [OF assms(1)] io_vars [OF assms(1)] card_addr_cong [of m1 m]
  by (simp add: loaded_def)

lemma loaded_cong2:
  assumes "loaded base dest n m m1" and "io chat_ev m1 m2"
  shows "loaded base dest n m m2"
  using assms(1) chat_silent [OF assms(2)] io_vars [OF assms(2)]
  by (simp add: loaded_def)

lemma loaded_block:
  assumes "read_to_buf D n m = Some (0, m2)" and "length (block_buf m) = 512" and "unat dest + 512 < 2 ^ 32"
  shows "loaded n dest 1 m (m2\<lparr>ram := copy_block dest (block_buf m2) (ram m2)\<rparr>)"
proof -
  note spec = read_to_buf_spec [OF assms(1,2)]
  have "unat dest + 512 \<le> 2 ^ 32" using assms(3) by simp
  note cp = copy_block_at [OF this spec(1)]
  show ?thesis
    using spec cp unfolding loaded_def by auto
qed

lemma load_fault_io:
  assumes "u_puts D s m = Some m1" "u_hex32 D i m1 = Some m2" "u_puts D t m2 = Some m3"
    "stage0_fault D c m3 = Some (f, m')"
  shows "io chat_ev m m'" "f = Halted c"
proof -
  have "io uart_ev m m'"
    by (rule io_trans [OF u_puts_uart [OF assms(1)] io_trans [OF u_hex32_io [OF assms(2)]
      io_trans [OF u_puts_uart [OF assms(3)] conjunct1 [OF stage0_fault_io [OF assms(4)]]]]])
  then show "io chat_ev m m'" by (rule io_mono) (rule chat_ev_simps)
  show "f = Halted c" using stage0_fault_io [OF assms(4)] by simp
qed

lemma load_loop_spec:
  assumes "load_loop D wd base n i dest m = Some (r, m')"
    and "length (block_buf m) = 512" and "unat dest + 512 * n < 2 ^ 32"
  shows "write_targets (bus m') = write_targets (bus m) \<and>
    (case r of None \<Rightarrow> loaded (base + i) dest n m m' | Some f \<Rightarrow> f = Halted 0xDEAD0004)"
  using assms
proof (induction n arbitrary: i dest m)
  case 0
  then show ?case by (simp add: loaded_0)
next
  case (Suc n)
  define m1 where "m1 = (if i AND 511 = 0 then kick D wd m else m)"
  have io1: "io chat_ev m m1" by (simp add: m1_def chat_kick)
  note vars1 = io_vars [OF io1]
  obtain rc m2 where rd: "read_to_buf D (base + i) m1 = Some (rc, m2)"
    using Suc.prems(1) by (auto simp: Let_def simp flip: m1_def elim!: bind_SomeE)
  have len1: "length (block_buf m1) = 512" using Suc.prems(2) vars1 by simp
  note spec = read_to_buf_spec [OF rd len1]
  show ?case
  proof (cases "rc = 0")
    case False
    then obtain f where f: "r = Some f" "f = Halted 0xDEAD0004" "io chat_ev m2 m'"
      using Suc.prems(1) rd
      by (auto simp: Let_def simp flip: m1_def elim!: bind_SomeE dest: load_fault_io)
    then show ?thesis using chat_silent [OF f(3)] chat_silent [OF io1] spec(4) by simp
  next
    case True
    let ?m3 = "m2\<lparr>ram := copy_block dest (block_buf m2) (ram m2)\<rparr>"
    have call: "load_loop D wd base n (i + 1) (dest + of_nat BLOCK_SIZE) ?m3 = Some (r, m')"
      using Suc.prems(1) rd True by (simp add: Let_def flip: m1_def)
    have "unat (dest + of_nat BLOCK_SIZE) = unat dest + 512"
      using Suc.prems(3) by (simp add: BLOCK_SIZE_def unat_word_ariths)
    then have rest: "write_targets (bus m') = write_targets (bus ?m3) \<and>
        (case r of None \<Rightarrow> loaded (base + (i + 1)) (dest + of_nat BLOCK_SIZE) n ?m3 m'
          | Some f \<Rightarrow> f = Halted 0xDEAD0004)"
      using Suc.prems(3) spec(1) by (intro Suc.IH [OF call]) simp_all
    have first: "loaded (base + i) dest 1 m ?m3"
      using Suc.prems(3) rd True len1 by (intro loaded_cong [OF io1] loaded_block) simp_all
    show ?thesis
    proof (cases r)
      case None
      with rest have "loaded (base + i + of_nat 1) (dest + of_nat (512 * 1)) n ?m3 m'"
        by (simp add: BLOCK_SIZE_def add.assoc)
      from loaded_append [OF first this] Suc.prems(3) have "loaded (base + i) dest (Suc n) m m'" by simp
      with None rest spec(4) chat_silent [OF io1] show ?thesis by simp
    qed (use rest spec(4) chat_silent [OF io1] in simp)
  qed
qed

section \<open>Hashing and comparing\<close>

lemma sha_loop_spec:
  assumes "sha_loop D wd len off ctx m = (ctx', m')"
    and "sha_absorbed ctx (ram_bytes (ram m) REAL_KERNEL_LOAD_ADDR (unat off))" and "unat off \<le> unat len"
  shows "sha_absorbed ctx' (ram_bytes (ram m) REAL_KERNEL_LOAD_ADDR (unat len)) \<and> io chat_ev m m'"
  using assms
proof (induction D wd len off ctx m rule: sha_loop.induct)
  case (1 D wd len off ctx m)
  show ?case
  proof (cases "off < len")
    case False
    then have "unat off = unat len" using "1.prems"(3) by (simp add: word_less_nat_alt)
    with False "1.prems"(1,2) show ?thesis by (simp add: sha_loop.simps [of D wd len])
  next
    case True
    define this where "this = (if len - off > 262144 then 262144 else len - off)"
    note step = sha_chunk_step [OF True, folded this_def]
    let ?m1 = "kick D wd m"
    let ?data = "ram_bytes (ram m) (REAL_KERNEL_LOAD_ADDR + off) (unat this)"
    let ?ctx1 = "sha256_update ctx ?data this"
    have call: "sha_loop D wd len (off + this) ?ctx1 ?m1 = (ctx', m')"
      using "1.prems"(1) True by (simp add: sha_loop.simps [of D wd len off] Let_def flip: this_def)
    have "sha_absorbed ?ctx1 (ram_bytes (ram m) REAL_KERNEL_LOAD_ADDR (unat off) @ ?data)"
      using "1.prems"(2) by (rule sha_stream.upd_absorbed) simp
    then have "sha_absorbed ?ctx1 (ram_bytes (ram ?m1) REAL_KERNEL_LOAD_ADDR (unat (off + this)))"
      by (simp add: step ram_bytes_append)
    from "1.IH" [OF True refl refl this_def refl _ _ this] call step(1,3)
    have "sha_absorbed ctx' (ram_bytes (ram m) REAL_KERNEL_LOAD_ADDR (unat len))" "io chat_ev ?m1 m'"
      by simp_all
    then show ?thesis by (simp add: chat_kick_then)
  qed
qed

lemma digest_match_iff: "length a = 32 \<Longrightarrow> length e = 32 \<Longrightarrow> digest_match a e \<longleftrightarrow> a = e"
  by (auto simp: digest_match_def list_all_iff intro!: nth_equalityI)

definition jump_value :: "slot_state \<Rightarrow> u32" where
  "jump_value s = push_bit 8 (ucast (last_reset_reason s)) OR ucast (active_slot s)"

definition payload :: "('s, 'z) stage0_scheme \<Rightarrow> slot_state \<Rightarrow> u8 list" where
  "payload m s = ram_bytes (ram m) REAL_KERNEL_LOAD_ADDR (unat (slot_len s))"

lemma verify_spec:
  assumes call: "stage0_verify D wd junk s m = Some (res, m')"
    and ok: "sha_fresh junk" "length (slot_sha s) = 32"
  shows "io chat_ev m m'"
    and "res = (if sha256_digest (payload m s) = slot_sha s then Jumped (jump_value s)
      else Halted 0xDEAD0006)"
proof -
  let ?m0 = "kick D wd m"
  obtain ctx m1 where l: "sha_loop D wd (slot_len s) 0 (sha256_init junk) ?m0 = (ctx, m1)" by fastforce
  have "sha_absorbed (sha256_init junk) (ram_bytes (ram ?m0) REAL_KERNEL_LOAD_ADDR (unat 0))"
    using sha_stream.init_absorbed [OF ok(1)] by (simp add: ram_bytes_def)
  from sha_loop_spec [OF l this]
  have abs: "sha_absorbed ctx (payload m s)" and io1: "io chat_ev m m1"
    by (auto simp: payload_def intro: chat_kick_then)
  obtain ctx' where fin: "sha256_finalize ctx = Some (ctx', sha256_digest (payload m s))"
    using sha_stream.fin_hash [OF abs] by blast
  let ?match = "digest_match (sha256_digest (payload m s)) (slot_sha s)"
  have match: "?match \<longleftrightarrow> sha256_digest (payload m s) = slot_sha s"
    using ok(2) by (simp add: digest_match_iff)
  have "io chat_ev m m' \<and> res = (if ?match then Jumped (jump_value s) else Halted 0xDEAD0006)"
  proof (cases ?match)
    case True
    then obtain m2 where "u_puts D ''stage0: verified, jumping to 0x00200000\<newline>'' m1 = Some m2"
        "res = Jumped (jump_value s)" "m' = kick D wd m2"
      using call l fin by (auto simp: stage0_verify_def Let_def jump_value_def elim!: bind_SomeE)
    moreover from this(1) have "io chat_ev m m2"
      by (rule io_trans [OF io1 u_puts_io]) (rule chat_ev_simps)
    ultimately show ?thesis using True by (auto intro: io_trans chat_kick)
  next
    case False
    then obtain m2 where p: "u_puts D ''stage0: payload SHA-256 mismatch, refusing to jump\<newline>'' m1 = Some m2"
        "stage0_fault D 0xDEAD0006 m2 = Some (res, m')"
      using call l fin by (auto simp: stage0_verify_def Let_def elim!: bind_SomeE)
    have "io chat_ev m m2"
      by (rule io_trans [OF io1 u_puts_io [OF p(1)]]) (rule chat_ev_simps)
    moreover have "io chat_ev m2 m'"
      by (rule io_mono [OF conjunct1 [OF stage0_fault_io [OF p(2)]]]) (rule chat_ev_simps)
    ultimately show ?thesis using False stage0_fault_io [OF p(2)] by (auto intro: io_trans)
  qed
  then show "io chat_ev m m'"
    and "res = (if sha256_digest (payload m s) = slot_sha s then Jumped (jump_value s) else Halted 0xDEAD0006)"
    using match by simp_all
qed

lemma num_blocks_nat:
  assumes "len \<le> SLOT_SIZE_BYTES"
  shows "unat (num_blocks len) = (unat len + 511) div 512"
proof -
  have "unat len \<le> 6291456" using assms by (simp add: SLOT_SIZE_BYTES_def word_le_nat_alt)
  then have "unat (len + 511) = unat len + 511" by (simp add: unat_word_ariths)
  moreover have "num_blocks len = (len + 511) div 512"
    by (simp add: num_blocks_def BLOCK_SIZE_def add.commute)
  moreover have "unat (512 :: u32) = 512" by simp
  ultimately show ?thesis by (simp only: unat_div)
qed

lemma num_blocks_bounds:
  assumes "len \<le> SLOT_SIZE_BYTES"
  shows "unat len \<le> 512 * unat (num_blocks len)" and "512 * unat (num_blocks len) \<le> 6291456"
proof -
  have "unat len \<le> 6291456" using assms by (simp add: SLOT_SIZE_BYTES_def word_le_nat_alt)
  then have "(unat len + 511) div 512 \<le> 12288"
    using div_le_mono [of "unat len + 511" "6291456 + 511" 512] by simp
  then show "512 * unat (num_blocks len) \<le> 6291456"
    unfolding num_blocks_nat [OF assms] by simp
  show "unat len \<le> 512 * unat (num_blocks len)"
    unfolding num_blocks_nat [OF assms] by linarith
qed

section \<open>Loading and verifying\<close>

text \<open>How a run of \<open>stage0_load\<close> goes: a length out of range, or the load loop and what follows it.\<close>

lemma load_cases:
  assumes call: "stage0_load D wd junk s m = Some (res, m')" and buf: "length (block_buf m) = 512"
  obtains (invalid) "io chat_ev m m'" "res = Halted 0xDEAD0003"
  | (valid) f m3 m4 where "0 < slot_len s" "slot_len s \<le> SLOT_SIZE_BYTES" "io chat_ev m m3"
      "length (block_buf m3) = 512"
      "load_loop D wd (slot_base s) (unat (num_blocks (slot_len s))) 0 REAL_KERNEL_LOAD_ADDR m3 = Some (f, m4)"
      "(case f of Some f \<Rightarrow> Some (f, m4) | None \<Rightarrow> stage0_verify D wd junk s m4) = Some (res, m')"
proof (cases "slot_len s = 0 \<or> slot_len s > SLOT_SIZE_BYTES")
  case True
  then obtain m1 where p: "u_puts D ''stage0: active slot has invalid recorded length\<newline>'' m = Some m1"
      "stage0_fault D 0xDEAD0003 m1 = Some (res, m')"
    using call by (auto simp: stage0_load_def Let_def elim!: bind_SomeE)
  have "io uart_ev m m'"
    by (rule io_trans [OF u_puts_uart [OF p(1)] conjunct1 [OF stage0_fault_io [OF p(2)]]])
  then have "io chat_ev m m'" by (rule io_mono) (rule chat_ev_simps)
  then show ?thesis using stage0_fault_io [OF p(2)] invalid by simp
next
  case False
  then obtain m1 m2 m3 f m4 where p: "u_puts D ''stage0: loading len=0x'' m = Some m1"
      "u_hex32 D (slot_len s) m1 = Some m2" "u_puts D ''\<newline>'' m2 = Some m3"
    and l: "load_loop D wd (slot_base s) (unat (num_blocks (slot_len s))) 0 REAL_KERNEL_LOAD_ADDR (kick D wd m3)
      = Some (f, m4)"
    and rest: "(case f of Some f \<Rightarrow> Some (f, m4) | None \<Rightarrow> stage0_verify D wd junk s m4) = Some (res, m')"
    using call by (auto simp: stage0_load_def Let_def elim!: bind_SomeE)
  have "io uart_ev m m3"
    by (rule io_trans [OF u_puts_uart [OF p(1)] io_trans [OF u_hex32_io [OF p(2)] u_puts_uart [OF p(3)]]])
  then have "io chat_ev m m3" by (rule io_mono) (rule chat_ev_simps)
  then have io3: "io chat_ev m (kick D wd m3)" by (rule io_trans [OF _ chat_kick])
  have "length (block_buf (kick D wd m3)) = 512"
    using io_vars(3) [OF io3] buf by (rule trans [OF arg_cong [where f = length]])
  with False show ?thesis by (intro valid [OF _ _ io3 _ l rest]) (simp_all add: word_gt_0 not_less)
qed

text \<open>The load loop on a slot of valid length: the payload is in RAM, or a read failed.\<close>

lemma load_loop_slot:
  assumes "load_loop D wd (slot_base s) (unat (num_blocks (slot_len s))) 0 REAL_KERNEL_LOAD_ADDR m3 = Some (f, m4)"
    and "io chat_ev m m3" and "slot_len s \<le> SLOT_SIZE_BYTES" and "length (block_buf m3) = 512"
  shows "write_targets (bus m4) = write_targets (bus m)"
    and "f = None \<Longrightarrow> loaded (slot_base s) REAL_KERNEL_LOAD_ADDR (unat (num_blocks (slot_len s))) m m4"
    and "f = Some x \<Longrightarrow> x = Halted 0xDEAD0004"
proof -
  let ?n = "unat (num_blocks (slot_len s))"
  have "unat REAL_KERNEL_LOAD_ADDR + 512 * ?n < 2 ^ 32"
    using num_blocks_bounds [OF assms(3)] by (simp add: REAL_KERNEL_LOAD_ADDR_def)
  then have ll: "write_targets (bus m4) = write_targets (bus m3) \<and>
      (case f of None \<Rightarrow> loaded (slot_base s + 0) REAL_KERNEL_LOAD_ADDR ?n m3 m4 | Some f \<Rightarrow> f = Halted 0xDEAD0004)"
    using load_loop_spec [OF assms(1)] assms(4) by blast
  then show "write_targets (bus m4) = write_targets (bus m)"
    using chat_silent(3) [OF assms(2)] by simp
  show "f = None \<Longrightarrow> loaded (slot_base s) REAL_KERNEL_LOAD_ADDR ?n m m4"
    using ll loaded_cong [OF assms(2)] by simp
  show "f = Some x \<Longrightarrow> x = Halted 0xDEAD0004" using ll by simp
qed

lemma load_spec:
  assumes call: "stage0_load D wd junk s m = Some (res, m')"
    and ok: "sha_fresh junk" "length (slot_sha s) = 32" "length (block_buf m) = 512"
  shows "write_targets (bus m') = write_targets (bus m) \<and>
    ((\<exists>c. res = Halted c \<and> c \<in> {0xDEAD0003, 0xDEAD0004, 0xDEAD0006})
      \<or> (res = Jumped (jump_value s) \<and> 0 < slot_len s \<and> slot_len s \<le> SLOT_SIZE_BYTES
        \<and> sha256_digest (payload m' s) = slot_sha s
        \<and> loaded (slot_base s) REAL_KERNEL_LOAD_ADDR (unat (num_blocks (slot_len s))) m m'))"
  using call ok(3)
proof (cases rule: load_cases)
  case invalid
  then show ?thesis by (simp add: chat_silent)
next
  case (valid f m3 m4)
  note ll = load_loop_slot [OF valid(5,3,2,4)]
  show ?thesis
  proof (cases f)
    case (Some x)
    with valid(6) ll(1,3) show ?thesis by simp
  next
    case None
    with valid(6) have v: "stage0_verify D wd junk s m4 = Some (res, m')" by simp
    note vs = verify_spec [OF v ok(1,2)]
    have "payload m' s = payload m4 s" using io_vars [OF vs(1)] by (simp add: payload_def)
    moreover note loaded_cong2 [OF ll(2) [OF None] vs(1)]
    moreover have "write_targets (bus m') = write_targets (bus m)" using chat_silent(3) [OF vs(1)] ll(1) by simp
    ultimately show ?thesis using vs(2) valid(1,2) by (cases "sha256_digest (payload m4 s) = slot_sha s") simp_all
  qed
qed

text \<open>Every operation of the loader only adds to the log, and none sends command 41.\<close>

lemma read_to_buf_steady:
  assumes "read_to_buf D n m = Some (rc, m')" and "length (block_buf m) = 512"
  shows "steady m m'"
proof -
  have "length (words_of (block_buf m)) = 128" using assms(2) length_words_of [of "block_buf m"] by simp
  then have "steady m m1" if "stage0_sd_read_block D n (words_of (block_buf m)) m = Some (rc, ws, m1)" for ws m1
    using that by (rule read_block_spec(7) [rotated])
  then show ?thesis
    using assms(1) by (fastforce simp: read_to_buf_def elim!: bind_SomeE intro: logs_bus [THEN iffD2, rotated])
qed

lemma load_loop_steady:
  "load_loop D wd base n i dest m = Some (r, m') \<Longrightarrow> length (block_buf m) = 512 \<Longrightarrow> steady m m'"
proof (induction n arbitrary: i dest m)
  case (Suc n)
  let ?m1 = "if i AND 511 = 0 then kick D wd m else m"
  have g1: "steady m ?m1" by (simp add: io_steady [OF chat_kick])
  obtain rc m2 where rd: "read_to_buf D (base + i) ?m1 = Some (rc, m2)"
    using Suc.prems(1) by (auto simp: Let_def elim!: bind_SomeE)
  have len: "length (block_buf ?m1) = 512" using Suc.prems(2) by simp
  note g2 = logs_trans [OF g1 read_to_buf_steady [OF rd len]]
  show ?case
  proof (cases "rc = 0")
    case True
    let ?m3 = "m2\<lparr>ram := copy_block dest (block_buf m2) (ram m2)\<rparr>"
    have "load_loop D wd base n (i + 1) (dest + of_nat BLOCK_SIZE) ?m3 = Some (r, m')"
      using Suc.prems(1) rd True by simp
    from Suc.IH [OF this] read_to_buf_spec(1) [OF rd len] have "steady ?m3 m'" by simp
    then show ?thesis using g2 by (auto simp: logs_def)
  next
    case False
    then obtain s t m3 m4 m5 f where p: "u_puts D s m2 = Some m3" "u_hex32 D i m3 = Some m4"
        "u_puts D t m4 = Some m5" "stage0_fault D 0xDEAD0004 m5 = Some (f, m')"
      using Suc.prems(1) rd by (auto simp: Let_def elim!: bind_SomeE)
    from logs_trans [OF g2 io_steady [OF load_fault_io(1) [OF p] chat_steady]] show ?thesis .
  qed
qed simp

lemma load_steady:
  assumes call: "stage0_load D wd junk s m = Some (res, m')"
    and ok: "sha_fresh junk" "length (slot_sha s) = 32" "length (block_buf m) = 512"
  shows "steady m m'"
  using call ok(3)
proof (cases rule: load_cases)
  case invalid
  then show ?thesis by (simp add: io_steady)
next
  case (valid f m3 m4)
  note g4 = logs_trans [OF io_steady [OF valid(3) chat_steady] load_loop_steady [OF valid(5,4)]]
  show ?thesis
  proof (cases f)
    case None
    with valid(6) have "stage0_verify D wd junk s m4 = Some (res, m')" by simp
    from logs_trans [OF g4 io_steady [OF verify_spec(1) [OF this ok(1,2)] chat_steady]] show ?thesis .
  qed (use valid(6) g4 in simp)
qed

end
