(* ===== verification/Stage0_Proofs.thy ===== *)
theory Stage0_Proofs
  imports Stage0_Load
begin

text \<open>
  The lemmas of the boot loader for a whole run: the record it writes back, the blocks it writes,
  the conditions under which it jumps, and that it always ends.
\<close>

section \<open>Writing the record back\<close>

lemma report_io:
  "report_attempt D s m = Some m' \<Longrightarrow> io uart_ev m m'"
  "report_fallback D s m = Some m' \<Longrightarrow> io uart_ev m m'"
  by (auto simp: report_attempt_def report_fallback_def split: if_splits prod.splits elim!: bind_SomeE)
    (erule bus_intros | simp)+

text \<open>
  The record is written to the stale block and nowhere else; where the driver reports success,
  the 512 bytes that went into the data register are the encoded record.
\<close>

lemma decide_ok: "slot_ok s \<Longrightarrow> slot_ok (boot_decide s)"
  by (auto simp: boot_decide_def apply_fallback_def bump_attempt_def Let_def slot_ok_def split: if_splits)

text \<open>How a run of \<open>stage0_commit\<close> goes: messages, the write of the encoded record, messages.\<close>

lemma commit_cases:
  assumes call: "stage0_commit D s stale m = Some m'" and ok: "slot_ok s" "length (block_buf m) = 512"
  defines "out \<equiv> slot_wire (boot_decide s)"
  obtains m2 rc m4 where "io chat_ev m m2" "io chat_ev m4 m'" "length (words_of out) = 128"
    "stage0_sd_write_block D stale (words_of out) (m2\<lparr>block_buf := out\<rparr>) = Some (rc, m4)"
proof -
  obtain m1 m2 where p: "report_attempt D (bump_attempt s) m = Some m1"
      "report_fallback D (bump_attempt s) m1 = Some m2"
    using call by (auto simp: stage0_commit_def elim!: bind_SomeE)
  have io2: "io chat_ev m m2"
    by (rule io_mono [OF io_trans [OF report_io(1) [OF p(1)] report_io(2) [OF p(2)]]]) (rule chat_ev_simps)
  have build: "build_slot_state (boot_decide s) (block_buf m2) = out"
    unfolding out_def using io_vars(3) [OF io2] ok by (intro build_slot_state_layout decide_ok) simp_all
  obtain rc m4 where w: "stage0_sd_write_block D stale (words_of out) (m2\<lparr>block_buf := out\<rparr>) = Some (rc, m4)"
    using call p build by (auto simp: stage0_commit_def Let_def elim!: bind_SomeE)
  have "io uart_ev m4 m'"
    using call p build w
    by (auto simp: stage0_commit_def Let_def split: if_splits elim!: bind_SomeE)
      (erule bus_intros | simp)+
  then have "io chat_ev m4 m'" by (rule io_mono) (rule chat_ev_simps)
  moreover have "length (words_of out) = 128"
    using length_words_of [of out] decide_ok [OF ok(1)] by (simp add: out_def length_slot_wire)
  ultimately show ?thesis using that io2 w by blast
qed

lemma commit_spec:
  assumes call: "stage0_commit D s stale m = Some m'"
    and ok: "slot_ok s" "length (block_buf m) = 512"
  shows "ram m' = ram m" "s_is_sdhc m' = s_is_sdhc m"
    "block_buf m' = slot_wire (boot_decide s)"
    and "write_targets (bus m') = write_targets (bus m)
      \<or> write_targets (bus m') = write_targets (bus m) @ [card_addr m stale]"
    and "\<exists>k \<le> 128. written SDDATA_ADDR (bus m')
      = written SDDATA_ADDR (bus m) @ take k (words_of (slot_wire (boot_decide s)))"
    and "steady m m'"
proof -
  let ?out = "slot_wire (boot_decide s)"
  obtain m2 rc m4 where io: "io chat_ev m m2" "io chat_ev m4 m'" and len: "length (words_of ?out) = 128"
      and w: "stage0_sd_write_block D stale (words_of ?out) (m2\<lparr>block_buf := ?out\<rparr>) = Some (rc, m4)"
    using call ok by (rule commit_cases)
  note c2 = chat_silent [OF io(1)] and v2 = io_vars [OF io(1)]
    and c4 = chat_silent [OF io(2)] and v4 = io_vars [OF io(2)]
  note spec = write_block_spec [OF w len]
  show "ram m' = ram m" "s_is_sdhc m' = s_is_sdhc m" "block_buf m' = ?out"
    using more_vars [OF spec(1)] v2 v4 by simp_all
  have "card_addr (m2\<lparr>block_buf := ?out\<rparr>) stale = card_addr m stale" by (rule card_addr_cong) (simp add: v2)
  then show "write_targets (bus m') = write_targets (bus m)
      \<or> write_targets (bus m') = write_targets (bus m) @ [card_addr m stale]"
    using spec(2) c2(3) c4(3) by simp
  show "\<exists>k \<le> 128. written SDDATA_ADDR (bus m') = written SDDATA_ADDR (bus m) @ take k (words_of ?out)"
    using spec(7) c2(5) c4(5) by simp
  have "steady m m4"
    using io_steady [OF io(1) chat_steady] spec(8) by (auto simp: logs_def)
  then show "steady m m'" by (rule logs_trans) (rule io_steady [OF io(2) chat_steady])
qed

section \<open>A whole run\<close>

lemma read_record_spec:
  assumes "read_record D n m = Some (r, m')" and "length (block_buf m) = 512"
  shows "length (block_buf m') = 512" and "s_is_sdhc m' = s_is_sdhc m"
    and "write_targets (bus m') = write_targets (bus m)"
    and "r = Some s \<Longrightarrow> \<exists>ws. length ws = 128 \<and> parse_slot_state (bytes_of ws) = Some s
      \<and> reads SDDATA_ADDR (bus m') = reads SDDATA_ADDR (bus m) @ ws
      \<and> read_targets (bus m') = read_targets (bus m) @ [card_addr m n]"
proof -
  obtain rc where rd: "read_to_buf D n m = Some (rc, m')"
      and r: "r = (if rc = 0 then parse_slot_state (block_buf m') else None)"
    using assms(1) by (auto simp: read_record_def elim!: bind_SomeE)
  note spec = read_to_buf_spec [OF rd assms(2)]
  show "length (block_buf m') = 512" "s_is_sdhc m' = s_is_sdhc m"
    "write_targets (bus m') = write_targets (bus m)" using spec by simp_all
  show "r = Some s \<Longrightarrow> \<exists>ws. length ws = 128 \<and> parse_slot_state (bytes_of ws) = Some s
      \<and> reads SDDATA_ADDR (bus m') = reads SDDATA_ADDR (bus m) @ ws
      \<and> read_targets (bus m') = read_targets (bus m) @ [card_addr m n]"
    using spec(5) r by (auto split: if_splits)
qed

lemma select_cases:
  assumes "select_record a b = Some (s, stale)"
  shows "stale = SLOT_STATE_BLOCK_B \<and> a = Some s \<or> stale = SLOT_STATE_BLOCK_A \<and> b = Some s"
  using assms by (cases a; cases b) (auto simp: select_record_def split: if_splits)

lemma read_record_steady:
  assumes "read_record D n m = Some (r, m')" and "length (block_buf m) = 512"
  shows "steady m m'"
  using assms read_to_buf_steady by (auto simp: read_record_def elim!: bind_SomeE)

text \<open>
  \<open>fetched n raw m m'\<close>: somewhere between \<open>m\<close> and \<open>m'\<close>, block \<open>n\<close> was read from the card and
  \<open>raw\<close> is what the data register delivered.
\<close>

definition fetched :: "u32 \<Rightarrow> u8 list \<Rightarrow> ('s, 'z) stage0_scheme \<Rightarrow> ('s, 'z) stage0_scheme \<Rightarrow> bool" where
  "fetched n raw m m' \<longleftrightarrow>
     (\<exists>ma mb ws. grows m ma \<and> grows mb m' \<and> raw = bytes_of ws \<and> length ws = 128
        \<and> reads SDDATA_ADDR (bus mb) = reads SDDATA_ADDR (bus ma) @ ws
        \<and> read_targets (bus mb) = read_targets (bus ma) @ [card_addr ma n])"

lemma fetched_record:
  assumes "read_record D n ma = Some (Some s, mb)" and "length (block_buf ma) = 512"
    and "grows m ma" and "grows mb m'"
  shows "\<exists>raw. fetched n raw m m' \<and> parse_slot_state raw = Some s"
  using read_record_spec(4) [OF assms(1,2) refl] assms(3,4) unfolding fetched_def by metis

text \<open>
  \<open>booted m0 m s\<close>: what a run from \<open>m0\<close> that ended in a jump in \<open>m\<close> has established, where \<open>s\<close>
  is the record it booted from. The record is the update of one that was read from one of the two
  state blocks during the run and passed the parser; RAM from the load address on is what the
  card delivered for the blocks of the active slot, read last and in order; the digest of the
  payload is the recorded one.
\<close>

definition booted :: "('s, 'z) stage0_scheme \<Rightarrow> ('s, 'z) stage0_scheme \<Rightarrow> slot_state \<Rightarrow> bool" where
  "booted m0 m s \<longleftrightarrow>
     (\<exists>n raw r. n \<in> {SLOT_STATE_BLOCK_A, SLOT_STATE_BLOCK_B} \<and> fetched n raw m0 m
        \<and> parse_slot_state raw = Some r \<and> s = boot_decide r)
     \<and> 0 < slot_len s \<and> slot_len s \<le> SLOT_SIZE_BYTES
     \<and> sha256_digest (payload m s) = slot_sha s
     \<and> (\<exists>mc. grows m0 mc \<and> loaded (slot_base s) REAL_KERNEL_LOAD_ADDR (unat (num_blocks (slot_len s))) mc m)"

definition fault_codes :: "u32 set" where
  "fault_codes = {0xDEAD0001, 0xDEAD0002, 0xDEAD0003, 0xDEAD0004, 0xDEAD0006}"

lemma fault_run:
  assumes "io uart_ev m m1" and "stage0_fault D c m1 = Some (res, m')"
  shows "res = Halted c" and "write_targets (bus m') = write_targets (bus m)"
proof -
  have "io chat_ev m m'"
    by (rule io_mono [OF io_trans [OF assms(1) conjunct1 [OF stage0_fault_io [OF assms(2)]]]])
      (rule chat_ev_simps)
  then show "write_targets (bus m') = write_targets (bus m)" by (rule chat_silent)
  show "res = Halted c" using stage0_fault_io [OF assms(2)] by simp
qed

lemma slot_sha_length: "slot_ok s \<Longrightarrow> length (slot_sha (boot_decide s)) = 32"
  using decide_ok [of s] by (simp add: slot_ok_def slot_sha_def)

text \<open>
  \<open>addressed m\<close>: the card has answered how it is addressed, \<open>s_is_sdhc\<close> says the same, and the
  answer will stay.
\<close>

definition addressed :: "('s, 'z) stage0_scheme \<Rightarrow> bool" where
  "addressed m \<longleftrightarrow> s_is_sdhc m = bit (card_ocr (bus m)) 30 \<and> last_index (bus m) \<noteq> 41"

lemma addressed_steady: "addressed m \<Longrightarrow> steady m m' \<Longrightarrow> s_is_sdhc m' = s_is_sdhc m \<Longrightarrow> addressed m'"
  using steady_ocr [of m m'] by (simp add: addressed_def)

lemma addressed_card_addr: "addressed m \<Longrightarrow> steady m m' \<Longrightarrow> card_addr m n = block_addr (bus m') n"
  using steady_ocr [of m m'] by (simp add: addressed_def card_addr_def block_addr_def)

text \<open>
  How a run goes: it ends in a fault before a record is chosen, or it commits the update of a
  record that it read and loads the slot.
\<close>

lemma main_start:
  assumes call: "stage0_main D wd junk m = Some (res, m')" and buf: "length (block_buf m) = 512"
  obtains m1 rc m2 where "u_puts D ''\<newline>stage0: A/B kernel-slot loader starting\<newline>'' m = Some m1"
    "stage0_sd_init D (kick D wd m1) = Some (rc, m2)" "grows m m2"
    "write_targets (bus m2) = write_targets (bus m)" "length (block_buf m2) = 512"
    "rc = 0 \<Longrightarrow> addressed m2"
proof -
  obtain m1 where m1: "u_puts D ''\<newline>stage0: A/B kernel-slot loader starting\<newline>'' m = Some m1"
    using call by (auto simp: stage0_main_def elim!: bind_SomeE)
  have io: "io chat_ev m (kick D wd m1)"
    by (rule io_trans [OF io_mono [OF u_puts_uart [OF m1]] chat_kick]) (rule chat_ev_simps)
  obtain rc m2 where ini: "stage0_sd_init D (kick D wd m1) = Some (rc, m2)"
    using call m1 by (auto simp: stage0_main_def Let_def elim!: bind_SomeE)
  have "grows (kick D wd m1) m2"
    by (rule logs_mono [OF conjunct1 [OF sd_init_keeps [OF ini, unfolded init_keeps_def]]]) simp
  from logs_trans [OF io_grows [OF io] this] have "grows m m2" .
  moreover have "write_targets (bus m2) = write_targets (bus m)" "length (block_buf m2) = 512"
    using sd_init_keeps [OF ini] logs_no_write_targets [of "kick D wd m1" m2] chat_silent(3) [OF io]
      io_vars(3) [OF io] buf
    by (simp_all add: init_keeps_def)
  moreover have "addressed m2" if "rc = 0"
    using sd_init_ocr [of D "kick D wd m1" m2] ini that by (simp add: addressed_def)
  ultimately show ?thesis using that m1 ini by blast
qed

lemma main_cases:
  assumes call: "stage0_main D wd junk m = Some (res, m')" and buf: "length (block_buf m) = 512"
  obtains (fault) c where "c \<in> fault_codes" "res = Halted c" "write_targets (bus m') = write_targets (bus m)"
  | (chosen) m2 a m3 b m4 s stale m5 where "grows m m2" "length (block_buf m2) = 512"
      "read_record D SLOT_STATE_BLOCK_A m2 = Some (a, m3)" "read_record D SLOT_STATE_BLOCK_B m3 = Some (b, m4)"
      "select_record a b = Some (s, stale)" "stage0_commit D s stale m4 = Some m5"
      "stage0_load D wd junk (boot_decide s) m5 = Some (res, m')"
      "write_targets (bus m4) = write_targets (bus m)" "addressed m2"
  using call buf
proof (cases rule: main_start)
  case (1 m1 rc m2)
  show ?thesis
  proof (cases "rc = 0")
    case False
    then obtain m3 where "io uart_ev m2 m3" "stage0_fault D 0xDEAD0001 m3 = Some (res, m')"
      using call 1 by (auto simp: stage0_main_def Let_def elim!: bind_SomeE)
        (meson io_trans u_puts_uart u_hex32_io)
    from fault_run [OF this] 1(4) show ?thesis by (intro fault) (simp_all add: fault_codes_def)
  next
    case True
    obtain a m3 b m4 where ra: "read_record D SLOT_STATE_BLOCK_A m2 = Some (a, m3)"
        and rb: "read_record D SLOT_STATE_BLOCK_B m3 = Some (b, m4)"
      using call 1 True by (auto simp: stage0_main_def Let_def elim!: bind_SomeE)
    note sa = read_record_spec [OF ra 1(5)]
    have w4: "write_targets (bus m4) = write_targets (bus m)"
      using sa(3) read_record_spec(3) [OF rb sa(1)] 1(4) by simp
    show ?thesis
    proof (cases "select_record a b")
      case None
      then obtain m5 where "io uart_ev m4 m5" "stage0_fault D 0xDEAD0002 m5 = Some (res, m')"
        using call 1 True ra rb by (auto simp: stage0_main_def Let_def elim!: bind_SomeE)
          (meson io_trans u_puts_uart u_hex32_io)
      from fault_run [OF this] w4 show ?thesis by (intro fault) (simp_all add: fault_codes_def)
    next
      case (Some cs)
      obtain s stale where cs: "cs = (s, stale)" by fastforce
      obtain m5 where "stage0_commit D s stale m4 = Some m5" "stage0_load D wd junk (boot_decide s) m5 = Some (res, m')"
        using call 1 True ra rb Some cs by (auto simp: stage0_main_def Let_def elim!: bind_SomeE)
      with 1(3,5) 1(6) [OF True] ra rb Some cs w4 show ?thesis by (intro chosen [of m2 a m3 b m4 s stale m5]) simp_all
    qed
  qed
qed

text \<open>What a run says and writes once a record is chosen.\<close>

lemma chosen_targets:
  assumes "stage0_commit D s stale m4 = Some m5" and "stage0_load D wd junk (boot_decide s) m5 = Some (res, m')"
    and "slot_ok s" and "length (block_buf m4) = 512" and "sha_fresh junk"
    and "stale \<in> {SLOT_STATE_BLOCK_A, SLOT_STATE_BLOCK_B}" and "addressed m4"
  shows "\<exists>ts. write_targets (bus m') = write_targets (bus m4) @ ts \<and> length ts \<le> 1
      \<and> set ts \<subseteq> {block_addr (bus m') SLOT_STATE_BLOCK_A, block_addr (bus m') SLOT_STATE_BLOCK_B}"
proof -
  note cm = commit_spec [OF assms(1,3,4)]
  have buf5: "length (block_buf m5) = 512" using cm(3) length_slot_wire [OF decide_ok [OF assms(3)]] by simp
  then have "write_targets (bus m') = write_targets (bus m5)"
    using load_spec [OF assms(2,5) slot_sha_length [OF assms(3)]] by simp
  then have "write_targets (bus m') = write_targets (bus m4) @ []
      \<or> write_targets (bus m') = write_targets (bus m4) @ [card_addr m4 stale]"
    using cm(4) by auto
  moreover have "card_addr m4 stale = block_addr (bus m') stale"
    using addressed_card_addr [OF assms(7)] logs_trans [OF cm(6) load_steady [OF assms(2,5) slot_sha_length [OF assms(3)] buf5]]
    by blast
  then have "card_addr m4 stale \<in> {block_addr (bus m') SLOT_STATE_BLOCK_A, block_addr (bus m') SLOT_STATE_BLOCK_B}"
    using assms(6) by auto
  ultimately show ?thesis
    by (elim disjE) (rule exI, erule conjI, simp)+
qed

lemma chosen_outcome:
  assumes g2: "grows m m2" and buf: "length (block_buf m2) = 512" and junk: "sha_fresh junk"
    and ra: "read_record D SLOT_STATE_BLOCK_A m2 = Some (a, m3)" and rb: "read_record D SLOT_STATE_BLOCK_B m3 = Some (b, m4)"
    and from_card: "a = Some s \<or> b = Some s"
    and co: "stage0_commit D s stale m4 = Some m5" and ld: "stage0_load D wd junk (boot_decide s) m5 = Some (res, m')"
    and sok: "slot_ok s"
  shows "(\<exists>c \<in> fault_codes. res = Halted c) \<or> res = Jumped (jump_value (boot_decide s)) \<and> booted m m' (boot_decide s)"
proof -
  have buf3: "length (block_buf m3) = 512" by (rule read_record_spec(1) [OF ra buf])
  have buf4: "length (block_buf m4) = 512" by (rule read_record_spec(1) [OF rb buf3])
  note cm = commit_spec [OF co sok buf4]
  have buf5: "length (block_buf m5) = 512" using cm(3) length_slot_wire [OF decide_ok [OF sok]] by simp
  note ls = load_spec [OF ld junk slot_sha_length [OF sok] buf5, THEN conjunct2]
  note g' = steady_grows [OF logs_trans [OF cm(6) load_steady [OF ld junk slot_sha_length [OF sok] buf5]]]
  note g3 = logs_trans [OF g2 steady_grows [OF read_record_steady [OF ra buf]]]
  note gb = steady_grows [OF read_record_steady [OF rb buf3]]
  note gc = logs_trans [OF logs_trans [OF g3 gb] steady_grows [OF cm(6)]]
  have raw: "\<exists>n raw. n \<in> {SLOT_STATE_BLOCK_A, SLOT_STATE_BLOCK_B} \<and> fetched n raw m m' \<and> parse_slot_state raw = Some s"
    using from_card
  proof
    assume "a = Some s"
    with fetched_record [of D _ m2 s m3, OF _ buf g2 logs_trans [OF gb g']] ra show ?thesis by blast
  next
    assume "b = Some s"
    with fetched_record [of D _ m3 s m4, OF _ buf3 g3 g'] rb show ?thesis by blast
  qed
  from ls show ?thesis
  proof
    assume l: "res = Jumped (jump_value (boot_decide s)) \<and> 0 < slot_len (boot_decide s)
      \<and> slot_len (boot_decide s) \<le> SLOT_SIZE_BYTES
      \<and> sha256_digest (payload m' (boot_decide s)) = slot_sha (boot_decide s)
      \<and> loaded (slot_base (boot_decide s)) REAL_KERNEL_LOAD_ADDR
          (unat (num_blocks (slot_len (boot_decide s)))) m5 m'"
    with raw gc have "booted m m' (boot_decide s)" unfolding booted_def by metis
    with l show ?thesis by blast
  qed (auto simp: fault_codes_def)
qed

lemma main_spec:
  assumes call: "stage0_main D wd junk m = Some (res, m')"
    and ok: "sha_fresh junk" "length (block_buf m) = 512"
  shows "(\<exists>c \<in> fault_codes. res = Halted c) \<or> (\<exists>s. res = Jumped (jump_value s) \<and> booted m m' s)" (is ?out)
    and "\<exists>ts. write_targets (bus m') = write_targets (bus m) @ ts \<and> length ts \<le> 1
      \<and> set ts \<subseteq> {block_addr (bus m') SLOT_STATE_BLOCK_A, block_addr (bus m') SLOT_STATE_BLOCK_B}" (is ?ts)
proof -
  from call ok(2) have "?out \<and> ?ts"
  proof (cases rule: main_cases)
    case (fault c)
    then show ?thesis by auto
  next
    case (chosen m2 a m3 b m4 s stale m5)
    note sel = select_cases [OF chosen(5)]
    note sa = read_record_spec [OF chosen(3,2)]
    note sb = read_record_spec [OF chosen(4) sa(1)]
    have sok: "slot_ok s" using sel sa(4) sb(4) slot_ok_parse by blast
    have one_of: "a = Some s \<or> b = Some s" and stale: "stale \<in> {SLOT_STATE_BLOCK_A, SLOT_STATE_BLOCK_B}"
      using sel by auto
    have "addressed m3"
      by (rule addressed_steady [OF chosen(9) read_record_steady [OF chosen(3,2)] sa(2)])
    then have "addressed m4"
      by (rule addressed_steady [OF _ read_record_steady [OF chosen(4) sa(1)] sb(2)])
    note o = chosen_outcome [OF chosen(1,2) ok(1) chosen(3,4) one_of chosen(6,7) sok]
      and ts = chosen_targets [OF chosen(6,7) sok sb(1) ok(1) stale this]
    from o have ?out by blast
    moreover from ts have ?ts by (simp only: chosen(8))
    ultimately show ?thesis ..
  qed
  then show ?out and ?ts by blast+
qed

section \<open>A run ends\<close>

lemma stage0_fault_live [live_intros]: "live D \<Longrightarrow> returns (stage0_fault D c m)"
  unfolding stage0_fault_def by (intro live_intros)

lemma report_live [live_intros]:
  "live D \<Longrightarrow> returns (report_attempt D s m)" "live D \<Longrightarrow> returns (report_fallback D s m)"
  unfolding report_attempt_def report_fallback_def by (intro live_intros; simp)+

lemma read_live [live_intros]:
  "live D \<Longrightarrow> returns (read_to_buf D n m)" "live D \<Longrightarrow> returns (read_record D n m)"
proof -
  show rb: "live D \<Longrightarrow> returns (read_to_buf D n m)" for n m
    unfolding read_to_buf_def by (intro live_intros)
  show "live D \<Longrightarrow> returns (read_record D n m)"
    unfolding read_record_def by (intro live_intros rb)
qed

lemma commit_live [live_intros]: "live D \<Longrightarrow> returns (stage0_commit D s stale m)"
  unfolding stage0_commit_def by (intro live_intros)

lemma load_loop_live [live_intros]: "live D \<Longrightarrow> returns (load_loop D wd base n i dest m)"
proof (induction n arbitrary: i dest m)
  case (Suc n)
  from Suc.prems show ?case by (simp only: load_loop.simps) (intro live_intros Suc.IH)
qed (simp add: returns_def)

lemma verify_live:
  assumes "live D" and "sha_fresh junk"
  shows "returns (stage0_verify D wd junk s m)"
proof -
  let ?m0 = "kick D wd m"
  obtain ctx m1 where l: "sha_loop D wd (slot_len s) 0 (sha256_init junk) ?m0 = (ctx, m1)" by fastforce
  have "sha_absorbed (sha256_init junk) (ram_bytes (ram ?m0) REAL_KERNEL_LOAD_ADDR (unat 0))"
    using sha_stream.init_absorbed [OF assms(2)] by (simp add: ram_bytes_def)
  from sha_loop_spec [OF l this] have "returns (sha256_finalize ctx)"
    using sha_stream.fin_hash by (fastforce simp: returns_def)
  with l assms(1) show ?thesis
    unfolding stage0_verify_def Let_def by (simp only: prod.case) (intro live_intros)
qed

lemma load_live: "live D \<Longrightarrow> sha_fresh junk \<Longrightarrow> returns (stage0_load D wd junk s m)"
  unfolding stage0_load_def by (intro live_intros verify_live)

lemma main_live: "live D \<Longrightarrow> sha_fresh junk \<Longrightarrow> returns (stage0_main D wd junk m)"
  unfolding stage0_main_def by (intro live_intros load_live)

end
