(* ===== verification/Ideal_Card.thy ===== *)
theory Ideal_Card
  imports Stage0_Proofs
begin

text \<open>
  An ideal SD card behind an ideal controller, as one device: every command succeeds at once, a
  read command fills the FIFO with the block's 128 words, a write command stores the next 128
  words of the data register. The code never sees more than this of a card that works; the
  lemmas here compute what each operation of the driver and of the loader does on it. They
  give the properties their end-to-end counterpart: with a good card the loader does boot.
\<close>

section \<open>The device\<close>

text \<open>
  \<open>rx\<close> are the words still to be read, \<open>tx\<close> the block being written with the words received so
  far, \<open>disk\<close> the contents of the card as 128 words a block. An access takes a microsecond.
\<close>

record card =
  ticks :: nat
  card_arg :: u32
  rx :: "u32 list"
  tx :: "(u32 \<times> u32 list) option"
  disk :: "u32 \<Rightarrow> u32 list"

definition card_fill :: "card \<Rightarrow> u32" where
  "card_fill c = of_nat (min 16 (length (rx c)))"

definition card_read :: "u32 \<Rightarrow> card \<Rightarrow> u32" where
  "card_read a c =
     (if a = TIMER_CLO_ADDR then of_nat (Suc (ticks c))
      else if a = SDEDM_ADDR then push_bit 4 (card_fill c) OR SDEDM_FSM_DATAMODE
      else if a = SDDATA_ADDR then (case rx c of [] \<Rightarrow> 0 | w # ws \<Rightarrow> w)
      else if a = SDRSP0_ADDR then OCR_BUSY OR OCR_HCS
      else 0)"

definition card_store :: "u32 \<Rightarrow> card \<Rightarrow> card" where
  "card_store v c =
     (case tx c of
        None \<Rightarrow> c
      | Some (b, ws) \<Rightarrow>
          if length ws = 127 then c\<lparr>disk := (disk c)(b := ws @ [v]), tx := None\<rparr>
          else c\<lparr>tx := Some (b, ws @ [v])\<rparr>)"

definition card_command :: "u32 \<Rightarrow> card \<Rightarrow> card" where
  "card_command v c =
     (if any_bit v SDCMD_READ_CMD then c\<lparr>rx := disk c (card_arg c)\<rparr>
      else if any_bit v SDCMD_WRITE_CMD then c\<lparr>tx := Some (card_arg c, [])\<rparr>
      else c)"

definition ideal_card :: "card device" where
  "ideal_card = \<lparr>
     dev_read = (\<lambda>a c. (card_read a c,
       (if a = SDDATA_ADDR then c\<lparr>rx := tl (rx c)\<rparr> else c)\<lparr>ticks := Suc (ticks c)\<rparr>)),
     dev_write = (\<lambda>a v c.
       (if a = SDARG_ADDR then c\<lparr>card_arg := v\<rparr>
        else if a = SDCMD_ADDR then card_command v c
        else if a = SDDATA_ADDR then card_store v c else c)\<lparr>ticks := Suc (ticks c)\<rparr>),
     mbox_at = 0, mbox_load = (\<lambda>i c. 0), mbox_store = (\<lambda>i v c. c) \<rparr>"

lemma ideal_card_live: "live ideal_card"
proof -
  have "timer_ok ideal_card ticks 1"
    by (auto simp: timer_ok_def ideal_card_def card_read_def)
  moreover have "uart_ok ideal_card UART_FR_RPI1 (\<lambda>c. 0)"
    by (simp add: uart_ok_def ideal_card_def card_read_def reg_defs)
  ultimately show ?thesis by (auto simp: live_def)
qed

section \<open>Accesses that leave the card alone\<close>

text \<open>
  \<open>same_card m m'\<close>: transfers in progress, contents and the program's variables are as they were;
  time has gone by. \<open>calm f m\<close>: the operation \<open>f\<close> returns from \<open>m\<close> and leaves the card alone.
\<close>

definition same_card :: "(card, 'z) mach_scheme \<Rightarrow> (card, 'z) mach_scheme \<Rightarrow> bool" where
  "same_card m m' \<longleftrightarrow> rx (hw m') = rx (hw m) \<and> tx (hw m') = tx (hw m) \<and> disk (hw m') = disk (hw m)
     \<and> mach.more m' = mach.more m"

lemma same_card_refl [simp]: "same_card m m"
  by (simp add: same_card_def)

lemma same_card_trans [trans]: "same_card m1 m2 \<Longrightarrow> same_card m2 m3 \<Longrightarrow> same_card m1 m3"
  by (simp add: same_card_def)

lemma same_cardD:
  assumes "same_card m m'"
  shows "rx (hw m') = rx (hw m)" "tx (hw m') = tx (hw m)" "disk (hw m') = disk (hw m)"
    "mach.more m' = mach.more m"
  using assms by (simp_all add: same_card_def)

lemma card_r:
  assumes "mmio_r ideal_card a m = (v, m')"
  shows "v = card_read a (hw m)" and "a \<noteq> SDDATA_ADDR \<Longrightarrow> same_card m m'"
  using assms by (auto simp: mmio_r_def ideal_card_def same_card_def)

lemma card_w:
  "a \<notin> {SDCMD_ADDR, SDDATA_ADDR} \<Longrightarrow> same_card m (mmio_w ideal_card a v m)"
  by (auto simp: mmio_w_def ideal_card_def same_card_def)

lemma card_read_regs [simp]:
  "card_read UART_FR_RPI1 c = 0" "card_read SDCMD_ADDR c = 0" "card_read SDHSTS_ADDR c = 0"
  "card_read SDRSP0_ADDR c = OCR_BUSY OR OCR_HCS"
  by (simp_all add: card_read_def reg_defs)

lemma card_now: "now_us ideal_card m = (t, m') \<Longrightarrow> same_card m m'"
  by (simp add: now_us_def card_r(2))

lemma card_elapsed: "elapsed_at_least ideal_card t0 b m = (e, m') \<Longrightarrow> same_card m m'"
  by (auto simp: elapsed_at_least_def card_now split: prod.splits)

lemma card_udelay_loop: "udelay_loop ideal_card t0 us m = Some m' \<Longrightarrow> same_card m m'"
proof -
  have "D = ideal_card \<longrightarrow> same_card m m'" if "udelay_loop D t0 us m = Some m'" for D
    by (rule udelay_loop.raw_induct [where P = "\<lambda>D t0 us m m'. D = ideal_card \<longrightarrow> same_card m m'", OF _ that])
      (auto split: prod.splits if_splits intro: card_elapsed same_card_trans [OF card_elapsed])
  then show "udelay_loop ideal_card t0 us m = Some m' \<Longrightarrow> same_card m m'" by blast
qed

definition calm :: "((card, 'z) mach_scheme \<Rightarrow> (card, 'z) mach_scheme option) \<Rightarrow> bool" where
  "calm f \<longleftrightarrow> (\<forall>m. \<exists>m'. f m = Some m' \<and> same_card m m')"

lemma calmE:
  assumes "calm f"
  obtains m' where "f m = Some m'" "same_card m m'"
  using assms by (auto simp: calm_def)

lemma calmD: "calm f \<Longrightarrow> f m = Some m' \<Longrightarrow> same_card m m'"
  unfolding calm_def by (metis option.inject)

lemma calm_bind: "calm f \<Longrightarrow> calm g \<Longrightarrow> calm (\<lambda>m. Option.bind (f m) g)"
  unfolding calm_def by (metis bind.bind_lunit same_card_trans)

lemma calm_Some: "calm Some"
  by (simp add: calm_def)

lemma card_udelay: "udelay_real ideal_card us m = Some m' \<Longrightarrow> same_card m m'"
  by (auto simp: udelay_real_def split: prod.splits
      intro: same_card_trans [OF card_now card_udelay_loop])

lemma calm_udelay: "unat us \<le> 2 ^ 31 \<Longrightarrow> calm (udelay_real ideal_card us)"
  using live_udelay [OF ideal_card_live] card_udelay by (fastforce simp: calm_def returns_def)

lemma calm_putc: "calm (u_putc ideal_card c)"
  unfolding calm_def
proof
  fix m
  obtain v m1 where r: "mmio_r ideal_card UART_FR_RPI1 m = (v, m1)" by fastforce
  have "same_card m m1" by (rule card_r(2) [OF r]) (simp add: reg_defs)
  also have "same_card m1 (mmio_w ideal_card UART_DR_RPI1 (of_char c) m1)"
    by (rule card_w) simp
  finally show "\<exists>m'. u_putc ideal_card c m = Some m' \<and> same_card m m'"
    using r card_r(1) [OF r] by (simp add: u_putc_def uart_wait.simps [of _ _ m])
qed

lemma calm_puts: "calm (u_puts ideal_card s)"
proof (induction s)
  case (Cons c s)
  show ?case using calm_bind [OF calm_putc Cons, of c] by (simp add: calm_def u_puts.simps)
qed (simp add: u_puts.simps calm_def)

lemma calm_hex: "calm (u_hex32 ideal_card v)"
  using calm_puts [of "hex_digits v"] by (simp add: calm_def u_hex32_puts)

text \<open>The chaining rules, as for \<open>io\<close>: they walk back from the last state.\<close>

lemmas same_card_back = same_card_trans [rotated]

lemma same_card_back_r: "mmio_r ideal_card a m' = (v, m'') \<Longrightarrow> a \<noteq> SDDATA_ADDR \<Longrightarrow> same_card m m' \<Longrightarrow> same_card m m''"
  by (rule same_card_back [OF card_r(2)])

lemma same_card_back_w:
  "a \<notin> {SDCMD_ADDR, SDDATA_ADDR} \<Longrightarrow> same_card m m' \<Longrightarrow> same_card m (mmio_w ideal_card a v m')"
  by (rule same_card_back [OF card_w])

lemma wdog_regs [simp]:
  "PM_RSTC \<noteq> SDDATA_ADDR" "PM_WDOG \<noteq> SDDATA_ADDR" "PM_RSTC \<noteq> SDCMD_ADDR" "PM_WDOG \<noteq> SDCMD_ADDR"
  by (simp_all add: PM_RSTC_def PM_WDOG_def reg_defs)

lemma kick_card: "same_card m (kick ideal_card wd m)"
  by (auto simp: kick_def stage0_arm_watchdog_def Let_def split: prod.split)
    (erule same_card_back_r | rule same_card_back_w | simp)+

section \<open>Commands\<close>

lemma fsm_idle_card [simp]: "fsm_idle (card_read SDEDM_ADDR c)"
proof -
  have "(push_bit 4 x OR SDEDM_FSM_DATAMODE) AND SDEDM_FSM_MASK = SDEDM_FSM_DATAMODE" for x :: u32
  proof (rule bit_word_eqI)
    have "SDEDM_FSM_MASK = mask 4" by (simp add: SDEDM_FSM_MASK_def mask_eq_exp_minus_1)
    note msk = this
    show "bit ((push_bit 4 x OR SDEDM_FSM_DATAMODE) AND SDEDM_FSM_MASK) n = bit SDEDM_FSM_DATAMODE n" for n
      by (auto simp: msk SDEDM_FSM_DATAMODE_def bit_simps)
  qed
  then show ?thesis by (simp add: fsm_idle_def card_read_def reg_defs)
qed

lemma card_new_flag: "\<exists>m'. new_flag_wait ideal_card m = Some (Some 0, m') \<and> same_card m m'"
proof -
  obtain t m1 where n: "now_us ideal_card m = (t, m1)" by fastforce
  obtain v m2 where r: "mmio_r ideal_card SDCMD_ADDR m1 = (v, m2)" by fastforce
  have "same_card m m2" by (rule same_card_back_r [OF r _ card_now [OF n]]) simp
  then show ?thesis
    using n r card_r(1) [OF r]
    by (simp add: new_flag_wait_def poll_reg.simps [of _ _ _ _ _ m1])
qed

text \<open>What a command leaves behind: the effect of \<open>SDCMD\<close>, once.\<close>

definition after_command :: "bool \<Rightarrow> bool \<Rightarrow> u32 \<Rightarrow> (card, 'z) mach_scheme \<Rightarrow> (card, 'z) mach_scheme \<Rightarrow> bool" where
  "after_command rd wr arg m m' \<longleftrightarrow>
     rx (hw m') = (if rd then disk (hw m) arg else rx (hw m))
     \<and> tx (hw m') = (if wr then Some (arg, []) else tx (hw m))
     \<and> disk (hw m') = disk (hw m) \<and> mach.more m' = mach.more m"

lemma after_command_calm [simp]: "after_command False False arg = same_card"
  by (simp add: after_command_def same_card_def fun_eq_iff)

lemma after_command_trans:
  "same_card m m1 \<Longrightarrow> after_command rd wr arg m1 m2 \<Longrightarrow> same_card m2 m3 \<Longrightarrow> after_command rd wr arg m m3"
  by (simp add: after_command_def same_card_def)

lemma card_issue:
  assumes "\<not> (rd \<and> wr)"
  shows "after_command rd wr arg m
    (mmio_w ideal_card SDCMD_ADDR (sdcmd_word c p l b rd wr) (mmio_w ideal_card SDARG_ADDR arg m))"
  using assms
  by (simp add: after_command_def mmio_w_def ideal_card_def card_command_def
      sdcmd_word_read_bit sdcmd_word_write_bit)

lemma card_response:
  assumes "read_response ideal_card p l m = (r, m')"
  shows "err r = 0" and "same_card m m'"
    and "p \<Longrightarrow> \<not> l \<Longrightarrow> response r ! 0 = OCR_BUSY OR OCR_HCS"
proof -
  show "err r = 0" using assms by (rule read_response_err)
  show "same_card m m'"
    using assms by (auto simp: read_response_def Let_def split: prod.splits if_splits)
      (erule same_card_back_r | simp)+
  show "p \<Longrightarrow> \<not> l \<Longrightarrow> response r ! 0 = OCR_BUSY OR OCR_HCS"
    using assms card_r(1) [of SDRSP0_ADDR m] by (auto simp: read_response_def split: prod.splits)
qed

lemma card_send_cmd:
  assumes "\<not> (rd \<and> wr)"
  shows "\<exists>r m'. stage0_send_cmd ideal_card c arg p l b bs bn rd wr t g m = Some (r, m')
    \<and> err r = 0 \<and> (p \<and> \<not> l \<longrightarrow> response r ! 0 = OCR_BUSY OR OCR_HCS) \<and> after_command rd wr arg m m'"
proof -
  obtain edm m1 where r1: "mmio_r ideal_card SDEDM_ADDR m = (edm, m1)" by fastforce
  obtain m2 where w1: "new_flag_wait ideal_card m1 = Some (Some 0, m2)" "same_card m1 m2"
    using card_new_flag by blast
  obtain st m3 where r2: "mmio_r ideal_card SDHSTS_ADDR m2 = (st, m3)" by fastforce
  let ?m4 = "if bs \<noteq> 0 then mmio_w ideal_card SDHBLC_ADDR bn (mmio_w ideal_card SDHBCT_ADDR bs m3) else m3"
  let ?m5 = "mmio_w ideal_card SDCMD_ADDR (sdcmd_word c p l b rd wr) (mmio_w ideal_card SDARG_ADDR arg ?m4)"
  obtain m6 where w2: "new_flag_wait ideal_card ?m5 = Some (Some 0, m6)" "same_card ?m5 m6"
    using card_new_flag by blast
  obtain r m7 where rr: "read_response ideal_card p l m6 = (r, m7)" by fastforce
  note resp = card_response [OF rr]
  have "same_card m m3"
    by (rule same_card_back_r [OF r2 _ same_card_trans [OF card_r(2) [OF r1] w1(2)]]) simp_all
  then have "same_card m ?m4" by (auto intro!: same_card_back_w)
  from after_command_trans [OF this card_issue [OF assms] same_card_trans [OF w2(2) resp(2)]]
  have "after_command rd wr arg m m7" .
  moreover have "stage0_send_cmd ideal_card c arg p l b bs bn rd wr t g m = Some (r, m7)"
    using r1 w1(1) r2 w2(1) rr card_r(1) [OF r1] card_r(1) [OF r2]
    by (cases "bs = 0") (simp_all add: stage0_send_cmd_def Let_def send_cmd_finish_def)
  ultimately show ?thesis using resp by blast
qed

section \<open>Bring-up\<close>

lemma card_fifo_fill: "fifo_fill (card_read SDEDM_ADDR c) = min 16 (length (rx c))"
proof -
  have msk: "(0x1F :: u32) = mask 5" by (simp add: mask_eq_exp_minus_1)
  have small: "unat (card_fill c) = min 16 (length (rx c))"
    by (simp add: card_fill_def unat_of_nat)
  then have "unat (take_bit 5 (card_fill c)) = unat (card_fill c)"
    by (simp add: unsigned_take_bit_eq take_bit_nat_eq_self)
  moreover have "drop_bit 4 (push_bit 4 x OR SDEDM_FSM_DATAMODE) AND mask 5 = take_bit 5 x" for x :: u32
    by (rule bit_word_eqI) (auto simp: SDEDM_FSM_DATAMODE_def bit_simps)
  ultimately show ?thesis
    using small by (simp only: fifo_fill_def card_read_def msk) (simp add: reg_defs)
qed

lemma fifo_fill_0: "fifo_fill v = 0 \<longleftrightarrow> drop_bit 4 v AND 0x1F = 0"
  by (simp add: fifo_fill_def unat_eq_zero)

lemma card_fifo_preclear: "rx (hw m) = [] \<Longrightarrow> same_card m (fifo_preclear ideal_card n m)"
proof (cases n)
  case (Suc left)
  assume rx: "rx (hw m) = []"
  obtain edm m1 where r: "mmio_r ideal_card SDEDM_ADDR m = (edm, m1)" by fastforce
  have "drop_bit 4 edm AND 0x1F = 0"
    using card_fifo_fill [of "hw m"] rx card_r(1) [OF r] by (simp flip: fifo_fill_0)
  then show ?thesis using Suc r card_r(2) [OF r] by simp
qed simp

lemma card_reset:
  assumes "rx (hw m) = []"
  shows "\<exists>m'. stage0_reset_and_ident_clock ideal_card m = Some m' \<and> same_card m m'"
proof -
  have "returns (stage0_reset_and_ident_clock ideal_card m)"
    by (rule reset_live [OF ideal_card_live])
  moreover have "same_card m m'" if "stage0_reset_and_ident_clock ideal_card m = Some m'" for m'
  proof -
    have pre: "same_card m (fifo_preclear ideal_card 1000 m1)" if "same_card m m1" for m1
      using that assms by (intro same_card_back [OF card_fifo_preclear]) (simp_all add: same_card_def)
    show ?thesis
      using that
      by (auto simp: stage0_reset_and_ident_clock_def Let_def split: prod.splits elim!: bind_SomeE)
        (rule same_card_back_w pre | erule same_card_back [OF card_udelay] | erule same_card_back_r | simp add: reg_defs)+
  qed
  ultimately show ?thesis by (auto simp: returns_def)
qed

lemma card_mbox_room: "mbox_wait_room ideal_card n m = (b, m') \<Longrightarrow> same_card m m'"
proof (induction n arbitrary: m)
  case (Suc n)
  obtain v m1 where r: "mmio_r ideal_card MBOX_STATUS_ADDR m = (v, m1)" by fastforce
  have "same_card m m1" by (rule card_r(2) [OF r]) (simp add: reg_defs MBOX_STATUS_ADDR_def)
  with Suc r show ?case by (auto split: if_splits intro: same_card_trans)
qed simp

lemma card_mbox_reply: "mbox_wait_reply ideal_card addr n m = (v, m') \<Longrightarrow> same_card m m'"
proof (induction n arbitrary: m)
  case (Suc n)
  obtain st m1 where r: "mmio_r ideal_card MBOX_STATUS_ADDR m = (st, m1)" by fastforce
  obtain w m2 where r2: "mmio_r ideal_card MBOX_READ_ADDR m1 = (w, m2)" by fastforce
  have c1: "same_card m m1" by (rule card_r(2) [OF r]) (simp add: reg_defs MBOX_STATUS_ADDR_def)
  have c2: "same_card m m2"
    by (rule same_card_back_r [OF r2 _ c1]) (simp add: reg_defs MBOX_READ_ADDR_def)
  show ?case
    using Suc.prems r r2 c2
    by (auto split: if_splits dest!: Suc.IH intro: same_card_trans [OF c1] same_card_trans [OF c2])
qed simp

lemma card_core_clock: "stage0_get_core_clock_hz ideal_card m = (hz, m') \<Longrightarrow> same_card m m'"
proof -
  have put: "same_card m (mbox_put ideal_card i v m1)" if "same_card m m1" for m1 i v
    using that by (simp add: same_card_def mbox_put_def ideal_card_def)
  show "stage0_get_core_clock_hz ideal_card m = (hz, m') \<Longrightarrow> same_card m m'"
    by (auto simp: stage0_get_core_clock_hz_def Let_def split: prod.splits if_splits)
      (erule same_card_back [OF card_mbox_reply] same_card_back [OF card_mbox_room]
        | rule put same_card_back_w | simp)+
qed

lemma card_acmd41:
  "\<exists>r m'. acmd41_loop ideal_card n m = Some (0, r, m') \<and> any_bit (response r ! 0) OCR_HCS \<and> same_card m m'"
proof -
  obtain r1 m1 where c1: "stage0_send_cmd ideal_card 55 0 True False False 0 0 False False False True m = Some (r1, m1)"
      "err r1 = 0" "same_card m m1"
    using card_send_cmd [of False False 55 0 True False] by fastforce
  obtain r2 m2 where c2: "stage0_send_cmd ideal_card 41 (0x00FF8000 OR OCR_HCS) True False False 0 0 False
        False True True m1 = Some (r2, m2)"
      "err r2 = 0" "response r2 ! 0 = OCR_BUSY OR OCR_HCS" "same_card m1 m2"
    using card_send_cmd [of False False 41 "0x00FF8000 OR OCR_HCS" True False] by fastforce
  have "any_bit (response r2 ! 0) OCR_BUSY" "any_bit (response r2 ! 0) OCR_HCS"
    by (simp_all add: c2(3) OCR_BUSY_def OCR_HCS_def)
  then show ?thesis
    using c1 c2 same_card_trans [OF c1(3) c2(4)]
    by (simp add: acmd41_loop.simps [of _ n])
qed

text \<open>
  The bring-up sets two variables; card, buffer and RAM are as before, and the card is known to
  be addressed by block.
\<close>

definition same_disk :: "(card, 'z) stage0_scheme \<Rightarrow> (card, 'z) stage0_scheme \<Rightarrow> bool" where
  "same_disk m m' \<longleftrightarrow> rx (hw m') = rx (hw m) \<and> tx (hw m') = tx (hw m) \<and> disk (hw m') = disk (hw m)
     \<and> block_buf m' = block_buf m \<and> ram m' = ram m"

lemma same_card_disk:
  assumes "same_card m (m' :: (card, 'z) stage0_scheme)"
  shows "same_disk m m'" and "s_is_sdhc m' = s_is_sdhc m"
  using assms by (cases m, cases m', simp add: same_card_def same_disk_def)+

lemma same_disk_trans: "same_disk m1 m2 \<Longrightarrow> same_disk m2 m3 \<Longrightarrow> same_disk m1 m3"
  by (simp add: same_disk_def)

lemma same_disk_fields [simp]:
  "same_disk m m" "same_disk m (m'\<lparr>s_is_sdhc := b\<rparr>) = same_disk m m'"
  "same_disk m (m'\<lparr>s_rca := x\<rparr>) = same_disk m m'"
  "same_disk (m\<lparr>s_is_sdhc := b\<rparr>) m' = same_disk m m'"
  "same_disk (m\<lparr>s_rca := x\<rparr>) m' = same_disk m m'"
  by (simp_all add: same_disk_def)

lemma card_cmd:
  obtains r m' where "stage0_send_cmd ideal_card c arg p l b bs bn False False t g m = Some (r, m')"
    "err r = 0" "same_card m m'"
  using card_send_cmd [of False False c arg p l b bs bn t g m] by auto

lemma card_transfer_cmd:
  assumes "\<not> (rd \<and> wr)"
  obtains r m' where "stage0_send_cmd ideal_card c arg p l b bs bn rd wr t g m = Some (r, m')"
    "err r = 0" "after_command rd wr arg m m'"
  using card_send_cmd [OF assms, of c arg p l b bs bn t g m] by blast

lemma card_sd_init:
  fixes m :: "(card, 'z) stage0_scheme"
  assumes "rx (hw m) = []"
  shows "\<exists>m'. stage0_sd_init ideal_card m = Some (0, m') \<and> s_is_sdhc m' \<and> same_disk m m'"
proof -
  obtain m0 where m0: "stage0_reset_and_ident_clock ideal_card m = Some m0" "same_card m m0"
    using card_reset [OF assms] by blast
  obtain r1 m1 where m1: "stage0_send_cmd ideal_card 0 0 False False False 0 0 False False False False m0 = Some (r1, m1)"
      "err r1 = 0" "same_card m0 m1" by (rule card_cmd)
  obtain r2 m2 where m2: "stage0_send_cmd ideal_card 8 0x1AA True False False 0 0 False False False True m1 = Some (r2, m2)"
      "err r2 = 0" "same_card m1 m2" by (rule card_cmd)
  obtain r3 m3 where m3: "acmd41_loop ideal_card 1000 m2 = Some (0, r3, m3)" "any_bit (response r3 ! 0) OCR_HCS"
      "same_card m2 m3" using card_acmd41 by blast
  let ?m3 = "m3\<lparr>s_is_sdhc := True\<rparr>"
  obtain r4 m4 where m4: "stage0_send_cmd ideal_card 2 0 True True False 0 0 False False False False ?m3 = Some (r4, m4)"
      "err r4 = 0" "same_card ?m3 m4" by (rule card_cmd)
  obtain r5 m5 where m5: "stage0_send_cmd ideal_card 3 0 True False False 0 0 False False False False m4 = Some (r5, m5)"
      "err r5 = 0" "same_card m4 m5" by (rule card_cmd)
  let ?m5 = "m5\<lparr>s_rca := drop_bit 16 (response r5 ! 0) AND 0xFFFF\<rparr>"
  obtain r6 m6 where m6: "stage0_send_cmd ideal_card 9 (push_bit 16 (s_rca ?m5)) True True False 0 0 False False False False ?m5 = Some (r6, m6)"
      "err r6 = 0" "same_card ?m5 m6" by (rule card_cmd)
  obtain r7 m7 where m7: "stage0_send_cmd ideal_card 7 (push_bit 16 (s_rca m6)) True False True 0 0 False False False False m6 = Some (r7, m7)"
      "err r7 = 0" "same_card m6 m7" by (rule card_cmd)
  obtain hz m8 where m8: "stage0_get_core_clock_hz ideal_card m7 = (hz, m8)" by fastforce
  have "same_card m7 m8" by (rule card_core_clock [OF m8])
  let ?w = "mmio_w ideal_card SDTOUT_ADDR (achieved_clock_hz hz div 2)
    (mmio_w ideal_card SDCDIV_ADDR (clock_divisor hz) m8)"
  have w: "same_card m8 ?w" by (rule same_card_back_w [OF _ card_w]) simp_all
  have "unat (10000 :: u32) \<le> 2 ^ 31" by simp
  from calm_udelay [OF this] obtain m9 where m9: "udelay_real ideal_card 10000 ?w = Some m9" "same_card ?w m9"
    by (auto simp: calm_def)
  define m10 where "m10 = (if hz > 0 then m9 else m8)"
  let ?m' = "mmio_w ideal_card SDHCFG_ADDR 0x40A m10"
  have "same_card m8 m10" using same_card_trans [OF w m9(2)] by (simp add: m10_def)
  then have "same_card m8 ?m'" by (intro same_card_back_w) simp_all
  note last = same_card_trans [OF m6(3) same_card_trans [OF m7(3) same_card_trans [OF \<open>same_card m7 m8\<close> this]]]
  note first = same_card_trans [OF m0(2) same_card_trans [OF m1(3) same_card_trans [OF m2(3) m3(3)]]]
  note mid = same_card_trans [OF m4(3) m5(3)]
  have "same_disk m ?m'"
    using same_card_disk(1) [OF first] same_card_disk(1) [OF mid] same_card_disk(1) [OF last]
    by (simp add: same_disk_def)
  moreover have "s_is_sdhc ?m'"
    using same_card_disk(2) [OF mid] same_card_disk(2) [OF last] by simp
  moreover have "stage0_sd_init ideal_card m = Some (0, ?m')"
    using m0(1) m1 m2 m3 m4 m5 m6 m7 m8 m9(1) by (simp add: stage0_sd_init_def Let_def m10_def)
  ultimately show ?thesis by blast
qed

section \<open>Reading a block\<close>

lemma card_pop:
  assumes "pop_words ideal_card n pos buf m = (buf', m')" and "n \<le> length (rx (hw m))"
    and "pos + n \<le> length buf"
  shows "buf' = put_words pos (take n (rx (hw m))) buf \<and> rx (hw m') = drop n (rx (hw m))
    \<and> tx (hw m') = tx (hw m) \<and> disk (hw m') = disk (hw m) \<and> mach.more m' = mach.more m"
  using assms
proof (induction n arbitrary: pos buf m)
  case (Suc n)
  then obtain w ws where rx: "rx (hw m) = w # ws" by (cases "rx (hw m)") auto
  obtain v m1 where r: "mmio_r ideal_card SDDATA_ADDR m = (v, m1)" by fastforce
  then have m1: "v = w" "rx (hw m1) = ws" "tx (hw m1) = tx (hw m)" "disk (hw m1) = disk (hw m)"
      "mach.more m1 = mach.more m"
    using rx by (auto simp: mmio_r_def ideal_card_def card_read_def reg_defs)
  have "pop_words ideal_card n (pos + 1) (buf[pos := v]) m1 = (buf', m')"
    using Suc.prems(1) r by simp
  from Suc.IH [OF this] Suc.prems(2,3) rx m1 show ?case
    by (simp add: put_words_Cons)
qed simp

lemma card_drain:
  assumes "length (rx (hw m)) = n" and "pos + n \<le> length buf"
  shows "\<exists>m'. drain_loop ideal_card n it pos buf m = (True, put_words pos (rx (hw m)) buf, m')
    \<and> rx (hw m') = [] \<and> tx (hw m') = tx (hw m) \<and> disk (hw m') = disk (hw m)
    \<and> mach.more m' = mach.more m"
  using assms
proof (induction n arbitrary: pos buf m rule: less_induct)
  case (less n)
  show ?case
  proof (cases "n = 0")
    case False
    obtain edm m1 where r: "mmio_r ideal_card SDEDM_ADDR m = (edm, m1)" by fastforce
    have c1: "same_card m m1" by (rule card_r(2) [OF r]) simp
    define k where "k = min 16 n"
    have fill: "fifo_fill edm = k"
      using card_r(1) [OF r] less.prems by (simp add: card_fifo_fill k_def)
    have k: "0 < k" "k \<le> n" "burst_words n \<le> k"
      using False by (auto simp: burst_words_def SDDATA_FIFO_PIO_BURST_def k_def)
    obtain buf2 m2 where p: "pop_words ideal_card k pos buf m1 = (buf2, m2)" by fastforce
    have le1: "pos + k \<le> length buf" using less.prems k by simp
    have "k \<le> length (rx (hw m1))" using less.prems k same_cardD(1) [OF c1] by simp
    note pop = card_pop [OF p this le1]
    have rx2: "rx (hw m2) = drop k (rx (hw m))" using pop same_cardD(1) [OF c1] by simp
    then have len2: "length (rx (hw m2)) = n - k" using less.prems by simp
    have lt: "n - k < n" using k by simp
    have buf2: "buf2 = put_words pos (take k (rx (hw m))) buf" using pop same_cardD(1) [OF c1] by simp
    have lk: "length (take k (rx (hw m))) = k" using less.prems k by simp
    have "length buf2 = length buf"
      using length_put_words [of pos "take k (rx (hw m))" buf] lk le1 by (simp only: buf2)
    then have le2: "pos + k + (n - k) \<le> length buf2" using less.prems k by simp
    from less.IH [OF lt len2 le2] obtain m' where m':
        "drain_loop ideal_card (n - k) it (pos + k) buf2 m2
          = (True, put_words (pos + k) (rx (hw m2)) buf2, m')"
        "rx (hw m') = []" "tx (hw m') = tx (hw m2)" "disk (hw m') = disk (hw m2)"
        "mach.more m' = mach.more m2" by blast
    have "put_words (pos + k) (rx (hw m2)) buf2 = put_words pos (rx (hw m)) buf"
      using put_words_append [of pos "take k (rx (hw m))" buf "drop k (rx (hw m))"] le1
      by (simp only: buf2 rx2 lk append_take_drop_id)
    then have "drain_loop ideal_card n it pos buf m = (True, put_words pos (rx (hw m)) buf, m')"
      using False r fill k m'(1) p by (simp add: drain_loop.simps [of _ n] Let_def)
    then show ?thesis using m'(2-5) pop same_cardD [OF c1] by simp
  qed (use less.prems in \<open>simp add: drain_loop.simps [of _ 0]\<close>)
qed

lemma card_transfer_end: "\<exists>m'. transfer_end ideal_card m = Some (0, m') \<and> same_card m m'"
proof -
  obtain st m1 where r1: "mmio_r ideal_card SDHSTS_ADDR m = (st, m1)" by fastforce
  obtain t0 m2 where n: "now_us ideal_card m1 = (t0, m2)" by fastforce
  obtain edm m3 where r2: "mmio_r ideal_card SDEDM_ADDR m2 = (edm, m3)" by fastforce
  obtain st2 m4 where r3: "mmio_r ideal_card SDHSTS_ADDR m3 = (st2, m4)" by fastforce
  have z: "st = 0" "st2 = 0" "fsm_idle edm"
    using card_r(1) [OF r1] card_r(1) [OF r2] card_r(1) [OF r3] by simp_all
  have "same_card m m1" by (rule card_r(2) [OF r1]) simp
  from same_card_trans [OF this card_now [OF n]] have "same_card m m2" .
  then have "same_card m m3" by (rule same_card_back_r [OF r2, rotated]) simp
  then have "same_card m m4" by (rule same_card_back_r [OF r3, rotated]) simp
  then have "same_card m (mmio_w ideal_card SDHSTS_ADDR 0 m4)"
    by (rule same_card_back_w [rotated]) simp
  moreover have "transfer_end ideal_card m = Some (0, mmio_w ideal_card SDHSTS_ADDR 0 m4)"
    using r1 n r2 r3 z by (simp add: transfer_end_def Let_def poll_reg.simps [of _ _ _ _ _ m2])
  ultimately show ?thesis by blast
qed

lemma card_read_block:
  fixes m :: "(card, 'z) stage0_scheme"
  assumes "s_is_sdhc m" and "rx (hw m) = []" and "length (disk (hw m) n) = 128" and "length buf = 128"
  shows "\<exists>m'. stage0_sd_read_block ideal_card n buf m = Some (0, disk (hw m) n, m') \<and> same_card m m'"
proof -
  obtain r1 m1 where c1: "stage0_send_cmd ideal_card 16 512 True False False 0 0 False False False False m = Some (r1, m1)"
      "same_card m m1" by (rule card_cmd)
  let ?m1 = "mmio_w ideal_card SDHCFG_ADDR 0x40A m1"
  have s1: "same_card m ?m1" by (rule same_card_back_w [OF _ c1(2)]) simp
  obtain r2 m2 where c2: "stage0_send_cmd ideal_card 17 n True False False 512 1 True False False False ?m1 = Some (r2, m2)"
      "err r2 = 0" "after_command True False n ?m1 m2"
    by (rule card_transfer_cmd [of True False]) simp
  have m2: "rx (hw m2) = disk (hw m) n" "tx (hw m2) = tx (hw m)" "disk (hw m2) = disk (hw m)"
      "mach.more m2 = mach.more m"
    using c2(3) same_cardD [OF s1] by (simp_all add: after_command_def)
  have "length (rx (hw m2)) = 128" "0 + 128 \<le> length buf" using m2 assms by simp_all
  from card_drain [OF this] obtain m3 where m3:
      "drain_loop ideal_card 128 0 0 buf m2 = (True, put_words 0 (rx (hw m2)) buf, m3)"
      "rx (hw m3) = []" "tx (hw m3) = tx (hw m2)" "disk (hw m3) = disk (hw m2)"
      "mach.more m3 = mach.more m2" by blast
  obtain m4 where m4: "transfer_end ideal_card m3 = Some (0, m4)" "same_card m3 m4"
    using card_transfer_end by blast
  have "put_words 0 (rx (hw m2)) buf = disk (hw m) n"
    using assms m2 by (simp add: put_words_def)
  then have "stage0_sd_read_block ideal_card n buf m = Some (0, disk (hw m) n, m4)"
    using assms(1) c1(1) c2(1,2) m3(1) m4(1) by (simp add: stage0_sd_read_block_def card_addr_def Let_def)
  moreover have "same_card m m4"
    using m2 m3 same_cardD [OF m4(2)] assms(2) by (simp add: same_card_def)
  ultimately show ?thesis by blast
qed

section \<open>Writing a block\<close>

lemma card_push:
  assumes "tx (hw m) = Some (b, ws)" and "length ws + k \<le> 128" and "pos + k \<le> length wbuf" and "length ws < 128"
  defines "m' \<equiv> push_words ideal_card k pos wbuf m"
  shows "rx (hw m') = rx (hw m) \<and> mach.more m' = mach.more m
    \<and> (let ws' = ws @ take k (drop pos wbuf) in
       if length ws + k = 128 then tx (hw m') = None \<and> disk (hw m') = (disk (hw m))(b := ws')
       else tx (hw m') = Some (b, ws') \<and> disk (hw m') = disk (hw m))"
  using assms(1-4) unfolding m'_def
proof (induction k arbitrary: pos m ws)
  case (Suc k)
  let ?m1 = "mmio_w ideal_card SDDATA_ADDR (wbuf ! pos) m"
  have pos: "take (Suc k) (drop pos wbuf) = wbuf ! pos # take k (drop (pos + 1) wbuf)"
    using Suc.prems by (simp flip: Cons_nth_drop_Suc)
  show ?case
  proof (cases "length ws = 127")
    case True
    then have "k = 0" using Suc.prems by simp
    then show ?thesis
      using True Suc.prems pos by (simp add: mmio_w_def ideal_card_def card_store_def reg_defs)
  next
    case False
    then have "tx (hw ?m1) = Some (b, ws @ [wbuf ! pos])" "rx (hw ?m1) = rx (hw m)"
        "disk (hw ?m1) = disk (hw m)" "mach.more ?m1 = mach.more m"
      using Suc.prems by (simp_all add: mmio_w_def ideal_card_def card_store_def reg_defs)
    with Suc.IH [of ?m1 "ws @ [wbuf ! pos]" "Suc pos"] Suc.prems False pos show ?thesis
      by (simp add: Let_def)
  qed
qed simp

lemma card_room: "rx c = [] \<Longrightarrow> fifo_room (card_read SDEDM_ADDR c) = 16"
  by (simp add: fifo_room_def card_fifo_fill)

lemma card_fill_loop:
  assumes "tx (hw m) = Some (b, take pos wbuf)" and "rx (hw m) = []" and "pos + n = 128"
    and "length wbuf = 128" and "0 < n"
  shows "\<exists>m'. fill_loop ideal_card n it pos wbuf m = (True, m')
    \<and> rx (hw m') = [] \<and> tx (hw m') = None \<and> disk (hw m') = (disk (hw m))(b := wbuf)
    \<and> mach.more m' = mach.more m"
  using assms
proof (induction n arbitrary: pos m rule: less_induct)
  case (less n)
  obtain edm m1 where r: "mmio_r ideal_card SDEDM_ADDR m = (edm, m1)" by fastforce
  have c1: "same_card m m1" by (rule card_r(2) [OF r]) simp
  have room: "fifo_room edm = 16" using card_r(1) [OF r] less.prems by (simp add: card_room)
  define k where "k = min 16 n"
  have kb: "0 < k" "k \<le> n" "burst_words n \<le> k" "k \<le> 16"
    using less.prems(5) by (auto simp: burst_words_def SDDATA_FIFO_PIO_BURST_def k_def)
  let ?m2 = "push_words ideal_card k pos wbuf m1"
  have len: "length (take pos wbuf) = pos" using less.prems by simp
  have push: "rx (hw ?m2) = rx (hw m1) \<and> mach.more ?m2 = mach.more m1
    \<and> (let ws' = take pos wbuf @ take k (drop pos wbuf) in
       if length (take pos wbuf) + k = 128 then tx (hw ?m2) = None \<and> disk (hw ?m2) = (disk (hw m1))(b := ws')
       else tx (hw ?m2) = Some (b, ws') \<and> disk (hw ?m2) = disk (hw m1))"
    using less.prems same_cardD [OF c1] kb by (intro card_push) auto
  have app: "take pos wbuf @ take k (drop pos wbuf) = take (pos + k) wbuf" by (simp add: take_add)
  note m2 = push [unfolded app len Let_def same_cardD [OF c1]]
  have "int k = (if 16 < int n then 16 else int n)" by (simp add: k_def)
  then have go: "fill_loop ideal_card n it pos wbuf m = fill_loop ideal_card (n - k) it (pos + k) wbuf ?m2"
    using r room less.prems(5) kb
    by (simp add: fill_loop.simps [of _ n] Let_def min_def k_def split: if_splits)
  show ?case
  proof (cases "pos + k = 128")
    case True
    then have "n - k = 0" using less.prems(3) by simp
    with True go m2 less.prems(2,4) show ?thesis by (simp add: fill_loop.simps [of _ 0] fun_upd_def)
  next
    case False
    then have n: "n - k < n" "0 < n - k" "pos + k + (n - k) = 128" using less.prems(3) kb by simp_all
    have h: "tx (hw ?m2) = Some (b, take (pos + k) wbuf)" "rx (hw ?m2) = []" "disk (hw ?m2) = disk (hw m)"
        "mach.more ?m2 = mach.more m" using m2 False less.prems(2) by simp_all
    from less.IH [OF n(1) h(1,2) n(3) less.prems(4) n(2)] go h(3,4) show ?thesis by simp
  qed
qed

lemma card_drain_wait: "rx (hw m) = [] \<Longrightarrow> same_card m (fifo_drain_wait ideal_card n m)"
proof (cases n)
  case (Suc left)
  assume rx: "rx (hw m) = []"
  obtain edm m1 where r: "mmio_r ideal_card SDEDM_ADDR m = (edm, m1)" by fastforce
  have "fifo_fill edm = 0" using card_fifo_fill [of "hw m"] rx card_r(1) [OF r] by simp
  then show ?thesis using Suc r card_r(2) [OF r] by simp
qed simp

lemma card_write_block:
  fixes m :: "(card, 'z) stage0_scheme"
  assumes "s_is_sdhc m" and "rx (hw m) = []" and "length wbuf = 128"
  shows "\<exists>m'. stage0_sd_write_block ideal_card n wbuf m = Some (0, m')
    \<and> rx (hw m') = [] \<and> tx (hw m') = None \<and> disk (hw m') = (disk (hw m))(n := wbuf)
    \<and> mach.more m' = mach.more m"
proof -
  obtain r1 m1 where c1: "stage0_send_cmd ideal_card 16 512 True False False 0 0 False False False False m = Some (r1, m1)"
      "same_card m m1" by (rule card_cmd)
  let ?m1 = "mmio_w ideal_card SDHCFG_ADDR 0x40A m1"
  have s1: "same_card m ?m1" by (rule same_card_back_w [OF _ c1(2)]) simp
  obtain r2 m2 where c2: "stage0_send_cmd ideal_card 24 n True False False 512 1 False True False False ?m1 = Some (r2, m2)"
      "err r2 = 0" "after_command False True n ?m1 m2"
    by (rule card_transfer_cmd [of False True]) simp
  have m2: "rx (hw m2) = []" "tx (hw m2) = Some (n, [])" "disk (hw m2) = disk (hw m)"
      "mach.more m2 = mach.more m"
    using c2(3) same_cardD [OF s1] assms(2) by (simp_all add: after_command_def)
  have "tx (hw m2) = Some (n, take 0 wbuf)" using m2 by simp
  from card_fill_loop [OF this m2(1) _ assms(3), of 128] obtain m3 where m3:
      "fill_loop ideal_card 128 0 0 wbuf m2 = (True, m3)"
      "rx (hw m3) = []" "tx (hw m3) = None" "disk (hw m3) = (disk (hw m2))(n := wbuf)"
      "mach.more m3 = mach.more m2" by auto
  note d = card_drain_wait [OF m3(2), of 1000000]
  obtain m4 where m4: "transfer_end ideal_card (fifo_drain_wait ideal_card 1000000 m3) = Some (0, m4)"
      "same_card (fifo_drain_wait ideal_card 1000000 m3) m4"
    using card_transfer_end by blast
  have "stage0_sd_write_block ideal_card n wbuf m = Some (0, m4)"
    using assms(1) c1(1) c2(1,2) m3(1) m4(1) by (simp add: stage0_sd_write_block_def card_addr_def Let_def)
  then show ?thesis
    using m2 m3 same_cardD [OF same_card_trans [OF d m4(2)]] by simp
qed

end
