(* ===== verification/Kernel_Slots.thy ===== *)
theory Kernel_Slots
  imports Slot_State
begin

text \<open>
  The running kernel's side of the slot-state record, \<open>kernel/kernel_main.vani\<close>: its own CRC-32,
  \<open>kernelslot_parse\<close>, \<open>kernelslot_build\<close>, \<open>kernelslot_lookup\<close>, and the commands that update the
  record. The kernel's SD driver is a parameter: \<open>rd\<close> and \<open>wr\<close> stand for \<open>sdhost_read_block\<close> and
  \<open>sdhost_write_block\<close>, over a state of theirs. The lemmas show that the kernel's routines
  agree with those of the loader, which are a separate implementation of the same format.
\<close>

section \<open>The record and its format\<close>

text \<open>The struct has the fields of the loader's, and two that are not stored on the card.\<close>

record KernelSlotRecord = slot_state +
  valid :: u64
  chosen_block :: u64

definition kernelslot_state_block_a :: u64 where "kernelslot_state_block_a = 9216"
definition kernelslot_state_block_b :: u64 where "kernelslot_state_block_b = 9217"

text \<open>Byte access (\<open>boot/dharafs_buf.S\<close>) and the 32-bit accessors built from it.\<close>

definition kbuf_write_byte :: "u8 list \<Rightarrow> nat \<Rightarrow> u32 \<Rightarrow> u8 list" where
  "kbuf_write_byte buf offset value = buf[offset := ucast value]"

definition kbuf_read_byte :: "u8 list \<Rightarrow> nat \<Rightarrow> u32" where
  "kbuf_read_byte buf offset = ucast (buf ! offset)"

definition buf_write_u32_le :: "u8 list \<Rightarrow> nat \<Rightarrow> u32 \<Rightarrow> u8 list" where
  "buf_write_u32_le buf offset value =
     (let b0 = value AND 0xFF;
          b1 = drop_bit 8 value AND 0xFF;
          b2 = drop_bit 16 value AND 0xFF;
          b3 = drop_bit 24 value AND 0xFF;
          buf = kbuf_write_byte buf offset b0;
          buf = kbuf_write_byte buf (offset + 1) b1;
          buf = kbuf_write_byte buf (offset + 2) b2
      in kbuf_write_byte buf (offset + 3) b3)"

definition buf_read_u32_le :: "u8 list \<Rightarrow> nat \<Rightarrow> u32" where
  "buf_read_u32_le buf offset =
     (let b0 = kbuf_read_byte buf offset;
          b1 = kbuf_read_byte buf (offset + 1);
          b2 = kbuf_read_byte buf (offset + 2);
          b3 = kbuf_read_byte buf (offset + 3)
      in ((b0 OR push_bit 8 b1) OR push_bit 16 b2) OR push_bit 24 b3)"

definition kernelslot_crc32_bit :: "u32 \<Rightarrow> u32" where
  "kernelslot_crc32_bit crc =
     (if crc AND 1 \<noteq> 0 then drop_bit 1 crc XOR 3988292384 else drop_bit 1 crc)"

definition kernelslot_crc32 :: "u8 list \<Rightarrow> nat \<Rightarrow> u32" where
  "kernelslot_crc32 buf buf_len =
     fold (\<lambda>i crc. (kernelslot_crc32_bit ^^ 8) (crc XOR kbuf_read_byte buf i)) [0..<buf_len] 4294967295
       XOR 4294967295"

definition kernelslot_record_crc_valid :: "u8 list \<Rightarrow> bool" where
  "kernelslot_record_crc_valid raw =
     (let magic = buf_read_u32_le raw 0 in
      if magic \<noteq> 0x44485342 then False
      else
        let crc_stored = buf_read_u32_le raw 96; crc_actual = kernelslot_crc32 raw 96 in
        if crc_actual \<noteq> crc_stored then False else True)"

definition kernelslot_parse :: "u8 list \<Rightarrow> u64 \<Rightarrow> KernelSlotRecord" where
  "kernelslot_parse raw blk =
     (let sa = map (\<lambda>i. ucast (kbuf_read_byte raw (32 + i))) [0..<32];
          sb = map (\<lambda>i. ucast (kbuf_read_byte raw (64 + i))) [0..<32]
      in \<lparr> generation = buf_read_u32_le raw 4,
           active_slot = ucast (kbuf_read_byte raw 8),
           preferred_slot = ucast (kbuf_read_byte raw 9),
           last_reset_reason = ucast (kbuf_read_byte raw 10),
           attempt_count = buf_read_u32_le raw 12,
           bootlimit = buf_read_u32_le raw 16,
           slot_a_ready = ucast (kbuf_read_byte raw 20),
           slot_b_ready = ucast (kbuf_read_byte raw 21),
           slot_a_len = buf_read_u32_le raw 24,
           slot_b_len = buf_read_u32_le raw 28,
           slot_a_sha256 = sa,
           slot_b_sha256 = sb,
           valid = 1,
           chosen_block = blk \<rparr>)"

definition kernelslot_build :: "KernelSlotRecord \<Rightarrow> u8 list \<Rightarrow> u8 list" where
  "kernelslot_build rec out =
     (let out = fold (\<lambda>i out. kbuf_write_byte out i 0) [0..<512] out;
          out = buf_write_u32_le out 0 0x44485342;
          out = buf_write_u32_le out 4 (generation rec);
          out = kbuf_write_byte out 8 (ucast (active_slot rec));
          out = kbuf_write_byte out 9 (ucast (preferred_slot rec));
          out = kbuf_write_byte out 10 (ucast (last_reset_reason rec));
          out = buf_write_u32_le out 12 (attempt_count rec);
          out = buf_write_u32_le out 16 (bootlimit rec);
          out = kbuf_write_byte out 20 (ucast (slot_a_ready rec));
          out = kbuf_write_byte out 21 (ucast (slot_b_ready rec));
          out = buf_write_u32_le out 24 (slot_a_len rec);
          out = buf_write_u32_le out 28 (slot_b_len rec);
          out = fold (\<lambda>j out.
            kbuf_write_byte (kbuf_write_byte out (32 + j) (ucast (slot_a_sha256 rec ! j)))
              (64 + j) (ucast (slot_b_sha256 rec ! j))) [0..<32] out;
          crc = kernelslot_crc32 out 96
      in buf_write_u32_le out 96 crc)"

section \<open>Lookup and write-back\<close>

type_synonym 'd sd_read = "u64 \<Rightarrow> u8 list \<Rightarrow> 'd \<Rightarrow> u64 \<times> u8 list \<times> 'd"
type_synonym 'd sd_write = "u64 \<Rightarrow> u8 list \<Rightarrow> 'd \<Rightarrow> u64 \<times> 'd"

text \<open>The state is the record buffer and the driver's.\<close>

definition kernelslot_lookup :: "'d sd_read \<Rightarrow> u8 list \<times> 'd \<Rightarrow> KernelSlotRecord \<times> u8 list \<times> 'd" where
  "kernelslot_lookup rd st =
     (let (buf, d) = st;
          (status_a, buf, d) = rd kernelslot_state_block_a buf d;
          valid_a = (if status_a = 0 then kernelslot_record_crc_valid buf else False);
          rec_a = kernelslot_parse buf kernelslot_state_block_a;
          (status_b, buf, d) = rd kernelslot_state_block_b buf d;
          valid_b = (if status_b = 0 then kernelslot_record_crc_valid buf else False);
          rec_b = kernelslot_parse buf kernelslot_state_block_b
      in (if valid_a \<and> valid_b then (if generation rec_a \<ge> generation rec_b then rec_a else rec_b)
          else if valid_a then rec_a
          else if valid_b then rec_b
          else rec_a\<lparr>valid := 0\<rparr>, buf, d))"

definition kernelslot_stale_block :: "KernelSlotRecord \<Rightarrow> u64" where
  "kernelslot_stale_block rec =
     (if chosen_block rec = kernelslot_state_block_a then kernelslot_state_block_b
      else kernelslot_state_block_a)"

definition kernelslot_write_record ::
    "'d sd_write \<Rightarrow> KernelSlotRecord \<Rightarrow> u64 \<Rightarrow> u8 list \<times> 'd \<Rightarrow> u64 \<times> u8 list \<times> 'd" where
  "kernelslot_write_record wr rec block_num st =
     (let (buf, d) = st; buf = kernelslot_build rec buf; (status, d) = wr block_num buf d
      in (status, buf, d))"

section \<open>The updates\<close>

text \<open>
  Addition is checked in the kernel's language: \<open>generation + 1\<close> at the last generation is a
  panic (\<open>None\<close>), before anything is written.
\<close>

definition next_generation :: "('a slot_state_scheme) \<Rightarrow> u32 option" where
  "next_generation r = (if generation r = - 1 then None else Some (generation r + 1))"

definition mark_good :: "'a slot_state_scheme \<Rightarrow> 'a slot_state_scheme option" where
  "mark_good r = do {
     g \<leftarrow> next_generation r;
     Some (r\<lparr>generation := g, attempt_count := 0\<rparr>) }"

definition note_reboot :: "'a slot_state_scheme \<Rightarrow> 'a slot_state_scheme option" where
  "note_reboot r = do {
     g \<leftarrow> next_generation r;
     Some (r\<lparr>generation := g, last_reset_reason := 1\<rparr>) }"

definition activate_slot :: "u8 \<Rightarrow> 'a slot_state_scheme \<Rightarrow> 'a slot_state_scheme option" where
  "activate_slot new_active r = do {
     g \<leftarrow> next_generation r;
     Some (r\<lparr>generation := g, active_slot := new_active, preferred_slot := new_active,
       attempt_count := 0\<rparr>) }"

definition record_upload ::
    "u32 \<Rightarrow> u32 \<Rightarrow> u8 list \<Rightarrow> 'a slot_state_scheme \<Rightarrow> 'a slot_state_scheme option" where
  "record_upload target_slot actual_len digest r = do {
     g \<leftarrow> next_generation r;
     Some (if target_slot = 0
       then r\<lparr>generation := g, slot_a_ready := 1, slot_a_len := actual_len, slot_a_sha256 := digest\<rparr>
       else r\<lparr>generation := g, slot_b_ready := 1, slot_b_len := actual_len, slot_b_sha256 := digest\<rparr>) }"

lemmas kernel_update_defs = mark_good_def note_reboot_def activate_slot_def record_upload_def
  next_generation_def

section \<open>The commands\<close>

text \<open>
  The commands that update the record: the confirmation at the end of a start, and the record
  steps of \<open>reboot\<close>, \<open>kernelslot activate\<close> and \<open>kernelupload commit\<close> (after the upload was
  verified). The result is the message printed, and the new state; \<open>None\<close> is a panic. \<open>want_a\<close> and
  \<open>want_b\<close> tell which slot the command line names.
\<close>

definition kernel_slot_mark_boot_good ::
    "'d sd_read \<Rightarrow> 'd sd_write \<Rightarrow> u32 \<Rightarrow> u8 list \<times> 'd \<Rightarrow> (u64 \<times> u8 list \<times> 'd) option" where
  "kernel_slot_mark_boot_good rd wr boot_slot st =
     (let (lookup, st) = kernelslot_lookup rd st in
      if valid lookup \<noteq> 1 then Some (0, st)
      else if ucast (active_slot lookup) \<noteq> boot_slot then Some (0, st)
      else if attempt_count lookup = 0 then Some (0, st)
      else do {
        new_rec \<leftarrow> mark_good lookup;
        Some (kernelslot_write_record wr new_rec (kernelslot_stale_block lookup) st) })"

definition reboot_record ::
    "'d sd_read \<Rightarrow> 'd sd_write \<Rightarrow> u8 list \<times> 'd \<Rightarrow> (u8 list \<times> 'd) option" where
  "reboot_record rd wr st =
     (let (lookup, st) = kernelslot_lookup rd st in
      if valid lookup = 1 then do {
        new_rec \<leftarrow> note_reboot lookup;
        Some (snd (kernelslot_write_record wr new_rec (kernelslot_stale_block lookup) st)) }
      else Some st)"

definition kernelslot_activate ::
    "'d sd_read \<Rightarrow> 'd sd_write \<Rightarrow> u32 \<Rightarrow> bool \<Rightarrow> bool \<Rightarrow> u8 list \<times> 'd \<Rightarrow> (string \<times> u8 list \<times> 'd) option" where
  "kernelslot_activate rd wr uid want_a want_b st =
     (if uid \<noteq> 0 then Some (''kernelslot: permission denied (root only)\<newline>'', st)
      else if \<not> want_a \<and> \<not> want_b then Some (''usage: kernelslot activate <a|b>\<newline>'', st)
      else
        let (lookup, st) = kernelslot_lookup rd st in
        if valid lookup \<noteq> 1 then Some (''kernelslot: no valid slot-state record found\<newline>'', st)
        else
          let target_ready = (if want_a then slot_a_ready lookup else slot_b_ready lookup) in
          if target_ready \<noteq> 1 then
            Some (''kernelslot: refusing to activate a slot that was never successfully uploaded/verified\<newline>'', st)
          else do {
            new_rec \<leftarrow> activate_slot (if want_a then 0 else 1) lookup;
            let (wstatus, st) = kernelslot_write_record wr new_rec (kernelslot_stale_block lookup) st;
            if wstatus \<noteq> 0 then Some (''kernelslot: write-back failed\<newline>'', st)
            else Some (''ok, slot '' @ (if want_a then ''A'' else ''B'')
              @ '' is now active (lasting choice, takes effect next reboot)\<newline>'', st) })"

text \<open>This one also returns the flag \<open>kernelupload_active\<close>, which every path resets.\<close>

definition kernelupload_record ::
    "'d sd_read \<Rightarrow> 'd sd_write \<Rightarrow> u32 \<Rightarrow> u32 \<Rightarrow> u8 list \<Rightarrow> u8 list \<times> 'd
      \<Rightarrow> (string \<times> u32 \<times> u8 list \<times> 'd) option" where
  "kernelupload_record rd wr target_slot actual_len digest st =
     (let (lookup, st) = kernelslot_lookup rd st in
      if valid lookup \<noteq> 1 then
        Some (''kernelupload: slot-state record vanished mid-commit (unexpected)\<newline>'', 0, st)
      else do {
        new_rec \<leftarrow> record_upload target_slot actual_len digest lookup;
        let (wstatus2, st) = kernelslot_write_record wr new_rec (kernelslot_stale_block lookup) st;
        if wstatus2 \<noteq> 0 then Some (''kernelupload: slot-state write-back failed\<newline>'', 0, st)
        else Some ([], 0, st) })"

section \<open>Agreement with the loader\<close>

lemma kernelslot_crc32_bit: "kernelslot_crc32_bit = crc32_bit"
  by (rule ext) (simp add: kernelslot_crc32_bit_def crc32_bit_def)

lemma kernelslot_crc32_96: "kernelslot_crc32 buf 96 = crc32_bytes buf 96"
  unfolding kernelslot_crc32_def crc32_bytes_def foldl_conv_fold crc32_byte_def kernelslot_crc32_bit
    kbuf_read_byte_def
  by simp

lemma buf_read_u32_le: "buf_read_u32_le = read_u32_le"
  by (intro ext) (simp add: buf_read_u32_le_def read_u32_le_def kbuf_read_byte_def)

lemma ucast_low_byte: "ucast (v AND 0xFF :: u32) = (ucast v :: u8)"
proof -
  have m: "(0xFF :: u32) = mask 8" by (simp add: mask_eq_exp_minus_1)
  show ?thesis unfolding m by (rule bit_word_eqI) (simp add: bit_simps)
qed

lemma buf_write_u32_le: "buf_write_u32_le = write_u32_le"
  by (intro ext) (simp add: buf_write_u32_le_def write_u32_le_def kbuf_write_byte_def ucast_low_byte Let_def)

lemma byte_ucast [simp]: "ucast (ucast b :: u32) = (b :: u8)"
  by (rule bit_word_eqI) (simp add: bit_simps)

lemma kernelslot_build_state: "kernelslot_build r out = build_slot_state (slot_state.truncate r) out"
  by (simp add: kernelslot_build_def build_slot_state_def build_slot_body_def Let_def buf_write_u32_le
      kernelslot_crc32_96 kbuf_write_byte_def SLOT_MAGIC_def BLOCK_SIZE_def slot_state.truncate_def)

lemma kernelslot_parse_state:
  "parse_slot_state raw =
     (if kernelslot_record_crc_valid raw then Some (slot_state.truncate (kernelslot_parse raw b)) else None)"
  by (simp add: parse_slot_state_def kernelslot_record_crc_valid_def kernelslot_parse_def Let_def
      buf_read_u32_le kernelslot_crc32_96 kbuf_read_byte_def SLOT_MAGIC_def slot_state.truncate_def)

text \<open>So the kernel's pair of routines is a codec of its own for the same records.\<close>

definition kernel_enc :: "slot_state \<Rightarrow> u8 list \<Rightarrow> u8 list" where
  "kernel_enc s = kernelslot_build (slot_state.extend s \<lparr>valid = 1, chosen_block = kernelslot_state_block_a\<rparr>)"

definition kernel_dec :: "u8 list \<Rightarrow> slot_state option" where
  "kernel_dec raw =
     (if kernelslot_record_crc_valid raw
      then Some (slot_state.truncate (kernelslot_parse raw kernelslot_state_block_a)) else None)"

lemma kernel_enc: "kernel_enc = build_slot_state"
proof (intro ext)
  fix s out
  show "kernel_enc s out = build_slot_state s out"
    by (cases s) (simp add: kernel_enc_def kernelslot_build_state slot_state.truncate_def slot_state.extend_def)
qed

lemma kernel_dec: "kernel_dec = parse_slot_state"
  by (intro ext) (simp add: kernel_dec_def kernelslot_parse_state [symmetric])

interpretation kernel_codec: record_codec kernel_enc kernel_dec slot_ok is_block
  unfolding kernel_enc kernel_dec by (rule slot_codec.record_codec_axioms)

end
