(* ===== verification/Boot_Protocol.thy ===== *)
theory Boot_Protocol
  imports Stage0_Proofs Kernel_Slots
begin

text \<open>
  The slot-state record across boots: the loader's decision at every start (\<open>stage0_main\<close>), the
  updates of the running kernel (the \<open>kernelslot\<close> operations of \<open>kernel/kernel_main.vani\<close>: boot
  confirmed, deliberate reboot, slot activated, image uploaded), and the two copies on the card,
  of which a power loss may leave the one being written unreadable. \<open>slot_update\<close> is the step
  relation of the record and \<open>power_cycles\<close> that of the pair of copies; the lemmas give the
  invariants of both, the count of attempts over many starts, and what a wrapped generation costs.
\<close>

section \<open>Updates of the record\<close>

text \<open>
  The loader's decision, and the four updates of the kernel with their conditions: the
  confirmation of a counted boot, the note of a deliberate reboot, the activation of a ready
  slot, and the completion of an upload.
\<close>

inductive slot_update :: "slot_state \<Rightarrow> slot_state \<Rightarrow> bool" where
  boot: "slot_update s (boot_decide s)"
| confirm: "attempt_count s \<noteq> 0 \<Longrightarrow> mark_good s = Some s' \<Longrightarrow> slot_update s s'"
| reboot: "note_reboot s = Some s' \<Longrightarrow> slot_update s s'"
| activate: "(if want_a then slot_a_ready s else slot_b_ready s) = 1 \<Longrightarrow>
     activate_slot (if want_a then 0 else 1) s = Some s' \<Longrightarrow> slot_update s s'"
| upload: "length digest = 32 \<Longrightarrow> record_upload t len digest s = Some s' \<Longrightarrow> slot_update s s'"

inductive_cases slot_updateE: "slot_update s s'"

lemma kernel_updates:
  "mark_good s = Some s' \<longleftrightarrow> generation s \<noteq> - 1 \<and> s' = s\<lparr>generation := generation s + 1, attempt_count := 0\<rparr>"
  "note_reboot s = Some s' \<longleftrightarrow> generation s \<noteq> - 1 \<and> s' = s\<lparr>generation := generation s + 1, last_reset_reason := 1\<rparr>"
  "activate_slot a s = Some s' \<longleftrightarrow> generation s \<noteq> - 1 \<and>
     s' = s\<lparr>generation := generation s + 1, active_slot := a, preferred_slot := a, attempt_count := 0\<rparr>"
  "record_upload t len digest s = Some s' \<longleftrightarrow> generation s \<noteq> - 1 \<and> s' =
     (if t = 0 then s\<lparr>generation := generation s + 1, slot_a_ready := 1, slot_a_len := len, slot_a_sha256 := digest\<rparr>
      else s\<lparr>generation := generation s + 1, slot_b_ready := 1, slot_b_len := len, slot_b_sha256 := digest\<rparr>)"
  by (auto simp: kernel_update_defs)

section \<open>What a decision does to the record\<close>

lemmas decide_defs = boot_decide_def apply_fallback_def bump_attempt_def Let_def

lemma attempt_count_fields [simp]:
  "effective_limit (s\<lparr>attempt_count := x\<rparr>) = effective_limit s"
  "other_ready (s\<lparr>attempt_count := x\<rparr>) = other_ready s"
  by (simp_all add: effective_limit_def other_ready_def)

lemma decide_generation [simp]: "generation (boot_decide s) = generation s + 1"
  by (simp add: decide_defs)

text \<open>Fields that neither side ever changes.\<close>

definition same_slots :: "slot_state \<Rightarrow> slot_state \<Rightarrow> bool" where
  "same_slots s s' \<longleftrightarrow> preferred_slot s' = preferred_slot s \<and> bootlimit s' = bootlimit s
     \<and> slot_a_ready s' = slot_a_ready s \<and> slot_b_ready s' = slot_b_ready s
     \<and> slot_a_len s' = slot_a_len s \<and> slot_b_len s' = slot_b_len s
     \<and> slot_a_sha256 s' = slot_a_sha256 s \<and> slot_b_sha256 s' = slot_b_sha256 s"

lemma decide_same: "same_slots s (boot_decide s)"
  by (simp add: same_slots_def decide_defs)

lemma confirm_same: "mark_good s = Some s' \<Longrightarrow> same_slots s s'"
  by (auto simp: kernel_updates same_slots_def)

lemma update_generation: "slot_update s s' \<Longrightarrow> generation s' = generation s + 1"
  by (auto elim!: slot_updateE simp: kernel_updates)

lemma update_ok: "slot_update s s' \<Longrightarrow> slot_ok s \<Longrightarrow> slot_ok s'"
  by (auto elim!: slot_updateE simp: kernel_updates decide_ok) (auto simp: slot_ok_def)

interpretation slot_store: versioned_store build_slot_state parse_slot_state slot_ok is_block
    generation slot_update
  by unfold_locales (fact update_ok update_generation)+

text \<open>The copy that \<open>stage0_main\<close> selects is the current one of the store.\<close>

lemma select_record_pick:
  "select_record a b = map_option (\<lambda>(r, stale_b). (r, if stale_b then SLOT_STATE_BLOCK_B else SLOT_STATE_BLOCK_A))
     (pick generation a b)"
  by (cases a; cases b) (simp_all add: select_record_def)

section \<open>Which slot is active\<close>

text \<open>The slot the record makes active is marked ready.\<close>

definition active_ready :: "slot_state \<Rightarrow> bool" where
  "active_ready s \<longleftrightarrow> (if active_slot s = 0 then slot_a_ready s else slot_b_ready s) \<noteq> 0"

lemma slot_active_flip:
  assumes "slot_update s s'" and "active_slot s' \<noteq> active_slot s"
  shows "active_ready s'" and "attempt_count s' = 0"
    and "attempt_count s + 1 > effective_limit s \<and> last_reset_reason s' = REASON_AUTO_FALLBACK
      \<or> preferred_slot s' = active_slot s'"
  using assms
  by (auto elim!: slot_updateE simp: kernel_updates active_ready_def decide_defs reset_reason_def
      effective_limit_def other_ready_def split: if_splits)

lemma decide_ready: "active_ready s \<Longrightarrow> active_ready (boot_decide s)"
  by (auto simp: active_ready_def decide_defs other_ready_def)

lemma update_ready: "slot_update s s' \<Longrightarrow> active_ready s \<Longrightarrow> active_ready s'"
  by (auto elim!: slot_updateE simp: kernel_updates decide_ready) (auto simp: active_ready_def split: if_splits)

lemma updates_ready: "(slot_update ^^ n) s s' \<Longrightarrow> active_ready s \<Longrightarrow> active_ready s'"
  by (induction n arbitrary: s') (auto intro: update_ready)

section \<open>Boots that are never confirmed\<close>

definition attempts :: "nat \<Rightarrow> slot_state \<Rightarrow> slot_state" where
  "attempts n s = (boot_decide ^^ n) s"

lemma decide_limit [simp]: "effective_limit (boot_decide s) = effective_limit s"
  using decide_same [of s] by (simp add: same_slots_def effective_limit_def)

lemma decide_counting:
  assumes "unat (attempt_count s) < unat (effective_limit s)"
  shows "unat (attempt_count (boot_decide s)) = unat (attempt_count s) + 1"
    and "active_slot (boot_decide s) = active_slot s"
proof -
  have u: "unat (attempt_count s + 1) = unat (attempt_count s) + 1"
    using assms unat_lt_2p32 [of "effective_limit s"] by (intro unat_add_one [of _ "unat (effective_limit s)"]) simp_all
  then have "\<not> attempt_count s + 1 > effective_limit s"
    using assms by (simp add: word_less_nat_alt)
  then show "unat (attempt_count (boot_decide s)) = unat (attempt_count s) + 1"
    and "active_slot (boot_decide s) = active_slot s"
    using u by (simp_all add: decide_defs)
qed

lemma decide_reason:
  assumes "unat (attempt_count s) < unat (effective_limit s)"
    and "last_reset_reason s = REASON_CLEAN_REBOOT"
  shows "last_reset_reason (boot_decide s) = REASON_CLEAN_REBOOT"
proof -
  have "attempt_count (boot_decide s) = attempt_count s + 1 \<or> attempt_count (boot_decide s) = 0"
    by (simp add: decide_defs)
  then show ?thesis
    using decide_counting [OF assms(1)] assms(2) by (auto simp: decide_defs reset_reason_def split: if_splits)
qed

lemma effective_limit_pos: "0 < unat (effective_limit s)"
  by (simp add: effective_limit_def DEFAULT_BOOTLIMIT_def unat_gt_0)

lemma attempts_counting:
  "unat (attempt_count s) + n \<le> unat (effective_limit s) \<Longrightarrow>
     unat (attempt_count (attempts n s)) = unat (attempt_count s) + n
     \<and> active_slot (attempts n s) = active_slot s \<and> effective_limit (attempts n s) = effective_limit s
     \<and> same_slots s (attempts n s)"
proof (induction n)
  case (Suc n)
  then have IH: "unat (attempt_count (attempts n s)) = unat (attempt_count s) + n"
      "active_slot (attempts n s) = active_slot s" "effective_limit (attempts n s) = effective_limit s"
      "same_slots s (attempts n s)"
    by simp_all
  then have "unat (attempt_count (attempts n s)) < unat (effective_limit (attempts n s))"
    using Suc.prems by simp
  from decide_counting [OF this] IH decide_same [of "attempts n s"] show ?case
    by (simp add: attempts_def same_slots_def)
qed (simp add: attempts_def same_slots_def)

text \<open>The fallback comes with the first attempt beyond the limit.\<close>

lemma decide_exhausted:
  assumes "unat (attempt_count s) = unat (effective_limit s)" and "effective_limit s \<noteq> - 1"
    and "other_ready s \<noteq> 0"
  shows "active_slot (boot_decide s) = (if active_slot s = 0 then 1 else 0)"
    and "attempt_count (boot_decide s) = 0"
    and "last_reset_reason (boot_decide s) = REASON_AUTO_FALLBACK"
proof -
  have eq: "attempt_count s = effective_limit s" using assms(1) by (metis word_unat_eq_iff)
  then have "attempt_count s + 1 > effective_limit s"
    using unat_less_max [OF assms(2)] by (simp add: word_less_nat_alt unat_add_one)
  then show "active_slot (boot_decide s) = (if active_slot s = 0 then 1 else 0)"
    and "attempt_count (boot_decide s) = 0"
    and "last_reset_reason (boot_decide s) = REASON_AUTO_FALLBACK"
    using assms(3) by (simp_all add: decide_defs reset_reason_def)
qed

lemma fallback_after_limit:
  assumes "attempt_count s = 0" and "effective_limit s \<noteq> - 1" and "other_ready s \<noteq> 0"
  defines "L \<equiv> unat (effective_limit s)"
  shows "n \<le> L \<Longrightarrow> active_slot (attempts n s) = active_slot s"
    and "active_slot (attempts (Suc L) s) = (if active_slot s = 0 then 1 else 0)"
    and "attempt_count (attempts (Suc L) s) = 0"
    and "last_reset_reason (attempts (Suc L) s) = REASON_AUTO_FALLBACK"
proof -
  note c = attempts_counting [of s]
  show "n \<le> L \<Longrightarrow> active_slot (attempts n s) = active_slot s"
    using c [of n] assms(1) by (simp add: L_def)
  let ?t = "attempts L s"
  have t: "unat (attempt_count ?t) = L" "active_slot ?t = active_slot s"
      "effective_limit ?t = effective_limit s" "same_slots s ?t"
    using c [of L] assms(1) by (simp_all add: L_def)
  then have "other_ready ?t \<noteq> 0" using assms(3) by (auto simp: other_ready_def same_slots_def)
  from decide_exhausted [OF _ _ this] t assms(2)
  show "active_slot (attempts (Suc L) s) = (if active_slot s = 0 then 1 else 0)"
    and "attempt_count (attempts (Suc L) s) = 0"
    and "last_reset_reason (attempts (Suc L) s) = REASON_AUTO_FALLBACK"
    by (simp_all add: attempts_def L_def)
qed

text \<open>With no other slot to go to, the loader stays.\<close>

lemma attempts_stay: "other_ready s = 0 \<Longrightarrow> active_slot (attempts n s) = active_slot s \<and> other_ready (attempts n s) = 0"
proof (induction n)
  case (Suc n)
  then show ?case
    by (auto simp: attempts_def decide_defs other_ready_def)
qed (simp add: attempts_def)


section \<open>The two copies on the card\<close>

text \<open>
  A run of the system over many starts: the card holds two blocks; each cycle reads both,
  and either writes the updated record over the stale block, or is cut off while writing and
  leaves there anything that the parser refuses. \<open>n\<close> counts the cycles that got through.
\<close>

definition card_select :: "u8 list \<times> u8 list \<Rightarrow> (slot_state \<times> u32) option" where
  "card_select p = select_record (parse_slot_state (fst p)) (parse_slot_state (snd p))"

definition put_block :: "u32 \<Rightarrow> u8 list \<Rightarrow> u8 list \<times> u8 list \<Rightarrow> u8 list \<times> u8 list" where
  "put_block n x p = (if n = SLOT_STATE_BLOCK_A then (x, snd p) else (fst p, x))"

inductive power_cycles :: "u8 list \<times> u8 list \<Rightarrow> nat \<Rightarrow> u8 list \<times> u8 list \<Rightarrow> bool" where
  start: "power_cycles p 0 p"
| updated: "power_cycles p n q \<Longrightarrow> card_select q = Some (r, stale) \<Longrightarrow> is_block out \<Longrightarrow>
     slot_update r r' \<Longrightarrow> power_cycles p (Suc n) (put_block stale (build_slot_state r' out) q)"
| cut_off: "power_cycles p n q \<Longrightarrow> card_select q = Some (r, stale) \<Longrightarrow> parse_slot_state x = None \<Longrightarrow>
     power_cycles p n (put_block stale x q)"

lemma card_select_current:
  "card_select p = map_option (\<lambda>(r, sb). (r, if sb then SLOT_STATE_BLOCK_B else SLOT_STATE_BLOCK_A))
     (slot_store.current p)"
  by (simp add: card_select_def slot_store.current_def select_record_pick)

lemma card_select_SomeE:
  assumes "card_select p = Some (r, stale)"
  obtains sb where "slot_store.current p = Some (r, sb)" "put_block stale x p = overwrite sb x p"
  using assms
  by (auto simp: card_select_current put_block_def overwrite_def stage0_const_defs split: if_splits)

lemma card_select_put:
  assumes "card_select p = Some (r, stale)" and "is_block out" and "slot_update r r'" and "generation r \<noteq> - 1"
  shows "\<exists>stale'. card_select (put_block stale (build_slot_state r' out) p) = Some (r', stale')"
proof -
  from assms(1) obtain sb where sb: "slot_store.current p = Some (r, sb)"
      "put_block stale (build_slot_state r' out) p = overwrite sb (build_slot_state r' out) p"
    by (rule card_select_SomeE)
  from slot_store.committed_seen [OF sb(1) assms(2-4)] show ?thesis
    by (simp add: sb(2) card_select_current)
qed

lemma power_cycles_rounds: "power_cycles p n q \<Longrightarrow> slot_store.rounds p n q"
proof (induction rule: power_cycles.induct)
  case (updated p n q r stale out r')
  from updated.hyps(2) obtain sb where sb: "slot_store.current q = Some (r, sb)"
      "put_block stale (build_slot_state r' out) q = overwrite sb (build_slot_state r' out) q"
    by (rule card_select_SomeE)
  from slot_store.rounds.more [OF updated.IH slot_store.round.committed [OF sb(1) updated.hyps(3,4)]]
  show ?case by (simp add: sb(2))
next
  case (cut_off p n q r stale x)
  from cut_off.hyps(2) obtain sb where sb: "slot_store.current q = Some (r, sb)"
      "put_block stale x q = overwrite sb x q"
    by (rule card_select_SomeE)
  from slot_store.rounds.more [OF cut_off.IH slot_store.round.torn [OF sb(1) cut_off.hyps(3)]]
  show ?case by (simp add: sb(2))
qed (rule slot_store.rounds.none)

lemma power_cycles_select:
  assumes "power_cycles p n q" and "card_select p = Some (r, stale)"
    and "unat (generation r) + n < 2 ^ 32"
  shows "\<exists>r' stale'. card_select q = Some (r', stale') \<and> (slot_update ^^ n) r r'"
proof -
  from assms(2) obtain sb where "slot_store.current p = Some (r, sb)"
    by (rule card_select_SomeE)
  from slot_store.rounds_current [OF power_cycles_rounds [OF assms(1)] this assms(3)]
  show ?thesis by (auto simp: card_select_current)
qed

section \<open>Properties\<close>

definition sample_card :: "u8 list \<times> u8 list" where
  "sample_card = (slot_wire sample_slot, slot_wire (sample_slot\<lparr>generation := 6\<rparr>))"

lemma sample_card_select: "card_select sample_card = Some (sample_slot, SLOT_STATE_BLOCK_B)"
  using parse_slot_wire [OF sample_slot_ok] parse_slot_wire [of "sample_slot\<lparr>generation := 6\<rparr>"] sample_slot_ok
  by (simp add: card_select_def sample_card_def select_record_def slot_ok_def sample_slot_def)

text \<open>
  C9. Power-loss safety of the slot-state record. Start from a card on which at least one copy is
  valid, and let any number of updates happen (boots of the loader, and the kernel's
  confirmations, reboots, activations and uploads),
  of which any number are cut off in the middle of the block write, leaving an unreadable
  copy. Then the card still holds a valid record, and the one the loader selects is reached
  from the first one by exactly the updates that got through: none is lost, none is applied
  twice, as long as the 32-bit generation does not wrap.
\<close>

theorem updates_survive_power_loss:
  assumes "power_cycles p n q" and "card_select p = Some (r, stale)"
    and "unat (generation r) + n < 2 ^ 32"
  shows "\<exists>r' stale'. card_select q = Some (r', stale') \<and> (slot_update ^^ n) r r'
    \<and> generation r' = generation r + of_nat n"
  using power_cycles_select [OF assms] slot_store.gen_steps by blast

theorem updates_survive_power_loss_witness:
  "\<exists>q r' stale'. power_cycles sample_card 1 q \<and> card_select q = Some (r', stale')
     \<and> (slot_update ^^ 1) sample_slot r' \<and> generation r' = 8"
proof -
  have out: "is_block (replicate 512 0)" by (simp add: is_block_def BLOCK_SIZE_def)
  note torn = parse_blank
  let ?q1 = "put_block SLOT_STATE_BLOCK_B (replicate 512 0) sample_card"
  note c1 = power_cycles.cut_off [OF power_cycles.start sample_card_select torn]
  have "card_select ?q1 = Some (sample_slot, SLOT_STATE_BLOCK_B)"
    using parse_slot_wire [OF sample_slot_ok] torn
    by (simp add: card_select_def sample_card_def put_block_def stage0_const_defs select_record_def)
  note c2 = power_cycles.updated [OF c1 this out slot_update.boot]
  have c3: "power_cycles sample_card 1
      (put_block SLOT_STATE_BLOCK_B (build_slot_state (boot_decide sample_slot) (replicate 512 0)) ?q1)"
    using c2 by simp
  have gen: "unat (generation sample_slot) + 1 < 2 ^ 32" "generation sample_slot + of_nat 1 = 8"
    by (simp_all add: sample_slot_def)
  from updates_survive_power_loss [OF c3 sample_card_select gen(1)] c3 gen(2) show ?thesis by metis
qed

text \<open>
  C17. The fallback comes exactly when the limit is exceeded. From a confirmed record (attempt count
  zero) whose other slot is ready, the first \<open>L\<close> unconfirmed starts boot the active slot, where
  \<open>L\<close> is the effective boot limit (3 where the record has none); start number \<open>L + 1\<close> boots the
  other slot with a fresh count and the reason \<open>REASON_AUTO_FALLBACK\<close>. The one limit it fails
  for is the largest 32-bit value, which the count cannot exceed.
\<close>

theorem fallback_on_attempt_past_limit:
  assumes "attempt_count s = 0" and "effective_limit s \<noteq> - 1" and "other_ready s \<noteq> 0"
  shows "(\<forall>n \<le> unat (effective_limit s).
        active_slot (attempts n s) = active_slot s \<and> unat (attempt_count (attempts n s)) = n)
    \<and> active_slot (attempts (Suc (unat (effective_limit s))) s) = (if active_slot s = 0 then 1 else 0)
    \<and> attempt_count (attempts (Suc (unat (effective_limit s))) s) = 0
    \<and> last_reset_reason (attempts (Suc (unat (effective_limit s))) s) = REASON_AUTO_FALLBACK"
  using fallback_after_limit [OF assms] attempts_counting [of s] assms(1) by simp

theorem fallback_on_attempt_past_limit_witness:
  "active_slot (attempts 2 sample_slot) = 0 \<and> active_slot (attempts 3 sample_slot) = 1
     \<and> attempt_count (attempts 3 sample_slot) = 0"
  using fallback_on_attempt_past_limit [of sample_slot]
  by (simp add: sample_slot_def effective_limit_def other_ready_def)

text \<open>
  C18. The active slot is a ready one, always: every update of the record, by the loader or by the
  kernel, keeps it so, and one that changes the active slot clears the attempt count and is either
  the fallback of a start past the limit, or an activation, which makes the slot the preferred one.
\<close>

theorem active_slot_always_ready:
  assumes "(slot_update ^^ n) s0 s" and "active_ready s0" and "slot_update s s'"
  shows "active_ready s' \<and> (active_slot s' \<noteq> active_slot s \<longrightarrow> attempt_count s' = 0
    \<and> (attempt_count s + 1 > effective_limit s \<and> last_reset_reason s' = REASON_AUTO_FALLBACK
      \<or> preferred_slot s' = active_slot s'))"
  using update_ready [OF assms(3) updates_ready [OF assms(1,2)]] slot_active_flip [OF assms(3)] by blast

theorem active_slot_always_ready_witness:
  "\<exists>s'. (slot_update ^^ 2) sample_slot s' \<and> active_ready s' \<and> active_slot s' = 1"
proof -
  let ?s1 = "boot_decide sample_slot"
  obtain s' where act: "activate_slot 1 ?s1 = Some s'" "active_slot s' = 1"
    by (simp add: kernel_updates decide_defs sample_slot_def)
  have step: "slot_update ?s1 s'"
    using slot_update.activate [of False ?s1 s'] act(1)
    by (simp add: decide_defs sample_slot_def effective_limit_def)
  have one: "(slot_update ^^ 1) sample_slot ?s1" by (simp add: eq_OO slot_update.boot)
  then have two: "(slot_update ^^ 2) sample_slot s'"
    using step by (auto simp: numeral_2_eq_2)
  have "active_ready sample_slot" by (simp add: active_ready_def sample_slot_def)
  from active_slot_always_ready [OF one this step] two act(2) show ?thesis by blast
qed

text \<open>
  A clean reboot is never consumed: once the record says the last reset was a clean reboot, every
  later start that does not fall back says so again, confirmed or not, so that hangs and power
  losses are reported as clean reboots too.
\<close>

theorem clean_reboot_reason_sticks:
  assumes "last_reset_reason s = REASON_CLEAN_REBOOT" and "attempt_count s = 0"
  shows "(\<forall>n \<le> unat (effective_limit s). last_reset_reason (attempts n s) = REASON_CLEAN_REBOOT)
    \<and> (mark_good (boot_decide s) = Some s' \<longrightarrow> last_reset_reason (boot_decide s') = REASON_CLEAN_REBOOT)"
proof (intro conjI allI impI)
  fix n
  assume "n \<le> unat (effective_limit s)"
  then show "last_reset_reason (attempts n s) = REASON_CLEAN_REBOOT"
  proof (induction n)
    case (Suc n)
    then have "unat (attempt_count (attempts n s)) < unat (effective_limit (attempts n s))"
      using attempts_counting [of s n] assms(2) by simp
    from decide_reason [OF this] Suc show ?case by (simp add: attempts_def)
  qed (simp add: attempts_def assms(1))
next
  assume good: "mark_good (boot_decide s) = Some s'"
  have "last_reset_reason (boot_decide s) = REASON_CLEAN_REBOOT"
    using decide_reason [of s] effective_limit_pos [of s] assms by simp
  then have "last_reset_reason s' = REASON_CLEAN_REBOOT" "attempt_count s' = 0"
    using good by (simp_all add: kernel_updates)
  then show "last_reset_reason (boot_decide s') = REASON_CLEAN_REBOOT"
    using decide_reason [of s'] effective_limit_pos [of s'] by simp
qed

theorem clean_reboot_reason_sticks_witness:
  "last_reset_reason (attempts 2 (sample_slot\<lparr>last_reset_reason := 1\<rparr>)) = REASON_CLEAN_REBOOT
    \<and> attempt_count (attempts 2 (sample_slot\<lparr>last_reset_reason := 1\<rparr>)) = 2"
proof -
  let ?s = "sample_slot\<lparr>last_reset_reason := 1\<rparr>"
  have s: "last_reset_reason ?s = REASON_CLEAN_REBOOT" "attempt_count ?s = 0" "unat (effective_limit ?s) = 2"
    by (simp_all add: sample_slot_def effective_limit_def REASON_CLEAN_REBOOT_def)
  have "attempt_count (attempts 2 ?s) = 2"
    by (simp add: attempts_def numeral_2_eq_2 decide_defs sample_slot_def effective_limit_def)
  with clean_reboot_reason_sticks [OF s(1,2)] s(3) show ?thesis by simp
qed

text \<open>
  The generation counter is 32 bits wide and compared without regard to wrap-around: once the
  record in use has the last generation, the next update gets generation 0, and the loader goes
  on selecting the record from before that update.
\<close>

theorem generation_wrap_loses_update:
  assumes "generation r = 0xFFFFFFFF" and "slot_ok r" and "is_block out"
  shows "card_select (slot_wire r, build_slot_state (boot_decide r) out) = Some (r, SLOT_STATE_BLOCK_B)
    \<and> generation (boot_decide r) = 0"
  using assms slot_codec.dec_enc [OF decide_ok [OF assms(2)] assms(3)] parse_slot_wire [OF assms(2)]
  by (simp add: card_select_def select_record_def)

theorem generation_wrap_loses_update_witness:
  "card_select (slot_wire (sample_slot\<lparr>generation := 0xFFFFFFFF\<rparr>),
      build_slot_state (boot_decide (sample_slot\<lparr>generation := 0xFFFFFFFF\<rparr>)) (replicate 512 0))
    = Some (sample_slot\<lparr>generation := 0xFFFFFFFF\<rparr>, SLOT_STATE_BLOCK_B)"
  using generation_wrap_loses_update [of "sample_slot\<lparr>generation := 0xFFFFFFFF\<rparr>" "replicate 512 0"]
    sample_slot_ok
  by (simp add: slot_ok_def is_block_def BLOCK_SIZE_def)

end
