(* ===== verification/Ideal_Boot.thy ===== *)
theory Ideal_Boot
  imports Ideal_Card Boot_Protocol
begin

text \<open>
  A run of the boot loader on the ideal card. \<open>boot_spec\<close> is the abstract specification: a
  function from the card's contents to the outcome and the new contents. The lemmas show that
  \<open>stage0_main\<close> computes it.
\<close>

section \<open>Specification\<close>

definition block_bytes :: "(u32 \<Rightarrow> u32 list) \<Rightarrow> u32 \<Rightarrow> u8 list" where
  "block_bytes d n = bytes_of (d n)"

definition disk_records :: "(u32 \<Rightarrow> u32 list) \<Rightarrow> u8 list \<times> u8 list" where
  "disk_records d = (block_bytes d SLOT_STATE_BLOCK_A, block_bytes d SLOT_STATE_BLOCK_B)"

definition disk_payload :: "(u32 \<Rightarrow> u32 list) \<Rightarrow> slot_state \<Rightarrow> u8 list" where
  "disk_payload d s = take (unat (slot_len s))
     (concat (map (\<lambda>k. block_bytes d (slot_base s + of_nat k)) [0..<unat (num_blocks (slot_len s))]))"

definition boot_spec :: "(u32 \<Rightarrow> u32 list) \<Rightarrow> outcome \<times> (u32 \<Rightarrow> u32 list)" where
  "boot_spec d =
     (case card_select (disk_records d) of
        None \<Rightarrow> (Halted 0xDEAD0002, d)
      | Some (r, stale) \<Rightarrow>
          let s = boot_decide r; d' = d(stale := words_of (slot_wire s)) in
          (if slot_len s = 0 \<or> slot_len s > SLOT_SIZE_BYTES then Halted 0xDEAD0003
           else if sha256_digest (disk_payload d s) = slot_sha s then Jumped (jump_value s)
           else Halted 0xDEAD0006, d'))"

section \<open>The loader's pieces on the card\<close>

definition card_ready :: "(card, 'z) stage0_scheme \<Rightarrow> bool" where
  "card_ready m \<longleftrightarrow> s_is_sdhc m \<and> rx (hw m) = [] \<and> length (block_buf m) = 512
     \<and> (\<forall>n. length (disk (hw m) n) = 128)"

lemma card_readyD:
  assumes "card_ready m"
  shows "s_is_sdhc m" "rx (hw m) = []" "length (block_buf m) = 512" "length (disk (hw m) n) = 128"
  using assms by (simp_all add: card_ready_def)

lemma stage0_more:
  assumes "mach.more m' = mach.more (m :: ('s, 'z) stage0_scheme)"
  shows "ram m' = ram m" "s_is_sdhc m' = s_is_sdhc m" "block_buf m' = block_buf m"
  using assms by (rule more_vars)+

lemma same_card_ready:
  assumes "same_card m (m' :: (card, 'z) stage0_scheme)" and "card_ready m"
  shows "card_ready m'"
  using assms stage0_more [OF same_cardD(4) [OF assms(1)]] by (simp add: card_ready_def same_card_def)

lemma card_read_to_buf:
  assumes "card_ready m"
  shows "\<exists>m'. read_to_buf ideal_card n m = Some (0, m') \<and> card_ready m'
    \<and> block_buf m' = block_bytes (disk (hw m)) n \<and> ram m' = ram m \<and> disk (hw m') = disk (hw m)
    \<and> tx (hw m') = tx (hw m)"
proof -
  note ok = card_readyD [OF assms]
  have "length (words_of (block_buf m)) = 128" using ok(3) length_words_of [of "block_buf m"] by simp
  from card_read_block [OF ok(1,2,4) this] obtain m1 where m1:
      "stage0_sd_read_block ideal_card n (words_of (block_buf m)) m = Some (0, disk (hw m) n, m1)"
      "same_card m m1" by blast
  let ?m' = "m1\<lparr>block_buf := bytes_of (disk (hw m) n)\<rparr>"
  have "card_ready ?m'"
    using same_card_ready [OF m1(2) assms] ok(4) [of n] by (simp add: card_ready_def)
  then show ?thesis
    using m1 stage0_more [OF same_cardD(4) [OF m1(2)]] same_cardD [OF m1(2)]
    by (intro exI [of _ ?m']) (simp add: read_to_buf_def block_bytes_def)
qed

lemma card_read_record:
  assumes "card_ready m"
  shows "\<exists>m'. read_record ideal_card n m = Some (parse_slot_state (block_bytes (disk (hw m)) n), m')
    \<and> card_ready m' \<and> ram m' = ram m \<and> disk (hw m') = disk (hw m) \<and> tx (hw m') = tx (hw m)"
  using card_read_to_buf [OF assms, of n] by (auto simp: read_record_def)

lemma card_puts:
  "u_puts ideal_card s m = Some m' \<Longrightarrow> same_card m m'"
  "u_hex32 ideal_card v m = Some m' \<Longrightarrow> same_card m m'"
  "u_putc ideal_card c m = Some m' \<Longrightarrow> same_card m m'"
  by (rule calmD [OF calm_puts] calmD [OF calm_hex] calmD [OF calm_putc], assumption)+

lemmas card_chat = same_card_back [OF card_puts(1)] same_card_back [OF card_puts(2)]
  same_card_back [OF card_puts(3)]

lemma card_fault:
  "\<exists>m'. stage0_fault ideal_card c m = Some (Halted c, m') \<and> same_card m m'"
proof -
  obtain res m' where f: "stage0_fault ideal_card c m = Some (res, m')"
    using stage0_fault_live [OF ideal_card_live] by (fastforce simp: returns_def)
  then have "same_card m m'"
    by (auto simp: stage0_fault_def elim!: bind_SomeE) (erule card_chat | simp)+
  then show ?thesis using f stage0_fault_io [OF f] by blast
qed

lemma card_load_loop:
  assumes "card_ready m" and "unat dest + 512 * n < 2 ^ 32"
  shows "\<exists>m'. load_loop ideal_card wd base n i dest m = Some (None, m')
    \<and> card_ready m' \<and> disk (hw m') = disk (hw m) \<and> tx (hw m') = tx (hw m)
    \<and> ram_bytes (ram m') dest (512 * n)
      = concat (map (\<lambda>k. block_bytes (disk (hw m)) (base + i + of_nat k)) [0..<n])"
  using assms
proof (induction n arbitrary: i dest m)
  case 0
  then show ?case by (auto simp: ram_bytes_def)
next
  case (Suc n)
  let ?m1 = "if i AND 511 = 0 then kick ideal_card wd m else m"
  have c1: "same_card m ?m1" by (simp add: kick_card)
  have r1: "card_ready ?m1" by (rule same_card_ready [OF c1 Suc.prems(1)])
  obtain m2 where m2: "read_to_buf ideal_card (base + i) ?m1 = Some (0, m2)" "card_ready m2"
      "block_buf m2 = block_bytes (disk (hw ?m1)) (base + i)" "ram m2 = ram ?m1"
      "disk (hw m2) = disk (hw ?m1)" "tx (hw m2) = tx (hw ?m1)"
    using card_read_to_buf [OF r1] by blast
  let ?m3 = "m2\<lparr>ram := copy_block dest (block_buf m2) (ram m2)\<rparr>"
  let ?dest = "dest + of_nat BLOCK_SIZE"
  have r3: "card_ready ?m3" using m2(2) by (simp add: card_ready_def)
  have d: "unat ?dest = unat dest + 512"
    using Suc.prems(2) by (simp add: BLOCK_SIZE_def unat_word_ariths)
  then have top: "unat ?dest + 512 * n < 2 ^ 32" using Suc.prems(2) by simp
  from Suc.IH [OF r3 top, of "i + 1"] obtain m' where m':
      "load_loop ideal_card wd base n (i + 1) ?dest ?m3 = Some (None, m')" "card_ready m'"
      "disk (hw m') = disk (hw ?m3)" "tx (hw m') = tx (hw ?m3)"
      "ram_bytes (ram m') ?dest (512 * n)
        = concat (map (\<lambda>k. block_bytes (disk (hw ?m3)) (base + (i + 1) + of_nat k)) [0..<n])" by blast
  have "length (block_buf ?m3) = 512" using r3 by (simp add: card_ready_def)
  from load_loop_spec [OF m'(1) this top] have frame: "loaded (base + (i + 1)) ?dest n ?m3 m'" by simp
  have small: "unat dest + 512 \<le> 2 ^ 32" using Suc.prems(2) by simp
  have "ram_bytes (ram m') dest 512 = ram_bytes (ram ?m3) dest 512"
    by (rule ram_bytes_cong [OF small]) (simp add: loadedD(3) [OF frame] d)
  also have "\<dots> = block_buf m2"
    using copy_block_at(1) [OF small] card_readyD(3) [OF m2(2)] by simp
  finally have first: "ram_bytes (ram m') dest 512 = block_bytes (disk (hw m)) (base + i)"
    using m2(3) same_cardD [OF c1] by simp
  have disk: "disk (hw ?m3) = disk (hw m)" "tx (hw ?m3) = tx (hw m)"
    using m2 same_cardD [OF c1] by simp_all
  have "ram_bytes (ram m') dest (512 + 512 * n) = block_bytes (disk (hw m)) (base + i)
      @ concat (map (\<lambda>k. block_bytes (disk (hw m)) (base + (i + 1) + of_nat k)) [0..<n])"
    using first m'(5) by (simp only: ram_bytes_append disk) (simp add: BLOCK_SIZE_def)
  also have "\<dots> = concat (map (\<lambda>k. block_bytes (disk (hw m)) (base + i + of_nat k)) [0..<Suc n])"
    by (simp only: upt_conv_Cons [of 0 "Suc n"] zero_less_Suc list.map concat.simps
        map_Suc_upt [symmetric] map_map) (simp add: o_def add.assoc)
  finally have "ram_bytes (ram m') dest (512 * Suc n)
      = concat (map (\<lambda>k. block_bytes (disk (hw m)) (base + i + of_nat k)) [0..<Suc n])" by simp
  moreover have "load_loop ideal_card wd base (Suc n) i dest m = Some (None, m')"
    using m2(1) m'(1) by simp
  ultimately show ?case using m'(2-4) disk by simp
qed

text \<open>The rest of the loader on the card: hashing, the record's write-back.\<close>

lemma card_sha_loop: "sha_loop ideal_card wd len off ctx m = (ctx', m') \<Longrightarrow> same_card m m'"
proof (induction "unat len - unat off" arbitrary: off ctx m rule: less_induct)
  case less
  show ?case
  proof (cases "off < len")
    case True
    define this_len where "this_len = (if len - off > 262144 then 262144 else len - off)"
    note step = sha_chunk_step [OF True, folded this_len_def]
    have "unat len - unat (off + this_len) < unat len - unat off" using step by simp
    from less.hyps [OF this] less.prems True step
    have "same_card (kick ideal_card wd m) m'"
      by (simp add: sha_loop.simps [of _ _ _ off] Let_def this_len_def)
    then show ?thesis by (rule same_card_trans [OF kick_card])
  next
    case False
    with less.prems show ?thesis by (simp add: sha_loop.simps [of _ _ _ off])
  qed
qed

lemma card_verify:
  assumes "sha_fresh junk" and "length (slot_sha s) = 32"
  shows "\<exists>m'. stage0_verify ideal_card wd junk s m
      = Some (if sha256_digest (payload m s) = slot_sha s then Jumped (jump_value s)
          else Halted 0xDEAD0006, m') \<and> same_card m m'"
proof -
  obtain res m' where v: "stage0_verify ideal_card wd junk s m = Some (res, m')"
    using verify_live [OF ideal_card_live assms(1)] by (fastforce simp: returns_def)
  obtain ctx m1 where sl: "sha_loop ideal_card wd (slot_len s) 0 (sha256_init junk) (kick ideal_card wd m) = (ctx, m1)"
    by fastforce
  have m1: "same_card m m1" by (rule same_card_trans [OF kick_card card_sha_loop [OF sl]])
  have fault: "same_card m2 m3" if "stage0_fault ideal_card c m2 = Some (f, m3)" for c f m2 m3
    using card_fault [of c m2] that by auto
  have "same_card m1 m'"
    using v sl by (auto simp: stage0_verify_def Let_def split: if_splits elim!: bind_SomeE)
      (erule same_card_back [OF fault] card_chat | rule same_card_back [OF kick_card] | simp)+
  then show ?thesis
    using v verify_spec(2) [OF v assms] same_card_trans [OF m1] by auto
qed

lemma card_commit:
  assumes "card_ready m" and "slot_ok s"
  shows "\<exists>m'. stage0_commit ideal_card s stale m = Some m' \<and> card_ready m'
    \<and> disk (hw m') = (disk (hw m))(stale := words_of (slot_wire (boot_decide s)))"
proof -
  let ?s = "boot_decide s"
  let ?out = "words_of (slot_wire ?s)"
  obtain m1 where m1: "report_attempt ideal_card (bump_attempt s) m = Some m1"
    using report_live(1) [OF ideal_card_live] by (fastforce simp: returns_def)
  obtain m2 where m2: "report_fallback ideal_card (bump_attempt s) m1 = Some m2"
    using report_live(2) [OF ideal_card_live] by (fastforce simp: returns_def)
  have "same_card m m1" using m1
    by (auto simp: report_attempt_def elim!: bind_SomeE) (erule card_chat | simp)+
  moreover have "same_card m1 m2" using m2
    by (auto simp: report_fallback_def split: if_splits prod.splits elim!: bind_SomeE)
      (erule card_chat | simp)+
  ultimately have s2: "same_card m m2" by (rule same_card_trans)
  note ready2 = same_card_ready [OF s2 assms(1)]
  have out: "build_slot_state ?s (block_buf m2) = slot_wire ?s"
    using card_readyD(3) [OF ready2] by (intro build_slot_state_layout decide_ok assms(2))
  let ?m3 = "m2\<lparr>block_buf := slot_wire ?s\<rparr>"
  have len: "length ?out = 128"
    using length_words_of [of "slot_wire ?s"] length_slot_wire [OF decide_ok [OF assms(2)]] by simp
  have "s_is_sdhc ?m3" "rx (hw ?m3) = []" using ready2 by (simp_all add: card_ready_def)
  from card_write_block [OF this len] obtain m4 where m4:
      "stage0_sd_write_block ideal_card stale ?out ?m3 = Some (0, m4)" "rx (hw m4) = []"
      "disk (hw m4) = (disk (hw ?m3))(stale := ?out)" "mach.more m4 = mach.more ?m3" by blast
  have "card_ready m4"
    using ready2 m4(2,3) len stage0_more [OF m4(4)] length_slot_wire [OF decide_ok [OF assms(2)]]
    by (simp add: card_ready_def)
  moreover have "stage0_commit ideal_card s stale m = Some m4"
    using m1 m2 out m4(1) by (simp add: stage0_commit_def Let_def)
  ultimately show ?thesis using m4(3) same_cardD(3) [OF s2] by auto
qed

lemma payload_of_disk:
  assumes "ram_bytes (ram m) REAL_KERNEL_LOAD_ADDR (512 * unat (num_blocks (slot_len s)))
      = concat (map (\<lambda>k. block_bytes d (slot_base s + of_nat k)) [0..<unat (num_blocks (slot_len s))])"
    and "slot_len s \<le> SLOT_SIZE_BYTES"
  shows "payload m s = disk_payload d s"
proof -
  let ?n = "unat (slot_len s)"
  have "?n \<le> 512 * unat (num_blocks (slot_len s))" by (rule num_blocks_bounds(1) [OF assms(2)])
  then have "payload m s = take ?n (ram_bytes (ram m) REAL_KERNEL_LOAD_ADDR (512 * unat (num_blocks (slot_len s))))"
    by (simp add: payload_def ram_bytes_def take_map)
  then show ?thesis by (simp only: assms(1) disk_payload_def)
qed

lemma card_load:
  assumes "card_ready m" and "sha_fresh junk" and "length (slot_sha s) = 32"
  shows "\<exists>m'. stage0_load ideal_card wd junk s m
      = Some (if slot_len s = 0 \<or> slot_len s > SLOT_SIZE_BYTES then Halted 0xDEAD0003
          else if sha256_digest (disk_payload (disk (hw m)) s) = slot_sha s then Jumped (jump_value s)
          else Halted 0xDEAD0006, m') \<and> disk (hw m') = disk (hw m)"
proof (cases "slot_len s = 0 \<or> slot_len s > SLOT_SIZE_BYTES")
  case True
  obtain m1 where m1: "u_puts ideal_card ''stage0: active slot has invalid recorded length\<newline>'' m = Some m1"
      "same_card m m1" by (rule calmE [OF calm_puts])
  obtain m2 where m2: "stage0_fault ideal_card 0xDEAD0003 m1 = Some (Halted 0xDEAD0003, m2)" "same_card m1 m2"
    using card_fault by blast
  have "stage0_load ideal_card wd junk s m = Some (Halted 0xDEAD0003, m2)"
    using True m1(1) m2(1) by (simp add: stage0_load_def Let_def)
  then show ?thesis using True same_cardD(3) [OF same_card_trans [OF m1(2) m2(2)]] by simp
next
  case False
  then have len: "slot_len s \<le> SLOT_SIZE_BYTES" by (simp add: not_less)
  let ?nb = "unat (num_blocks (slot_len s))"
  obtain m1 where m1: "u_puts ideal_card ''stage0: loading len=0x'' m = Some m1" "same_card m m1"
    by (rule calmE [OF calm_puts])
  obtain m2 where m2: "u_hex32 ideal_card (slot_len s) m1 = Some m2" "same_card m1 m2"
    by (rule calmE [OF calm_hex])
  obtain m3 where m3: "u_puts ideal_card ''\<newline>'' m2 = Some m3" "same_card m2 m3"
    by (rule calmE [OF calm_puts])
  let ?m4 = "kick ideal_card wd m3"
  have "same_card m ?m4"
    by (rule same_card_back [OF kick_card same_card_trans [OF m1(2) same_card_trans [OF m2(2) m3(2)]]])
  note ready = same_card_ready [OF this assms(1)] and d4 = same_cardD(3) [OF this]
  have top: "unat REAL_KERNEL_LOAD_ADDR + 512 * ?nb < 2 ^ 32"
    using num_blocks_bounds(2) [OF len] by (simp add: REAL_KERNEL_LOAD_ADDR_def)
  obtain m5 where m5: "load_loop ideal_card wd (slot_base s) ?nb 0 REAL_KERNEL_LOAD_ADDR ?m4 = Some (None, m5)"
      "disk (hw m5) = disk (hw ?m4)" "ram_bytes (ram m5) REAL_KERNEL_LOAD_ADDR (512 * ?nb)
        = concat (map (\<lambda>k. block_bytes (disk (hw ?m4)) (slot_base s + 0 + of_nat k)) [0..<?nb])"
    using card_load_loop [OF ready top, of wd "slot_base s" 0] by blast
  have pl: "payload m5 s = disk_payload (disk (hw m)) s"
    using m5(3) by (intro payload_of_disk [OF _ len]) (simp only: d4 add_0_right)
  obtain m6 where m6: "stage0_verify ideal_card wd junk s m5
      = Some (if sha256_digest (payload m5 s) = slot_sha s then Jumped (jump_value s)
          else Halted 0xDEAD0006, m6)" "same_card m5 m6"
    using card_verify [OF assms(2,3)] by blast
  have "stage0_load ideal_card wd junk s m = stage0_verify ideal_card wd junk s m5"
    using False m1(1) m2(1) m3(1) m5(1) by (simp add: stage0_load_def Let_def)
  then show ?thesis
    using False m6 pl m5(2) d4 same_cardD(3) [OF m6(2)] by auto
qed

section \<open>A whole run\<close>

lemma slot_block_not_state:
  assumes "k < 12288" and "stale = SLOT_STATE_BLOCK_A \<or> stale = SLOT_STATE_BLOCK_B"
  shows "slot_base s + of_nat k \<noteq> stale"
proof -
  have "unat (slot_base s + of_nat k) = unat (slot_base s) + k"
    using assms(1) by (simp add: slot_base_def stage0_const_defs unat_word_ariths unat_of_nat)
  then have "unat (slot_base s + of_nat k) \<ge> 10240"
    by (simp add: slot_base_def stage0_const_defs)
  moreover have "unat stale < 10240" using assms(2) by (auto simp: stage0_const_defs)
  ultimately show ?thesis by (metis leD)
qed

lemma disk_payload_stale:
  assumes "slot_len s \<le> SLOT_SIZE_BYTES" and "stale = SLOT_STATE_BLOCK_A \<or> stale = SLOT_STATE_BLOCK_B"
  shows "disk_payload (d(stale := x)) s = disk_payload d s"
proof -
  have "block_bytes (d(stale := x)) (slot_base s + of_nat k) = block_bytes d (slot_base s + of_nat k)"
    if "k < unat (num_blocks (slot_len s))" for k
    using that num_blocks_bounds(2) [OF assms(1)] slot_block_not_state [OF _ assms(2), of k s]
    by (simp add: block_bytes_def)
  then have "map (\<lambda>k. block_bytes (d(stale := x)) (slot_base s + of_nat k)) [0..<unat (num_blocks (slot_len s))]
      = map (\<lambda>k. block_bytes d (slot_base s + of_nat k)) [0..<unat (num_blocks (slot_len s))]"
    by (intro map_cong) auto
  then show ?thesis by (simp only: disk_payload_def)
qed

text \<open>Up to the choice: banner, bring-up, and both copies read.\<close>

lemma card_start:
  fixes m :: "(card, 'z) stage0_scheme"
  assumes "rx (hw m) = []" and "\<forall>n. length (disk (hw m) n) = 128" and "length (block_buf m) = 512"
  obtains m1 m3 m4 m5
  where "u_puts ideal_card ''\<newline>stage0: A/B kernel-slot loader starting\<newline>'' m = Some m1"
    "stage0_sd_init ideal_card (kick ideal_card wd m1) = Some (0, m3)"
    "read_record ideal_card SLOT_STATE_BLOCK_A m3
      = Some (parse_slot_state (fst (disk_records (disk (hw m)))), m4)"
    "read_record ideal_card SLOT_STATE_BLOCK_B m4
      = Some (parse_slot_state (snd (disk_records (disk (hw m)))), m5)"
    "card_ready m5" "disk (hw m5) = disk (hw m)"
proof -
  obtain m1 where m1: "u_puts ideal_card ''\<newline>stage0: A/B kernel-slot loader starting\<newline>'' m = Some m1"
      "same_card m m1" by (rule calmE [OF calm_puts])
  let ?m2 = "kick ideal_card wd m1"
  have c2: "same_card m ?m2" by (rule same_card_trans [OF m1(2) kick_card])
  have "rx (hw ?m2) = []" using same_cardD(1) [OF c2] assms(1) by simp
  from card_sd_init [OF this] obtain m3 where m3: "stage0_sd_init ideal_card ?m2 = Some (0, m3)"
      "s_is_sdhc m3" "same_disk ?m2 m3" by blast
  have d3: "disk (hw m3) = disk (hw m)" and r3: "card_ready m3"
    using same_disk_trans [OF same_card_disk(1) [OF c2] m3(3)] m3(2) assms
    by (simp_all add: same_disk_def card_ready_def)
  obtain m4 where m4: "read_record ideal_card SLOT_STATE_BLOCK_A m3
      = Some (parse_slot_state (block_bytes (disk (hw m3)) SLOT_STATE_BLOCK_A), m4)"
      "card_ready m4" "disk (hw m4) = disk (hw m3)"
    using card_read_record [OF r3] by blast
  obtain m5 where m5: "read_record ideal_card SLOT_STATE_BLOCK_B m4
      = Some (parse_slot_state (block_bytes (disk (hw m4)) SLOT_STATE_BLOCK_B), m5)"
      "card_ready m5" "disk (hw m5) = disk (hw m4)"
    using card_read_record [OF m4(2)] by blast
  show ?thesis
    using that [OF m1(1) m3(1), of m4 m5] m4 m5 d3 by (simp add: disk_records_def)
qed

lemma card_no_record:
  fixes m :: "(card, 'z) stage0_scheme"
  shows "\<exists>m'. do {
      m \<leftarrow> u_puts ideal_card ''stage0: no valid slot-state record found (blocks '' m;
      m \<leftarrow> u_hex32 ideal_card SLOT_STATE_BLOCK_A m;
      m \<leftarrow> u_puts ideal_card ''/'' m;
      m \<leftarrow> u_hex32 ideal_card SLOT_STATE_BLOCK_B m;
      m \<leftarrow> u_puts ideal_card '') -- fresh/corrupt card, nothing to boot\<newline>'' m;
      stage0_fault ideal_card 0xDEAD0002 m } = Some (Halted 0xDEAD0002, m') \<and> disk (hw m') = disk (hw m)"
proof -
  obtain n1 where n1: "u_puts ideal_card ''stage0: no valid slot-state record found (blocks '' m = Some n1"
      "same_card m n1" by (rule calmE [OF calm_puts])
  obtain n2 where n2: "u_hex32 ideal_card SLOT_STATE_BLOCK_A n1 = Some n2" "same_card n1 n2"
    by (rule calmE [OF calm_hex])
  obtain n3 where n3: "u_puts ideal_card ''/'' n2 = Some n3" "same_card n2 n3" by (rule calmE [OF calm_puts])
  obtain n4 where n4: "u_hex32 ideal_card SLOT_STATE_BLOCK_B n3 = Some n4" "same_card n3 n4"
    by (rule calmE [OF calm_hex])
  obtain n5 where n5: "u_puts ideal_card '') -- fresh/corrupt card, nothing to boot\<newline>'' n4 = Some n5"
      "same_card n4 n5" by (rule calmE [OF calm_puts])
  obtain n6 where n6: "stage0_fault ideal_card 0xDEAD0002 n5 = Some (Halted 0xDEAD0002, n6)" "same_card n5 n6"
    using card_fault by blast
  show ?thesis
    using n1(1) n2(1) n3(1) n4(1) n5(1) n6(1)
      same_cardD(3) [OF n1(2)] same_cardD(3) [OF n2(2)] same_cardD(3) [OF n3(2)]
      same_cardD(3) [OF n4(2)] same_cardD(3) [OF n5(2)] same_cardD(3) [OF n6(2)] by simp
qed

lemma card_main:
  fixes m :: "(card, 'z) stage0_scheme"
  assumes "rx (hw m) = []" and "\<forall>n. length (disk (hw m) n) = 128"
    and "length (block_buf m) = 512" and "sha_fresh junk"
  shows "\<exists>m'. stage0_main ideal_card wd junk m = Some (fst (boot_spec (disk (hw m))), m')
    \<and> disk (hw m') = snd (boot_spec (disk (hw m)))"
  using assms(1-3)
proof (cases rule: card_start [where wd = wd])
  case (1 m1 m3 m4 m5)
  let ?d = "disk (hw m)"
  let ?sel = "select_record (parse_slot_state (fst (disk_records ?d))) (parse_slot_state (snd (disk_records ?d)))"
  show ?thesis
  proof (cases ?sel)
    case None
    obtain m6 where "stage0_main ideal_card wd junk m = Some (Halted 0xDEAD0002, m6)" "disk (hw m6) = ?d"
      using card_no_record [of m5] 1 None by (auto simp: stage0_main_def Let_def)
    then show ?thesis using None by (simp add: boot_spec_def card_select_def)
  next
    case (Some rs)
    then obtain r stale where rs: "?sel = Some (r, stale)" by (cases rs) simp
    from select_cases [OF rs] have ok: "slot_ok r" and stale: "stale = SLOT_STATE_BLOCK_A \<or> stale = SLOT_STATE_BLOCK_B"
      using slot_ok_parse by auto
    let ?s = "boot_decide r"
    obtain m6 where m6: "stage0_commit ideal_card r stale m5 = Some m6" "card_ready m6"
        "disk (hw m6) = ?d(stale := words_of (slot_wire ?s))"
      using card_commit [OF 1(5) ok] 1(6) by auto
    obtain m7 where m7: "stage0_load ideal_card wd junk ?s m6
      = Some (if slot_len ?s = 0 \<or> slot_len ?s > SLOT_SIZE_BYTES then Halted 0xDEAD0003
          else if sha256_digest (disk_payload (disk (hw m6)) ?s) = slot_sha ?s then Jumped (jump_value ?s)
          else Halted 0xDEAD0006, m7)" "disk (hw m7) = disk (hw m6)"
      using card_load [OF m6(2) assms(4) slot_sha_length [OF ok]] by blast
    have "stage0_main ideal_card wd junk m = stage0_load ideal_card wd junk ?s m6"
      using 1 rs m6(1) by (simp add: stage0_main_def Let_def)
    moreover have "\<not> slot_len ?s > SLOT_SIZE_BYTES \<Longrightarrow> disk_payload (disk (hw m6)) ?s = disk_payload ?d ?s"
      unfolding m6(3) by (rule disk_payload_stale [OF _ stale]) (simp add: not_less)
    ultimately show ?thesis
      using m7 m6(3) rs by (simp add: boot_spec_def card_select_def Let_def)
  qed
qed

section \<open>Many runs\<close>

text \<open>The card after \<open>n\<close> runs.\<close>

definition boots :: "nat \<Rightarrow> (u32 \<Rightarrow> u32 list) \<Rightarrow> u32 \<Rightarrow> u32 list" where
  "boots n d = ((\<lambda>d. snd (boot_spec d)) ^^ n) d"

lemma boots_Suc: "boots (Suc n) d = snd (boot_spec (boots n d))" "boots 0 d = d"
  by (simp_all add: boots_def)

lemma card_select_stale: "card_select p = Some (r, stale) \<Longrightarrow> stale = SLOT_STATE_BLOCK_A \<or> stale = SLOT_STATE_BLOCK_B"
  using select_cases by (auto simp: card_select_def)

lemma card_select_ok: "card_select p = Some (r, stale) \<Longrightarrow> slot_ok r"
  by (auto simp: card_select_def dest!: select_cases intro: slot_ok_parse)

lemma boot_other_blocks:
  assumes "n \<noteq> SLOT_STATE_BLOCK_A" and "n \<noteq> SLOT_STATE_BLOCK_B"
  shows "snd (boot_spec d) n = d n"
  using assms card_select_stale [of "disk_records d"]
  by (auto simp: boot_spec_def Let_def split: option.split)

lemma boots_other_blocks:
  assumes "n \<noteq> SLOT_STATE_BLOCK_A" and "n \<noteq> SLOT_STATE_BLOCK_B"
  shows "boots k d n = d n"
  by (induction k) (simp_all add: boots_Suc boot_other_blocks [OF assms])

lemma boots_length: "\<forall>n. length (d n) = 128 \<Longrightarrow> length (boots k d n) = 128"
proof (induction k arbitrary: n)
  case (Suc k)
  show ?case
  proof (cases "card_select (disk_records (boots k d))")
    case None
    then show ?thesis using Suc by (simp add: boots_Suc boot_spec_def)
  next
    case (Some rs)
    then obtain r stale where rs: "card_select (disk_records (boots k d)) = Some (r, stale)" by (cases rs) simp
    have "length (slot_wire (boot_decide r)) = 512"
      by (rule length_slot_wire [OF decide_ok [OF card_select_ok [OF rs]]])
    then have "length (words_of (slot_wire (boot_decide r))) = 128"
      using length_words_of [of "slot_wire (boot_decide r)"] by simp
    then show ?thesis using Suc rs by (simp add: boots_Suc boot_spec_def Let_def)
  qed
qed (simp add: boots_Suc)

text \<open>A run is one step of the two-copy protocol.\<close>

lemma boot_put_block:
  assumes "card_select (disk_records d) = Some (r, stale)"
  shows "disk_records (snd (boot_spec d)) = put_block stale (slot_wire (boot_decide r)) (disk_records d)"
proof -
  let ?w = "slot_wire (boot_decide r)"
  have "4 dvd length ?w"
    using length_slot_wire [OF decide_ok [OF card_select_ok [OF assms]]] by simp
  then have "bytes_of (words_of ?w) = ?w" by (rule bytes_of_words_of)
  then show ?thesis
    using card_select_stale [OF assms] assms
    by (auto simp: boot_spec_def Let_def disk_records_def put_block_def block_bytes_def stage0_const_defs)
qed

lemma boot_power_cycle:
  assumes "power_cycles p n (disk_records d)" and "card_select (disk_records d) = Some (r, stale)"
  shows "power_cycles p (Suc n) (disk_records (snd (boot_spec d)))"
proof -
  have "is_block (replicate 512 0)" by (simp add: is_block_def BLOCK_SIZE_def)
  from power_cycles.updated [OF assms this slot_update.boot] show ?thesis
    by (simp add: boot_put_block [OF assms(2)] build_slot_state_layout
        decide_ok [OF card_select_ok [OF assms(2)]])
qed

lemma boot_select:
  assumes "card_select (disk_records d) = Some (r, stale)" and "generation r \<noteq> - 1"
  shows "\<exists>stale'. card_select (disk_records (snd (boot_spec d))) = Some (boot_decide r, stale')"
proof -
  have out: "is_block (replicate 512 0)" by (simp add: is_block_def BLOCK_SIZE_def)
  have "build_slot_state (boot_decide r) (replicate 512 0) = slot_wire (boot_decide r)"
    by (simp add: build_slot_state_layout decide_ok [OF card_select_ok [OF assms(1)]])
  then show ?thesis
    using card_select_put [OF assms(1) out slot_update.boot assms(2)] by (simp add: boot_put_block [OF assms(1)])
qed

lemma attempts_generation: "generation (attempts n r) = generation r + of_nat n"
  by (induction n) (simp_all add: attempts_def)

lemma boots_select:
  assumes "card_select (disk_records d) = Some (r, stale)" and "unat (generation r) + n < 2 ^ 32"
  shows "\<exists>stale'. card_select (disk_records (boots n d)) = Some (attempts n r, stale')"
  using assms(2)
proof (induction n)
  case 0
  then show ?case using assms(1) by (simp add: boots_Suc attempts_def)
next
  case (Suc n)
  then obtain st where st: "card_select (disk_records (boots n d)) = Some (attempts n r, st)" by auto
  have "unat (generation (attempts n r)) = unat (generation r) + n"
    using Suc.prems by (simp add: attempts_generation unat_word_ariths unat_of_nat)
  then have "unat (generation (attempts n r)) \<noteq> unat (- 1 :: u32)"
    using Suc.prems by (simp add: unat_max)
  then have "generation (attempts n r) \<noteq> - 1" by metis
  from boot_select [OF st this] show ?case by (simp add: boots_Suc attempts_def)
qed

lemma disk_payload_boots:
  assumes "slot_len s \<le> SLOT_SIZE_BYTES"
  shows "disk_payload (boots n d) s = disk_payload d s"
proof -
  have "block_bytes (boots n d) (slot_base s + of_nat k) = block_bytes d (slot_base s + of_nat k)"
    if "k < unat (num_blocks (slot_len s))" for k
    using that num_blocks_bounds(2) [OF assms] slot_block_not_state [of k _ s]
    by (simp add: block_bytes_def boots_other_blocks)
  then have "map (\<lambda>k. block_bytes (boots n d) (slot_base s + of_nat k)) [0..<unat (num_blocks (slot_len s))]
      = map (\<lambda>k. block_bytes d (slot_base s + of_nat k)) [0..<unat (num_blocks (slot_len s))]"
    by (intro map_cong) auto
  then show ?thesis by (simp only: disk_payload_def)
qed

section \<open>A card for the examples\<close>

text \<open>
  Only copy A of the record is valid; both slots hold 512 zero bytes; slot B's digest is right, and
  slot A's is whatever \<open>sha\<close> says.
\<close>

definition zero_digest :: "u8 list" where
  "zero_digest = sha256_digest (replicate 512 0)"

definition example_slot :: "u8 list \<Rightarrow> slot_state" where
  "example_slot sha = \<lparr> generation = 7, active_slot = 0, preferred_slot = 0, last_reset_reason = 0,
     attempt_count = 0, bootlimit = 2, slot_a_ready = 1, slot_b_ready = 1,
     slot_a_len = 512, slot_b_len = 512, slot_a_sha256 = sha, slot_b_sha256 = zero_digest \<rparr>"

definition example_disk :: "u8 list \<Rightarrow> u32 \<Rightarrow> u32 list" where
  "example_disk sha n = (if n = SLOT_STATE_BLOCK_A then words_of (slot_wire (example_slot sha)) else replicate 128 0)"

lemma example_slot_ok: "length sha = 32 \<Longrightarrow> slot_ok (example_slot sha)"
  by (simp add: slot_ok_def example_slot_def zero_digest_def)

lemma zero_block: "bytes_of (replicate n 0) = replicate (4 * n) 0"
proof (induction n)
  case (Suc n)
  have "le_bytes 0 = replicate 4 0" by (simp add: le_bytes_def numeral_eq_Suc)
  then show ?case using Suc by (simp add: bytes_of_def flip: replicate_add)
qed (simp add: bytes_of_def)

lemma example_select:
  assumes "length sha = 32"
  shows "card_select (disk_records (example_disk sha)) = Some (example_slot sha, SLOT_STATE_BLOCK_B)"
proof -
  note ok = example_slot_ok [OF assms]
  have "bytes_of (words_of (slot_wire (example_slot sha))) = slot_wire (example_slot sha)"
    using length_slot_wire [OF ok] by (intro bytes_of_words_of) simp
  moreover have "SLOT_STATE_BLOCK_B \<noteq> SLOT_STATE_BLOCK_A" by (simp add: stage0_const_defs)
  ultimately show ?thesis
    by (simp add: card_select_def disk_records_def block_bytes_def example_disk_def zero_block
        parse_blank parse_slot_wire [OF ok] select_record_def)
qed

lemma example_length: "length sha = 32 \<Longrightarrow> length (example_disk sha n) = 128"
  using length_words_of [of "slot_wire (example_slot sha)"] length_slot_wire [OF example_slot_ok, of sha]
  by (simp add: example_disk_def)

lemma example_payload:
  assumes "slot_len s = 512"
  shows "disk_payload (example_disk sha) s = replicate 512 0"
proof -
  have "num_blocks 512 = 1" by (simp add: num_blocks_def BLOCK_SIZE_def)
  moreover have "slot_base s \<noteq> SLOT_STATE_BLOCK_A" by (simp add: slot_base_def stage0_const_defs)
  ultimately show ?thesis
    by (simp add: disk_payload_def assms block_bytes_def example_disk_def zero_block)
qed

definition example_start :: "(u32 \<Rightarrow> u32 list) \<Rightarrow> card stage0" where
  "example_start d = \<lparr>hw = \<lparr>ticks = 0, card_arg = 0, rx = [], tx = None, disk = d\<rparr>,
     bus = [], s_rca = 0, s_is_sdhc = False, block_buf = replicate 512 0, ram = (\<lambda>a. 0)\<rparr>"

lemma example_start_simps [simp]:
  "rx (hw (example_start d)) = []" "disk (hw (example_start d)) = d"
  "block_buf (example_start d) = replicate 512 0" "bus (example_start d) = []"
  by (simp_all add: example_start_def)

definition example_ctx :: sha256_ctx where
  "example_ctx = \<lparr>sha_h = [], sha_buf = replicate 64 0, buf_len = 3, total_len = 9\<rparr>"

lemma example_ctx_fresh: "sha_fresh example_ctx"
  by (simp add: sha_fresh_def example_ctx_def)

lemma example_jump:
  "fst (boot_spec (example_disk zero_digest)) = Jumped 0"
proof -
  have d: "length zero_digest = 32" by (simp add: zero_digest_def)
  let ?s = "boot_decide (example_slot zero_digest)"
  have s: "slot_len ?s = 512" "slot_sha ?s = zero_digest" "jump_value ?s = 0"
    by (simp_all add: decide_defs example_slot_def slot_len_def slot_sha_def effective_limit_def
        other_ready_def reset_reason_def jump_value_def REASON_CLEAN_REBOOT_def REASON_POWER_ON_def)
  show ?thesis
    using s example_payload [OF s(1)]
    by (simp add: boot_spec_def example_select [OF d] SLOT_SIZE_BYTES_def flip: zero_digest_def)
qed

end
