(* ===== verification/Kernel_Protocol.thy ===== *)
theory Kernel_Protocol
  imports Boot_Protocol
begin

text \<open>
  The kernel's commands as steps of the slot-state protocol: on an SD driver that reads both
  copies and writes one block at a time, they see the record that the loader would select, and
  each leaves the card in a history of the protocol.
\<close>

section \<open>The kernel sees what the loader sees\<close>

lemma stale_block_ucast:
  "ucast (kernelslot_stale_block r) =
     (if chosen_block r = kernelslot_state_block_a then SLOT_STATE_BLOCK_B else SLOT_STATE_BLOCK_A)"
  by (simp add: kernelslot_stale_block_def kernelslot_state_block_a_def kernelslot_state_block_b_def
      stage0_const_defs)

lemma truncate_fields [simp]:
  "generation (slot_state.truncate r) = generation r"
  "active_slot (slot_state.truncate r) = active_slot r"
  "attempt_count (slot_state.truncate r) = attempt_count r"
  "slot_a_ready (slot_state.truncate r) = slot_a_ready r"
  "slot_b_ready (slot_state.truncate r) = slot_b_ready r"
  "slot_state.truncate (r\<lparr>valid := v\<rparr>) = slot_state.truncate r"
  by (simp_all add: slot_state.truncate_def)

lemma parse_fields [simp]:
  "valid (kernelslot_parse raw b) = 1" "chosen_block (kernelslot_parse raw b) = b"
  by (simp_all add: kernelslot_parse_def)

lemma lookup_agrees:
  assumes "rd kernelslot_state_block_a buf d = (sa, ba, d1)" and "rd kernelslot_state_block_b ba d1 = (sb, bb, d2)"
    and "kernelslot_lookup rd (buf, d) = (r, buf', d')"
  shows "buf' = bb \<and> d' = d2 \<and>
    select_record (if sa = 0 then parse_slot_state ba else None) (if sb = 0 then parse_slot_state bb else None)
      = (if valid r = 1 then Some (slot_state.truncate r, ucast (kernelslot_stale_block r)) else None)"
proof -
  let ?a = "kernelslot_parse ba kernelslot_state_block_a" and ?b = "kernelslot_parse bb kernelslot_state_block_b"
  have parse: "parse_slot_state ba = (if kernelslot_record_crc_valid ba then Some (slot_state.truncate ?a) else None)"
      "parse_slot_state bb = (if kernelslot_record_crc_valid bb then Some (slot_state.truncate ?b) else None)"
      "parse_slot_state buf' = (if kernelslot_record_crc_valid buf'
        then Some (slot_state.truncate (kernelslot_parse buf' kernelslot_state_block_b)) else None)"
    by (rule kernelslot_parse_state)+
  have ab: "kernelslot_state_block_b \<noteq> kernelslot_state_block_a"
    by (simp add: kernelslot_state_block_a_def kernelslot_state_block_b_def)
  show ?thesis
    using assms ab
    by (cases "sa = 0"; cases "sb = 0"; cases "kernelslot_record_crc_valid ba"; cases "kernelslot_record_crc_valid bb")
      (auto simp: parse kernelslot_lookup_def select_record_def stale_block_ucast)
qed

section \<open>A working SD driver\<close>

text \<open>
  What the commands rely on: both state blocks read back, and a write of one of them either
  succeeds and stores the block, or fails and leaves the old block, the new one, or one that is
  not readable. \<open>copies\<close> are the two blocks in a state of the driver.
\<close>

definition sd_reads :: "'d sd_read \<Rightarrow> ('d \<Rightarrow> u8 list \<times> u8 list) \<Rightarrow> bool" where
  "sd_reads rd copies \<longleftrightarrow> (\<forall>buf d.
     (\<exists>d'. rd kernelslot_state_block_a buf d = (0, fst (copies d), d') \<and> copies d' = copies d) \<and>
     (\<exists>d'. rd kernelslot_state_block_b buf d = (0, snd (copies d), d') \<and> copies d' = copies d))"

definition sd_writes :: "'d sd_write \<Rightarrow> ('d \<Rightarrow> u8 list \<times> u8 list) \<Rightarrow> bool" where
  "sd_writes wr copies \<longleftrightarrow> (\<forall>b out d s d'.
     b \<in> {kernelslot_state_block_a, kernelslot_state_block_b} \<longrightarrow> wr b out d = (s, d') \<longrightarrow>
       copies d' = put_block (ucast b) out (copies d)
       \<or> s \<noteq> 0 \<and> (copies d' = copies d
         \<or> (\<exists>x. parse_slot_state x = None \<and> copies d' = put_block (ucast b) x (copies d))))"

definition blocks_ok :: "u8 list \<times> u8 list \<Rightarrow> bool" where
  "blocks_ok p \<longleftrightarrow> is_block (fst p) \<and> is_block (snd p)"

lemma lookup_card:
  assumes "sd_reads rd copies" and "kernelslot_lookup rd (buf, d) = (r, buf', d')"
  shows "buf' = snd (copies d)" and "copies d' = copies d"
    and "card_select (copies d)
      = (if valid r = 1 then Some (slot_state.truncate r, ucast (kernelslot_stale_block r)) else None)"
proof -
  obtain d1 where d1: "rd kernelslot_state_block_a buf d = (0, fst (copies d), d1)" "copies d1 = copies d"
    using assms(1) by (auto simp: sd_reads_def)
  obtain d2 where d2: "rd kernelslot_state_block_b (fst (copies d)) d1 = (0, snd (copies d), d2)" "copies d2 = copies d"
    using assms(1) d1(2) by (metis sd_reads_def)
  from lookup_agrees [OF d1(1) d2(1) assms(2)] d2(2)
  show "buf' = snd (copies d)" and "copies d' = copies d"
    and "card_select (copies d)
      = (if valid r = 1 then Some (slot_state.truncate r, ucast (kernelslot_stale_block r)) else None)"
    by (simp_all add: card_select_def)
qed

lemma write_record_step:
  assumes "sd_writes wr copies" and "is_block buf"
    and "power_cycles p n (copies d)"
    and "card_select (copies d) = Some (slot_state.truncate r, ucast (kernelslot_stale_block r))"
    and "slot_update (slot_state.truncate r) (slot_state.truncate r')"
    and "kernelslot_write_record wr r' (kernelslot_stale_block r) (buf, d) = (s, buf', d')"
  shows "power_cycles p n (copies d') \<or> power_cycles p (Suc n) (copies d')"
    and "s = 0 \<Longrightarrow> copies d' = put_block (ucast (kernelslot_stale_block r))
      (build_slot_state (slot_state.truncate r') buf) (copies d)"
proof -
  let ?b = "kernelslot_stale_block r" and ?out = "build_slot_state (slot_state.truncate r') buf"
  have wr: "wr ?b ?out d = (s, d')"
    using assms(6) by (auto simp: kernelslot_write_record_def kernelslot_build_state Let_def split: prod.splits)
  have b: "?b \<in> {kernelslot_state_block_a, kernelslot_state_block_b}" by (simp add: kernelslot_stale_block_def)
  note w = assms(1) [unfolded sd_writes_def, rule_format, OF b wr]
  then show "s = 0 \<Longrightarrow> copies d' = put_block (ucast ?b) ?out (copies d)" by blast
  from w show "power_cycles p n (copies d') \<or> power_cycles p (Suc n) (copies d')"
    using power_cycles.updated [OF assms(3,4,2,5)] power_cycles.cut_off [OF assms(3,4)] assms(3) by metis
qed

text \<open>An update of the longer record is the update of the stored part.\<close>

lemma updates_truncate:
  "mark_good r = Some r' \<Longrightarrow> mark_good (slot_state.truncate r) = Some (slot_state.truncate r')"
  "note_reboot r = Some r' \<Longrightarrow> note_reboot (slot_state.truncate r) = Some (slot_state.truncate r')"
  "activate_slot a r = Some r' \<Longrightarrow> activate_slot a (slot_state.truncate r) = Some (slot_state.truncate r')"
  "record_upload t len digest r = Some r' \<Longrightarrow>
     record_upload t len digest (slot_state.truncate r) = Some (slot_state.truncate r')"
  by (auto simp: kernel_update_defs slot_state.truncate_def split: if_splits)

section \<open>The commands\<close>

datatype kernel_cmd =
    MarkBootGood u32
  | Reboot
  | Activate u32 bool bool
  | UploadCommitted u32 u32 "u8 list"

primrec kernel_cmd_ok :: "kernel_cmd \<Rightarrow> bool" where
  "kernel_cmd_ok (MarkBootGood b) \<longleftrightarrow> True"
| "kernel_cmd_ok Reboot \<longleftrightarrow> True"
| "kernel_cmd_ok (Activate uid a b) \<longleftrightarrow> True"
| "kernel_cmd_ok (UploadCommitted t len digest) \<longleftrightarrow> length digest = 32"

primrec kernel_run ::
    "'d sd_read \<Rightarrow> 'd sd_write \<Rightarrow> kernel_cmd \<Rightarrow> u8 list \<times> 'd \<Rightarrow> (u8 list \<times> 'd) option" where
  "kernel_run rd wr (MarkBootGood b) st = map_option snd (kernel_slot_mark_boot_good rd wr b st)"
| "kernel_run rd wr Reboot st = reboot_record rd wr st"
| "kernel_run rd wr (Activate uid a b) st = map_option snd (kernelslot_activate rd wr uid a b st)"
| "kernel_run rd wr (UploadCommitted t len digest) st = map_option (snd \<circ> snd) (kernelupload_record rd wr t len digest st)"

text \<open>
  A command either leaves the state of the lookup, or the original one, or writes an update of
  the record it looked up.
\<close>

lemma kernel_run_cases:
  assumes "kernel_run rd wr c st = Some st'" and "kernel_cmd_ok c" and "kernelslot_lookup rd st = (r, st1)"
  shows "st' = st \<or> st' = st1 \<or> valid r = 1 \<and> (\<exists>r'. slot_update (slot_state.truncate r) (slot_state.truncate r')
    \<and> st' = snd (kernelslot_write_record wr r' (kernelslot_stale_block r) st1))"
proof (cases c)
  case (MarkBootGood b)
  with assms have "st' = st1 \<or> valid r = 1 \<and> attempt_count r \<noteq> 0 \<and> (\<exists>r'. mark_good r = Some r'
      \<and> st' = snd (kernelslot_write_record wr r' (kernelslot_stale_block r) st1))"
    by (auto simp: kernel_slot_mark_boot_good_def bind_eq_Some_conv split: if_splits)
  then show ?thesis using slot_update.confirm [of "slot_state.truncate r"] updates_truncate(1) [of r] by fastforce
next
  case Reboot
  with assms have "st' = st1 \<or> valid r = 1 \<and> (\<exists>r'. note_reboot r = Some r'
      \<and> st' = snd (kernelslot_write_record wr r' (kernelslot_stale_block r) st1))"
    by (auto simp: reboot_record_def bind_eq_Some_conv split: if_splits)
  then show ?thesis using slot_update.reboot [of "slot_state.truncate r"] updates_truncate(2) [of r] by fastforce
next
  case (Activate uid a b)
  with assms have "st' = st \<or> st' = st1 \<or> valid r = 1 \<and> (if a then slot_a_ready r else slot_b_ready r) = 1
      \<and> (\<exists>r'. activate_slot (if a then 0 else 1) r = Some r'
      \<and> st' = snd (kernelslot_write_record wr r' (kernelslot_stale_block r) st1))"
    by (auto simp: kernelslot_activate_def Let_def bind_eq_Some_conv split: if_splits prod.splits)
  then show ?thesis using slot_update.activate [of a "slot_state.truncate r"] updates_truncate(3) [of _ r]
    by (cases a) (simp; blast)+
next
  case (UploadCommitted t len digest)
  with assms have "st' = st1 \<or> valid r = 1 \<and> (\<exists>r'. record_upload t len digest r = Some r'
      \<and> st' = snd (kernelslot_write_record wr r' (kernelslot_stale_block r) st1))"
    by (cases "record_upload t len digest r";
        cases "kernelslot_write_record wr (the (record_upload t len digest r)) (kernelslot_stale_block r) st1")
      (auto simp: kernelupload_record_def split: if_splits)
  then show ?thesis
    using slot_update.upload [of digest t len "slot_state.truncate r"] updates_truncate(4) [of t len digest r]
      assms(2) UploadCommitted by fastforce
qed

section \<open>Properties\<close>

lemma kernel_run_step:
  assumes "sd_reads rd copies" and "sd_writes wr copies" and "blocks_ok (copies d)"
    and "power_cycles p n (copies d)" and "kernel_cmd_ok c" and "kernel_run rd wr c (buf, d) = Some (buf', d')"
  shows "power_cycles p n (copies d') \<or> power_cycles p (Suc n) (copies d')"
proof -
  obtain r buf1 d1 where look: "kernelslot_lookup rd (buf, d) = (r, buf1, d1)" by (metis prod_cases3)
  note l = lookup_card [OF assms(1) look]
  have block: "is_block buf1" using assms(3) l(1) by (simp add: blocks_ok_def)
  from kernel_run_cases [OF assms(6,5) look] show ?thesis
  proof (elim disjE conjE exE)
    fix r'
    assume r: "valid r = 1" "slot_update (slot_state.truncate r) (slot_state.truncate r')"
      and st': "(buf', d') = snd (kernelslot_write_record wr r' (kernelslot_stale_block r) (buf1, d1))"
    obtain s where w: "kernelslot_write_record wr r' (kernelslot_stale_block r) (buf1, d1) = (s, buf', d')"
      using st' by (metis surjective_pairing)
    have "card_select (copies d1) = Some (slot_state.truncate r, ucast (kernelslot_stale_block r))"
      and "power_cycles p n (copies d1)"
      using l(2,3) r(1) assms(4) by simp_all
    from write_record_step(1) [OF assms(2) block this(2,1) r(2) w] show ?thesis .
  qed (use assms(4) l(2) in auto)
qed

text \<open>A driver over the two blocks themselves, for the examples.\<close>

definition pair_read :: "(u8 list \<times> u8 list) sd_read" where
  "pair_read b buf p = (0, if b = kernelslot_state_block_a then fst p else snd p, p)"

definition pair_write :: "(u8 list \<times> u8 list) sd_write" where
  "pair_write b out p = (0, put_block (ucast b) out p)"

lemma pair_sd: "sd_reads pair_read (\<lambda>p. p)" "sd_writes pair_write (\<lambda>p. p)"
  by (simp_all add: sd_reads_def sd_writes_def pair_read_def pair_write_def
      kernelslot_state_block_a_def kernelslot_state_block_b_def)

definition confirm_card :: "u8 list \<times> u8 list" where
  "confirm_card = (slot_wire (sample_slot\<lparr>attempt_count := 2\<rparr>), replicate 512 0)"

lemma sample_blocks: "blocks_ok sample_card"
  using length_slot_wire [OF sample_slot_ok] length_slot_wire [of "sample_slot\<lparr>generation := 6\<rparr>"] sample_slot_ok
  by (simp add: blocks_ok_def sample_card_def is_block_def BLOCK_SIZE_def slot_ok_def)

text \<open>
  C16. One format, two implementations. For every record, the block that the kernel's
  \<open>kernelslot_build\<close> makes and the one of the loader's \<open>build_slot_state\<close> are the same 512 bytes,
  the documented wire format, whatever the buffers held; and each side's parser accepts exactly
  the blocks that the other's accepts, with the same fields.
\<close>

theorem record_format_shared:
  assumes "slot_ok (slot_state.truncate r)" and "length out = BLOCK_SIZE" and "length out' = BLOCK_SIZE"
  shows "kernelslot_build r out = slot_wire (slot_state.truncate r)
    \<and> build_slot_state (slot_state.truncate r) out' = slot_wire (slot_state.truncate r)
    \<and> length (slot_wire (slot_state.truncate r)) = BLOCK_SIZE
    \<and> parse_slot_state raw = (if kernelslot_record_crc_valid raw
        then Some (slot_state.truncate (kernelslot_parse raw b)) else None)"
  using build_slot_state_layout [OF assms(1)] assms kernelslot_parse_state [of raw b]
  by (simp add: kernelslot_build_state BLOCK_SIZE_def length_slot_wire)

theorem record_format_shared_witness:
  "take 12 (kernelslot_build (slot_state.extend sample_slot \<lparr>valid = 1, chosen_block = 9216\<rparr>) (replicate BLOCK_SIZE 0xFF))
     = [0x42, 0x53, 0x48, 0x44, 7, 0, 0, 0, 0, 0, 0, 0]"
proof -
  let ?r = "slot_state.extend sample_slot \<lparr>valid = 1, chosen_block = 9216\<rparr>"
  have r: "slot_state.truncate ?r = sample_slot"
    by (simp add: slot_state.truncate_def slot_state.extend_def)
  have "kernelslot_build ?r (replicate BLOCK_SIZE 0xFF) = slot_wire sample_slot"
    using record_format_shared [of ?r "replicate BLOCK_SIZE 0xFF" "replicate BLOCK_SIZE 0xFF"]
    by (simp only: r sample_slot_ok length_replicate)
  then show ?thesis by (simp add: slot_wire_def slot_fields_def le_bytes_def sample_slot_def)
qed

text \<open>
  C15. Kernel and loader agree on which copy counts. Whatever the two block reads return, failed reads
  included, \<open>kernelslot_lookup\<close> finds a record exactly when the loader's selection would, the same
  one, and the block that it would overwrite is the same too.
\<close>

theorem kernel_lookup_agrees:
  assumes "rd kernelslot_state_block_a buf d = (sa, ba, d1)" and "rd kernelslot_state_block_b ba d1 = (sb, bb, d2)"
    and "kernelslot_lookup rd (buf, d) = (r, buf', d')"
  shows "select_record (if sa = 0 then parse_slot_state ba else None) (if sb = 0 then parse_slot_state bb else None)
      = (if valid r = 1 then Some (slot_state.truncate r, ucast (kernelslot_stale_block r)) else None)"
  using lookup_agrees [OF assms] by simp

theorem kernel_lookup_agrees_witness:
  "valid (fst (kernelslot_lookup pair_read ([], sample_card))) = 1
    \<and> slot_state.truncate (fst (kernelslot_lookup pair_read ([], sample_card))) = sample_slot"
proof -
  obtain r st where look: "kernelslot_lookup pair_read ([], sample_card) = (r, st)" by (metis surj_pair)
  then have "kernelslot_lookup pair_read ([], sample_card) = (r, fst st, snd st)" by simp
  from kernel_lookup_agrees [OF _ _ this, of 0 "fst sample_card" sample_card 0 "snd sample_card" sample_card]
  have "card_select sample_card
      = (if valid r = 1 then Some (slot_state.truncate r, ucast (kernelslot_stale_block r)) else None)"
    by (simp add: pair_read_def card_select_def kernelslot_state_block_a_def kernelslot_state_block_b_def)
  then show ?thesis using look by (auto simp: sample_card_select split: if_splits)
qed

text \<open>
  C14. Every command of the kernel is a step of the protocol. On a driver that reads both copies and
  writes a block whole, not at all or unreadably, a confirmation, a reboot, an activation or a
  finished upload leaves a card that has come out of some history of the protocol in such a
  history, with at most one more update done; so the power-loss guarantee covers all of them.
\<close>

theorem kernel_commands_follow_protocol:
  assumes "sd_reads rd copies" and "sd_writes wr copies" and "blocks_ok (copies d)"
    and "power_cycles p n (copies d)" and "kernel_cmd_ok c" and "kernel_run rd wr c (buf, d) = Some (buf', d')"
  shows "power_cycles p n (copies d') \<or> power_cycles p (Suc n) (copies d')"
  using kernel_run_step [OF assms] .

theorem kernel_commands_follow_protocol_witness:
  "\<exists>buf' q. kernel_run pair_read pair_write Reboot ([], sample_card) = Some (buf', q)
     \<and> (power_cycles sample_card 0 q \<or> power_cycles sample_card 1 q)"
proof -
  obtain r st where look: "kernelslot_lookup pair_read ([], sample_card) = (r, st)" by (metis surj_pair)
  then have "card_select sample_card
      = (if valid r = 1 then Some (slot_state.truncate r, ucast (kernelslot_stale_block r)) else None)"
    using lookup_card(3) [OF pair_sd(1)] by (metis surjective_pairing)
  then have r: "valid r = 1" "slot_state.truncate r = sample_slot"
    by (auto simp: sample_card_select split: if_splits)
  then have "generation r = 7" using truncate_fields(1) [of r] by (simp add: sample_slot_def)
  then have "kernel_run pair_read pair_write Reboot ([], sample_card) \<noteq> None"
    using look r(1) by (simp add: reboot_record_def kernel_update_defs)
  then obtain buf' q where run: "kernel_run pair_read pair_write Reboot ([], sample_card) = Some (buf', q)"
    by auto
  from kernel_commands_follow_protocol [where copies = "\<lambda>p. p", OF pair_sd sample_blocks power_cycles.start _ run] run
  show ?thesis by simp
qed

text \<open>
  A confirmed boot ends the count. When the kernel confirms the slot it runs from and the write
  succeeds, the record that the loader selects from then on has a zero count and the same active
  slot, so the loader starts that slot again as often as the limit allows. A kernel that does not
  run from the active slot changes nothing.
\<close>

theorem confirmation_restarts_count:
  assumes "sd_reads rd copies" and "sd_writes wr copies" and "blocks_ok (copies d)"
    and "card_select (copies d) = Some (s, stale)" and "attempt_count s \<noteq> 0"
    and "kernel_slot_mark_boot_good rd wr b (buf, d) = Some (0, buf', d')"
  shows "if ucast (active_slot s) = b
    then \<exists>s' stale'. card_select (copies d') = Some (s', stale') \<and> attempt_count s' = 0
      \<and> (\<forall>n \<le> unat (effective_limit s). active_slot (attempts n s') = active_slot s)
    else copies d' = copies d"
proof -
  obtain r buf1 d1 where look: "kernelslot_lookup rd (buf, d) = (r, buf1, d1)" by (metis prod_cases3)
  note l = lookup_card [OF assms(1) look]
  have r: "valid r = 1" "slot_state.truncate r = s"
    using l(3) assms(4) by (auto split: if_splits)
  then have f: "active_slot r = active_slot s" "attempt_count r = attempt_count s"
    using truncate_fields(2,3) [of r] by auto
  show ?thesis
  proof (cases "ucast (active_slot s) = b")
    case True
    with assms(5,6) r(1) f look obtain r' where good: "mark_good r = Some r'"
        and w: "kernelslot_write_record wr r' (kernelslot_stale_block r) (buf1, d1) = (0, buf', d')"
      by (auto simp: kernel_slot_mark_boot_good_def bind_eq_Some_conv)
    let ?s' = "slot_state.truncate r'"
    have good': "mark_good s = Some ?s'" using updates_truncate(1) [OF good] r(2) by simp
    have step: "slot_update s ?s'" by (rule slot_update.confirm [OF assms(5) good'])
    have block: "is_block buf1" using assms(3) l(1) by (simp add: blocks_ok_def)
    have sel: "card_select (copies d1) = Some (slot_state.truncate r, ucast (kernelslot_stale_block r))"
      using l(2,3) r(1) by simp
    have cd': "copies d' = put_block (ucast (kernelslot_stale_block r)) (build_slot_state ?s' buf1) (copies d1)"
      by (rule write_record_step(2) [OF assms(2) block power_cycles.start sel _ w refl])
        (simp add: r(2) step)
    have "generation s \<noteq> - 1" using good' by (simp add: kernel_updates)
    then obtain st where "card_select (copies d') = Some (?s', st)"
      using card_select_put [OF sel block] step r(2) cd' by auto
    moreover have "attempt_count ?s' = 0" "active_slot ?s' = active_slot s" "effective_limit ?s' = effective_limit s"
      using good' by (simp_all add: kernel_updates effective_limit_def)
    ultimately show ?thesis using True attempts_counting [of ?s'] by auto
  qed (use assms(6) look l(2) r(1) f in \<open>auto simp: kernel_slot_mark_boot_good_def\<close>)
qed

theorem confirmation_restarts_count_witness:
  "\<exists>buf' q s'. kernel_slot_mark_boot_good pair_read pair_write 0 ([], confirm_card) = Some (0, buf', q)
     \<and> attempt_count s' = 0 \<and> active_slot (attempts 2 s') = 0"
proof -
  let ?s = "sample_slot\<lparr>attempt_count := 2\<rparr>"
  have ok: "slot_ok ?s" using sample_slot_ok by (simp add: slot_ok_def)
  have sel: "card_select confirm_card = Some (?s, SLOT_STATE_BLOCK_B)"
    using parse_slot_wire [OF ok] by (simp add: card_select_def confirm_card_def select_record_def parse_blank)
  have blocks: "blocks_ok confirm_card"
    using length_slot_wire [OF ok] by (simp add: blocks_ok_def confirm_card_def is_block_def BLOCK_SIZE_def)
  obtain r st where look: "kernelslot_lookup pair_read ([], confirm_card) = (r, st)" by (metis surj_pair)
  then have "card_select confirm_card
      = (if valid r = 1 then Some (slot_state.truncate r, ucast (kernelslot_stale_block r)) else None)"
    using lookup_card(3) [OF pair_sd(1)] by (metis surjective_pairing)
  then have r: "valid r = 1" "slot_state.truncate r = ?s" by (auto simp: sel split: if_splits)
  then have f: "generation r = 7" "active_slot r = 0" "attempt_count r = 2"
    using truncate_fields(1-3) [of r] by (simp_all add: sample_slot_def)
  then obtain buf' q where run: "kernel_slot_mark_boot_good pair_read pair_write 0 ([], confirm_card) = Some (0, buf', q)"
    using look r(1) by (cases st) (auto simp: kernel_slot_mark_boot_good_def kernel_update_defs
        kernelslot_write_record_def pair_write_def Let_def)
  have "attempt_count ?s \<noteq> 0" "ucast (active_slot ?s) = (0 :: u32)" "unat (effective_limit ?s) = 2"
    by (simp_all add: sample_slot_def effective_limit_def)
  with confirmation_restarts_count [where copies = "\<lambda>p. p", OF pair_sd blocks sel _ run] run
  show ?thesis by (auto simp: sample_slot_def)
qed

end
