(* ===== verification/Kernel_Sha256.thy ===== *)
theory Kernel_Sha256
  imports Sha256
begin

text \<open>
  The kernel's own streaming SHA-256, \<open>vendor/crypto_hash/src/core.vani\<close>, with which it checks
  an uploaded image: an implementation of its own, over arrays of 256 bytes. The proof that it
  computes FIPS 180-4 too, and so the digest that the loader will compute.
\<close>

section \<open>The code\<close>

text \<open>
  \<open>i64\<close> values are natural numbers: none of them gets negative, and none exceeds a few
  hundred. An array element is a list element; a word is assigned to \<open>w\<close> by appending it, as
  the loops go through it in order.
\<close>

record Sha256Ctx =
  ctx_h :: "u32 list"
  ctx_carry :: "u8 list"
  ctx_carry_len :: nat
  ctx_total_len :: u64

definition sha256_wrap_add32 :: "u32 \<Rightarrow> u32 \<Rightarrow> u32" where
  "sha256_wrap_add32 a b = (let wide = ucast a + ucast b :: u64 in ucast (wide AND 4294967295))"

definition sha256_rotr32 :: "u32 \<Rightarrow> nat \<Rightarrow> u32" where
  "sha256_rotr32 x n = drop_bit n x OR push_bit (32 - n) x"

definition sha256_read_be32 :: "u8 list \<Rightarrow> nat \<Rightarrow> u32" where
  "sha256_read_be32 buf off =
     (let b0 = ucast (buf ! off);
          b1 = ucast (buf ! (off + 1));
          b2 = ucast (buf ! (off + 2));
          b3 = ucast (buf ! (off + 3))
      in ((push_bit 24 b0 OR push_bit 16 b1) OR push_bit 8 b2) OR b3)"

definition sha256_round_constants :: "u32 list" where
  "sha256_round_constants = concat [
     [0x428a2f98, 0x71374491, 0xb5c0fbcf, 0xe9b5dba5], [0x3956c25b, 0x59f111f1, 0x923f82a4, 0xab1c5ed5],
     [0xd807aa98, 0x12835b01, 0x243185be, 0x550c7dc3], [0x72be5d74, 0x80deb1fe, 0x9bdc06a7, 0xc19bf174],
     [0xe49b69c1, 0xefbe4786, 0x0fc19dc6, 0x240ca1cc], [0x2de92c6f, 0x4a7484aa, 0x5cb0a9dc, 0x76f988da],
     [0x983e5152, 0xa831c66d, 0xb00327c8, 0xbf597fc7], [0xc6e00bf3, 0xd5a79147, 0x06ca6351, 0x14292967],
     [0x27b70a85, 0x2e1b2138, 0x4d2c6dfc, 0x53380d13], [0x650a7354, 0x766a0abb, 0x81c2c92e, 0x92722c85],
     [0xa2bfe8a1, 0xa81a664b, 0xc24b8b70, 0xc76c51a3], [0xd192e819, 0xd6990624, 0xf40e3585, 0x106aa070],
     [0x19a4c116, 0x1e376c08, 0x2748774c, 0x34b0bcb5], [0x391c0cb3, 0x4ed8aa4a, 0x5b9cca4f, 0x682e6ff3],
     [0x748f82ee, 0x78a5636f, 0x84c87814, 0x8cc70208], [0x90befffa, 0xa4506ceb, 0xbef9a3f7, 0xc67178f2]]"

text \<open>
  The two compression functions differ in how they load the first sixteen words only: the rest
  of both is \<open>compress_words\<close>.
\<close>

definition schedule_word :: "u32 list \<Rightarrow> nat \<Rightarrow> u32 list" where
  "schedule_word w i =
     (let w15 = w ! (i - 15); w2 = w ! (i - 2); w16 = w ! (i - 16); w7 = w ! (i - 7);
          s0 = sha256_rotr32 w15 7 XOR sha256_rotr32 w15 18 XOR drop_bit 3 w15;
          s1 = sha256_rotr32 w2 17 XOR sha256_rotr32 w2 19 XOR drop_bit 10 w2
      in w @ [sha256_wrap_add32 (sha256_wrap_add32 w16 s0) (sha256_wrap_add32 w7 s1)])"

definition compress_round :: "u32 list \<Rightarrow> u32 list \<Rightarrow> vars \<Rightarrow> nat \<Rightarrow> vars" where
  "compress_round k w v i =
     (let (a, b, c, d, e, f, g, hh) = v;
          ones = 4294967295;
          bige1 = sha256_rotr32 e 6 XOR sha256_rotr32 e 11 XOR sha256_rotr32 e 25;
          ch = (e AND f) XOR ((e XOR ones) AND g);
          kw = k ! i; ww = w ! i;
          t1 = sha256_wrap_add32 (sha256_wrap_add32 hh bige1)
                 (sha256_wrap_add32 ch (sha256_wrap_add32 kw ww));
          bige0 = sha256_rotr32 a 2 XOR sha256_rotr32 a 13 XOR sha256_rotr32 a 22;
          maj = (a AND b) XOR (a AND c) XOR (b AND c);
          t2 = sha256_wrap_add32 bige0 maj
      in (sha256_wrap_add32 t1 t2, a, b, c, sha256_wrap_add32 d t1, e, f, g))"

definition compress_words :: "u32 list \<Rightarrow> u32 list \<Rightarrow> u32 list \<Rightarrow> u32 list" where
  "compress_words w h k =
     (let w = foldl schedule_word w [16..<64];
          v = (h ! 0, h ! 1, h ! 2, h ! 3, h ! 4, h ! 5, h ! 6, h ! 7);
          (a, b, c, d, e, f, g, hh) = foldl (compress_round k w) v [0..<64]
      in [sha256_wrap_add32 (h ! 0) a, sha256_wrap_add32 (h ! 1) b, sha256_wrap_add32 (h ! 2) c,
          sha256_wrap_add32 (h ! 3) d, sha256_wrap_add32 (h ! 4) e, sha256_wrap_add32 (h ! 5) f,
          sha256_wrap_add32 (h ! 6) g, sha256_wrap_add32 (h ! 7) hh])"

definition sha256_compress :: "u8 list \<Rightarrow> nat \<Rightarrow> u32 list \<Rightarrow> u32 list \<Rightarrow> u32 list" where
  "sha256_compress msg block_off h k =
     compress_words (map (\<lambda>i. sha256_read_be32 msg (block_off + i * 4)) [0..<16]) h k"

definition sha256_compress64 :: "u8 list \<Rightarrow> u32 list \<Rightarrow> u32 list \<Rightarrow> u32 list" where
  "sha256_compress64 block h k =
     compress_words (map (\<lambda>i.
       ((push_bit 24 (ucast (block ! (i * 4))) OR push_bit 16 (ucast (block ! (i * 4 + 1))))
        OR push_bit 8 (ucast (block ! (i * 4 + 2)))) OR ucast (block ! (i * 4 + 3))) [0..<16]) h k"

definition kernel_sha256_init :: Sha256Ctx where
  "kernel_sha256_init =
     \<lparr>ctx_h = [0x6a09e667, 0xbb67ae85, 0x3c6ef372, 0xa54ff53a,
               0x510e527f, 0x9b05688c, 0x1f83d9ab, 0x5be0cd19],
      ctx_carry = replicate 64 0, ctx_carry_len = 0, ctx_total_len = 0\<rparr>"

text \<open>The loops of \<open>sha256_update\<close>: filling the carry, whole blocks, and the rest.\<close>

function carry_fill :: "u8 list \<Rightarrow> nat \<Rightarrow> u8 list \<Rightarrow> nat \<Rightarrow> nat \<Rightarrow> u8 list \<times> nat \<times> nat" where
  "carry_fill chunk chunk_len carry carry_len pos =
     (if carry_len < 64 \<and> pos < chunk_len
      then carry_fill chunk chunk_len (carry[carry_len := chunk ! pos]) (carry_len + 1) (pos + 1)
      else (carry, carry_len, pos))"
  by pat_completeness auto
termination by (relation "measure (\<lambda>(_, n, _, _, pos). n - pos)") auto

function carry_blocks :: "u8 list \<Rightarrow> nat \<Rightarrow> u32 list \<Rightarrow> nat \<Rightarrow> u32 list \<times> nat" where
  "carry_blocks chunk chunk_len h pos =
     (if 64 \<le> chunk_len - pos
      then carry_blocks chunk chunk_len (sha256_compress chunk pos h sha256_round_constants) (pos + 64)
      else (h, pos))"
  by pat_completeness auto
termination by (relation "measure (\<lambda>(_, n, _, pos). n - pos)") auto

declare carry_fill.simps [simp del] carry_blocks.simps [simp del]

text \<open>What follows the filled carry: whole blocks from the chunk, the rest into the carry.\<close>

definition update_rest :: "u8 list \<Rightarrow> nat \<Rightarrow> u64 \<Rightarrow> u32 list \<Rightarrow> u8 list \<Rightarrow> nat \<Rightarrow> Sha256Ctx" where
  "update_rest chunk chunk_len tot h carry pos =
     (let (h, pos) = carry_blocks chunk chunk_len h pos;
          rem = chunk_len - pos;
          carry = fold (\<lambda>ri carry. carry[ri := chunk ! (pos + ri)]) [0..<rem] carry
      in \<lparr>ctx_h = h, ctx_carry = carry, ctx_carry_len = rem, ctx_total_len = tot\<rparr>)"

definition kernel_sha256_update :: "Sha256Ctx \<Rightarrow> u8 list \<Rightarrow> nat \<Rightarrow> Sha256Ctx" where
  "kernel_sha256_update ctx chunk chunk_len =
     (let h = ctx_h ctx; carry = ctx_carry ctx; carry_len = ctx_carry_len ctx;
          tot = ctx_total_len ctx + of_nat chunk_len in
      if 0 < carry_len then
        let (carry, carry_len, pos) = carry_fill chunk chunk_len carry carry_len 0 in
        if carry_len = 64 then
          let h = sha256_compress64 carry h sha256_round_constants
          in update_rest chunk chunk_len tot h carry pos
        else \<lparr>ctx_h = h, ctx_carry = carry, ctx_carry_len = carry_len, ctx_total_len = tot\<rparr>
      else update_rest chunk chunk_len tot h carry 0)"

text \<open>\<open>while p < to { carry[p] = 0; p = p + 1; }\<close>\<close>

definition zero_range :: "nat \<Rightarrow> nat \<Rightarrow> u8 list \<Rightarrow> u8 list" where
  "zero_range p to carry = fold (\<lambda>i carry. carry[i := 0]) [p..<to] carry"

text \<open>The end of the padding, which both of its cases run into.\<close>

definition finalize_end :: "u8 list \<Rightarrow> u32 list \<Rightarrow> nat \<Rightarrow> u64 \<Rightarrow> u8 list" where
  "finalize_end carry h p tot =
     (let carry = zero_range p 56 carry;
          bit_len = push_bit 3 tot;
          carry = carry[56 := ucast (drop_bit 56 bit_len AND 255), 57 := ucast (drop_bit 48 bit_len AND 255),
                        58 := ucast (drop_bit 40 bit_len AND 255), 59 := ucast (drop_bit 32 bit_len AND 255),
                        60 := ucast (drop_bit 24 bit_len AND 255), 61 := ucast (drop_bit 16 bit_len AND 255),
                        62 := ucast (drop_bit 8 bit_len AND 255), 63 := ucast (bit_len AND 255)];
          h = sha256_compress64 carry h sha256_round_constants
      in concat (map (\<lambda>j. let v = h ! j in
           [ucast (drop_bit 24 v AND 255), ucast (drop_bit 16 v AND 255),
            ucast (drop_bit 8 v AND 255), ucast (v AND 255)]) [0..<8]))"

definition kernel_sha256_finalize :: "Sha256Ctx \<Rightarrow> u8 list" where
  "kernel_sha256_finalize ctx =
     (let h = ctx_h ctx; carry = ctx_carry ctx; carry_len = ctx_carry_len ctx;
          carry = carry[carry_len := 128];
          p = carry_len + 1 in
      if p > 56 then
        let carry = zero_range p 64 carry;
            h = sha256_compress64 carry h sha256_round_constants;
            carry = zero_range 0 64 carry
        in finalize_end carry h 0 (ctx_total_len ctx)
      else finalize_end carry h p (ctx_total_len ctx))"

section \<open>The compression\<close>

lemma round_constants: "sha256_round_constants = K"
  by (simp add: sha256_round_constants_def K_def)

lemma wrap_add32 [simp]: "sha256_wrap_add32 a b = a + b"
proof -
  have a: "unat a < 2 ^ 32" "unat b < 2 ^ 32" using unsigned_less [of a] unsigned_less [of b] by simp_all
  have u: "unat (ucast a :: u64) = unat a" "unat (ucast b :: u64) = unat b"
    using a by (simp_all add: unsigned_ucast_eq take_bit_nat_eq_self)
  have "unat (ucast a + ucast b :: u64) = unat a + unat b"
    using a by (subst unat_add_lem [THEN iffD1]) (simp_all add: u)
  moreover have "(ucast (x AND 4294967295) :: u32) = ucast x" for x :: "u64"
  proof -
    have m: "(4294967295 :: u64) = mask 32" by (simp add: mask_eq_exp_minus_1)
    show ?thesis unfolding m by (rule bit_word_eqI) (simp add: bit_simps)
  qed
  ultimately show ?thesis
    by (simp add: sha256_wrap_add32_def Let_def word_unat_eq_iff unat_word_ariths unsigned_ucast_eq)
      (simp add: take_bit_eq_mod)
qed

lemma rotr32 [simp]: "sha256_rotr32 = rotr32"
  by (intro ext) (simp add: sha256_rotr32_def rotr32_def)

lemma schedule_word: "schedule_word = sched_extend"
  by (intro ext) (simp add: schedule_word_def sched_extend_def Let_def add.assoc)

lemma compress_round: "compress_round K w = sha256_round w"
proof (intro ext)
  fix v i
  have ones: "(4294967295 :: u32) = - 1" by simp
  show "compress_round K w v i = sha256_round w v i"
    unfolding compress_round_def sha256_round_def Let_def ones xor_minus_1 [symmetric]
    by (simp add: add.assoc split: prod.split)
qed

lemma compress_words:
  assumes "length h = 8" and "ws = map (fips_W p) [0..<16]"
  shows "compress_words ws h K = fips_compress h p"
proof -
  obtain h0 h1 h2 h3 h4 h5 h6 h7 where h: "h = [h0, h1, h2, h3, h4, h5, h6, h7]"
    using assms(1) by (auto simp: length_Suc_conv numeral_eq_Suc)
  have "foldl sched_extend ws [16..<64] = sched p"
    unfolding assms(2) sched_fips by (rule sched_extend_loop) simp
  then have "compress_words ws h K = (case fips_rounds p 64 (h0, h1, h2, h3, h4, h5, h6, h7) of
      (a, b, c, d, e, f, g, hh) \<Rightarrow> [h0 + a, h1 + b, h2 + c, h3 + d, h4 + e, h5 + f, h6 + g, h7 + hh])"
    unfolding compress_words_def schedule_word compress_round Let_def h
    by (simp only: sha256_rounds_fips [OF le_refl] wrap_add32) simp
  then show ?thesis
    by (simp add: fips_compress_def h add.commute split: prod.split)
qed

lemma compress64: "length h = 8 \<Longrightarrow> sha256_compress64 block h K = fips_compress h block"
  unfolding sha256_compress64_def
  by (rule compress_words) (simp_all add: sched_load_fips [symmetric] sched_load_def)

lemma compress:
  assumes "length h = 8" and "off \<le> length msg"
  shows "sha256_compress msg off h K = fips_compress h (drop off msg)"
  unfolding sha256_compress_def
  by (rule compress_words [OF assms(1)])
    (simp add: sched_load_fips [symmetric] sched_load_def sha256_read_be32_def assms(2) Let_def add.assoc)

section \<open>The carry and the blocks\<close>

text \<open>
  \<open>bs\<close> are the blocks already compressed, \<open>r\<close> the bytes waiting in the carry.
\<close>

definition ctx_repr :: "Sha256Ctx \<Rightarrow> u8 list list \<Rightarrow> u8 list \<Rightarrow> bool" where
  "ctx_repr ctx bs r \<longleftrightarrow>
     (\<forall>b \<in> set bs. length b = 64) \<and> length r < 64 \<and> length (ctx_carry ctx) = 64
     \<and> ctx_carry_len ctx = length r \<and> take (length r) (ctx_carry ctx) = r
     \<and> ctx_h ctx = foldl fips_compress fips_H0 bs"

lemma length_fips_H [simp]: "length (foldl fips_compress fips_H0 bs) = 8"
  by (simp add: length_foldl_compress fips_H0_def)

lemma carry_fill_spec:
  assumes "carry_fill chunk chunk_len carry carry_len pos = (carry', carry_len', pos')"
    and "length carry = 64" and "carry_len \<le> 64" and "pos \<le> chunk_len" and "chunk_len \<le> length chunk"
  shows "\<exists>n. carry_len' = carry_len + n \<and> pos' = pos + n \<and> n \<le> chunk_len - pos \<and> carry_len + n \<le> 64
    \<and> (pos + n = chunk_len \<or> carry_len + n = 64) \<and> length carry' = 64
    \<and> take (carry_len + n) carry' = take carry_len carry @ take n (drop pos chunk)"
  using assms
proof (induction chunk chunk_len carry carry_len pos rule: carry_fill.induct)
  case (1 chunk chunk_len carry carry_len pos)
  show ?case
  proof (cases "carry_len < 64 \<and> pos < chunk_len")
    case True
    then have "carry_fill chunk chunk_len (carry[carry_len := chunk ! pos]) (carry_len + 1) (pos + 1)
        = (carry', carry_len', pos')"
      using "1.prems"(1) by (simp add: carry_fill.simps [of chunk chunk_len carry])
    from "1.IH" [OF True this] True "1.prems" obtain n where n:
        "carry_len' = carry_len + 1 + n" "pos' = pos + 1 + n" "n \<le> chunk_len - (pos + 1)"
        "carry_len + 1 + n \<le> 64" "pos + 1 + n = chunk_len \<or> carry_len + 1 + n = 64" "length carry' = 64"
        "take (carry_len + 1 + n) carry' = take carry_len carry @ chunk ! pos # take n (drop (pos + 1) chunk)"
      by (auto simp: take_Suc_update)
    have "pos < length chunk" using True "1.prems"(5) by simp
    then have "chunk ! pos # take n (drop (pos + 1) chunk) = take (Suc n) (drop pos chunk)"
      by (simp add: Cons_nth_drop_Suc [symmetric])
    with n True show ?thesis by (intro exI [of _ "Suc n"]) auto
  next
    case False
    with "1.prems" show ?thesis
      by (intro exI [of _ 0]) (auto simp: carry_fill.simps [of chunk chunk_len carry])
  qed
qed

lemma carry_blocks_spec:
  assumes "carry_blocks chunk chunk_len h pos = (h', pos')"
    and "length h = 8" and "pos \<le> chunk_len" and "chunk_len \<le> length chunk"
  shows "\<exists>bs. h' = foldl fips_compress h bs \<and> (\<forall>b \<in> set bs. length b = 64) \<and> pos \<le> pos'
    \<and> pos' \<le> chunk_len \<and> chunk_len - pos' < 64 \<and> concat bs = take (pos' - pos) (drop pos chunk)"
  using assms
proof (induction chunk chunk_len h pos rule: carry_blocks.induct)
  case (1 chunk chunk_len h pos)
  show ?case
  proof (cases "64 \<le> chunk_len - pos")
    case True
    let ?b = "take 64 (drop pos chunk)"
    have len: "length ?b = 64" and le: "pos + 64 \<le> chunk_len" using True "1.prems"(3,4) by auto
    have step: "sha256_compress chunk pos h sha256_round_constants = fips_compress h ?b"
      using "1.prems"(2-4) by (simp add: round_constants compress fips_compress_prefix)
    have "carry_blocks chunk chunk_len (fips_compress h ?b) (pos + 64) = (h', pos')"
      using "1.prems"(1) True by (simp add: carry_blocks.simps [of chunk chunk_len h pos] step)
    from "1.IH" [OF True, unfolded step, OF this] le "1.prems"(2,4) obtain bs where bs:
        "h' = foldl fips_compress (fips_compress h ?b) bs" "\<forall>b \<in> set bs. length b = 64" "pos + 64 \<le> pos'"
        "pos' \<le> chunk_len" "chunk_len - pos' < 64" "concat bs = take (pos' - (pos + 64)) (drop (pos + 64) chunk)"
      by (auto simp: length_fips_compress)
    have "?b @ concat bs = take (pos' - pos) (drop pos chunk)"
      using bs(3,6) take_add [of 64 "pos' - (pos + 64)" "drop pos chunk"] by (simp add: add.commute)
    with bs len show ?thesis by (intro exI [of _ "?b # bs"]) auto
  next
    case False
    with "1.prems" show ?thesis
      by (intro exI [of _ "[]"]) (auto simp: carry_blocks.simps [of chunk chunk_len h pos])
  qed
qed

lemma update_rest_repr:
  assumes "\<forall>b \<in> set bs. length b = 64" and "length carry = 64" and "pos \<le> chunk_len" and "chunk_len \<le> length chunk"
  shows "\<exists>bs' r. ctx_repr (update_rest chunk chunk_len t (foldl fips_compress fips_H0 bs) carry pos) bs' r
    \<and> concat bs' @ r = concat bs @ drop pos (take chunk_len chunk)
    \<and> ctx_total_len (update_rest chunk chunk_len t (foldl fips_compress fips_H0 bs) carry pos) = t"
proof -
  let ?h = "foldl fips_compress fips_H0 bs"
  obtain h' pos' where run: "carry_blocks chunk chunk_len ?h pos = (h', pos')" by fastforce
  obtain bs' where bs': "h' = foldl fips_compress ?h bs'" "\<forall>b \<in> set bs'. length b = 64" "pos \<le> pos'"
      "pos' \<le> chunk_len" "chunk_len - pos' < 64" "concat bs' = take (pos' - pos) (drop pos chunk)"
    using carry_blocks_spec [OF run _ assms(3,4)] by auto
  let ?carry = "fold (\<lambda>ri carry. carry[ri := chunk ! (pos' + ri)]) [0..<chunk_len - pos'] carry"
  have len: "length ?carry = 64" using length_fold_update [of "\<lambda>i. i"] assms(2) by simp
  have tail: "take (chunk_len - pos') ?carry = drop pos' (take chunk_len chunk)"
  proof (rule nth_equalityI)
    show "length (take (chunk_len - pos') ?carry) = length (drop pos' (take chunk_len chunk))"
      using len bs'(5) assms(4) by simp
    show "take (chunk_len - pos') ?carry ! i = drop pos' (take chunk_len chunk) ! i"
      if "i < length (take (chunk_len - pos') ?carry)" for i
      using that nth_fold_update [of 0 "\<lambda>ri. chunk ! (pos' + ri)" "chunk_len - pos'" carry i] len bs'(4) assms(2,4)
      by auto
  qed
  have "concat bs' @ drop pos' (take chunk_len chunk) = drop pos (take chunk_len chunk)"
    using bs'(3,4,6) take_add [of "pos' - pos" "chunk_len - pos'" "drop pos chunk"] by (simp add: drop_take)
  with run bs' assms(1,4) len tail show ?thesis
    by (intro exI [of _ "bs @ bs'"] exI [of _ "drop pos' (take chunk_len chunk)"])
      (auto simp: update_rest_def ctx_repr_def Let_def)
qed

text \<open>An update absorbs the first \<open>chunk_len\<close> bytes of its chunk.\<close>

lemma kernel_update_repr:
  assumes "ctx_repr ctx bs r" and "chunk_len \<le> length chunk"
  shows "\<exists>bs' r'. ctx_repr (kernel_sha256_update ctx chunk chunk_len) bs' r'
    \<and> concat bs' @ r' = concat bs @ r @ take chunk_len chunk
    \<and> ctx_total_len (kernel_sha256_update ctx chunk chunk_len) = ctx_total_len ctx + of_nat chunk_len"
proof (cases "r = []")
  case True
  then show ?thesis
    using update_rest_repr [of bs "ctx_carry ctx" 0 chunk_len chunk "ctx_total_len ctx + of_nat chunk_len"] assms
    by (auto simp: ctx_repr_def kernel_sha256_update_def Let_def)
next
  case False
  note c = assms(1) [unfolded ctx_repr_def]
  obtain carry cl pos where fill: "carry_fill chunk chunk_len (ctx_carry ctx) (ctx_carry_len ctx) 0 = (carry, cl, pos)"
    by (metis prod_cases3)
  obtain n where n: "cl = length r + n" "pos = n" "n \<le> chunk_len" "length r + n \<le> 64"
      "n = chunk_len \<or> length r + n = 64" "length carry = 64" "take (length r + n) carry = r @ take n chunk"
    using carry_fill_spec [OF fill] c assms(2) by auto
  show ?thesis
  proof (cases "cl = 64")
    case True
    then have carry: "carry = r @ take n chunk" using n(1,6,7) by simp
    then have h: "sha256_compress64 carry (ctx_h ctx) sha256_round_constants
        = foldl fips_compress fips_H0 (bs @ [carry])"
      using c by (simp add: round_constants compress64)
    have "\<forall>b \<in> set (bs @ [carry]). length b = 64" using c n(6) by auto
    from update_rest_repr [OF this n(6,3) assms(2)] True fill False c n(2) h
    show ?thesis
      by (simp add: kernel_sha256_update_def Let_def carry)
        (metis append.assoc append_take_drop_id take_take min.absorb1 n(3))
  next
    case part: False
    then have "n = chunk_len" using n(1,5) by auto
    then show ?thesis
      using part fill False c n assms(2)
      by (intro exI [of _ bs] exI [of _ "r @ take chunk_len chunk"])
        (auto simp: kernel_sha256_update_def Let_def ctx_repr_def)
  qed
qed

section \<open>The padding\<close>

lemma zero_range:
  assumes "p \<le> n" and "n \<le> length carry"
  shows "length (zero_range p n carry) = length carry"
    and "take n (zero_range p n carry) = take p carry @ replicate (n - p) 0"
proof -
  have "length (zero_range p n carry) = length carry
    \<and> take n (zero_range p n carry) = take p carry @ replicate (n - p) 0"
    using assms
  proof (induction n)
    case (Suc n)
    show ?case
    proof (cases "p = Suc n")
      case True
      then show ?thesis by (simp add: zero_range_def)
    next
      case False
      then have "[p..<Suc n] = [p..<n] @ [n]" "Suc n - p = Suc (n - p)" using Suc.prems by simp_all
      then show ?thesis
        using Suc False by (simp add: zero_range_def take_Suc_update replicate_append_same flip: replicate_Suc)
    qed
  qed (simp add: zero_range_def)
  then show "length (zero_range p n carry) = length carry"
    and "take n (zero_range p n carry) = take p carry @ replicate (n - p) 0" by simp_all
qed

lemma low_byte: "ucast (v AND 255 :: u64) = (ucast v :: u8)" "ucast (w AND 255 :: u32) = (ucast w :: u8)"
proof -
  have m: "(255 :: u64) = mask 8" "(255 :: u32) = mask 8" by (simp_all add: mask_eq_exp_minus_1)
  show "ucast (v AND 255 :: u64) = (ucast v :: u8)" "ucast (w AND 255 :: u32) = (ucast w :: u8)"
    unfolding m by (rule bit_word_eqI, simp add: bit_simps)+
qed

lemma length_field:
  assumes "length carry = 64"
  shows "carry[56 := ucast (drop_bit 56 v), 57 := ucast (drop_bit 48 v),
      58 := ucast (drop_bit 40 v), 59 := ucast (drop_bit 32 v),
      60 := ucast (drop_bit 24 v), 61 := ucast (drop_bit 16 v),
      62 := ucast (drop_bit 8 v), 63 := ucast (v)]
    = take 56 carry @ be_bytes64 v"
proof -
  obtain xs ys where c: "carry = xs @ ys" "length xs = 56" "length ys = 8"
    using that [of "take 56 carry" "drop 56 carry"] assms by simp
  obtain y0 y1 y2 y3 y4 y5 y6 y7 where "ys = [y0, y1, y2, y3, y4, y5, y6, y7]"
    using c(3) by (auto simp: length_Suc_conv numeral_eq_Suc)
  with c(1,2) show ?thesis
    by (simp add: be_bytes64_def list_update_append numeral_eq_Suc)
qed

lemma finalize_end:
  assumes "length carry = 64" and "p \<le> 56" and "length h = 8"
  shows "finalize_end carry h p t
    = concat (map be_bytes32 (fips_compress h (take p carry @ replicate (56 - p) 0 @ be_bytes64 (push_bit 3 t))))"
proof -
  note z = zero_range [OF assms(2), of carry]
  let ?b = "take p carry @ replicate (56 - p) 0 @ be_bytes64 (push_bit 3 t)"
  have z64: "length (zero_range p 56 carry) = 64" and z56: "take 56 (zero_range p 56 carry) = take p carry @ replicate (56 - p) 0"
    using z assms(1) by simp_all
  show ?thesis
    unfolding finalize_end_def Let_def low_byte length_field [OF z64] z56 round_constants append_assoc
      compress64 [OF assms(3)]
    by (rule be_digest_bytes) (simp add: length_fips_compress assms(3))
qed

lemma kernel_finalize:
  assumes repr: "ctx_repr ctx bs r" and tot: "ctx_total_len ctx = of_nat (length (concat bs @ r))"
  shows "kernel_sha256_finalize ctx = sha256_digest (concat bs @ r)"
proof -
  note c = repr [unfolded ctx_repr_def]
  let ?msg = "concat bs @ r" and ?n = "length r" and ?len = "be_bytes64 (push_bit 3 (ctx_total_len ctx))"
  let ?c1 = "(ctx_carry ctx)[?n := 128]"
  have bits: "?len = be_bytes64 (word_of_nat (8 * length ?msg))"
    unfolding tot by (simp add: push_bit_eq_mult mult.commute)
  have mod: "length ?msg mod 64 = ?n" using c by (simp add: length_concat64)
  have c1: "length ?c1 = 64" "take (?n + 1) ?c1 = r @ [128]" using c by (simp_all add: take_Suc_update)
  have "\<exists>bs'. kernel_sha256_finalize ctx = concat (map be_bytes32 (foldl fips_compress fips_H0 (bs @ bs')))
    \<and> concat bs' = r @ [0x80] @ replicate ((119 - ?n) mod 64) 0 @ ?len \<and> (\<forall>b \<in> set bs'. length b = 64)"
  proof (cases "?n + 1 > 56")
    case True
    let ?c2 = "zero_range (?n + 1) 64 ?c1"
    have z: "length ?c2 = 64" "?c2 = r @ [128] @ replicate (63 - ?n) 0"
      using zero_range [of "?n + 1" 64 ?c1] c c1 by simp_all
    have "length (zero_range 0 64 ?c2) = 64" using zero_range(1) [of 0 64 ?c2] z(1) by simp
    then have "kernel_sha256_finalize ctx = concat (map be_bytes32
        (foldl fips_compress fips_H0 (bs @ [?c2, replicate 56 0 @ ?len])))"
      using True c by (simp add: kernel_sha256_finalize_def Let_def round_constants compress64 finalize_end
          length_fips_compress)
    moreover have "(119 - ?n) mod 64 = (63 - ?n) + 56" using True c by (simp add: mod_if)
    then have "concat [?c2, replicate 56 0 @ ?len] = r @ [0x80] @ replicate ((119 - ?n) mod 64) 0 @ ?len"
      unfolding z(2) by (simp only: replicate_add concat.simps append_assoc append_Nil append_Nil2)
    ultimately show ?thesis
      using z(1) by (intro exI [of _ "[?c2, replicate 56 0 @ ?len]"]) (simp add: be_bytes64_def)
  next
    case False
    then have "(119 - ?n) mod 64 = 55 - ?n" by (simp add: mod_if)
    with False show ?thesis
      using c c1 by (intro exI [of _ "[r @ [128] @ replicate (55 - ?n) 0 @ ?len]"])
        (simp add: kernel_sha256_finalize_def Let_def finalize_end be_bytes64_def)
  qed
  then obtain bs' where bs': "kernel_sha256_finalize ctx = concat (map be_bytes32 (foldl fips_compress fips_H0 (bs @ bs')))"
      "concat bs' = r @ [0x80] @ replicate ((119 - ?n) mod 64) 0 @ ?len" "\<forall>b \<in> set bs'. length b = 64"
    by blast
  then have "fips_pad ?msg = concat (bs @ bs')"
    unfolding fips_pad_def mod bits by simp
  then have "blocks64 (fips_pad ?msg) = bs @ bs'"
    using blocks64_concat [of "bs @ bs'" "[]"] bs'(3) c by auto
  with bs'(1) show ?thesis by (simp add: sha256_digest_def fips_hash_def)
qed

section \<open>The streaming interface\<close>

definition ctx_absorbed :: "Sha256Ctx \<Rightarrow> u8 list \<Rightarrow> bool" where
  "ctx_absorbed ctx msg \<longleftrightarrow> (\<exists>bs r. ctx_repr ctx bs r \<and> concat bs @ r = msg)
     \<and> ctx_total_len ctx = of_nat (length msg)"

lemma ctx_absorbed_init: "ctx_absorbed kernel_sha256_init []"
  by (auto simp: ctx_absorbed_def ctx_repr_def kernel_sha256_init_def fips_H0_def intro!: exI [of _ "[]"])

lemma ctx_absorbed_update:
  assumes "ctx_absorbed ctx msg" and "n \<le> length chunk"
  shows "ctx_absorbed (kernel_sha256_update ctx chunk n) (msg @ take n chunk)"
proof -
  obtain bs r where "ctx_repr ctx bs r" "concat bs @ r = msg" "ctx_total_len ctx = of_nat (length msg)"
    using assms(1) by (auto simp: ctx_absorbed_def)
  with kernel_update_repr [OF this(1) assms(2)] show ?thesis
    unfolding ctx_absorbed_def using assms(2)
    by (elim exE conjE, intro conjI exI) (assumption | simp)+
qed

lemma ctx_absorbed_finalize: "ctx_absorbed ctx msg \<Longrightarrow> kernel_sha256_finalize ctx = sha256_digest msg"
  using kernel_finalize by (force simp: ctx_absorbed_def)

interpretation kernel_sha: stream_hash "\<lambda>_. kernel_sha256_init"
    "\<lambda>ctx data len. kernel_sha256_update ctx data (unat len)"
    "\<lambda>ctx. Some (ctx, kernel_sha256_finalize ctx)" "\<lambda>_. True" ctx_absorbed sha256_digest
proof
  fix c :: Sha256Ctx and msg data :: "u8 list" and len :: u32
  show "ctx_absorbed kernel_sha256_init []" by (rule ctx_absorbed_init)
  show "ctx_absorbed c msg \<Longrightarrow> length data = unat len \<Longrightarrow>
      ctx_absorbed (kernel_sha256_update c data (unat len)) (msg @ data)"
    using ctx_absorbed_update [of c msg "unat len" data] by simp
  show "ctx_absorbed c msg \<Longrightarrow> \<exists>c'. Some (c, kernel_sha256_finalize c) = Some (c', sha256_digest msg)"
    by (simp add: ctx_absorbed_finalize)
qed

section \<open>Properties\<close>

lemma updates_absorbed:
  "ctx_absorbed ctx msg \<Longrightarrow> \<forall>(chunk, n) \<in> set pieces. n \<le> length chunk \<Longrightarrow>
     ctx_absorbed (foldl (\<lambda>ctx (chunk, n). kernel_sha256_update ctx chunk n) ctx pieces)
       (msg @ concat (map (\<lambda>(chunk, n). take n chunk) pieces))"
proof (induction pieces arbitrary: ctx msg)
  case (Cons p pieces)
  obtain chunk n where p: "p = (chunk, n)" by fastforce
  with Cons.prems have "ctx_absorbed (kernel_sha256_update ctx chunk n) (msg @ take n chunk)"
    by (intro ctx_absorbed_update) auto
  from Cons.IH [OF this] Cons.prems(2) show ?case by (simp add: p)
qed simp

text \<open>
  C25. The kernel's hash is the loader's. However a message is handed to \<open>sha256_update\<close> in arrays
  of 256 bytes, each of which counts up to the given length, the digest that the kernel computes
  is the SHA-256 of FIPS 180-4 of the whole message, the one that the loader's own routine
  computes for the same bytes.
\<close>

theorem kernel_sha256_is_fips:
  assumes "\<forall>(chunk, n) \<in> set pieces. length chunk = 256 \<and> n \<le> 256"
    and "msg = concat (map (\<lambda>(chunk, n). take n chunk) pieces)" and "length msg < 2 ^ 32"
    and "length (sha_buf junk) = 64"
  shows "kernel_sha256_finalize
      (foldl (\<lambda>ctx (chunk, n). kernel_sha256_update ctx chunk n) kernel_sha256_init pieces) = sha256_digest msg
    \<and> (\<exists>ctx'. sha256_finalize (sha256_update (sha256_init junk) msg (of_nat (length msg)))
      = Some (ctx', sha256_digest msg))"
proof
  have "\<forall>(chunk, n) \<in> set pieces. n \<le> length chunk" using assms(1) by fastforce
  from ctx_absorbed_finalize [OF updates_absorbed [OF ctx_absorbed_init this]]
  show "kernel_sha256_finalize
      (foldl (\<lambda>ctx (chunk, n). kernel_sha256_update ctx chunk n) kernel_sha256_init pieces) = sha256_digest msg"
    by (simp add: assms(2))
  show "\<exists>ctx'. sha256_finalize (sha256_update (sha256_init junk) msg (of_nat (length msg)))
      = Some (ctx', sha256_digest msg)"
    using sha_stream.feed_hash [of junk "[msg]"] assms(3,4) by (simp add: sha_fresh_def sha_stream.feed_def)
qed

theorem kernel_sha256_is_fips_witness:
  "kernel_sha256_finalize (kernel_sha256_update (kernel_sha256_update kernel_sha256_init (replicate 256 1) 256)
      (replicate 256 2) 3) = sha256_digest (replicate 256 1 @ replicate 3 2)"
  using kernel_sha256_is_fips [of "[(replicate 256 1, 256), (replicate 256 2, 3)]"
      "replicate 256 1 @ replicate 3 2" "\<lparr>sha_h = [], sha_buf = replicate 64 0, buf_len = 0, total_len = 0\<rparr>"]
  by simp

end
