(* ===== verification/Kernel_Progress.thy ===== *)
theory Kernel_Progress
  imports Kernel_Slots
begin

text \<open>
  The progress record of a resumable upload, \<open>KernelUploadChunkProgress\<close> of
  \<open>kernel/kernel_main.vani\<close>: a second record kept in two copies (blocks 9218 and 9219), with its
  parser, builder, lookup and the way it is cleared.
\<close>

section \<open>The code\<close>

definition kernelupload_chunk_state_block_a :: u64 where "kernelupload_chunk_state_block_a = 9218"
definition kernelupload_chunk_state_block_b :: u64 where "kernelupload_chunk_state_block_b = 9219"

record KernelUploadChunkProgress =
  p_valid :: u64
  p_chosen_block :: u64
  p_generation :: u32
  p_target_slot :: u32
  p_total_len :: u32
  p_chunk_size :: u32
  p_chunk_count :: u32
  p_chunks_confirmed :: u32
  p_attempt_count :: u32
  p_final_sha256 :: "u8 list"

definition kernelupload_chunk_progress_crc_valid :: "u8 list \<Rightarrow> bool" where
  "kernelupload_chunk_progress_crc_valid raw =
     (let magic = buf_read_u32_le raw 0 in
      if magic \<noteq> 0x4B554350 then False
      else
        let crc_stored = buf_read_u32_le raw 64; crc_actual = kernelslot_crc32 raw 64 in
        if crc_actual \<noteq> crc_stored then False else True)"

definition kernelupload_chunk_progress_parse :: "u8 list \<Rightarrow> u64 \<Rightarrow> KernelUploadChunkProgress" where
  "kernelupload_chunk_progress_parse raw blk =
     (let sha = map (\<lambda>i. ucast (kbuf_read_byte raw (32 + i))) [0..<32]
      in \<lparr> p_valid = 1,
           p_chosen_block = blk,
           p_generation = buf_read_u32_le raw 4,
           p_target_slot = buf_read_u32_le raw 8,
           p_total_len = buf_read_u32_le raw 12,
           p_chunk_size = buf_read_u32_le raw 16,
           p_chunk_count = buf_read_u32_le raw 20,
           p_chunks_confirmed = buf_read_u32_le raw 24,
           p_attempt_count = buf_read_u32_le raw 28,
           p_final_sha256 = sha \<rparr>)"

definition kernelupload_chunk_progress_build :: "KernelUploadChunkProgress \<Rightarrow> u8 list \<Rightarrow> u8 list" where
  "kernelupload_chunk_progress_build rec out =
     (let out = fold (\<lambda>i out. kbuf_write_byte out i 0) [0..<512] out;
          out = buf_write_u32_le out 0 0x4B554350;
          out = buf_write_u32_le out 4 (p_generation rec);
          out = buf_write_u32_le out 8 (p_target_slot rec);
          out = buf_write_u32_le out 12 (p_total_len rec);
          out = buf_write_u32_le out 16 (p_chunk_size rec);
          out = buf_write_u32_le out 20 (p_chunk_count rec);
          out = buf_write_u32_le out 24 (p_chunks_confirmed rec);
          out = buf_write_u32_le out 28 (p_attempt_count rec);
          out = fold (\<lambda>j out. kbuf_write_byte out (32 + j) (ucast (p_final_sha256 rec ! j))) [0..<32] out;
          crc = kernelslot_crc32 out 64
      in buf_write_u32_le out 64 crc)"

definition kernelupload_chunk_progress_lookup ::
    "'d sd_read \<Rightarrow> u8 list \<times> 'd \<Rightarrow> KernelUploadChunkProgress \<times> u8 list \<times> 'd" where
  "kernelupload_chunk_progress_lookup rd st =
     (let (buf, d) = st;
          (status_a, buf, d) = rd kernelupload_chunk_state_block_a buf d;
          valid_a = (if status_a = 0 then kernelupload_chunk_progress_crc_valid buf else False);
          rec_a = kernelupload_chunk_progress_parse buf kernelupload_chunk_state_block_a;
          (status_b, buf, d) = rd kernelupload_chunk_state_block_b buf d;
          valid_b = (if status_b = 0 then kernelupload_chunk_progress_crc_valid buf else False);
          rec_b = kernelupload_chunk_progress_parse buf kernelupload_chunk_state_block_b;
          chosen =
            (if valid_a \<and> valid_b then (if p_generation rec_a \<ge> p_generation rec_b then rec_a else rec_b)
             else if valid_a then rec_a
             else if valid_b then rec_b
             else rec_a)
      in (if \<not> valid_a \<and> \<not> valid_b then chosen\<lparr>p_valid := 0\<rparr>
          else if p_chunk_count chosen = 0 then chosen\<lparr>p_valid := 0\<rparr>
          else chosen, buf, d))"

definition kernelupload_chunk_progress_stale_block :: "KernelUploadChunkProgress \<Rightarrow> u64" where
  "kernelupload_chunk_progress_stale_block rec =
     (if p_chosen_block rec = kernelupload_chunk_state_block_a then kernelupload_chunk_state_block_b
      else kernelupload_chunk_state_block_a)"

definition kernelupload_chunk_progress_write ::
    "'d sd_write \<Rightarrow> KernelUploadChunkProgress \<Rightarrow> u64 \<Rightarrow> u8 list \<times> 'd \<Rightarrow> u64 \<times> u8 list \<times> 'd" where
  "kernelupload_chunk_progress_write wr rec block_num st =
     (let (buf, d) = st; buf = kernelupload_chunk_progress_build rec buf; (status, d) = wr block_num buf d
      in (status, buf, d))"

text \<open>
  \<open>prior_gen + 1\<close> is a checked addition. The generation of a lookup that found no valid copy is
  whatever block A holds at that place.
\<close>

definition kernelupload_chunk_progress_clear ::
    "'d sd_read \<Rightarrow> 'd sd_write \<Rightarrow> u8 list \<times> 'd \<Rightarrow> (u64 \<times> u8 list \<times> 'd) option" where
  "kernelupload_chunk_progress_clear rd wr st =
     (let (lookup, st) = kernelupload_chunk_progress_lookup rd st;
          prior_gen = p_generation lookup;
          stale = (if p_chosen_block lookup = kernelupload_chunk_state_block_a
            then kernelupload_chunk_state_block_b else kernelupload_chunk_state_block_a) in
      if prior_gen = - 1 then None
      else
        let cleared = \<lparr> p_valid = 0, p_chosen_block = stale, p_generation = prior_gen + 1,
          p_target_slot = 0, p_total_len = 0, p_chunk_size = 0, p_chunk_count = 0,
          p_chunks_confirmed = 0, p_attempt_count = 0, p_final_sha256 = replicate 32 0 \<rparr>
        in Some (kernelupload_chunk_progress_write wr cleared stale st))"

end
