(* ===== verification/Kernel_Upload.thy ===== *)
theory Kernel_Upload
  imports Kernel_Sha256 Kernel_Progress
begin

text \<open>
  The shell command \<open>kernelupload\<close> of \<open>kernel/kernel_main.vani\<close>, which writes a new kernel image
  into the inactive slot: \<open>chunk\<close> and \<open>stream\<close> start an upload, \<open>kernelupload_accumulate_bytes\<close>
  takes in the bytes, \<open>commit\<close> checks the image on the card and marks the slot ready, \<open>abort\<close>
  gives up. The state is the variables of \<open>boot/kernelupload_state.S\<close> and the SD driver's.
\<close>

section \<open>State\<close>

text \<open>
  Outside of this model: the SD driver, the microsecond timer and the tick count of the
  scheduler. Reading the timer may change the state of the machine, reading the tick count
  does not.
\<close>

record 'd kernel_io =
  io_read :: "'d sd_read"
  io_write :: "'d sd_write"
  io_clo :: "'d \<Rightarrow> u32 \<times> 'd"
  io_tick :: "'d \<Rightarrow> u32"

text \<open>What a command prints: the calls of \<open>uart_puts\<close> and \<open>uart_put_i64\<close>, in order.\<close>

datatype out = Str string | Num int

record 'd upload =
  sd :: 'd
  printed :: "out list"
  up_block_buf :: "u8 list"
  up_sha_ctx :: "u8 list"
  up_decode_buf :: "u8 list"
  up_record_buf :: "u8 list"
  up_chunk_record_buf :: "u8 list"
  up_sd_scratch :: "u8 list"
  up_total_len :: u32
  up_target_slot :: u32
  up_active :: u32
  up_chunk_base_block_offset :: u32
  up_sd_write_worst_us :: u32
  up_stream_active :: u32
  up_stream_expected_len :: u32
  up_stream_last_ack_len :: u32
  up_stream_last_activity_tick :: u32
  up_rx_ring_head :: u32
  up_rx_ring_tail :: u32
  up_watchdog_last_total_len :: u32
  up_watchdog_last_progress_tick :: u32
  up_watchdog_stall_reported :: u32
  up_last_rx_byte_us :: u32
  up_overrun_count :: u32
  up_uart_irq_entry_count :: u32
  up_fifo_backlog_count :: u32
  maintenance_mode_active :: u32
  maintenance_mode_last_touch_tick :: u32

definition say :: "out list \<Rightarrow> 'd upload \<Rightarrow> 'd upload" where
  "say os st = st\<lparr>printed := printed st @ os\<rparr>"

definition timer_clo :: "'d kernel_io \<Rightarrow> 'd upload \<Rightarrow> u32 \<times> 'd upload" where
  "timer_clo dev st = (let (t, d) = io_clo dev (sd st) in (t, st\<lparr>sd := d\<rparr>))"

definition kernelslot_a_base_block :: u64 where "kernelslot_a_base_block = 10240"
definition kernelslot_b_base_block :: u64 where "kernelslot_b_base_block = 22528"
definition kernelslot_size_bytes :: int where "kernelslot_size_bytes = 12288 * 512"

definition slot_base_block :: "u32 \<Rightarrow> u64" where
  "slot_base_block target_slot =
     (if target_slot = 0 then kernelslot_a_base_block else kernelslot_b_base_block)"

definition lookup_slots :: "'d kernel_io \<Rightarrow> 'd upload \<Rightarrow> KernelSlotRecord \<times> 'd upload" where
  "lookup_slots dev st =
     (let (r, buf, d) = kernelslot_lookup (io_read dev) (up_record_buf st, sd st)
      in (r, st\<lparr>up_record_buf := buf, sd := d\<rparr>))"

definition maintenance_mode_engage :: "'d kernel_io \<Rightarrow> 'd upload \<Rightarrow> 'd upload" where
  "maintenance_mode_engage dev st =
     st\<lparr>maintenance_mode_active := 1, maintenance_mode_last_touch_tick := io_tick dev (sd st)\<rparr>"

definition maintenance_mode_disengage :: "'d upload \<Rightarrow> 'd upload" where
  "maintenance_mode_disengage st = st\<lparr>maintenance_mode_active := 0\<rparr>"

section \<open>Parsing of a command line\<close>

text \<open>A line is the buffer it was received in; \<open>start\<close> and \<open>to\<close> are offsets into it.\<close>

function shell_find_space :: "u8 list \<Rightarrow> nat \<Rightarrow> nat \<Rightarrow> nat" where
  "shell_find_space buf i line_len =
     (if i < line_len then
        if kbuf_read_byte buf i = 32 then i else shell_find_space buf (i + 1) line_len
      else line_len)"
  by pat_completeness auto
termination by (relation "measure (\<lambda>(_, i, n). n - i)") auto

declare shell_find_space.simps [simp del]

definition shell_word_matches :: "u8 list \<Rightarrow> nat \<Rightarrow> nat \<Rightarrow> string \<Rightarrow> bool" where
  "shell_word_matches buf start to word =
     (if int to - int start \<noteq> int (length word) then False
      else \<forall>i \<in> set [0..<length word]. kbuf_read_byte buf (start + i) = of_char (word ! i))"

fun decimal_loop :: "u32 list \<Rightarrow> int \<Rightarrow> int" where
  "decimal_loop [] value = value"
| "decimal_loop (c # cs) value =
     (if c < 48 \<or> c > 57 then - 1 else decimal_loop cs (value * 10 + uint (c - 48)))"

definition shell_parse_decimal :: "u8 list \<Rightarrow> nat \<Rightarrow> nat \<Rightarrow> int" where
  "shell_parse_decimal buf start to =
     (if start \<ge> to then - 1
      else if int to - int start > 10 then - 1
      else decimal_loop (map (kbuf_read_byte buf) [start..<to]) 0)"

definition shell_is_hex_digit :: "u32 \<Rightarrow> bool" where
  "shell_is_hex_digit c =
     (c \<ge> 0x30 \<and> c \<le> 0x39 \<or> c \<ge> 0x61 \<and> c \<le> 0x66 \<or> c \<ge> 0x41 \<and> c \<le> 0x46)"

definition hex_ascii_to_nibble :: "u32 \<Rightarrow> u32" where
  "hex_ascii_to_nibble c =
     (if c \<ge> 0x30 \<and> c \<le> 0x39 then c - 0x30
      else if c \<ge> 0x61 \<and> c \<le> 0x66 then c - 0x61 + 10
      else if c \<ge> 0x41 \<and> c \<le> 0x46 then c - 0x41 + 10
      else 0)"

text \<open>Returns the status; the digits before an invalid one have been stored.\<close>

fun hex_loop :: "u8 list \<Rightarrow> nat \<Rightarrow> nat list \<Rightarrow> u8 list \<Rightarrow> int \<times> u8 list" where
  "hex_loop buf start [] out = (0, out)"
| "hex_loop buf start (i # is) out =
     (let hi_c = kbuf_read_byte buf (start + i * 2); lo_c = kbuf_read_byte buf (start + i * 2 + 1) in
      if \<not> shell_is_hex_digit hi_c \<or> \<not> shell_is_hex_digit lo_c then (- 1, out)
      else
        let byte_val = push_bit 4 (hex_ascii_to_nibble hi_c) OR hex_ascii_to_nibble lo_c
        in hex_loop buf start is (kbuf_write_byte out i byte_val))"

definition shell_parse_hex_bytes :: "u8 list \<Rightarrow> nat \<Rightarrow> nat \<Rightarrow> u8 list \<Rightarrow> nat \<Rightarrow> int \<times> u8 list" where
  "shell_parse_hex_bytes buf start to out expected_bytes =
     (if int to - int start \<noteq> int expected_bytes * 2 then (- 1, out)
      else hex_loop buf start [0..<expected_bytes] out)"

definition sha256_bytes_equal :: "u8 list \<Rightarrow> u8 list \<Rightarrow> nat \<Rightarrow> bool" where
  "sha256_bytes_equal a b n \<longleftrightarrow> (\<forall>i \<in> set [0..<n]. kbuf_read_byte a i = kbuf_read_byte b i)"

section \<open>The running hash\<close>

text \<open>The context is kept in 112 bytes; of the two counters the low 32 bits are stored.\<close>

definition kernelupload_ctx_load :: "u8 list \<Rightarrow> Sha256Ctx" where
  "kernelupload_ctx_load buf =
     \<lparr>ctx_h = map (\<lambda>i. buf_read_u32_le buf (i * 4)) [0..<8],
      ctx_carry = map (\<lambda>j. ucast (kbuf_read_byte buf (32 + j))) [0..<64],
      ctx_carry_len = unat (buf_read_u32_le buf 96),
      ctx_total_len = ucast (buf_read_u32_le buf 100)\<rparr>"

definition kernelupload_ctx_store :: "Sha256Ctx \<Rightarrow> u8 list \<Rightarrow> u8 list" where
  "kernelupload_ctx_store ctx buf =
     (let buf = fold (\<lambda>i buf. buf_write_u32_le buf (i * 4) (ctx_h ctx ! i)) [0..<8] buf;
          buf = fold (\<lambda>j buf. kbuf_write_byte buf (32 + j) (ucast (ctx_carry ctx ! j))) [0..<64] buf;
          buf = buf_write_u32_le buf 96 (of_nat (ctx_carry_len ctx))
      in buf_write_u32_le buf 100 (ucast (ctx_total_len ctx)))"

text \<open>
  The first \<open>n\<close> bytes of a block, by way of two arrays of 256 bytes. The same code stands in
  \<open>kernelupload_accumulate_bytes\<close> (with \<open>n\<close> = 512), and for the last block and the read-back in
  \<open>commit\<close>.
\<close>

definition hash_block :: "Sha256Ctx \<Rightarrow> u8 list \<Rightarrow> nat \<Rightarrow> Sha256Ctx" where
  "hash_block ctx block_buf n =
     (let chunk1 = map (\<lambda>i. ucast (kbuf_read_byte block_buf i)) [0..<256];
          first_n = (if n < 256 then n else 256);
          ctx = kernel_sha256_update ctx chunk1 first_n in
      if n > 256 then
        let chunk2 = map (\<lambda>i. ucast (kbuf_read_byte block_buf (256 + i))) [0..<256]
        in kernel_sha256_update ctx chunk2 (n - 256)
      else ctx)"

section \<open>Taking in bytes\<close>

text \<open>
  The write of a full block, timed for the statistics. The subtraction is a checked one: where
  the microsecond timer wraps during the write, the kernel panics (\<open>None\<close>).
\<close>

definition timed_write :: "'d kernel_io \<Rightarrow> u64 \<Rightarrow> 'd upload \<Rightarrow> (u64 \<times> 'd upload) option" where
  "timed_write dev block_num st =
     (let (sdw_t0, st) = timer_clo dev st;
          (wstatus, d) = io_write dev block_num (up_block_buf st) (sd st);
          st = st\<lparr>sd := d\<rparr>;
          (sdw_t1, st) = timer_clo dev st in
      if sdw_t1 < sdw_t0 then None
      else
        let sdw_us = sdw_t1 - sdw_t0;
            st = (if sdw_us > up_sd_write_worst_us st then st\<lparr>up_sd_write_worst_us := sdw_us\<rparr> else st)
        in Some (wstatus, st))"

text \<open>The loop stops with \<open>False\<close> at a failed write.\<close>

fun accumulate_loop ::
    "'d kernel_io \<Rightarrow> u64 \<Rightarrow> u32 list \<Rightarrow> Sha256Ctx \<Rightarrow> nat \<Rightarrow> 'd upload
      \<Rightarrow> (bool \<times> Sha256Ctx \<times> nat \<times> 'd upload) option" where
  "accumulate_loop dev base_block [] ctx tot st = Some (True, ctx, tot, st)"
| "accumulate_loop dev base_block (b # bs) ctx tot st =
     (let off_in_block = tot mod 512;
          st = st\<lparr>up_block_buf := kbuf_write_byte (up_block_buf st) off_in_block b\<rparr>;
          tot = tot + 1 in
      if tot mod 512 = 0 then do {
        let block_index = tot div 512 - 1;
        (wstatus, st) \<leftarrow> timed_write dev (base_block + of_nat block_index) st;
        if wstatus \<noteq> 0 then Some (False, ctx, tot, st)
        else accumulate_loop dev base_block bs (hash_block ctx (up_block_buf st) 512) tot st }
      else accumulate_loop dev base_block bs ctx tot st)"

text \<open>The result is the status that the code returns, 0 or -1.\<close>

definition kernelupload_accumulate_bytes ::
    "'d kernel_io \<Rightarrow> u8 list \<Rightarrow> nat \<Rightarrow> 'd upload \<Rightarrow> (int \<times> 'd upload) option" where
  "kernelupload_accumulate_bytes dev src_buf count st =
     (let tot = unat (up_total_len st);
          base_block = slot_base_block (up_target_slot st) + ucast (up_chunk_base_block_offset st);
          ctx = kernelupload_ctx_load (up_sha_ctx st) in
      do {
        (ok, ctx, tot, st) \<leftarrow> accumulate_loop dev base_block
          (map (kbuf_read_byte src_buf) [0..<count]) ctx tot st;
        if \<not> ok then Some (- 1, st\<lparr>up_total_len := of_nat tot\<rparr>)
        else Some (0, st\<lparr>up_sha_ctx := kernelupload_ctx_store ctx (up_sha_ctx st),
          up_total_len := of_nat tot\<rparr>) })"

section \<open>The subcommands\<close>

text \<open>
  \<open>abort\<close>. A command line is \<open>line_buf\<close> with the offsets \<open>sub_end\<close> (the end of the subcommand) and
  \<open>line_len\<close>.
\<close>

definition kernelupload_abort :: "'d upload \<Rightarrow> 'd upload" where
  "kernelupload_abort st =
     say [Str ''ok\<newline>''] (maintenance_mode_disengage
       (st\<lparr>up_stream_active := 0, up_active := 0, up_total_len := 0\<rparr>))"

definition fresh_target :: "KernelSlotRecord \<Rightarrow> u32" where
  "fresh_target lookup = (if active_slot lookup = 0 then 1 else 0)"

definition slot_name :: "u32 \<Rightarrow> string" where
  "slot_name target = (if target = 0 then ''A'' else ''B'')"

text \<open>\<open>chunk\<close>: the first one starts an upload into the inactive slot.\<close>

definition chunk_start :: "'d kernel_io \<Rightarrow> 'd upload \<Rightarrow> bool \<times> 'd upload" where
  "chunk_start dev st =
     (if up_active st = 0 then
        let (lookup, st) = lookup_slots dev st in
        if valid lookup \<noteq> 1 then
          (False, say [Str ''kernelupload: no valid slot-state record found -- card not seeded?\<newline>''] st)
        else
          let target = fresh_target lookup in
          (True, say [Str ''kernelupload: starting fresh upload into slot '', Str (slot_name target), Str ''\<newline>'']
            (st\<lparr>up_target_slot := target, up_total_len := 0,
                up_sha_ctx := kernelupload_ctx_store kernel_sha256_init (up_sha_ctx st), up_active := 1\<rparr>))
      else (True, st))"

definition kernelupload_chunk ::
    "'d kernel_io \<Rightarrow> u8 list \<Rightarrow> nat \<Rightarrow> nat \<Rightarrow> 'd upload \<Rightarrow> 'd upload option" where
  "kernelupload_chunk dev line_buf sub_end line_len st =
     (if sub_end \<ge> line_len then
        Some (say [Str ''usage: kernelupload chunk <hex, up to 96 hex chars/48 bytes per call>\<newline>''] st)
      else
        let hex_start = sub_end + 1;
            hex_end = shell_find_space line_buf hex_start line_len;
            hex_len = int hex_end - int hex_start in
        if hex_len \<le> 0 \<or> hex_len mod 2 \<noteq> 0 then
          Some (say [Str ''kernelupload: chunk must be a non-empty, even-length hex string\<newline>''] st)
        else
          let byte_len = nat (hex_len div 2) in
          if byte_len > 48 then
            Some (say [Str ''kernelupload: chunk too large (max 48 bytes/96 hex chars per call)\<newline>''] st)
          else
            let (started, st) = chunk_start dev st in
            if \<not> started then Some st
            else
              let (parse_status, decode_buf) =
                    shell_parse_hex_bytes line_buf hex_start hex_end (up_decode_buf st) byte_len;
                  st = st\<lparr>up_decode_buf := decode_buf\<rparr> in
              if parse_status \<noteq> 0 then Some (say [Str ''kernelupload: invalid hex\<newline>''] st)
              else do {
                (accum_status, st) \<leftarrow> kernelupload_accumulate_bytes dev (up_decode_buf st) byte_len st;
                if accum_status \<noteq> 0 then
                  Some (say [Str ''kernelupload: SD write failed, aborting\<newline>''] st \<lparr>up_active := 0\<rparr>)
                else Some (say [Str ''ok, '', Num (uint (up_total_len st)), Str '' bytes accumulated\<newline>''] st) })"

text \<open>\<open>stream\<close>: start an upload of a known length, whose bytes then come in raw.\<close>

definition stream_reset :: "'d kernel_io \<Rightarrow> u32 \<Rightarrow> 'd upload \<Rightarrow> 'd upload" where
  "stream_reset dev expected st =
     (let st = st\<lparr>up_sha_ctx := kernelupload_ctx_store kernel_sha256_init (up_sha_ctx st),
                  up_active := 1,
                  up_stream_expected_len := expected,
                  up_stream_last_ack_len := 0,
                  up_stream_last_activity_tick := io_tick dev (sd st),
                  up_rx_ring_head := 0,
                  up_rx_ring_tail := 0,
                  up_watchdog_last_total_len := 0xFFFFFFFF\<rparr>;
          (t, st) = timer_clo dev st;
          st = st\<lparr>up_watchdog_last_progress_tick := t, up_watchdog_stall_reported := 0\<rparr>;
          (t, st) = timer_clo dev st;
          st = st\<lparr>up_last_rx_byte_us := t, up_overrun_count := 0, up_uart_irq_entry_count := 0,
                  up_fifo_backlog_count := 0, up_sd_write_worst_us := 0, up_stream_active := 1\<rparr>
      in maintenance_mode_engage dev st)"

definition kernelupload_stream ::
    "'d kernel_io \<Rightarrow> u8 list \<Rightarrow> nat \<Rightarrow> nat \<Rightarrow> 'd upload \<Rightarrow> 'd upload" where
  "kernelupload_stream dev line_buf sub_end line_len st =
     (if sub_end \<ge> line_len then
        say [Str ''usage: kernelupload stream <total_len_bytes> -- then blast raw binary, no hex/no per-chunk ack\<newline>''] st
      else
        let slen_start = sub_end + 1;
            slen_end = shell_find_space line_buf slen_start line_len;
            claimed_total = shell_parse_decimal line_buf slen_start slen_end in
        if claimed_total \<le> 0 then say [Str ''kernelupload: stream length must be positive\<newline>''] st
        else if claimed_total > kernelslot_size_bytes then
          say [Str ''kernelupload: stream length exceeds slot size\<newline>''] st
        else
          let (lookup, st) = lookup_slots dev st in
          if valid lookup \<noteq> 1 then
            say [Str ''kernelupload: no valid slot-state record found -- card not seeded?\<newline>''] st
          else
            let st = st\<lparr>up_target_slot := fresh_target lookup, up_total_len := 0,
                        up_chunk_base_block_offset := 0\<rparr>
            in say [Str ''GO '', Num claimed_total, Str ''\<newline>'']
                 (stream_reset dev (word_of_int claimed_total) st))"

section \<open>Commit\<close>

definition block_count :: "nat \<Rightarrow> nat" where
  "block_count len = (len + 511) div 512"

text \<open>How many bytes of block \<open>rb\<close> belong to an image of \<open>nblocks\<close> blocks.\<close>

definition valid_in_block :: "nat \<Rightarrow> nat \<Rightarrow> nat \<Rightarrow> nat" where
  "valid_in_block nblocks partial_bytes rb =
     (if rb + 1 = nblocks then (if partial_bytes = 0 then 512 else partial_bytes) else 512)"

text \<open>Hashing an image block by block as it is read back; \<open>None\<close> is a failed read.\<close>

fun readback_loop ::
    "'d kernel_io \<Rightarrow> u64 \<Rightarrow> nat \<Rightarrow> nat \<Rightarrow> nat list \<Rightarrow> Sha256Ctx \<Rightarrow> 'd upload \<Rightarrow> Sha256Ctx option \<times> 'd upload" where
  "readback_loop dev base_block nblocks partial_bytes [] ctx st = (Some ctx, st)"
| "readback_loop dev base_block nblocks partial_bytes (rb # rbs) ctx st =
     (let (rstatus, buf, d) = io_read dev (base_block + of_nat rb) (up_block_buf st) (sd st);
          st = st\<lparr>up_block_buf := buf, sd := d\<rparr> in
      if rstatus \<noteq> 0 then (None, st)
      else readback_loop dev base_block nblocks partial_bytes rbs
        (hash_block ctx (up_block_buf st) (valid_in_block nblocks partial_bytes rb)) st)"

text \<open>A digest is copied into the scratch buffer and compared with the claimed one.\<close>

definition put_digest :: "u8 list \<Rightarrow> 'd upload \<Rightarrow> 'd upload" where
  "put_digest digest st = st\<lparr>up_sd_scratch :=
     fold (\<lambda>di buf. kbuf_write_byte buf di (ucast (digest ! di))) [0..<32] (up_sd_scratch st)\<rparr>"

text \<open>The last block: padded with zeros, written and hashed, where it is not a full one.\<close>

definition commit_last_block ::
    "'d kernel_io \<Rightarrow> u64 \<Rightarrow> nat \<Rightarrow> Sha256Ctx \<Rightarrow> 'd upload \<Rightarrow> Sha256Ctx option \<times> 'd upload" where
  "commit_last_block dev base_block actual_len ctx st =
     (let partial_bytes = actual_len mod 512 in
      if partial_bytes \<noteq> 0 then
        let st = st\<lparr>up_block_buf := fold (\<lambda>i buf. kbuf_write_byte buf i 0) [partial_bytes..<512] (up_block_buf st)\<rparr>;
            block_index = actual_len div 512;
            (wstatus, d) = io_write dev (base_block + of_nat block_index) (up_block_buf st) (sd st);
            st = st\<lparr>sd := d\<rparr> in
        if wstatus \<noteq> 0 then (None, st)
        else (Some (hash_block ctx (up_block_buf st) partial_bytes), st)
      else (Some ctx, st))"

text \<open>After the image was verified: the record, and the progress record of a resumed upload.\<close>

definition commit_record :: "'d kernel_io \<Rightarrow> u32 \<Rightarrow> nat \<Rightarrow> 'd upload \<Rightarrow> 'd upload option" where
  "commit_record dev target_slot actual_len st =
     do {
       let digest_arr = map (\<lambda>i. ucast (kbuf_read_byte (up_decode_buf st) i)) [0..<32];
       (msg, active, buf, d) \<leftarrow> kernelupload_record (io_read dev) (io_write dev) target_slot
         (of_nat actual_len) digest_arr (up_record_buf st, sd st);
       let st = st\<lparr>up_record_buf := buf, sd := d, up_active := active\<rparr>;
       if msg \<noteq> [] then Some (say [Str msg] st)
       else do {
         let (chunk_prog, cbuf, d) =
           kernelupload_chunk_progress_lookup (io_read dev) (up_chunk_record_buf st, sd st);
         let st = st\<lparr>up_chunk_record_buf := cbuf, sd := d\<rparr>;
         st \<leftarrow>
           (if p_valid chunk_prog = 1 \<and> p_target_slot chunk_prog = target_slot then do {
              (status, cbuf, d) \<leftarrow> kernelupload_chunk_progress_clear (io_read dev) (io_write dev)
                (up_chunk_record_buf st, sd st);
              Some (st\<lparr>up_chunk_record_buf := cbuf, sd := d\<rparr>) }
            else Some st);
         Some (say [Str ''ok, slot '', Str (slot_name target_slot),
           Str '' verified and marked ready, '', Num (int actual_len), Str '' bytes\<newline>''] st) } }"

text \<open>The checks of the image: the hash of the bytes as they came in, then that of the bytes on the card.\<close>

definition commit_image :: "'d kernel_io \<Rightarrow> nat \<Rightarrow> 'd upload \<Rightarrow> 'd upload option" where
  "commit_image dev actual_len st =
     (let target_slot = up_target_slot st;
          base_block = slot_base_block target_slot;
          partial_bytes = actual_len mod 512;
          (ctx, st) = commit_last_block dev base_block actual_len (kernelupload_ctx_load (up_sha_ctx st)) st in
      case ctx of
        None \<Rightarrow> Some (say [Str ''kernelupload: final block SD write failed\<newline>''] (st\<lparr>up_active := 0\<rparr>))
      | Some ctx \<Rightarrow>
          let st = put_digest (kernel_sha256_finalize ctx) st in
          if \<not> sha256_bytes_equal (up_sd_scratch st) (up_decode_buf st) 32 then
            Some (say [Str ''kernelupload: uploaded data does not match the claimed sha256 -- not committing\<newline>'']
              (st\<lparr>up_active := 0\<rparr>))
          else
            let nblocks = block_count actual_len;
                (readback_ctx, st) =
                  readback_loop dev base_block nblocks partial_bytes [0..<nblocks] kernel_sha256_init st in
            case readback_ctx of
              None \<Rightarrow> Some (say [Str ''kernelupload: readback failed, not committing\<newline>''] (st\<lparr>up_active := 0\<rparr>))
            | Some readback_ctx \<Rightarrow>
                let st = put_digest (kernel_sha256_finalize readback_ctx) st in
                if \<not> sha256_bytes_equal (up_sd_scratch st) (up_decode_buf st) 32 then
                  Some (say [Str ''kernelupload: readback sha256 mismatch (write-cycle fault?) -- not committing\<newline>'']
                    (st\<lparr>up_active := 0\<rparr>))
                else commit_record dev target_slot actual_len st)"

definition commit_usage :: "out list" where
  "commit_usage = [Str ''usage: kernelupload commit <total_len_bytes> <sha256_hex>\<newline>'']"

definition kernelupload_commit ::
    "'d kernel_io \<Rightarrow> u8 list \<Rightarrow> nat \<Rightarrow> nat \<Rightarrow> 'd upload \<Rightarrow> 'd upload option" where
  "kernelupload_commit dev line_buf sub_end line_len st =
     (if up_active st = 0 then
        Some (say [Str ''kernelupload: nothing to commit (no chunks uploaded yet)\<newline>''] st)
      else if sub_end \<ge> line_len then Some (say commit_usage st)
      else
        let len_start = sub_end + 1;
            len_end = shell_find_space line_buf len_start line_len in
        if len_end \<ge> line_len then Some (say commit_usage st)
        else
          let claimed_len = shell_parse_decimal line_buf len_start len_end;
              actual_len = uint (up_total_len st) in
          if claimed_len \<le> 0 \<or> claimed_len \<noteq> actual_len then
            Some (say [Str ''kernelupload: total_len mismatch or invalid (claimed '', Num claimed_len,
              Str '', received '', Num actual_len, Str '') -- not committing\<newline>''] st)
          else if claimed_len > kernelslot_size_bytes then
            Some (say [Str ''kernelupload: total_len exceeds slot size, not committing\<newline>''] (st\<lparr>up_active := 0\<rparr>))
          else
            let sha_start = len_end + 1;
                sha_end = shell_find_space line_buf sha_start line_len in
            if int sha_end - int sha_start \<noteq> 64 then
              Some (say [Str ''kernelupload: expected a 64-char (32-byte) sha256 hex digest\<newline>''] st)
            else
              let (hex_status, decode_buf) =
                    shell_parse_hex_bytes line_buf sha_start sha_end (up_decode_buf st) 32;
                  st = st\<lparr>up_decode_buf := decode_buf\<rparr> in
              if hex_status \<noteq> 0 then Some (say [Str ''kernelupload: invalid sha256 hex\<newline>''] st)
              else commit_image dev (nat actual_len) st)"

end
