(* ===== verification/Kernel_Resume.thy ===== *)
theory Kernel_Resume
  imports Kernel_Upload
begin

text \<open>
  The resumable form of \<open>kernelupload\<close>: an image cut into chunks of whole blocks, each verified on
  the card before the progress record counts it (\<open>resumebegin\<close>, \<open>resumechunk\<close>,
  \<open>resumeverify\<close>, \<open>resumestatus\<close>, \<open>resumeabort\<close>), and the dispatcher of all subcommands.
\<close>

section \<open>Arithmetic\<close>

text \<open>
  The kernel's language checks its arithmetic: an overflow is a panic, \<open>None\<close>. A cast to a shorter
  word keeps the low bits.
\<close>

definition inc_u32 :: "u32 \<Rightarrow> u32 option" where
  "inc_u32 x = (if x = - 1 then None else Some (x + 1))"

definition mul_i64 :: "int \<Rightarrow> int \<Rightarrow> int option" where
  "mul_i64 x y = (if - (2 ^ 63) \<le> x * y \<and> x * y < 2 ^ 63 then Some (x * y) else None)"

section \<open>The progress record\<close>

definition progress_get :: "'d kernel_io \<Rightarrow> 'd upload \<Rightarrow> KernelUploadChunkProgress \<times> 'd upload" where
  "progress_get dev st =
     (let (prog, buf, d) = kernelupload_chunk_progress_lookup (io_read dev) (up_chunk_record_buf st, sd st)
      in (prog, st\<lparr>up_chunk_record_buf := buf, sd := d\<rparr>))"

definition progress_put ::
    "'d kernel_io \<Rightarrow> KernelUploadChunkProgress \<Rightarrow> 'd upload \<Rightarrow> u64 \<times> 'd upload" where
  "progress_put dev rec st =
     (let (status, buf, d) = kernelupload_chunk_progress_write (io_write dev) rec (p_chosen_block rec)
            (up_chunk_record_buf st, sd st)
      in (status, st\<lparr>up_chunk_record_buf := buf, sd := d\<rparr>))"

definition not_persisted :: "string \<Rightarrow> out list" where
  "not_persisted cmd = [Str (''kernelupload: '' @ cmd @ '' failed to persist progress record\<newline>'')]"

section \<open>Beginning\<close>

text \<open>The same upload again: the next attempt of it is counted.\<close>

definition resumebegin_again ::
    "'d kernel_io \<Rightarrow> KernelUploadChunkProgress \<Rightarrow> 'd upload \<Rightarrow> 'd upload option" where
  "resumebegin_again dev prog st =
     (if p_chunks_confirmed prog = p_chunk_count prog then
        Some (say [Str ''ALLDONE '', Num (uint (p_chunks_confirmed prog)), Str ''\<newline>''] st)
      else if uint (p_attempt_count prog) \<ge> 5 then
        Some (say [Str ''LIMIT_EXCEEDED '', Num (uint (p_attempt_count prog)),
          Str '' -- send 'kernelupload resumeabort' to give up and start over\<newline>''] st)
      else do {
        gen \<leftarrow> inc_u32 (p_generation prog);
        attempt \<leftarrow> inc_u32 (p_attempt_count prog);
        let resumed = prog\<lparr>p_valid := 1, p_chosen_block := kernelupload_chunk_progress_stale_block prog,
              p_generation := gen, p_attempt_count := attempt\<rparr>;
        let (wstatus, st) = progress_put dev resumed st;
        if wstatus \<noteq> 0 then Some (say (not_persisted ''resumebegin'') st)
        else Some (say [Str ''RESUME '', Num (uint (p_chunks_confirmed prog)), Str '' '', Num (uint attempt),
          Str ''\<newline>''] st) })"

text \<open>A new upload; \<open>prog\<close> is not valid, or complete.\<close>

definition resumebegin_fresh ::
    "'d kernel_io \<Rightarrow> u32 \<Rightarrow> nat \<Rightarrow> nat \<Rightarrow> nat \<Rightarrow> KernelUploadChunkProgress \<Rightarrow> 'd upload \<Rightarrow> 'd upload option" where
  "resumebegin_fresh dev target image_len chunk_size chunk_count prog st =
     do {
       let next_block = kernelupload_chunk_progress_stale_block prog;
       gen \<leftarrow> inc_u32 (p_generation prog);
       let fresh = \<lparr>p_valid = 1, p_chosen_block = next_block, p_generation = gen, p_target_slot = target,
             p_total_len = of_nat image_len, p_chunk_size = of_nat chunk_size, p_chunk_count = of_nat chunk_count,
             p_chunks_confirmed = 0, p_attempt_count = 1,
             p_final_sha256 = map (\<lambda>i. ucast (kbuf_read_byte (up_decode_buf st) i)) [0..<32]\<rparr>;
       let (fwstatus, st) = progress_put dev fresh st;
       if fwstatus \<noteq> 0 then Some (say (not_persisted ''resumebegin'') st)
       else Some (say [Str ''FRESH 0\<newline>''] st) }"

definition chunk_size_for :: "nat \<Rightarrow> nat \<Rightarrow> nat" where
  "chunk_size_for image_len chunk_count =
     (let raw_chunk_size = (image_len + chunk_count - 1) div chunk_count in (raw_chunk_size + 511) div 512 * 512)"

text \<open>The digest of the whole image is in the decode buffer.\<close>

definition resumebegin_checked ::
    "'d kernel_io \<Rightarrow> nat \<Rightarrow> nat \<Rightarrow> 'd upload \<Rightarrow> 'd upload option" where
  "resumebegin_checked dev image_len chunk_count st =
     (let chunk_size = chunk_size_for image_len chunk_count;
          last_chunk_len = int image_len - int chunk_size * (int chunk_count - 1) in
      if last_chunk_len \<le> 0 then
        Some (say [Str ''kernelupload: resumebegin chunk_count too large for this total_len\<newline>''] st)
      else
        let (lookup, st) = lookup_slots dev st in
        if valid lookup \<noteq> 1 then
          Some (say [Str ''kernelupload: no valid slot-state record found -- card not seeded?\<newline>''] st)
        else
          let target = fresh_target lookup;
              (prog, st) = progress_get dev st;
              same_sha = (\<forall>i \<in> set [0..<32]. p_final_sha256 prog ! i = ucast (kbuf_read_byte (up_decode_buf st) i));
              same_upload = (p_valid prog = 1 \<and> p_target_slot prog = target
                \<and> p_total_len prog = of_nat image_len \<and> p_chunk_size prog = of_nat chunk_size
                \<and> p_chunk_count prog = of_nat chunk_count \<and> same_sha) in
          if same_upload then resumebegin_again dev prog st
          else if p_valid prog = 1 \<and> p_chunks_confirmed prog < p_chunk_count prog then
            Some (say [Str ''BUSY -- a different resumable upload is already in progress; send 'kernelupload resumeabort' first if you mean to discard it\<newline>''] st)
          else resumebegin_fresh dev target image_len chunk_size chunk_count prog st)"

definition resumebegin_usage :: "out list" where
  "resumebegin_usage = [Str ''usage: kernelupload resumebegin <total_len_bytes> <chunk_count> <final_sha256_hex>\<newline>'']"

definition bad_digest_len :: "out list" where
  "bad_digest_len = [Str ''kernelupload: expected a 64-char (32-byte) sha256 hex digest\<newline>'']"

definition bad_digest_hex :: "out list" where
  "bad_digest_hex = [Str ''kernelupload: invalid sha256 hex\<newline>'']"

definition kernelupload_resumebegin ::
    "'d kernel_io \<Rightarrow> u8 list \<Rightarrow> nat \<Rightarrow> nat \<Rightarrow> 'd upload \<Rightarrow> 'd upload option" where
  "kernelupload_resumebegin dev line_buf sub_end line_len st =
     (if sub_end \<ge> line_len then Some (say resumebegin_usage st)
      else
        let tlen_start = sub_end + 1;
            tlen_end = shell_find_space line_buf tlen_start line_len;
            image_len = shell_parse_decimal line_buf tlen_start tlen_end in
        if image_len \<le> 0 \<or> image_len > kernelslot_size_bytes then
          Some (say [Str ''kernelupload: resumebegin total_len invalid or exceeds slot size\<newline>''] st)
        else if tlen_end \<ge> line_len then Some (say resumebegin_usage st)
        else
          let cc_start = tlen_end + 1;
              cc_end = shell_find_space line_buf cc_start line_len;
              chunk_count = shell_parse_decimal line_buf cc_start cc_end in
          if chunk_count \<le> 0 \<or> chunk_count > 1000 then
            Some (say [Str ''kernelupload: resumebegin chunk_count must be 1-1000\<newline>''] st)
          else if cc_end \<ge> line_len then Some (say resumebegin_usage st)
          else
            let rsha_start = cc_end + 1;
                rsha_end = shell_find_space line_buf rsha_start line_len in
            if int rsha_end - int rsha_start \<noteq> 64 then Some (say bad_digest_len st)
            else
              let (hex_status, decode_buf) =
                    shell_parse_hex_bytes line_buf rsha_start rsha_end (up_decode_buf st) 32;
                  st = st\<lparr>up_decode_buf := decode_buf\<rparr> in
              if hex_status \<noteq> 0 then Some (say bad_digest_hex st)
              else resumebegin_checked dev (nat image_len) (nat chunk_count) st)"

section \<open>A chunk\<close>

definition expect_chunk :: "KernelUploadChunkProgress \<Rightarrow> out list" where
  "expect_chunk prog = [Str ''EXPECTED '', Num (uint (p_chunks_confirmed prog)), Str ''\<newline>'']"

text \<open>The length that a chunk must have.\<close>

definition expected_chunk_len :: "KernelUploadChunkProgress \<Rightarrow> int \<Rightarrow> int option" where
  "expected_chunk_len prog chunk_index =
     (if chunk_index + 1 = uint (p_chunk_count prog) then do {
        before \<leftarrow> mul_i64 (uint (p_chunk_size prog)) chunk_index;
        Some (uint (p_total_len prog) - before) }
      else Some (uint (p_chunk_size prog)))"

definition resumechunk_usage :: "out list" where
  "resumechunk_usage = [Str ''usage: kernelupload resumechunk <chunk_index> <chunk_len_bytes>\<newline>'']"

definition kernelupload_resumechunk ::
    "'d kernel_io \<Rightarrow> u8 list \<Rightarrow> nat \<Rightarrow> nat \<Rightarrow> 'd upload \<Rightarrow> 'd upload option" where
  "kernelupload_resumechunk dev line_buf sub_end line_len st =
     (if sub_end \<ge> line_len then Some (say resumechunk_usage st)
      else
        let (prog, st) = progress_get dev st in
        if p_valid prog \<noteq> 1 \<or> p_chunks_confirmed prog \<ge> p_chunk_count prog then
          Some (say [Str ''kernelupload: no resumable upload in progress -- send 'kernelupload resumebegin' first\<newline>''] st)
        else
          let idx_start = sub_end + 1;
              idx_end = shell_find_space line_buf idx_start line_len;
              chunk_index = shell_parse_decimal line_buf idx_start idx_end in
          if chunk_index \<noteq> uint (p_chunks_confirmed prog) then Some (say (expect_chunk prog) st)
          else if idx_end \<ge> line_len then Some (say resumechunk_usage st)
          else do {
            let clen_start = idx_end + 1;
            let clen_end = shell_find_space line_buf clen_start line_len;
            let claimed_chunk_len = shell_parse_decimal line_buf clen_start clen_end;
            expected \<leftarrow> expected_chunk_len prog chunk_index;
            if claimed_chunk_len \<noteq> expected then
              Some (say [Str ''kernelupload: resumechunk length mismatch (expected '', Num expected,
                Str '', claimed '', Num claimed_chunk_len, Str '')\<newline>''] st)
            else do {
              before \<leftarrow> mul_i64 chunk_index (uint (p_chunk_size prog));
              let st = st\<lparr>up_chunk_base_block_offset := word_of_int (before div 512),
                    up_target_slot := p_target_slot prog, up_total_len := 0\<rparr>;
              Some (say [Str ''GO '', Num claimed_chunk_len, Str ''\<newline>'']
                (stream_reset dev (word_of_int claimed_chunk_len) st)) } })"

section \<open>Verifying a chunk\<close>

text \<open>0: the range on the card has the digest; 1: it has not; -1: a read failed.\<close>

definition kernelupload_chunk_verify_range ::
    "'d kernel_io \<Rightarrow> u64 \<Rightarrow> nat \<Rightarrow> u8 list \<Rightarrow> 'd upload \<Rightarrow> int \<times> 'd upload" where
  "kernelupload_chunk_verify_range dev base_block range_len want_sha256 st =
     (let nblocks = block_count range_len;
          (ctx, st) = readback_loop dev base_block nblocks (range_len mod 512) [0..<nblocks] kernel_sha256_init st in
      case ctx of
        None \<Rightarrow> (- 1, st)
      | Some ctx \<Rightarrow>
          let st = put_digest (kernel_sha256_finalize ctx) st in
          if \<not> sha256_bytes_equal (up_sd_scratch st) want_sha256 32 then (1, st) else (0, st))"

text \<open>The rest of the last chunk is still in the block buffer: it is padded and written.\<close>

definition write_tail :: "'d kernel_io \<Rightarrow> u64 \<Rightarrow> nat \<Rightarrow> 'd upload \<Rightarrow> u64 \<times> 'd upload" where
  "write_tail dev base_block received_len st =
     (let chunk_partial = received_len mod 512;
          st = st\<lparr>up_block_buf := fold (\<lambda>i buf. kbuf_write_byte buf i 0) [chunk_partial..<512] (up_block_buf st)\<rparr>;
          (status, d) = io_write dev (base_block + of_nat (received_len div 512)) (up_block_buf st) (sd st)
      in (status, st\<lparr>sd := d\<rparr>))"

text \<open>
  After the last chunk the hash of the whole image is made again from the card: of its full blocks,
  and the rest is put back into the block buffer (whether or not that read succeeds).
\<close>

definition stitch ::
    "'d kernel_io \<Rightarrow> KernelUploadChunkProgress \<Rightarrow> int \<Rightarrow> 'd upload \<Rightarrow> 'd upload" where
  "stitch dev advanced chunk_index st =
     (let whole_base_block = slot_base_block (p_target_slot advanced);
          whole_len = unat (p_total_len advanced);
          stitch_full_blocks = whole_len div 512;
          (stitch_ctx, st) = readback_loop dev whole_base_block stitch_full_blocks 0 [0..<stitch_full_blocks]
            kernel_sha256_init st in
      case stitch_ctx of
        None \<Rightarrow> say [Str ''CHUNKFAIL '', Num chunk_index,
          Str '' (whole-image stitch readback failed after the last chunk -- resend this same chunk)\<newline>''] st
      | Some stitch_ctx \<Rightarrow>
          let st =
                (if whole_len mod 512 \<noteq> 0 then
                   let (_, buf, d) = io_read dev (whole_base_block + of_nat stitch_full_blocks) (up_block_buf st) (sd st)
                   in st\<lparr>up_block_buf := buf, sd := d\<rparr>
                 else st);
              st = st\<lparr>up_target_slot := p_target_slot advanced, up_total_len := p_total_len advanced,
                up_sha_ctx := kernelupload_ctx_store stitch_ctx (up_sha_ctx st), up_active := 1\<rparr>
          in say [Str ''ALLDONE '', Num (int whole_len),
               Str '' -- all chunks verified and stitched, send 'kernelupload commit' next\<newline>''] st)"

text \<open>The chunk was verified: the progress record counts it.\<close>

definition advance_progress ::
    "'d kernel_io \<Rightarrow> KernelUploadChunkProgress \<Rightarrow> int \<Rightarrow> 'd upload \<Rightarrow> 'd upload option" where
  "advance_progress dev prog chunk_index st =
     do {
       gen \<leftarrow> inc_u32 (p_generation prog);
       confirmed \<leftarrow> inc_u32 (p_chunks_confirmed prog);
       let advanced = prog\<lparr>p_valid := 1, p_chosen_block := kernelupload_chunk_progress_stale_block prog,
             p_generation := gen, p_chunks_confirmed := confirmed\<rparr>;
       let (await_status, st) = progress_put dev advanced st;
       if await_status \<noteq> 0 then Some (say (not_persisted ''resumeverify'') st)
       else if p_chunks_confirmed advanced = p_chunk_count advanced then Some (stitch dev advanced chunk_index st)
       else Some (say [Str ''CHUNKOK '', Num chunk_index, Str ''\<newline>''] st) }"

definition resumeverify_usage :: "out list" where
  "resumeverify_usage = [Str ''usage: kernelupload resumeverify <chunk_index> <chunk_sha256_hex>\<newline>'']"

definition chunk_failed :: "int \<Rightarrow> string \<Rightarrow> out list" where
  "chunk_failed chunk_index why = [Str ''CHUNKFAIL '', Num chunk_index, Str why]"

definition verify_chunk ::
    "'d kernel_io \<Rightarrow> KernelUploadChunkProgress \<Rightarrow> int \<Rightarrow> u64 \<Rightarrow> nat \<Rightarrow> 'd upload \<Rightarrow> 'd upload option" where
  "verify_chunk dev prog chunk_index base_block received_len st =
     (let (verify_status, st) = kernelupload_chunk_verify_range dev base_block received_len (up_decode_buf st) st in
      if verify_status \<noteq> 0 then
        Some (say (chunk_failed chunk_index '' (sha256 mismatch on readback -- resend this same chunk)\<newline>'') st)
      else advance_progress dev prog chunk_index st)"

definition resumeverify_checked ::
    "'d kernel_io \<Rightarrow> KernelUploadChunkProgress \<Rightarrow> int \<Rightarrow> 'd upload \<Rightarrow> 'd upload option" where
  "resumeverify_checked dev prog chunk_index st =
     do {
       let received_len = uint (up_total_len st);
       expected \<leftarrow> expected_chunk_len prog chunk_index;
       let st = st\<lparr>up_active := 0\<rparr>;
       if received_len \<noteq> expected then
         Some (say [Str ''CHUNKFAIL '', Num chunk_index, Str '' (incomplete: received '', Num received_len,
           Str '' of '', Num expected, Str '' bytes)\<newline>''] st)
       else do {
         before \<leftarrow> mul_i64 chunk_index (uint (p_chunk_size prog));
         let base_block = slot_base_block (p_target_slot prog) + word_of_int (before div 512);
         let (tail_wstatus, st) =
           (if chunk_index + 1 = uint (p_chunk_count prog) \<and> received_len mod 512 \<noteq> 0
            then write_tail dev base_block (nat received_len) st else (0, st));
         if tail_wstatus \<noteq> 0 then
           Some (say (chunk_failed chunk_index '' (final-block SD write failed -- resend this same chunk)\<newline>'') st)
         else verify_chunk dev prog chunk_index base_block (nat received_len) st } }"

definition kernelupload_resumeverify ::
    "'d kernel_io \<Rightarrow> u8 list \<Rightarrow> nat \<Rightarrow> nat \<Rightarrow> 'd upload \<Rightarrow> 'd upload option" where
  "kernelupload_resumeverify dev line_buf sub_end line_len st =
     (if sub_end \<ge> line_len then Some (say resumeverify_usage st)
      else
        let (prog, st) = progress_get dev st in
        if p_valid prog \<noteq> 1 \<or> p_chunks_confirmed prog \<ge> p_chunk_count prog then
          Some (say [Str ''kernelupload: no resumable upload in progress\<newline>''] st)
        else
          let idx_start = sub_end + 1;
              idx_end = shell_find_space line_buf idx_start line_len;
              chunk_index = shell_parse_decimal line_buf idx_start idx_end in
          if chunk_index \<noteq> uint (p_chunks_confirmed prog) then Some (say (expect_chunk prog) st)
          else if idx_end \<ge> line_len then Some (say resumeverify_usage st)
          else
            let vsha_start = idx_end + 1;
                vsha_end = shell_find_space line_buf vsha_start line_len in
            if int vsha_end - int vsha_start \<noteq> 64 then Some (say bad_digest_len st)
            else
              let (vhex_status, decode_buf) =
                    shell_parse_hex_bytes line_buf vsha_start vsha_end (up_decode_buf st) 32;
                  st = st\<lparr>up_decode_buf := decode_buf\<rparr> in
              if vhex_status \<noteq> 0 then Some (say bad_digest_hex st)
              else resumeverify_checked dev prog chunk_index st)"

section \<open>Status and abort\<close>

definition kernelupload_resumestatus :: "'d kernel_io \<Rightarrow> 'd upload \<Rightarrow> 'd upload" where
  "kernelupload_resumestatus dev st =
     (let (prog, st) = progress_get dev st in
      if p_valid prog \<noteq> 1 then say [Str ''kernelupload: no resumable upload in progress\<newline>''] st
      else say [Str ''resumestatus: target_slot='', Str (slot_name (p_target_slot prog)),
        Str '' total_len='', Num (uint (p_total_len prog)), Str '' chunk_size='', Num (uint (p_chunk_size prog)),
        Str '' chunk_count='', Num (uint (p_chunk_count prog)),
        Str '' chunks_confirmed='', Num (uint (p_chunks_confirmed prog)),
        Str '' attempt_count='', Num (uint (p_attempt_count prog)), Str ''\<newline>''] st)"

definition kernelupload_resumeabort :: "'d kernel_io \<Rightarrow> 'd upload \<Rightarrow> 'd upload option" where
  "kernelupload_resumeabort dev st =
     do {
       let st = maintenance_mode_disengage (st\<lparr>up_stream_active := 0, up_active := 0, up_total_len := 0\<rparr>);
       (_, buf, d) \<leftarrow> kernelupload_chunk_progress_clear (io_read dev) (io_write dev) (up_chunk_record_buf st, sd st);
       Some (say [Str ''ok\<newline>''] (st\<lparr>up_chunk_record_buf := buf, sd := d\<rparr>)) }"

section \<open>The command\<close>

definition kernelupload_usage :: "out list" where
  "kernelupload_usage = [Str ''usage: kernelupload stream <len> | kernelupload commit <len> <sha256> | kernelupload resumebegin <len> <chunk_count> <sha256> | kernelupload resumechunk <idx> <len> | kernelupload resumeverify <idx> <sha256> | kernelupload resumestatus | kernelupload resumeabort | kernelupload abort\<newline>'']"

definition shell_dispatch_kernelupload ::
    "'d kernel_io \<Rightarrow> u32 \<Rightarrow> u8 list \<Rightarrow> nat \<Rightarrow> nat \<Rightarrow> 'd upload \<Rightarrow> 'd upload option" where
  "shell_dispatch_kernelupload dev uid line_buf cmd_end line_len st =
     (if uid \<noteq> 0 then Some (say [Str ''kernelupload: permission denied (root only)\<newline>''] st)
      else if cmd_end \<ge> line_len then Some (say kernelupload_usage st)
      else
        let sub_start = cmd_end + 1;
            sub_end = shell_find_space line_buf sub_start line_len;
            is = shell_word_matches line_buf sub_start sub_end in
        if is ''abort'' then Some (kernelupload_abort st)
        else if is ''chunk'' then kernelupload_chunk dev line_buf sub_end line_len st
        else if is ''stream'' then Some (kernelupload_stream dev line_buf sub_end line_len st)
        else if is ''resumebegin'' then kernelupload_resumebegin dev line_buf sub_end line_len st
        else if is ''resumechunk'' then kernelupload_resumechunk dev line_buf sub_end line_len st
        else if is ''resumeverify'' then kernelupload_resumeverify dev line_buf sub_end line_len st
        else if is ''resumestatus'' then Some (kernelupload_resumestatus dev st)
        else if is ''resumeabort'' then kernelupload_resumeabort dev st
        else if is ''commit'' then kernelupload_commit dev line_buf sub_end line_len st
        else Some (say kernelupload_usage st))"

end
