(* ===== verification/Upload_Proofs.thy ===== *)
theory Upload_Proofs
  imports Kernel_Upload
begin

text \<open>
  The lemmas of \<open>kernelupload\<close>: the hash context survives its 112 bytes, taking in bytes extends
  the image on the card and its hash, and reading an image back hashes what is on the card.
\<close>

section \<open>A working block device\<close>

text \<open>
  What the commands rely on. \<open>view\<close> is the contents of the card in a state of the driver: reads
  and the timer leave it alone and a successful read delivers it; a write changes no other
  block, and a successful one stores its block. Nothing is said of a failed write's own block.
\<close>

definition sd_sound :: "'d kernel_io \<Rightarrow> ('d \<Rightarrow> u64 \<Rightarrow> u8 list) \<Rightarrow> bool" where
  "sd_sound dev view \<longleftrightarrow>
     (\<forall>d b. length (view d b) = 512)
     \<and> (\<forall>b buf d s buf' d'. io_read dev b buf d = (s, buf', d') \<longrightarrow>
          view d' = view d \<and> length buf' = length buf \<and> (s = 0 \<longrightarrow> length buf = 512 \<longrightarrow> buf' = view d b))
     \<and> (\<forall>b out d s d'. io_write dev b out d = (s, d') \<longrightarrow>
          (\<forall>x. x \<noteq> b \<longrightarrow> view d' x = view d x) \<and> (s = 0 \<longrightarrow> length out = 512 \<longrightarrow> view d' b = out))
     \<and> (\<forall>d. view (snd (io_clo dev d)) = view d)"

lemma sd_soundD:
  assumes "sd_sound dev view"
  shows "length (view d b) = 512" and "view (snd (io_clo dev d)) = view d"
  using assms by (simp_all add: sd_sound_def)

lemma sd_sound_read:
  assumes "sd_sound dev view" and "io_read dev b buf d = (s, buf', d')"
  shows "view d' = view d" and "length buf' = length buf" and "s = 0 \<Longrightarrow> length buf = 512 \<Longrightarrow> buf' = view d b"
  using assms(1) [unfolded sd_sound_def, THEN conjunct2, THEN conjunct1, rule_format, OF assms(2)] by simp_all

lemma sd_sound_write:
  assumes "sd_sound dev view" and "io_write dev b out d = (s, d')"
  shows "x \<noteq> b \<Longrightarrow> view d' x = view d x" and "s = 0 \<Longrightarrow> length out = 512 \<Longrightarrow> view d' b = out"
  using assms(1) [unfolded sd_sound_def, THEN conjunct2, THEN conjunct2, THEN conjunct1, rule_format, OF assms(2)]
  by simp_all

section \<open>The stored hash context\<close>

lemma length_le_words [simp]: "length (concat (map le_bytes ws)) = 4 * length ws"
  by (induction ws) simp_all

lemma drop_four:
  "n + 4 \<le> length xs \<Longrightarrow> drop n xs = [xs ! n, xs ! (n + 1), xs ! (n + 2), xs ! (n + 3)] @ drop (n + 4) xs"
  by (simp add: Cons_nth_drop_Suc numeral_eq_Suc)

lemma store_words:
  "n \<le> length ws \<Longrightarrow> 4 * n \<le> length buf \<Longrightarrow>
     fold (\<lambda>i buf. write_u32_le buf (i * 4) (ws ! i)) [0..<n] buf
     = concat (map le_bytes (take n ws)) @ drop (4 * n) buf"
proof (induction n)
  case (Suc n)
  let ?pre = "concat (map le_bytes (take n ws))"
  obtain b0 b1 b2 b3 where b: "drop (4 * n) buf = [b0, b1, b2, b3] @ drop (4 * n + 4) buf"
    using drop_four [of "4 * n" buf] Suc.prems by auto
  have "fold (\<lambda>i buf. write_u32_le buf (i * 4) (ws ! i)) [0..<Suc n] buf
      = write_u32_le (?pre @ [b0, b1, b2, b3] @ drop (4 * n + 4) buf) (n * 4) (ws ! n)"
    using Suc b by simp
  also have "\<dots> = ?pre @ le_bytes (ws ! n) @ drop (4 * n + 4) buf"
    using Suc.prems(1) by (intro write_u32_le_middle) simp
  finally show ?case using Suc.prems(1) by (simp add: take_Suc_conv_app_nth add.commute)
qed simp

text \<open>The contexts that fit: the two counters are stored in 32 bits.\<close>

definition ctx_fits :: "Sha256Ctx \<Rightarrow> bool" where
  "ctx_fits ctx \<longleftrightarrow> length (ctx_h ctx) = 8 \<and> length (ctx_carry ctx) = 64
     \<and> ctx_carry_len ctx < 2 ^ 32 \<and> unat (ctx_total_len ctx) < 2 ^ 32"

lemma ctx_store_layout:
  assumes "ctx_fits ctx" and "length buf = 112"
  shows "kernelupload_ctx_store ctx buf = concat (map le_bytes (ctx_h ctx)) @ ctx_carry ctx
    @ le_bytes (of_nat (ctx_carry_len ctx)) @ le_bytes (ucast (ctx_total_len ctx)) @ drop 104 buf"
proof -
  let ?h = "concat (map le_bytes (ctx_h ctx))"
  have f: "length (ctx_h ctx) = 8" "length (ctx_carry ctx) = 64" using assms(1) by (simp_all add: ctx_fits_def)
  have h: "length ?h = 32" using f(1) by simp
  obtain b0 b1 b2 b3 where b: "drop 96 buf = [b0, b1, b2, b3] @ drop 100 buf"
    using that [of "buf ! 96" "buf ! 97" "buf ! 98" "buf ! 99"] drop_four [of 96 buf] assms(2) by simp
  obtain c0 c1 c2 c3 where c: "drop 100 buf = [c0, c1, c2, c3] @ drop 104 buf"
    using that [of "buf ! 100" "buf ! 101" "buf ! 102" "buf ! 103"] drop_four [of 100 buf] assms(2) by simp
  let ?mid = "take 64 (drop 32 buf)"
  have split: "drop 32 buf = ?mid @ [b0, b1, b2, b3] @ [c0, c1, c2, c3] @ drop 104 buf" "length ?mid = 64"
    using append_take_drop_id [of 64 "drop 32 buf"] b c assms(2) by simp_all
  have "fold (\<lambda>i buf. write_u32_le buf (i * 4) (ctx_h ctx ! i)) [0..<8] buf
      = ?h @ ?mid @ [b0, b1, b2, b3] @ [c0, c1, c2, c3] @ drop 104 buf"
    using store_words [of 8 "ctx_h ctx" buf] f(1) assms(2) split(1) by simp
  moreover have "fold (\<lambda>j buf. buf[32 + j := ctx_carry ctx ! j]) [0..<64]
      (?h @ ?mid @ [b0, b1, b2, b3] @ [c0, c1, c2, c3] @ drop 104 buf)
      = (?h @ ctx_carry ctx) @ [b0, b1, b2, b3] @ [c0, c1, c2, c3] @ drop 104 buf"
    using fold_copy_segment [of 32 ?h ?mid 64 "ctx_carry ctx"] h f(2) split(2) by simp
  moreover have "write_u32_le ((?h @ ctx_carry ctx) @ [b0, b1, b2, b3] @ [c0, c1, c2, c3] @ drop 104 buf) 96 x
      = (?h @ ctx_carry ctx @ le_bytes x) @ [c0, c1, c2, c3] @ drop 104 buf" for x
    using write_u32_le_middle [of 96 "?h @ ctx_carry ctx" b0 b1 b2 b3] h f(2) by simp
  moreover have "write_u32_le ((?h @ ctx_carry ctx @ le_bytes x) @ [c0, c1, c2, c3] @ drop 104 buf) 100 y
      = ?h @ ctx_carry ctx @ le_bytes x @ le_bytes y @ drop 104 buf" for x y
    using write_u32_le_middle [of 100 "?h @ ctx_carry ctx @ le_bytes x" c0 c1 c2 c3] h f(2) by simp
  ultimately show ?thesis
    by (simp only: kernelupload_ctx_store_def Let_def buf_write_u32_le kbuf_write_byte_def byte_ucast)
qed

lemma read_words:
  "i < length ws \<Longrightarrow> read_u32_le (concat (map le_bytes ws) @ rest) (i * 4) = ws ! i"
proof (induction ws arbitrary: i)
  case (Cons w ws)
  show ?case
  proof (cases i)
    case 0
    then show ?thesis using read_u32_le_at [of 0 "[]" w] by simp
  next
    case (Suc j)
    have "read_u32_le (le_bytes w @ xs) (4 + k) = read_u32_le xs k" for xs k
      by (simp add: read_u32_le_def le_bytes_def numeral_eq_Suc)
    then show ?thesis using Suc Cons by simp
  qed
qed simp

lemma ctx_load_store:
  assumes "ctx_fits ctx" and "length buf = 112"
  shows "kernelupload_ctx_load (kernelupload_ctx_store ctx buf) = ctx"
    and "length (kernelupload_ctx_store ctx buf) = 112"
proof -
  let ?h = "concat (map le_bytes (ctx_h ctx))"
  note f = assms(1) [unfolded ctx_fits_def]
  have h: "length ?h = 32" using f by simp
  let ?s = "?h @ ctx_carry ctx @ le_bytes (of_nat (ctx_carry_len ctx))
    @ le_bytes (ucast (ctx_total_len ctx)) @ drop 104 buf"
  have "map (\<lambda>i. read_u32_le ?s (i * 4)) [0..<8] = ctx_h ctx"
    using f by (intro nth_equalityI) (simp_all add: read_words)
  moreover have "map (\<lambda>j. ?s ! (32 + j)) [0..<64] = ctx_carry ctx"
    using f h by (intro map_nth_segment) simp_all
  moreover have "read_u32_le ?s 96 = of_nat (ctx_carry_len ctx)"
    using read_u32_le_at [of 96 "?h @ ctx_carry ctx"] f h by simp
  moreover have "read_u32_le ?s 100 = ucast (ctx_total_len ctx)"
    using read_u32_le_at [of 100 "?h @ ctx_carry ctx @ le_bytes (of_nat (ctx_carry_len ctx))"] f h by simp
  moreover have "unat (of_nat (ctx_carry_len ctx) :: u32) = ctx_carry_len ctx"
    using f by (simp add: unat_of_nat)
  moreover have "(ucast (ucast (ctx_total_len ctx) :: u32) :: u64) = ctx_total_len ctx"
    using f by (simp add: word_unat_eq_iff unsigned_ucast_eq unsigned_take_bit_eq take_bit_nat_eq_self)
  ultimately show "kernelupload_ctx_load (kernelupload_ctx_store ctx buf) = ctx"
    unfolding ctx_store_layout [OF assms]
    by (simp only: kernelupload_ctx_load_def buf_read_u32_le kbuf_read_byte_def byte_ucast) simp
  show "length (kernelupload_ctx_store ctx buf) = 112"
    using f h assms(2) by (simp add: ctx_store_layout [OF assms])
qed

lemma ctx_absorbed_fits: "ctx_absorbed ctx msg \<Longrightarrow> length msg < 2 ^ 32 \<Longrightarrow> ctx_fits ctx"
  by (auto simp: ctx_absorbed_def ctx_repr_def ctx_fits_def unat_of_nat)

lemma hash_block:
  assumes "ctx_absorbed ctx msg" and "length block = 512" and "n \<le> 512"
  shows "ctx_absorbed (hash_block ctx block n) (msg @ take n block)"
proof -
  let ?c1 = "map (\<lambda>i. ucast (kbuf_read_byte block i)) [0..<256] :: u8 list"
  let ?c2 = "map (\<lambda>i. ucast (kbuf_read_byte block (256 + i))) [0..<256] :: u8 list"
  have c1: "?c1 = take 256 block"
    using map_nth_take [of 256 block] assms(2) by (simp add: kbuf_read_byte_def)
  have c2: "?c2 = drop 256 block"
    using map_nth_segment [of 256 "take 256 block" 256 "drop 256 block" "[]"] assms(2)
    by (simp add: kbuf_read_byte_def)
  have first: "ctx_absorbed (kernel_sha256_update ctx ?c1 m) (msg @ take m (take 256 block))" if "m \<le> 256" for m
    using ctx_absorbed_update [OF assms(1), of m ?c1] that assms(2) c1 by simp
  show ?thesis
  proof (cases "n > 256")
    case True
    have "take 256 block @ take (n - 256) (drop 256 block) = take n block"
      using take_add [of 256 "n - 256" block] True by simp
    then show ?thesis
      using ctx_absorbed_update [OF first [of 256], of "n - 256" ?c2] True assms(2,3) c2
      by (simp add: hash_block_def Let_def)
  next
    case False
    then show ?thesis using first [of n] by (cases "n = 256") (simp_all add: hash_block_def Let_def)
  qed
qed

section \<open>Taking in bytes\<close>

text \<open>What \<open>kernelupload_accumulate_bytes\<close> may change.\<close>

definition touched :: "'d upload \<Rightarrow> 'd upload \<Rightarrow> bool" where
  "touched st st' \<longleftrightarrow> st' = st\<lparr>sd := sd st', up_block_buf := up_block_buf st',
     up_sd_write_worst_us := up_sd_write_worst_us st'\<rparr>"

lemma touched_refl [simp]: "touched st st"
  by (simp add: touched_def)

lemma touched_put [simp]:
  "touched st (st'\<lparr>sd := d\<rparr>) \<longleftrightarrow> touched st st'"
  "touched st (st'\<lparr>up_block_buf := buf\<rparr>) \<longleftrightarrow> touched st st'"
  "touched st (st'\<lparr>up_sd_write_worst_us := w\<rparr>) \<longleftrightarrow> touched st st'"
  by (cases st; cases st'; auto simp: touched_def)+

lemma touched_trans: "touched a b \<Longrightarrow> touched b c \<Longrightarrow> touched a c"
  by (cases a; cases b; cases c) (simp add: touched_def)

lemma timed_writeE:
  assumes "timed_write dev b st = Some (s, st')"
  obtains d0 d1 w where "d0 = snd (io_clo dev (sd st))" "io_write dev b (up_block_buf st) d0 = (s, d1)"
    "st' = st\<lparr>sd := snd (io_clo dev d1), up_sd_write_worst_us := w\<rparr>"
proof -
  obtain t0 d0 where c0: "io_clo dev (sd st) = (t0, d0)" by fastforce
  obtain s1 d1 where w: "io_write dev b (up_block_buf st) d0 = (s1, d1)" by fastforce
  obtain t1 d2 where c1: "io_clo dev d1 = (t1, d2)" by fastforce
  let ?w = "if t1 - t0 > up_sd_write_worst_us st then t1 - t0 else up_sd_write_worst_us st"
  have "s1 = s \<and> st' = st\<lparr>sd := d2, up_sd_write_worst_us := ?w\<rparr>"
    using assms c0 w c1 by (cases st) (auto simp: timed_write_def timer_clo_def Let_def split: if_splits)
  then show ?thesis using that [of d0 d1 ?w] c0 c1 w by simp
qed

lemma accumulate_frame:
  "accumulate_loop dev base bs ctx tot st = Some (ok, ctx', tot', st') \<Longrightarrow> touched st st'"
proof (induction bs arbitrary: ctx tot st)
  case (Cons b bs)
  let ?st = "st\<lparr>up_block_buf := kbuf_write_byte (up_block_buf st) (tot mod 512) b\<rparr>"
  have t: "touched st ?st" by simp
  show ?case
  proof (cases "(tot + 1) mod 512 = 0")
    case True
    with Cons.prems obtain s st1 where w: "timed_write dev (base + of_nat ((tot + 1) div 512 - 1)) ?st = Some (s, st1)"
        and rest: "st1 = st' \<or> accumulate_loop dev base bs (hash_block ctx (up_block_buf st1) 512) (tot + 1) st1
          = Some (ok, ctx', tot', st')"
      by (auto simp: Let_def bind_eq_Some_conv split: if_splits)
    from w have "touched st st1" by (auto elim: timed_writeE)
    with rest Cons.IH show ?thesis by (blast intro: touched_trans)
  next
    case False
    then show ?thesis using Cons.prems Cons.IH touched_trans [OF t] by (fastforce simp: Let_def)
  qed
qed simp

text \<open>
  \<open>msg\<close> is the part of the image that has come in: its full blocks are on the card and in the
  hash, the rest is in the block buffer.
\<close>

definition full_part :: "u8 list \<Rightarrow> u8 list" where
  "full_part msg = take (length msg div 512 * 512) msg"

definition blocks_on :: "(u64 \<Rightarrow> u8 list) \<Rightarrow> u64 \<Rightarrow> u8 list \<Rightarrow> bool" where
  "blocks_on v base msg \<longleftrightarrow> (\<forall>k < length msg div 512. v (base + of_nat k) = take 512 (drop (k * 512) msg))"

definition taken_in :: "('d \<Rightarrow> u64 \<Rightarrow> u8 list) \<Rightarrow> u64 \<Rightarrow> u8 list \<Rightarrow> Sha256Ctx \<Rightarrow> 'd upload \<Rightarrow> bool" where
  "taken_in view base msg ctx st \<longleftrightarrow>
     length (up_block_buf st) = 512 \<and> ctx_absorbed ctx (full_part msg)
     \<and> take (length msg mod 512) (up_block_buf st) = drop (length msg div 512 * 512) msg
     \<and> blocks_on (view (sd st)) base msg"

lemma full_arith:
  fixes n :: nat
  assumes "Suc n mod 512 = 0"
  shows "n mod 512 = 511" "Suc n div 512 = Suc (n div 512)" "n div 512 * 512 = n - 511" "511 \<le> n"
proof -
  show m: "n mod 512 = 511" using assms by (simp add: mod_Suc split: if_splits)
  show d: "Suc n div 512 = Suc (n div 512)" using assms by (simp add: div_Suc)
  have "n div 512 * 512 + n mod 512 = n" by simp
  with m show "n div 512 * 512 = n - 511" "511 \<le> n" by linarith+
qed

lemma part_arith:
  fixes n :: nat
  assumes "Suc n mod 512 \<noteq> 0"
  shows "Suc n div 512 = n div 512" "Suc n mod 512 = Suc (n mod 512)"
  using assms by (simp_all add: div_Suc mod_Suc split: if_splits)

lemma below_full: "k < n div 512 \<Longrightarrow> 512 + k * 512 \<le> n div 512 * 512" for n :: nat
  by (metis Suc_leI mult_Suc mult_le_mono1)

lemma block_number_inj:
  assumes "i < 2 ^ 32" and "j < 2 ^ 32"
  shows "(base :: u64) + of_nat i = base + of_nat j \<longleftrightarrow> i = j"
proof -
  have "unat (of_nat n :: u64) = n" if "n < 2 ^ 32" for n using that by (simp add: unat_of_nat)
  with assms show ?thesis by (metis add_left_cancel)
qed

lemma taken_in_byte:
  assumes "taken_in view base msg ctx st" and "Suc (length msg) mod 512 \<noteq> 0"
  shows "taken_in view base (msg @ [b]) ctx
    (st\<lparr>up_block_buf := kbuf_write_byte (up_block_buf st) (length msg mod 512) (ucast b)\<rparr>)"
proof -
  note d = part_arith [OF assms(2)]
  have le: "length msg div 512 * 512 \<le> length msg" by (rule div_times_less_eq_dividend)
  have "take (Suc (length msg mod 512)) ((up_block_buf st)[length msg mod 512 := b])
      = drop (length msg div 512 * 512) msg @ [b]"
    using assms(1) by (simp add: taken_in_def take_Suc_update)
  moreover have "take 512 (drop (k * 512) (msg @ [b])) = take 512 (drop (k * 512) msg)"
    if "k < length msg div 512" for k
    using below_full [OF that] le by simp
  moreover have "full_part (msg @ [b]) = full_part msg" using le by (simp add: full_part_def d(1))
  ultimately show ?thesis
    using assms(1) le by (simp add: taken_in_def d blocks_on_def kbuf_write_byte_def)
qed

lemma taken_in_block:
  assumes sound: "sd_sound dev view" and inv: "taken_in view base msg ctx st"
    and full: "Suc (length msg) mod 512 = 0" and len: "length msg < 2 ^ 32"
    and st1: "st1 = st\<lparr>up_block_buf := kbuf_write_byte (up_block_buf st) (length msg mod 512) (ucast b)\<rparr>"
    and wr: "timed_write dev (base + of_nat (length msg div 512)) st1 = Some (0, st2)"
  shows "taken_in view base (msg @ [b]) (hash_block ctx (up_block_buf st2) 512) st2"
proof -
  note d = full_arith [OF full]
  let ?n = "length msg div 512"
  from inv have buf: "length (up_block_buf st) = 512" "take 511 (up_block_buf st) = drop (?n * 512) msg"
    by (simp_all add: taken_in_def d(1))
  have "up_block_buf st1 = take 511 (up_block_buf st) @ [b]"
    using buf(1) take_Suc_update [of 511 "up_block_buf st" b] by (simp add: st1 kbuf_write_byte_def d(1))
  then have block: "up_block_buf st1 = drop (?n * 512) (msg @ [b])" "length (up_block_buf st1) = 512"
    using buf d(3,4) by simp_all
  obtain d0 d1 w where w: "d0 = snd (io_clo dev (sd st1))" "io_write dev (base + of_nat ?n) (up_block_buf st1) d0 = (0, d1)"
      "st2 = st1\<lparr>sd := snd (io_clo dev d1), up_sd_write_worst_us := w\<rparr>"
    using wr by (rule timed_writeE)
  have same: "view (sd st2) x = view (sd st) x" if "x \<noteq> base + of_nat ?n" for x
    using sd_sound_write(1) [OF sound w(2) that] sd_soundD(2) [OF sound] by (simp add: w(1,3) st1)
  have new: "view (sd st2) (base + of_nat ?n) = up_block_buf st1"
    using sd_sound_write(2) [OF sound w(2) refl block(2)] sd_soundD(2) [OF sound] by (simp add: w(3))
  have "view (sd st2) (base + of_nat k) = take 512 (drop (k * 512) (msg @ [b]))" if "k < Suc ?n" for k
  proof (cases "k = ?n")
    case True
    then show ?thesis using block new by simp
  next
    case False
    with that have k: "k < ?n" by simp
    moreover from k have "base + of_nat k \<noteq> base + of_nat ?n"
      using len block_number_inj [of k ?n base] by simp
    ultimately show ?thesis
      using below_full [OF k] inv d(3,4) same [of "base + of_nat k"] by (simp add: taken_in_def blocks_on_def)
  qed
  then have "blocks_on (view (sd st2)) base (msg @ [b])" by (simp add: blocks_on_def d(2))
  moreover have all: "Suc (length msg) div 512 * 512 = Suc (length msg)" using d(2-4) by simp
  moreover have "full_part (msg @ [b]) = full_part msg @ take 512 (up_block_buf st2)"
    using all d(3,4) block w(3) by (simp add: full_part_def)
  moreover have "ctx_absorbed (hash_block ctx (up_block_buf st2) 512) (full_part msg @ take 512 (up_block_buf st2))"
    using inv block(2) w(3) by (intro hash_block) (simp_all add: taken_in_def)
  ultimately show ?thesis
    unfolding taken_in_def using block(2) w(3) full by simp
qed

lemma accumulate_step:
  "accumulate_loop dev base (b # bs) ctx tot st =
     (let st1 = st\<lparr>up_block_buf := kbuf_write_byte (up_block_buf st) (tot mod 512) b\<rparr> in
      if Suc tot mod 512 = 0 then do {
        (s, st2) \<leftarrow> timed_write dev (base + of_nat (tot div 512)) st1;
        if s \<noteq> 0 then Some (False, ctx, Suc tot, st2)
        else accumulate_loop dev base bs (hash_block ctx (up_block_buf st2) 512) (Suc tot) st2 }
      else accumulate_loop dev base bs ctx (Suc tot) st1)"
  using full_arith(2) [of tot] by (simp add: Let_def)

declare accumulate_loop.simps(2) [simp del]

lemma accumulate_taken_in:
  assumes "sd_sound dev view" and "taken_in view base msg ctx st" and "length msg + length bytes < 2 ^ 32"
    and "accumulate_loop dev base (map ucast bytes) ctx (length msg) st = Some (True, ctx', tot', st')"
  shows "taken_in view base (msg @ bytes) ctx' st' \<and> tot' = length (msg @ bytes)"
  using assms(2-)
proof (induction bytes arbitrary: msg ctx st)
  case (Cons b bytes)
  let ?st1 = "st\<lparr>up_block_buf := kbuf_write_byte (up_block_buf st) (length msg mod 512) (ucast b)\<rparr>"
  have len: "length (msg @ [b]) + length bytes < 2 ^ 32" using Cons.prems(2) by simp
  show ?case
  proof (cases "Suc (length msg) mod 512 = 0")
    case True
    with Cons.prems(3) obtain st2 where w: "timed_write dev (base + of_nat (length msg div 512)) ?st1 = Some (0, st2)"
        and rest: "accumulate_loop dev base (map ucast bytes) (hash_block ctx (up_block_buf st2) 512)
          (Suc (length msg)) st2 = Some (True, ctx', tot', st')"
      unfolding list.map accumulate_step by (auto simp: Let_def bind_eq_Some_conv split: if_splits)
    have "taken_in view base (msg @ [b]) (hash_block ctx (up_block_buf st2) 512) st2"
      using Cons.prems(2) by (intro taken_in_block [OF assms(1) Cons.prems(1) True _ refl w]) simp
    from Cons.IH [OF this len] rest show ?thesis by simp
  next
    case False
    from Cons.IH [OF taken_in_byte [OF Cons.prems(1) False] len] Cons.prems(3) False show ?thesis
      unfolding list.map accumulate_step by (simp add: Let_def)
  qed
qed simp

text \<open>Only the blocks that fill up are written.\<close>

lemma accumulate_others:
  assumes "sd_sound dev view" and "accumulate_loop dev base bs ctx tot st = Some (ok, ctx', tot', st')"
    and "\<And>k. tot div 512 \<le> k \<Longrightarrow> k < (tot + length bs) div 512 \<Longrightarrow> x \<noteq> base + of_nat k"
  shows "view (sd st') x = view (sd st) x"
  using assms(2,3)
proof (induction bs arbitrary: ctx tot st)
  case (Cons b bs)
  let ?st1 = "st\<lparr>up_block_buf := kbuf_write_byte (up_block_buf st) (tot mod 512) b\<rparr>"
  have mono: "tot div 512 \<le> Suc tot div 512" by (rule div_le_mono) simp
  show ?case
  proof (cases "Suc tot mod 512 = 0")
    case True
    with Cons.prems(1) obtain s st2 where w: "timed_write dev (base + of_nat (tot div 512)) ?st1 = Some (s, st2)"
        and rest: "st2 = st' \<or> accumulate_loop dev base bs (hash_block ctx (up_block_buf st2) 512) (Suc tot) st2
          = Some (ok, ctx', tot', st')"
      unfolding accumulate_step by (auto simp: Let_def bind_eq_Some_conv split: if_splits)
    have "Suc (tot div 512) \<le> (tot + length (b # bs)) div 512"
      using full_arith(2) [OF True] div_le_mono [of "Suc tot" "tot + length (b # bs)" 512] by simp
    then have x: "x \<noteq> base + of_nat (tot div 512)" by (intro Cons.prems(2)) simp_all
    have "view (sd st2) x = view (sd st) x"
      using w sd_sound_write(1) [OF assms(1) _ x] sd_soundD(2) [OF assms(1)] by (auto elim!: timed_writeE)
    moreover have "view (sd st') x = view (sd st2) x"
      using rest
    proof
      assume "accumulate_loop dev base bs (hash_block ctx (up_block_buf st2) 512) (Suc tot) st2 = Some (ok, ctx', tot', st')"
      then show ?thesis
        by (rule Cons.IH) (use mono Cons.prems(2) order_trans in \<open>auto simp del: add_left_cancel\<close>)
    qed simp
    ultimately show ?thesis by simp
  next
    case False
    then have "accumulate_loop dev base bs ctx (Suc tot) ?st1 = Some (ok, ctx', tot', st')"
      using Cons.prems(1) unfolding accumulate_step by (simp add: Let_def)
    then have "view (sd st') x = view (sd ?st1) x"
      by (rule Cons.IH) (use mono Cons.prems(2) order_trans in \<open>auto simp del: add_left_cancel\<close>)
    then show ?thesis by simp
  qed
qed simp

text \<open>The state between two calls: the context is the stored one.\<close>

definition upload_holds :: "('d \<Rightarrow> u64 \<Rightarrow> u8 list) \<Rightarrow> u8 list \<Rightarrow> 'd upload \<Rightarrow> bool" where
  "upload_holds view msg st \<longleftrightarrow>
     taken_in view (slot_base_block (up_target_slot st) + ucast (up_chunk_base_block_offset st)) msg
       (kernelupload_ctx_load (up_sha_ctx st)) st
     \<and> length (up_sha_ctx st) = 112 \<and> up_total_len st = of_nat (length msg) \<and> length msg < 2 ^ 32"

lemma taken_in_cong:
  "sd st' = sd st \<Longrightarrow> up_block_buf st' = up_block_buf st \<Longrightarrow> taken_in view base msg ctx st' = taken_in view base msg ctx st"
  by (simp add: taken_in_def)

lemma touchedD:
  assumes "touched st st'"
  shows "up_target_slot st' = up_target_slot st" "up_sha_ctx st' = up_sha_ctx st"
    "up_chunk_base_block_offset st' = up_chunk_base_block_offset st" "up_decode_buf st' = up_decode_buf st"
    "up_record_buf st' = up_record_buf st" "up_sd_scratch st' = up_sd_scratch st" "up_active st' = up_active st"
    "printed st' = printed st" "up_chunk_record_buf st' = up_chunk_record_buf st"
  using assms by (cases st; cases st'; simp add: touched_def)+

lemma accumulate_holds:
  assumes "sd_sound dev view" and "upload_holds view msg st" and "count \<le> length src"
    and "length msg + count < 2 ^ 32"
    and "kernelupload_accumulate_bytes dev src count st = Some (0, st')"
  shows "upload_holds view (msg @ take count src) st'"
    and "up_target_slot st' = up_target_slot st"
    and "up_chunk_base_block_offset st' = up_chunk_base_block_offset st"
proof -
  let ?base = "slot_base_block (up_target_slot st) + ucast (up_chunk_base_block_offset st)"
  let ?ctx = "kernelupload_ctx_load (up_sha_ctx st)" and ?bytes = "take count src"
  note h = assms(2) [unfolded upload_holds_def]
  have src: "map (kbuf_read_byte src) [0..<count] = map ucast ?bytes"
    unfolding map_nth_take [OF assms(3), symmetric] by (simp add: kbuf_read_byte_def)
  have tot: "unat (up_total_len st) = length msg" using h by (simp add: unat_of_nat)
  obtain ctx' tot' st1 where run: "accumulate_loop dev ?base (map ucast ?bytes) ?ctx (length msg) st = Some (True, ctx', tot', st1)"
      and st': "st' = st1\<lparr>up_sha_ctx := kernelupload_ctx_store ctx' (up_sha_ctx st1), up_total_len := of_nat tot'\<rparr>"
    using assms(5) by (auto simp: kernelupload_accumulate_bytes_def Let_def src tot bind_eq_Some_conv split: if_splits)
  have len: "length msg + length ?bytes < 2 ^ 32" using assms(3,4) by simp
  have t: "taken_in view ?base (msg @ ?bytes) ctx' st1" "tot' = length (msg @ ?bytes)"
    using accumulate_taken_in [OF assms(1) _ len run] h by simp_all
  note f = touchedD [OF accumulate_frame [OF run]]
  have "ctx_fits ctx'"
    using t(1) len by (intro ctx_absorbed_fits [of _ "full_part (msg @ ?bytes)"]) (simp_all add: taken_in_def full_part_def)
  then have "kernelupload_ctx_load (up_sha_ctx st') = ctx'" "length (up_sha_ctx st') = 112"
    using f(2) h by (simp_all add: st' ctx_load_store)
  moreover have "taken_in view ?base (msg @ ?bytes) ctx' st'"
    using t(1) unfolding st' by (simp add: taken_in_def)
  moreover have "up_total_len st' = of_nat (length (msg @ ?bytes))" "length (msg @ ?bytes) < 2 ^ 32"
    using t(2) len by (simp_all add: st')
  moreover have "up_target_slot st' = up_target_slot st"
      "up_chunk_base_block_offset st' = up_chunk_base_block_offset st"
    using f by (simp_all add: st')
  ultimately show "upload_holds view (msg @ take count src) st'"
    unfolding upload_holds_def by simp
  show "up_target_slot st' = up_target_slot st" "up_chunk_base_block_offset st' = up_chunk_base_block_offset st"
    using f by (simp_all add: st')
qed

section \<open>Reading back\<close>

text \<open>The first \<open>len\<close> bytes on the card from block \<open>base\<close> on.\<close>

definition card_image :: "(u64 \<Rightarrow> u8 list) \<Rightarrow> u64 \<Rightarrow> nat \<Rightarrow> u8 list" where
  "card_image v base len = take len (concat (map (\<lambda>k. v (base + of_nat k)) [0..<block_count len]))"

lemma concat_blocks_length:
  "\<forall>k. length (f k) = 512 \<Longrightarrow> length (concat (map f ks)) = 512 * length ks"
  by (induction ks) simp_all

lemma block_count_pos:
  assumes "0 < len"
  shows "block_count len = Suc ((len - 1) div 512)"
    and "len - 512 * ((len - 1) div 512) = (if len mod 512 = 0 then 512 else len mod 512)"
    and "512 * ((len - 1) div 512) < len"
proof -
  obtain n where n: "len = Suc n" using assms by (cases len) auto
  show "block_count len = Suc ((len - 1) div 512)"
    using div_add_self2 [of 512 n] by (simp add: block_count_def n)
  have eq: "512 * (n div 512) + n mod 512 = n" by simp
  then show "512 * ((len - 1) div 512) < len" unfolding n by (simp add: le_imp_less_Suc)
  from eq have "Suc n - 512 * (n div 512) = Suc (n mod 512)" by linarith
  then show "len - 512 * ((len - 1) div 512) = (if len mod 512 = 0 then 512 else len mod 512)"
    by (simp add: n mod_Suc)
qed

lemma image_pieces:
  assumes "0 < len" and "\<forall>k. length (f k) = 512"
  shows "concat (map (\<lambda>rb. take (valid_in_block (block_count len) (len mod 512) rb) (f rb)) [0..<block_count len])
    = take len (concat (map f [0..<block_count len]))"
proof -
  note b = block_count_pos [OF assms(1)]
  let ?m = "(len - 1) div 512" and ?last = "if len mod 512 = 0 then 512 else len mod 512"
  let ?g = "\<lambda>rb. take (valid_in_block (block_count len) (len mod 512) rb) (f rb)"
  have "map ?g [0..<?m] = map f [0..<?m]"
    using assms(2) by (intro map_cong) (auto simp: valid_in_block_def b(1))
  moreover have "?g ?m = take ?last (f ?m)" by (simp add: valid_in_block_def b(1))
  moreover have "length (concat (map f [0..<?m])) = 512 * ?m"
    using concat_blocks_length [OF assms(2), of "[0..<?m]"] by simp
  then have "take len (concat (map f [0..<?m]) @ f ?m) = concat (map f [0..<?m]) @ take ?last (f ?m)"
    using b(2,3) by simp
  moreover have "[0..<block_count len] = [0..<?m] @ [?m]" by (simp add: b(1))
  ultimately show ?thesis by (simp only: map_append concat_append list.map concat.simps append_Nil2)
qed

lemma readback_keeps:
  assumes "sd_sound dev view" and "readback_loop dev base n p rbs ctx st = (r, st')"
  shows "view (sd st') = view (sd st)" and "touched st st'"
    and "length (up_block_buf st') = length (up_block_buf st)"
proof -
  have "view (sd st') = view (sd st) \<and> touched st st' \<and> length (up_block_buf st') = length (up_block_buf st)"
    using assms(2)
  proof (induction rbs arbitrary: ctx st)
    case (Cons rb rbs)
    obtain s buf d where rd: "io_read dev (base + of_nat rb) (up_block_buf st) (sd st) = (s, buf, d)"
      by (metis prod_cases3)
    let ?st = "st\<lparr>up_block_buf := buf, sd := d\<rparr>"
    note k = sd_sound_read(1,2) [OF assms(1) rd]
    from Cons.prems rd have "st' = ?st \<or> readback_loop dev base n p rbs
        (hash_block ctx buf (valid_in_block n p rb)) ?st = (r, st')"
      by (auto simp: Let_def split: if_splits)
    then show ?case
    proof
      assume "readback_loop dev base n p rbs (hash_block ctx buf (valid_in_block n p rb)) ?st = (r, st')"
      from Cons.IH [OF this] k show ?thesis by (auto intro: touched_trans [of st ?st])
    qed (use k in simp)
  qed simp
  then show "view (sd st') = view (sd st)" and "touched st st'"
    and "length (up_block_buf st') = length (up_block_buf st)" by simp_all
qed

lemma readback_spec:
  assumes "sd_sound dev view" and "p < 512"
    and "readback_loop dev base n p rbs ctx st = (Some ctx', st')"
    and "ctx_absorbed ctx msg" and "length (up_block_buf st) = 512"
  shows "ctx_absorbed ctx' (msg @ concat (map (\<lambda>rb. take (valid_in_block n p rb) (view (sd st) (base + of_nat rb))) rbs))"
  using assms(3-)
proof (induction rbs arbitrary: ctx st msg)
  case (Cons rb rbs)
  obtain s buf d where rd: "io_read dev (base + of_nat rb) (up_block_buf st) (sd st) = (s, buf, d)"
    by (metis prod_cases3)
  let ?st = "st\<lparr>up_block_buf := buf, sd := d\<rparr>"
  from Cons.prems(1) rd have s: "s = 0" and rest: "readback_loop dev base n p rbs
      (hash_block ctx buf (valid_in_block n p rb)) ?st = (Some ctx', st')"
    by (auto simp: Let_def split: if_splits)
  note sound = sd_sound_read [OF assms(1) rd]
  have buf: "buf = view (sd st) (base + of_nat rb)" "length buf = 512"
    using sound(2,3) s Cons.prems(3) by simp_all
  have "ctx_absorbed (hash_block ctx buf (valid_in_block n p rb)) (msg @ take (valid_in_block n p rb) buf)"
    using Cons.prems(2) buf(2) assms(2) by (intro hash_block) (simp_all add: valid_in_block_def)
  from Cons.IH [OF rest this] buf sound(1) show ?case by simp
qed simp

lemma equal_digest:
  assumes "length digest = 32" and "32 \<le> length (up_sd_scratch st)" and "32 \<le> length buf"
  shows "sha256_bytes_equal (up_sd_scratch (put_digest digest st)) buf 32 \<longleftrightarrow> digest = take 32 buf"
proof -
  let ?s = "up_sd_scratch (put_digest digest st)"
  have s: "?s ! i = digest ! i" if "i < 32" for i
    using that assms(2) nth_fold_update [of 0 "\<lambda>i. digest ! i" 32 "up_sd_scratch st" i]
    by (simp add: put_digest_def kbuf_write_byte_def)
  have inj: "(ucast x :: u32) = ucast y \<longleftrightarrow> x = y" for x y :: u8
    using byte_ucast by metis
  have "sha256_bytes_equal ?s buf 32 \<longleftrightarrow> (\<forall>i < 32. digest ! i = buf ! i)"
    using s by (auto simp: sha256_bytes_equal_def kbuf_read_byte_def inj)
  also have "\<dots> \<longleftrightarrow> digest = take 32 buf"
    using assms(1,3) by (auto simp: list_eq_iff_nth_eq)
  finally show ?thesis .
qed

lemma put_digest_fields [simp]:
  "sd (put_digest x st) = sd st" "up_decode_buf (put_digest x st) = up_decode_buf st"
  "up_block_buf (put_digest x st) = up_block_buf st" "up_target_slot (put_digest x st) = up_target_slot st"
  "up_record_buf (put_digest x st) = up_record_buf st" "up_chunk_record_buf (put_digest x st) = up_chunk_record_buf st"
  "printed (put_digest x st) = printed st" "length (up_sd_scratch (put_digest x st)) = length (up_sd_scratch st)"
  by (simp_all add: put_digest_def kbuf_write_byte_def)

end
