(* ===== verification/Upload_Commit.thy ===== *)
theory Upload_Commit
  imports Upload_Proofs Kernel_Protocol
begin

text \<open>
  \<open>kernelupload commit\<close>: a slot is marked ready only where the image on the card has the claimed
  digest, and an image that came in whole, with its digest, is accepted.
\<close>

section \<open>The image\<close>

text \<open>The buffers have the sizes that \<open>boot/kernelupload_state.S\<close> reserves.\<close>

definition up_wf :: "'d upload \<Rightarrow> bool" where
  "up_wf st \<longleftrightarrow> length (up_block_buf st) = 512 \<and> length (up_sha_ctx st) = 112
     \<and> length (up_decode_buf st) = 48 \<and> length (up_record_buf st) = 512
     \<and> length (up_chunk_record_buf st) = 512 \<and> 32 \<le> length (up_sd_scratch st)"

lemma length_zero_fold [simp]: "length (fold (\<lambda>i buf. kbuf_write_byte buf i 0) is buf) = length buf"
  by (induction "is" arbitrary: buf) (simp_all add: kbuf_write_byte_def)

lemma last_block_spec:
  assumes "sd_sound dev view" and "length (up_block_buf st) = 512"
    and "commit_last_block dev base len ctx st = (r, st')"
  shows "touched st st'" and "length (up_block_buf st') = 512"
    and "x \<noteq> base + of_nat (len div 512) \<Longrightarrow> view (sd st') x = view (sd st) x"
proof -
  let ?buf = "fold (\<lambda>i buf. kbuf_write_byte buf i 0) [len mod 512..<512] (up_block_buf st)"
  obtain s d where w: "io_write dev (base + of_nat (len div 512)) ?buf (sd st) = (s, d)" by fastforce
  note wr = sd_sound_write(1) [OF assms(1) w]
  show "touched st st'" "length (up_block_buf st') = 512"
    "x \<noteq> base + of_nat (len div 512) \<Longrightarrow> view (sd st') x = view (sd st) x"
    using assms(2,3) w wr by (auto simp: commit_last_block_def Let_def split: if_splits)
qed

text \<open>What a rejected image leaves: of the card at most the padded last block has changed.\<close>

definition same_but_last :: "('d \<Rightarrow> u64 \<Rightarrow> u8 list) \<Rightarrow> u64 \<Rightarrow> nat \<Rightarrow> 'd upload \<Rightarrow> 'd upload \<Rightarrow> bool" where
  "same_but_last view base len st st' \<longleftrightarrow>
     (\<forall>x. x \<noteq> base + of_nat (len div 512) \<longrightarrow> view (sd st') x = view (sd st) x)
     \<and> up_target_slot st' = up_target_slot st \<and> up_decode_buf st' = up_decode_buf st
     \<and> up_record_buf st' = up_record_buf st \<and> up_chunk_record_buf st' = up_chunk_record_buf st"

lemma commit_image_cases:
  assumes sound: "sd_sound dev view" and wf: "up_wf st" and len: "0 < len"
    and run: "commit_image dev len st = Some st'"
  defines "base \<equiv> slot_base_block (up_target_slot st)"
  obtains (rejected) "same_but_last view base len st st'"
  | (verified) st1 where "commit_record dev (up_target_slot st) len st1 = Some st'"
      "same_but_last view base len st st1" "printed st1 = printed st"
      "sha256_digest (card_image (view (sd st1)) base len) = take 32 (up_decode_buf st)"
proof -
  obtain r1 sa where last: "commit_last_block dev base len (kernelupload_ctx_load (up_sha_ctx st)) st = (r1, sa)"
    by fastforce
  have buf: "length (up_block_buf st) = 512" using wf by (simp add: up_wf_def)
  note l = last_block_spec [OF sound buf last]
  note fa = touchedD [OF l(1)]
  have keep_a: "same_but_last view base len st (say x (sa\<lparr>up_active := 0\<rparr>))"
      "same_but_last view base len st (say x ((put_digest y sa)\<lparr>up_active := 0\<rparr>))" for x y
    using l(3) fa by (simp_all add: same_but_last_def say_def)
  show thesis
  proof (cases r1)
    case None
    then have "st' = say [Str ''kernelupload: final block SD write failed\<newline>''] (sa\<lparr>up_active := 0\<rparr>)"
      using run last by (simp add: commit_image_def Let_def base_def)
    then show thesis using rejected keep_a(1) by simp
  next
    case (Some ctx)
    let ?sb = "put_digest (kernel_sha256_finalize ctx) sa"
    obtain r2 sc where rb: "readback_loop dev base (block_count len) (len mod 512) [0..<block_count len]
        kernel_sha256_init ?sb = (r2, sc)" by fastforce
    show thesis
    proof (cases "sha256_bytes_equal (up_sd_scratch ?sb) (up_decode_buf ?sb) 32")
      case False
      then have "st' = say [Str ''kernelupload: uploaded data does not match the claimed sha256 -- not committing\<newline>'']
          (?sb\<lparr>up_active := 0\<rparr>)"
        using run last Some by (simp add: commit_image_def Let_def base_def)
      then show thesis using rejected keep_a(2) by simp
    next
      case True
      note unf = run last Some True rb
      have sb: "length (up_block_buf ?sb) = 512" using l(2) by simp
      show thesis
      proof (cases r2)
        case None
        then have "st' = say [Str ''kernelupload: readback failed, not committing\<newline>''] (sc\<lparr>up_active := 0\<rparr>)"
          using unf by (simp add: commit_image_def Let_def base_def)
        moreover have "view (sd sc) = view (sd sa) \<and> touched ?sb sc"
          using readback_keeps [OF sound rb] by simp
        ultimately show thesis
          using rejected l(3) fa touchedD [of ?sb sc] by (simp add: same_but_last_def say_def)
      next
        case (Some ctx2)
        let ?img = "card_image (view (sd sa)) base len" and ?sd = "put_digest (kernel_sha256_finalize ctx2) sc"
        have "len mod 512 < 512" by simp
        from readback_spec [OF sound this rb [unfolded Some] ctx_absorbed_init sb]
        have "ctx_absorbed ctx2 ?img"
          using image_pieces [OF len, of "\<lambda>k. view (sd sa) (base + of_nat k)"] sd_soundD(1) [OF sound]
          by (simp add: card_image_def)
        then have digest: "kernel_sha256_finalize ctx2 = sha256_digest ?img" by (rule ctx_absorbed_finalize)
        note k = readback_keeps [OF sound rb]
        note fc = touchedD [OF k(2)]
        have keep: "same_but_last view base len st ?sd"
          using k(1) l(3) fa fc by (simp add: same_but_last_def)
        have eq: "sha256_bytes_equal (up_sd_scratch ?sd) (up_decode_buf ?sd) 32
            \<longleftrightarrow> sha256_digest ?img = take 32 (up_decode_buf st)"
          using equal_digest [of "sha256_digest ?img" sc "up_decode_buf sc"] wf fa fc
          by (simp add: digest up_wf_def)
        show thesis
        proof (cases "sha256_digest ?img = take 32 (up_decode_buf st)")
          case True
          then have "commit_record dev (up_target_slot st) len ?sd = Some st'"
            using unf \<open>r2 = Some ctx2\<close> eq by (simp add: commit_image_def Let_def base_def)
          then show thesis using verified keep k(1) fa fc True by simp
        next
          case False
          then have "st' = say [Str ''kernelupload: readback sha256 mismatch (write-cycle fault?) -- not committing\<newline>'']
              (?sd\<lparr>up_active := 0\<rparr>)"
            using unf \<open>r2 = Some ctx2\<close> eq by (simp add: commit_image_def Let_def base_def)
          then show thesis using rejected keep by (simp add: same_but_last_def say_def)
        qed
      qed
    qed
  qed
qed

end
