(* ===== verification/Upload_Record.thy ===== *)
theory Upload_Record
  imports Upload_Commit
begin

text \<open>
  The second half of \<open>kernelupload commit\<close>: the slot-state record and the progress record on the
  card, and what a whole commit changes there.
\<close>

section \<open>Lookup on a card\<close>

definition slot_copies :: "(u64 \<Rightarrow> u8 list) \<Rightarrow> u8 list \<times> u8 list" where
  "slot_copies v = (v kernelslot_state_block_a, v kernelslot_state_block_b)"

definition sd_reads_all :: "'d kernel_io \<Rightarrow> bool" where
  "sd_reads_all dev \<longleftrightarrow> (\<forall>b buf d. fst (io_read dev b buf d) = 0)"

lemma lookup_view:
  assumes sound: "sd_sound dev view" and buf: "length buf = 512"
    and look: "kernelslot_lookup (io_read dev) (buf, d) = (r, buf', d')"
  shows "length buf' = 512" and "view d' = view d"
    and "valid r = 1 \<Longrightarrow> chosen_block r \<in> {kernelslot_state_block_a, kernelslot_state_block_b}
      \<and> parse_slot_state (view d (chosen_block r)) = Some (slot_state.truncate r)"
    and "sd_reads_all dev \<Longrightarrow> card_select (slot_copies (view d))
      = (if valid r = 1 then Some (slot_state.truncate r, ucast (kernelslot_stale_block r)) else None)"
proof -
  obtain sa ba d1 where a: "io_read dev kernelslot_state_block_a buf d = (sa, ba, d1)" by (metis prod_cases3)
  obtain sb bb d2 where b: "io_read dev kernelslot_state_block_b ba d1 = (sb, bb, d2)" by (metis prod_cases3)
  note ra = sd_sound_read [OF sound a] and rb = sd_sound_read [OF sound b]
  note agree = lookup_agrees [of "io_read dev", OF a b look]
  show "length buf' = 512" "view d' = view d" using agree ra(1,2) rb(1,2) buf by simp_all
  have va: "sa = 0 \<Longrightarrow> ba = view d kernelslot_state_block_a" and vb: "sb = 0 \<Longrightarrow> bb = view d kernelslot_state_block_b"
    using ra rb buf by simp_all
  have parse: "parse_slot_state raw = (if kernelslot_record_crc_valid raw
      then Some (slot_state.truncate (kernelslot_parse raw b)) else None)" for raw b
    by (rule kernelslot_parse_state)
  show "chosen_block r \<in> {kernelslot_state_block_a, kernelslot_state_block_b}
      \<and> parse_slot_state (view d (chosen_block r)) = Some (slot_state.truncate r)" if "valid r = 1"
    using look a b that va vb parse [of ba kernelslot_state_block_a] parse [of bb kernelslot_state_block_b]
    by (cases "sa = 0"; cases "sb = 0"; cases "kernelslot_record_crc_valid ba"; cases "kernelslot_record_crc_valid bb")
      (auto simp: kernelslot_lookup_def Let_def split: if_splits)
  show "card_select (slot_copies (view d))
      = (if valid r = 1 then Some (slot_state.truncate r, ucast (kernelslot_stale_block r)) else None)"
    if "sd_reads_all dev"
  proof -
    have "sa = 0" "sb = 0" using that a b by (metis fst_conv sd_reads_all_def)+
    with agree va vb show ?thesis by (simp add: card_select_def slot_copies_def)
  qed
qed

section \<open>The records\<close>

text \<open>The update of the slot-state record writes the stale copy, or nothing.\<close>

lemma upload_record_cases:
  assumes sound: "sd_sound dev view" and buf: "length buf = 512" and sha: "length digest = 32"
    and run: "kernelupload_record (io_read dev) (io_write dev) t len digest (buf, d) = Some (msg, act, buf', d')"
  obtains (kept) "view d' = view d" "msg \<noteq> []" "act = 0" "length buf' = 512"
  | (written) r r' where "valid r = 1" "parse_slot_state (view d (chosen_block r)) = Some (slot_state.truncate r)"
      "chosen_block r \<in> {kernelslot_state_block_a, kernelslot_state_block_b}"
      "record_upload t len digest (slot_state.truncate r) = Some r'"
      "\<forall>x. x \<noteq> kernelslot_stale_block r \<longrightarrow> view d' x = view d x"
      "msg = [] \<and> view d' (kernelslot_stale_block r) = slot_wire r'
        \<or> msg = ''kernelupload: slot-state write-back failed\<newline>''" "act = 0" "length buf' = 512"
      "sd_reads_all dev \<longrightarrow> card_select (slot_copies (view d))
        = Some (slot_state.truncate r, ucast (kernelslot_stale_block r))"
proof -
  obtain r b1 d1 where look: "kernelslot_lookup (io_read dev) (buf, d) = (r, b1, d1)" by (metis prod_cases3)
  note l = lookup_view [OF sound buf look]
  show thesis
  proof (cases "valid r = 1")
    case False
    with run look have "act = 0" "msg \<noteq> []" "buf' = b1" "d' = d1" by (auto simp: kernelupload_record_def)
    then show thesis using kept l(1,2) by simp
  next
    case True
    with run look obtain q where q: "record_upload t len digest r = Some q" 
      by (auto simp: kernelupload_record_def bind_eq_Some_conv)
    let ?stale = "kernelslot_stale_block r" and ?q = "slot_state.truncate q"
    let ?out = "build_slot_state ?q b1"
    obtain s d2 where w: "io_write dev ?stale ?out d1 = (s, d2)" by fastforce
    have res: "buf' = ?out" "d' = d2" "act = 0"
        "msg = (if s = 0 then [] else ''kernelupload: slot-state write-back failed\<newline>'')"
      using run look True q w
      by (auto simp: kernelupload_record_def kernelslot_write_record_def kernelslot_build_state Let_def split: if_splits)
    have up: "record_upload t len digest (slot_state.truncate r) = Some ?q" using updates_truncate(4) [OF q] .
    have "slot_ok (slot_state.truncate r)" using l(3) [OF True] slot_ok_parse by blast
    then have "slot_ok ?q" using update_ok slot_update.upload [OF sha up] by blast
    then have out: "?out = slot_wire ?q" "length ?out = 512"
      using build_slot_state_layout [of ?q b1] length_slot_wire [of ?q] l(1) by simp_all
    note wr = sd_sound_write [OF sound w]
    show thesis
      using written [OF True _ _ up] l True wr out res by auto
  qed
qed

text \<open>The progress record lies in two blocks of its own.\<close>

lemma progress_lookup_view:
  assumes "sd_sound dev view" and "kernelupload_chunk_progress_lookup (io_read dev) (buf, d) = (p, buf', d')"
  shows "view d' = view d" and "length buf' = length buf"
    and "p_chosen_block p \<in> {kernelupload_chunk_state_block_a, kernelupload_chunk_state_block_b}"
proof -
  obtain sa ba d1 where a: "io_read dev kernelupload_chunk_state_block_a buf d = (sa, ba, d1)" by (metis prod_cases3)
  obtain sb bb d2 where b: "io_read dev kernelupload_chunk_state_block_b ba d1 = (sb, bb, d2)" by (metis prod_cases3)
  have "buf' = bb \<and> d' = d2"
    using assms(2) a b by (auto simp: kernelupload_chunk_progress_lookup_def Let_def)
  then show "view d' = view d" "length buf' = length buf"
    using sd_sound_read(1,2) [OF assms(1) a] sd_sound_read(1,2) [OF assms(1) b] by simp_all
  show "p_chosen_block p \<in> {kernelupload_chunk_state_block_a, kernelupload_chunk_state_block_b}"
    using assms(2) a b
    by (auto simp: kernelupload_chunk_progress_lookup_def kernelupload_chunk_progress_parse_def Let_def split: if_splits)
qed

lemma length_write_fold: "length (fold (\<lambda>i buf. kbuf_write_byte buf (g i) (f i)) is buf) = length buf"
  by (induction "is" arbitrary: buf) (simp_all add: kbuf_write_byte_def)

lemma length_progress_build [simp]: "length (kernelupload_chunk_progress_build rec buf) = length buf"
  by (simp add: kernelupload_chunk_progress_build_def Let_def buf_write_u32_le length_write_fold del: upt_Suc)

lemma progress_clear_view:
  assumes "sd_sound dev view"
    and "kernelupload_chunk_progress_clear (io_read dev) (io_write dev) (buf, d) = Some (s, buf', d')"
    and "x \<notin> {kernelupload_chunk_state_block_a, kernelupload_chunk_state_block_b}"
  shows "view d' x = view d x" and "length buf' = length buf"
proof -
  obtain p b1 d1 where look: "kernelupload_chunk_progress_lookup (io_read dev) (buf, d) = (p, b1, d1)"
    by (metis prod_cases3)
  note l = progress_lookup_view [OF assms(1) look]
  from assms(2) look obtain b c where "b \<in> {kernelupload_chunk_state_block_a, kernelupload_chunk_state_block_b}"
      and w: "io_write dev b buf' d1 = (s, d')" and "buf' = kernelupload_chunk_progress_build c b1"
    by (auto simp: kernelupload_chunk_progress_clear_def kernelupload_chunk_progress_write_def Let_def
        split: if_splits prod.splits)
  then show "view d' x = view d x" "length buf' = length buf"
    using l assms(3) sd_sound_write(1) [OF assms(1) w, of x] by auto
qed

section \<open>Recording the image\<close>

definition commit_ok_msg :: "u32 \<Rightarrow> nat \<Rightarrow> out list" where
  "commit_ok_msg t len = [Str ''ok, slot '', Str (slot_name t), Str '' verified and marked ready, '',
     Num (int len), Str '' bytes\<newline>'']"

definition progress_blocks :: "u64 set" where
  "progress_blocks = {kernelupload_chunk_state_block_a, kernelupload_chunk_state_block_b}"

definition state_blocks :: "u64 set" where
  "state_blocks = {kernelslot_state_block_a, kernelslot_state_block_b}"

lemma stale_in_state_blocks [simp]: "kernelslot_stale_block r \<in> state_blocks"
  by (simp add: kernelslot_stale_block_def state_blocks_def)

lemma stale_not_progress: "x \<in> state_blocks \<Longrightarrow> x \<notin> progress_blocks"
  by (auto simp: state_blocks_def progress_blocks_def kernelupload_chunk_state_block_a_def
      kernelupload_chunk_state_block_b_def kernelslot_state_block_a_def kernelslot_state_block_b_def)

lemma commit_record_cases:
  assumes sound: "sd_sound dev view" and wf: "length (up_record_buf st) = 512" "32 \<le> length (up_decode_buf st)"
    and run: "commit_record dev t len st = Some st'"
  defines "digest \<equiv> take 32 (up_decode_buf st)"
  obtains (kept) msg where "view (sd st') = view (sd st)" "up_decode_buf st' = up_decode_buf st"
      "printed st' = printed st @ [Str msg]"
  | (written) r r' msg where "valid r = 1" "parse_slot_state (view (sd st) (chosen_block r)) = Some (slot_state.truncate r)"
      "chosen_block r \<in> state_blocks"
      "record_upload t (of_nat len) digest (slot_state.truncate r) = Some r'"
      "\<forall>x. x \<notin> insert (kernelslot_stale_block r) progress_blocks \<longrightarrow> view (sd st') x = view (sd st) x"
      "printed st' = printed st @ msg"
      "msg = commit_ok_msg t len \<and> view (sd st') (kernelslot_stale_block r) = slot_wire r'
        \<or> msg = [Str ''kernelupload: slot-state write-back failed\<newline>'']"
      "up_decode_buf st' = up_decode_buf st"
      "sd_reads_all dev \<longrightarrow> card_select (slot_copies (view (sd st)))
        = Some (slot_state.truncate r, ucast (kernelslot_stale_block r))"
proof -
  have digest: "map (\<lambda>i. ucast (kbuf_read_byte (up_decode_buf st) i)) [0..<32] = digest"
    using map_nth_take [of 32 "up_decode_buf st"] wf(2) by (simp add: kbuf_read_byte_def digest_def)
  have sha: "length digest = 32" using wf(2) by (simp add: digest_def)
  from run obtain msg act buf d where rec: "kernelupload_record (io_read dev) (io_write dev) t (of_nat len) digest
      (up_record_buf st, sd st) = Some (msg, act, buf, d)"
    by (auto simp: commit_record_def digest Let_def bind_eq_Some_conv)
  let ?st = "st\<lparr>up_record_buf := buf, sd := d, up_active := act\<rparr>"
  have fail: "st' = say [Str msg] ?st" if "msg \<noteq> []"
    using run rec that by (simp add: commit_record_def digest Let_def)
  have good: "printed st' = printed st @ commit_ok_msg t len \<and> up_decode_buf st' = up_decode_buf st
      \<and> (\<forall>x. x \<notin> progress_blocks \<longrightarrow> view (sd st') x = view d x)" if "msg = []"
  proof -
    obtain p cbuf d2 where look: "kernelupload_chunk_progress_lookup (io_read dev) (up_chunk_record_buf st, d) = (p, cbuf, d2)"
      by (metis prod_cases3)
    note l = progress_lookup_view [OF sound look]
    let ?st2 = "?st\<lparr>up_chunk_record_buf := cbuf, sd := d2\<rparr>"
    from run rec look that have "st' = say (commit_ok_msg t len) ?st2
        \<or> (\<exists>s cbuf' d3. kernelupload_chunk_progress_clear (io_read dev) (io_write dev) (cbuf, d2) = Some (s, cbuf', d3)
            \<and> st' = say (commit_ok_msg t len) (?st2\<lparr>up_chunk_record_buf := cbuf', sd := d3\<rparr>))"
      by (auto simp: commit_record_def digest Let_def bind_eq_Some_conv commit_ok_msg_def split: if_splits)
    then show ?thesis
      using l(1) progress_clear_view(1) [OF sound] by (auto simp: say_def progress_blocks_def)
  qed
  from sound wf(1) sha rec show thesis
  proof (cases rule: upload_record_cases)
    case kept
    then show thesis using fail that(1) by (simp add: say_def)
  next
    case (written r r')
    note w = written(1,2) written(3) [folded state_blocks_def] written(4)
    show thesis
    proof (cases "msg = []")
      case True
      with good written(5,6,9) show thesis
        by (intro that(2) [OF w, of "commit_ok_msg t len"]) (auto simp: stale_not_progress)
    next
      case False
      with fail written(5,6,9) show thesis
        by (intro that(2) [OF w, of "[Str msg]"]) (auto simp: say_def)
    qed
  qed
qed

section \<open>A whole commit\<close>

text \<open>The command line's argument for \<open>commit\<close>: the digest's 64 digits stand after the second space.\<close>

definition sha_word :: "u8 list \<Rightarrow> nat \<Rightarrow> nat \<Rightarrow> nat" where
  "sha_word line sub_end n = shell_find_space line (sub_end + 1) n + 1"

lemma commit_enters:
  assumes "kernelupload_commit dev line sub_end n st = Some st'"
  obtains (refused) os b buf where "st' = say os (st\<lparr>up_active := b, up_decode_buf := buf\<rparr>)"
  | (image) buf where "0 < unat (up_total_len st)" "uint (up_total_len st) \<le> kernelslot_size_bytes"
      "shell_parse_decimal line (sub_end + 1) (shell_find_space line (sub_end + 1) n) = uint (up_total_len st)"
      "shell_parse_hex_bytes line (sha_word line sub_end n) (shell_find_space line (sha_word line sub_end n) n)
        (up_decode_buf st) 32 = (0, buf)"
      "commit_image dev (unat (up_total_len st)) (st\<lparr>up_decode_buf := buf\<rparr>) = Some st'"
proof -
  obtain hs buf where hex: "shell_parse_hex_bytes line (sha_word line sub_end n)
      (shell_find_space line (sha_word line sub_end n) n) (up_decode_buf st) 32 = (hs, buf)" by fastforce
  have "(\<exists>os. st' = say os st) \<or> (\<exists>os. st' = say os (st\<lparr>up_active := 0\<rparr>))
      \<or> (\<exists>os. st' = say os (st\<lparr>up_decode_buf := buf\<rparr>))
      \<or> 0 < uint (up_total_len st) \<and> uint (up_total_len st) \<le> kernelslot_size_bytes
        \<and> shell_parse_decimal line (sub_end + 1) (shell_find_space line (sub_end + 1) n) = uint (up_total_len st)
        \<and> hs = 0 \<and> commit_image dev (unat (up_total_len st)) (st\<lparr>up_decode_buf := buf\<rparr>) = Some st'"
    using assms hex unfolding kernelupload_commit_def Let_def sha_word_def
    by (simp only: split: if_split_asm prod.splits) (simp; blast)+
  then show thesis
    using refused [of _ "up_decode_buf st" "up_active st"] refused [of _ "up_decode_buf st" 0]
      refused [of _ buf "up_active st"] image [of buf] hex
    by (auto simp flip: nat_uint_eq)
qed

end
