(* ===== verification/Runtime_Libc.thy ===== *)
theory Runtime_Libc
  imports Interfaces Mmio
begin

text \<open>
  The C runtime that the compiled kernel links against, \<open>boot/rpi1/runtime_stubs.c\<close> and
  \<open>boot/rpi4/runtime_stubs_rpi4.c\<close>: \<open>strlen\<close>, \<open>memcpy\<close>, the panic path's \<open>dprintf\<close> with its
  integer printing, and \<open>exit\<close>. The two files hold the same code for different UART
  addresses; the code is written once over a \<open>putc\<close>, and each board's functions are its
  instances. A format string is the list of its characters before the terminating NUL.
\<close>

section \<open>Strings and memory\<close>

text \<open>\<open>while (s[n] != '\0') n = n + 1\<close>; \<open>None\<close> is a read past the end of the object.\<close>

function strlen_loop :: "u8 list \<Rightarrow> nat \<Rightarrow> nat option" where
  "strlen_loop s n =
     (if length s \<le> n then None else if s ! n \<noteq> 0 then strlen_loop s (n + 1) else Some n)"
  by pat_completeness auto
termination by (relation "measure (\<lambda>(s, n). length s - n)") auto

declare strlen_loop.simps [simp del]

definition strlen :: "u8 list \<Rightarrow> nat option" where
  "strlen s = strlen_loop s 0"

text \<open>The same code on the Pi 4.\<close>

definition strlen_rpi4 :: "u8 list \<Rightarrow> nat option" where
  "strlen_rpi4 = strlen"

text \<open>
  \<open>while (i < n) { d[i] = s[i]; i = i + 1; }\<close> over a byte-addressed memory; the result is the
  returned pointer and the memory. The code is in the source three times: on the Pi 1 and in
  the boot loader with 32-bit addresses, on the Pi 4 with 64-bit ones.
\<close>

definition memcpy_loop :: "'a::len word \<Rightarrow> 'a word \<Rightarrow> nat \<Rightarrow> ('a word \<Rightarrow> u8) \<Rightarrow> 'a word \<Rightarrow> u8" where
  "memcpy_loop dst src n mem = fold (\<lambda>i mem. mem(dst + of_nat i := mem (src + of_nat i))) [0..<n] mem"

definition memcpy :: "u32 \<Rightarrow> u32 \<Rightarrow> u32 \<Rightarrow> (u32 \<Rightarrow> u8) \<Rightarrow> u32 \<times> (u32 \<Rightarrow> u8)" where
  "memcpy dst src n mem = (dst, memcpy_loop dst src (unat n) mem)"

definition memcpy_rpi4 :: "u64 \<Rightarrow> u64 \<Rightarrow> u64 \<Rightarrow> (u64 \<Rightarrow> u8) \<Rightarrow> u64 \<times> (u64 \<Rightarrow> u8)" where
  "memcpy_rpi4 dst src n mem = (dst, memcpy_loop dst src (unat n) mem)"

definition memcpy_stage0 :: "u32 \<Rightarrow> u32 \<Rightarrow> u32 \<Rightarrow> (u32 \<Rightarrow> u8) \<Rightarrow> u32 \<times> (u32 \<Rightarrow> u8)" where
  "memcpy_stage0 dest src n mem = (dest, memcpy_loop dest src (unat n) mem)"

section \<open>Characters to the UART\<close>

definition putc_at ::
    "'s device \<Rightarrow> u32 \<Rightarrow> u32 \<Rightarrow> char \<Rightarrow> ('s, 'z) mach_scheme \<Rightarrow> ('s, 'z) mach_scheme option" where
  "putc_at D fr dr c m = do { m \<leftarrow> uart_wait D fr m; Some (mmio_w D dr (of_char c) m) }"

definition dhruva_dprintf_putc ::
    "'s device \<Rightarrow> char \<Rightarrow> ('s, 'z) mach_scheme \<Rightarrow> ('s, 'z) mach_scheme option" where
  "dhruva_dprintf_putc D = putc_at D UART_FR_RPI1 UART_DR_RPI1"

definition dhruva_dprintf_putc_rpi4 ::
    "'s device \<Rightarrow> char \<Rightarrow> ('s, 'z) mach_scheme \<Rightarrow> ('s, 'z) mach_scheme option" where
  "dhruva_dprintf_putc_rpi4 D = putc_at D UART_FR_RPI4 UART_DR_RPI4"

definition dhruva_oom_putc ::
    "'s device \<Rightarrow> char \<Rightarrow> ('s, 'z) mach_scheme \<Rightarrow> ('s, 'z) mach_scheme option" where
  "dhruva_oom_putc D = putc_at D UART_FR_RPI1 UART_DR_RPI1"

definition dhruva_dprintf_puts ::
    "'s device \<Rightarrow> string \<Rightarrow> ('s, 'z) mach_scheme \<Rightarrow> ('s, 'z) mach_scheme option" where
  "dhruva_dprintf_puts D = puts_with (dhruva_dprintf_putc D)"

definition dhruva_dprintf_puts_rpi4 ::
    "'s device \<Rightarrow> string \<Rightarrow> ('s, 'z) mach_scheme \<Rightarrow> ('s, 'z) mach_scheme option" where
  "dhruva_dprintf_puts_rpi4 D = puts_with (dhruva_dprintf_putc_rpi4 D)"

definition dhruva_oom_puts ::
    "'s device \<Rightarrow> string \<Rightarrow> ('s, 'z) mach_scheme \<Rightarrow> ('s, 'z) mach_scheme option" where
  "dhruva_oom_puts D = puts_with (dhruva_oom_putc D)"

section \<open>Integers\<close>

text \<open>
  \<open>while (uv > 0) { digits[n] = '0' + (uv % 10); uv = uv / 10; n = n + 1; }\<close> on the array
  \<open>char digits[24]\<close>, then the digits backwards.
\<close>

function dec_loop :: "u64 \<Rightarrow> nat \<Rightarrow> string \<Rightarrow> string \<times> nat" where
  "dec_loop uv n digits =
     (if 0 < uv then dec_loop (uv div 10) (n + 1) (digits[n := char_of (unat (48 + uv mod 10))])
      else (digits, n))"
  by pat_completeness auto

lemma unat_div_10: "unat (uv div 10) = unat (uv :: u64) div 10"
  by (simp add: unat_div)

termination dec_loop
proof (relation "measure (\<lambda>(uv, n, digits). unat uv)")
  fix uv :: u64 and n digits
  assume "0 < uv"
  then have "0 < unat uv" by (simp add: word_less_nat_alt)
  then show "((uv div 10, n + 1, digits[n := char_of (unat (48 + uv mod 10))]), (uv, n, digits))
      \<in> measure (\<lambda>(uv, n, digits). unat uv)"
    by (simp add: unat_div_10)
qed simp

declare dec_loop.simps [simp del]

fun emit_digits :: "(char \<Rightarrow> 'm \<Rightarrow> 'm option) \<Rightarrow> string \<Rightarrow> nat \<Rightarrow> 'm \<Rightarrow> 'm option" where
  "emit_digits putc digits 0 m = Some m"
| "emit_digits putc digits (Suc n) m = do { m \<leftarrow> putc (digits ! n) m; emit_digits putc digits n m }"

definition digit_buf :: string where "digit_buf = replicate 24 (CHR 0x00)"

definition put_u64_with :: "(char \<Rightarrow> 'm \<Rightarrow> 'm option) \<Rightarrow> u64 \<Rightarrow> 'm \<Rightarrow> 'm option" where
  "put_u64_with putc uv m =
     (if uv = 0 then putc (CHR ''0'') m
      else let (digits, n) = dec_loop uv 0 digit_buf in emit_digits putc digits n m)"

text \<open>
  \<open>if (v < 0) { putc('-'); uv = (unsigned long long)(-v); }\<close>: the negation is that of the
  64-bit register.
\<close>

definition put_i64_with :: "(char \<Rightarrow> 'm \<Rightarrow> 'm option) \<Rightarrow> u64 \<Rightarrow> 'm \<Rightarrow> 'm option" where
  "put_i64_with putc v m =
     (if sint v < 0 then do { m \<leftarrow> putc (CHR ''-'') m; put_u64_with putc (- v) m }
      else put_u64_with putc v m)"

definition dhruva_dprintf_put_i64 ::
    "'s device \<Rightarrow> u64 \<Rightarrow> ('s, 'z) mach_scheme \<Rightarrow> ('s, 'z) mach_scheme option" where
  "dhruva_dprintf_put_i64 D = put_i64_with (dhruva_dprintf_putc D)"

definition dhruva_dprintf_put_i64_rpi4 ::
    "'s device \<Rightarrow> u64 \<Rightarrow> ('s, 'z) mach_scheme \<Rightarrow> ('s, 'z) mach_scheme option" where
  "dhruva_dprintf_put_i64_rpi4 D = put_i64_with (dhruva_dprintf_putc_rpi4 D)"

definition dhruva_oom_put_u64 ::
    "'s device \<Rightarrow> u64 \<Rightarrow> ('s, 'z) mach_scheme \<Rightarrow> ('s, 'z) mach_scheme option" where
  "dhruva_oom_put_u64 D = put_u64_with (dhruva_oom_putc D)"

section \<open>Formatted output\<close>

text \<open>
  The variadic arguments, and how a call ends: \<open>Undefined\<close> is an argument that is missing or
  of the other kind, or the format pointer having moved past the terminating NUL.
\<close>

datatype va_arg = AStr string | AInt u64
datatype fmt_end = Done | Undefined

function dprintf_with ::
    "(char \<Rightarrow> 'm \<Rightarrow> 'm option) \<Rightarrow> string \<Rightarrow> va_arg list \<Rightarrow> 'm \<Rightarrow> (fmt_end \<times> 'm) option" where
  "dprintf_with putc [] args m = Some (Done, m)"
| "dprintf_with putc (c # rest) args m =
     (if c = CHR ''%'' \<and> rest \<noteq> [] then
        (if hd rest = CHR ''s'' then
           (case args of
              AStr s # args \<Rightarrow> do { m \<leftarrow> puts_with putc s m; dprintf_with putc (tl rest) args m }
            | _ \<Rightarrow> Some (Undefined, m))
         else if hd rest = CHR ''d'' \<or> hd rest = CHR ''l'' then
           (let rest = dropWhile (\<lambda>c. c = CHR ''l'') rest in
            case args of
              AInt v # args \<Rightarrow> do {
                m \<leftarrow> put_i64_with putc v m;
                if rest = [] then Some (Undefined, m) else dprintf_with putc (tl rest) args m }
            | _ \<Rightarrow> Some (Undefined, m))
         else do {
           m \<leftarrow> putc (CHR ''%'') m;
           m \<leftarrow> putc (hd rest) m;
           dprintf_with putc (tl rest) args m })
      else do { m \<leftarrow> putc c m; dprintf_with putc rest args m })"
  by pat_completeness auto
termination
  by (relation "measure (\<lambda>(putc, fmt, args, m). length fmt)")
    (auto simp: less_Suc_eq_le intro: diff_le_self le_trans [OF diff_le_self length_dropWhile_le])

definition dprintf ::
    "'s device \<Rightarrow> string \<Rightarrow> va_arg list \<Rightarrow> ('s, 'z) mach_scheme \<Rightarrow> (fmt_end \<times> ('s, 'z) mach_scheme) option" where
  "dprintf D = dprintf_with (dhruva_dprintf_putc D)"

definition dprintf_rpi4 ::
    "'s device \<Rightarrow> string \<Rightarrow> va_arg list \<Rightarrow> ('s, 'z) mach_scheme \<Rightarrow> (fmt_end \<times> ('s, 'z) mach_scheme) option" where
  "dprintf_rpi4 D = dprintf_with (dhruva_dprintf_putc_rpi4 D)"

section \<open>The end of a panic\<close>

text \<open>
  \<open>exit\<close> prints the return address it finds in its caller's frame, here the argument
  \<open>real_lr\<close>, and halts; the result is the state it halts in. The loop variable \<open>shift\<close> goes
  down from 28 to 0 in steps of 4.
\<close>

definition nibble_char :: "u32 \<Rightarrow> char" where
  "nibble_char nib = (if nib < 10 then char_of (unat (48 + nib)) else char_of (unat (65 + (nib - 10))))"

fun exit_hex :: "(char \<Rightarrow> 'm \<Rightarrow> 'm option) \<Rightarrow> u32 \<Rightarrow> nat \<Rightarrow> 'm \<Rightarrow> 'm option" where
  "exit_hex putc real_lr 0 m = Some m"
| "exit_hex putc real_lr (Suc i) m =
     do { m \<leftarrow> putc (nibble_char (drop_bit (4 * i) real_lr AND 0xF)) m; exit_hex putc real_lr i m }"

definition exit_rpi1 ::
    "'s device \<Rightarrow> u32 \<Rightarrow> ('s, 'z) mach_scheme \<Rightarrow> ('s, 'z) mach_scheme option" where
  "exit_rpi1 D real_lr m = do {
     m \<leftarrow> dhruva_dprintf_puts D ''panic caller LR=0x'' m;
     m \<leftarrow> exit_hex (dhruva_dprintf_putc D) real_lr 8 m;
     dhruva_dprintf_putc D (CHR 0x0A) m }"

text \<open>On the Pi 4 \<open>exit\<close> halts at once and reports nothing.\<close>

definition exit_rpi4 :: "('s, 'z) mach_scheme \<Rightarrow> ('s, 'z) mach_scheme option" where
  "exit_rpi4 m = Some m"

end
