(* ===== verification/Libc_Proofs.thy ===== *)
theory Libc_Proofs
  imports Runtime_Libc
begin

text \<open>
  The lemmas of the C runtime: \<open>strlen\<close> finds the first NUL, \<open>memcpy\<close> copies wherever a forward
  copy can, integers are printed in decimal and never overrun their digit buffer, \<open>dprintf\<close>
  prints what its format says, and \<open>exit\<close> prints the return address in hexadecimal.
\<close>

section \<open>strlen\<close>

lemma strlen_loop_iff:
  "strlen_loop s n = Some k \<longleftrightarrow> n \<le> k \<and> k < length s \<and> s ! k = 0 \<and> (\<forall>j. n \<le> j \<and> j < k \<longrightarrow> s ! j \<noteq> 0)"
proof (induction s n rule: strlen_loop.induct)
  case (1 s n)
  show ?case
  proof (cases "length s \<le> n")
    case False
    show ?thesis
    proof (cases "s ! n = 0")
      case True
      with False show ?thesis by (subst strlen_loop.simps) (auto simp: not_less le_less)
    next
      case nz: False
      then have "(n \<le> j \<and> j < k \<longrightarrow> s ! j \<noteq> 0) \<longleftrightarrow> (n + 1 \<le> j \<and> j < k \<longrightarrow> s ! j \<noteq> 0)" for j
        by (cases "j = n") auto
      moreover have "n \<le> k \<and> s ! k = 0 \<longleftrightarrow> n + 1 \<le> k \<and> s ! k = 0"
        using nz by (cases "k = n") auto
      ultimately show ?thesis
        using 1 [OF False nz] False nz by (subst strlen_loop.simps) auto
    qed
  qed (subst strlen_loop.simps, auto)
qed

lemma strlen_iff: "strlen s = Some k \<longleftrightarrow> k < length s \<and> s ! k = 0 \<and> (\<forall>j < k. s ! j \<noteq> 0)"
  by (simp add: strlen_def strlen_loop_iff)

section \<open>memcpy\<close>

lemma memcpy_loop_at:
  fixes dst src :: "'a::len word"
  assumes "unat dst + n \<le> 2 ^ LENGTH('a)" and "unat src + n \<le> 2 ^ LENGTH('a)"
    and "unat dst \<le> unat src \<or> unat src + n \<le> unat dst"
  shows "memcpy_loop dst src n mem a =
    (if unat dst \<le> unat a \<and> unat a < unat dst + n then mem (src + (a - dst)) else mem a)"
  using assms
proof (induction n arbitrary: a)
  case 0
  then show ?case by (auto simp: memcpy_loop_def)
next
  case (Suc n)
  let ?mem = "memcpy_loop dst src n mem"
  have step: "memcpy_loop dst src (Suc n) mem = ?mem(dst + of_nat n := ?mem (src + of_nat n))"
    by (simp add: memcpy_loop_def)
  have IH: "?mem a = (if unat dst \<le> unat a \<and> unat a < unat dst + n then mem (src + (a - dst)) else mem a)" for a
    using Suc by auto
  have d: "unat (dst + of_nat n) = unat dst + n" and s: "unat (src + of_nat n) = unat src + n"
    using Suc.prems by (simp_all add: unat_word_ariths unat_of_nat)
  have eq: "a = dst + of_nat n \<longleftrightarrow> unat a = unat dst + n"
    using d by (metis word_unat_eq_iff)
  have src: "?mem (src + of_nat n) = mem (src + of_nat n)"
    unfolding IH s using Suc.prems(3) by auto
  show ?case
  proof (cases "unat a = unat dst + n")
    case True
    then have "a = dst + of_nat n" using eq by simp
    with src d show ?thesis by (simp add: step)
  next
    case False
    then have "unat a < unat dst + n \<longleftrightarrow> unat a < unat dst + Suc n" by auto
    with False eq IH [of a] show ?thesis by (simp add: step)
  qed
qed

section \<open>Decimal numbers\<close>

text \<open>The reference: the digits of a number, least first, and a reader.\<close>

fun rev_dec :: "nat \<Rightarrow> string" where
  "rev_dec k = (if k = 0 then [] else char_of (48 + k mod 10) # rev_dec (k div 10))"

declare rev_dec.simps [simp del]

definition dec_string :: "nat \<Rightarrow> string" where
  "dec_string k = (if k = 0 then ''0'' else rev (rev_dec k))"

definition int_string :: "int \<Rightarrow> string" where
  "int_string i = (if i < 0 then ''-'' @ dec_string (nat (- i)) else dec_string (nat i))"

definition dec_value :: "string \<Rightarrow> nat" where
  "dec_value s = foldl (\<lambda>v c. 10 * v + (of_char c - 48)) 0 s"

lemma rev_dec_0 [simp]: "rev_dec 0 = []"
  by (simp add: rev_dec.simps)

lemma dec_value_rev: "dec_value (rev (rev_dec k)) = k"
proof (induction k rule: rev_dec.induct)
  case (1 k)
  show ?case
  proof (cases "k = 0")
    case False
    have "k mod 10 < 10" by simp
    then have "48 + k mod 10 < 256" by linarith
    then have "of_char (char_of (48 + k mod 10) :: char) = 48 + k mod 10" by simp
    then show ?thesis
      using 1 [OF False] False by (subst rev_dec.simps) (simp add: dec_value_def)
  qed (simp add: dec_value_def)
qed

lemma dec_value_string: "dec_value (dec_string k) = k"
  using dec_value_rev [of k] by (auto simp: dec_string_def dec_value_def)

lemma rev_dec_length: "k < 10 ^ n \<Longrightarrow> length (rev_dec k) \<le> n"
proof (induction n arbitrary: k)
  case (Suc n)
  then have "k div 10 < 10 ^ n" by (simp add: div_less_iff_less_mult mult.commute)
  with Suc.IH show ?case by (subst rev_dec.simps) simp
qed simp

lemma rev_dec_u64: "length (rev_dec (unat (v :: u64))) \<le> 20"
proof -
  have "unat v < 2 ^ 64" using unsigned_less [of v] by simp
  then show ?thesis by (intro rev_dec_length) simp
qed

lemma dec_char: "unat (48 + v mod 10) = 48 + unat (v :: u64) mod 10"
proof -
  have "unat (v mod 10) = unat v mod 10" by (simp add: unat_mod)
  moreover have "unat v mod 10 < 10" by simp
  ultimately show ?thesis by (simp add: unat_word_ariths)
qed

text \<open>The loop fills the array from index \<open>n\<close> on with the digits.\<close>

lemma dec_loop_spec:
  "n + length (rev_dec (unat uv)) \<le> length digits \<Longrightarrow>
     dec_loop uv n digits = (take n digits @ rev_dec (unat uv) @ drop (n + length (rev_dec (unat uv))) digits,
       n + length (rev_dec (unat uv)))"
proof (induction uv n digits rule: dec_loop.induct)
  case (1 uv n digits)
  show ?case
  proof (cases "0 < uv")
    case False
    then have "uv = 0" by (simp add: word_gt_0)
    then show ?thesis by (simp add: dec_loop.simps [of 0])
  next
    case True
    then have pos: "unat uv \<noteq> 0" by (simp add: word_less_nat_alt)
    let ?c = "char_of (48 + unat uv mod 10) :: char"
    let ?r = "rev_dec (unat uv div 10)"
    have r: "rev_dec (unat uv) = ?c # ?r" using pos by (subst rev_dec.simps) simp
    have n: "n < length digits" using "1.prems" r by simp
    have "dec_loop uv n digits = dec_loop (uv div 10) (n + 1) (digits[n := ?c])"
      using True by (simp add: dec_loop.simps [of uv] dec_char)
    also have "\<dots> = (take (n + 1) (digits[n := ?c]) @ ?r @ drop (n + 1 + length ?r) (digits[n := ?c]),
        n + 1 + length ?r)"
      using "1.IH" [OF True] "1.prems" r by (simp add: unat_div_10 dec_char)
    finally show ?thesis
      using n by (simp add: r take_Suc_update)
  qed
qed

lemma emit_digits_puts:
  "n \<le> length digits \<Longrightarrow> emit_digits putc digits n m = puts_with putc (rev (take n digits)) m"
proof (induction n arbitrary: m)
  case (Suc n)
  then show ?case by (simp add: take_Suc_conv_app_nth) (intro arg_cong [where f = "Option.bind _"] ext, simp)
qed simp

lemma put_u64_puts: "put_u64_with putc v m = puts_with putc (dec_string (unat v)) m"
proof (cases "v = 0")
  case True
  then show ?thesis by (cases "putc (CHR ''0'') m") (simp_all add: put_u64_with_def dec_string_def)
next
  case False
  let ?ds = "rev_dec (unat v)"
  have len: "length ?ds \<le> 20" by (rule rev_dec_u64)
  have "dec_loop v 0 digit_buf = (?ds @ drop (length ?ds) digit_buf, length ?ds)"
    using len by (subst dec_loop_spec) (simp_all add: digit_buf_def)
  then show ?thesis
    using False by (simp add: put_u64_with_def emit_digits_puts dec_string_def unat_eq_zero)
qed

lemma uint_of_int_small: "0 \<le> i \<Longrightarrow> i < 2 ^ 64 \<Longrightarrow> int (unat (word_of_int i :: u64)) = i"
  by (simp add: uint_word_of_int flip: uint_nat)

lemma sint_cases:
  "sint (v :: u64) < 0 \<Longrightarrow> int (unat (- v)) = - sint v"
  "\<not> sint (v :: u64) < 0 \<Longrightarrow> int (unat v) = sint v"
proof -
  have b: "- (2 ^ 63) \<le> sint v" "sint v < 2 ^ 63"
    using sint_greater_eq [of v] sint_less [of v] by simp_all
  have v: "v = word_of_int (sint v)" by simp
  have "- v = word_of_int (- sint v)" by (subst v) (simp only: of_int_minus)
  with b show "sint v < 0 \<Longrightarrow> int (unat (- v)) = - sint v"
    using uint_of_int_small [of "- sint v"] by simp
  show "\<not> sint v < 0 \<Longrightarrow> int (unat v) = sint v"
    using uint_of_int_small [of "sint v"] b by simp
qed

lemma put_i64_puts: "put_i64_with putc v m = puts_with putc (int_string (sint v)) m"
proof (cases "sint v < 0")
  case True
  then have "unat (- v) = nat (- sint v)" using sint_cases(1) [of v] by (metis nat_int)
  then have "put_u64_with putc (- v) = puts_with putc (dec_string (nat (- sint v)))"
    by (intro ext) (simp add: put_u64_puts)
  with True show ?thesis by (simp add: put_i64_with_def int_string_def)
next
  case False
  then have "unat v = nat (sint v)" using sint_cases(2) [of v] by (metis nat_int)
  with False show ?thesis by (simp add: put_i64_with_def put_u64_puts int_string_def)
qed

section \<open>dprintf\<close>

text \<open>
  What a format means: literal text without a percent sign, a string, an integer with \<open>n\<close>
  letters \<open>l\<close> before its \<open>d\<close>.
\<close>

datatype piece = Lit string | PStr string | PInt nat u64

primrec piece_ok :: "piece \<Rightarrow> bool" where
  "piece_ok (Lit s) \<longleftrightarrow> CHR ''%'' \<notin> set s"
| "piece_ok (PStr s) \<longleftrightarrow> True"
| "piece_ok (PInt n v) \<longleftrightarrow> True"

primrec piece_fmt :: "piece \<Rightarrow> string" where
  "piece_fmt (Lit s) = s"
| "piece_fmt (PStr s) = ''%s''"
| "piece_fmt (PInt n v) = ''%'' @ replicate n (CHR ''l'') @ ''d''"

primrec piece_args :: "piece \<Rightarrow> va_arg list" where
  "piece_args (Lit s) = []"
| "piece_args (PStr s) = [AStr s]"
| "piece_args (PInt n v) = [AInt v]"

primrec piece_text :: "piece \<Rightarrow> string" where
  "piece_text (Lit s) = s"
| "piece_text (PStr s) = s"
| "piece_text (PInt n v) = int_string (sint v)"

lemma puts_with_append: "puts_with putc (s @ t) m = do { m \<leftarrow> puts_with putc s m; puts_with putc t m }"
  by (induction s arbitrary: m) (auto split: Option.bind_splits)

lemma dprintf_literal:
  "CHR ''%'' \<notin> set s \<Longrightarrow>
     dprintf_with putc (s @ fmt) args m = do { m \<leftarrow> puts_with putc s m; dprintf_with putc fmt args m }"
  by (induction s arbitrary: m) (auto split: Option.bind_splits)

lemma dropWhile_replicate_l: "dropWhile (\<lambda>c. c = CHR ''l'') (replicate n (CHR ''l'') @ CHR ''d'' # fmt) = CHR ''d'' # fmt"
  by (induction n) simp_all

lemma dprintf_int:
  "dprintf_with putc (piece_fmt (PInt n v) @ fmt) (AInt v # args) m
     = do { m \<leftarrow> put_i64_with putc v m; dprintf_with putc fmt args m }"
proof -
  obtain c rest where cr: "replicate n (CHR ''l'') @ CHR ''d'' # fmt = c # rest"
      and c: "c = CHR ''l'' \<or> c = CHR ''d''"
    by (cases n) auto
  have "dropWhile (\<lambda>c. c = CHR ''l'') (c # rest) = CHR ''d'' # fmt"
    using dropWhile_replicate_l [of n fmt] cr by simp
  moreover have "piece_fmt (PInt n v) @ fmt = CHR ''%'' # c # rest" using cr by simp
  ultimately show ?thesis using c by (elim disjE) (simp_all del: dropWhile.simps piece_fmt.simps)
qed

lemma dprintf_pieces:
  "\<forall>p \<in> set ps. piece_ok p \<Longrightarrow>
     dprintf_with putc (concat (map piece_fmt ps)) (concat (map piece_args ps)) m
     = map_option (Pair Done) (puts_with putc (concat (map piece_text ps)) m)"
proof (induction ps arbitrary: m)
  case (Cons p ps)
  have IH: "dprintf_with putc (concat (map piece_fmt ps)) (concat (map piece_args ps))
     = (\<lambda>m. map_option (Pair Done) (puts_with putc (concat (map piece_text ps)) m))"
    using Cons by (intro ext) simp
  have bind_map: "Option.bind x (\<lambda>m. map_option f (g m)) = map_option f (Option.bind x g)"
    for x :: "'m option" and f :: "'m \<Rightarrow> 'x" and g by (cases x) simp_all
  show ?case
  proof (cases p)
    case (Lit s)
    with Cons.prems show ?thesis by (simp add: dprintf_literal IH puts_with_append bind_map)
  next
    case (PStr s)
    then show ?thesis by (simp add: IH puts_with_append bind_map)
  next
    case (PInt n v)
    then show ?thesis
      using dprintf_int [of putc n v "concat (map piece_fmt ps)" "concat (map piece_args ps)" m]
      by (simp add: IH puts_with_append bind_map put_i64_puts)
  qed
qed simp

section \<open>exit\<close>

lemma nibble_char_all: "\<forall>k \<in> set [0..<16]. nibble_char (of_nat k) = hexd ! k"
  by code_simp

lemma nibble_char_hexd: "unat nib < 16 \<Longrightarrow> nibble_char nib = hexd ! unat nib"
  using bspec [OF nibble_char_all, of "unat nib"] by simp

lemma unat_nibble: "unat ((x :: u32) AND 0xF) < 16"
proof -
  have "x AND 0xF \<le> 0xF" by (rule word_and_le1)
  then show ?thesis by (simp add: word_le_nat_alt)
qed

lemma exit_hex_puts:
  "exit_hex putc lr n m =
     puts_with putc (map (\<lambda>i. hexd ! unat (drop_bit (4 * i) lr AND 0xF)) (rev [0..<n])) m"
proof (induction n arbitrary: m)
  case (Suc n)
  have "exit_hex putc lr n = puts_with putc (map (\<lambda>i. hexd ! unat (drop_bit (4 * i) lr AND 0xF)) (rev [0..<n]))"
    using Suc by (intro ext)
  then show ?case by (simp add: nibble_char_hexd unat_nibble)
qed simp

lemma exit_hex_8: "exit_hex putc lr 8 = puts_with putc (hex_digits lr)"
proof -
  have upt: "rev [0..<8] = [7, 6, 5, 4, 3, 2, 1, 0 :: nat]" by (simp add: upt_rec)
  show ?thesis
    by (intro ext) (simp only: exit_hex_puts hex_digits_def upt mult.commute [of 4])
qed

lemma puts_single: "puts_with putc [c] = putc c"
proof
  show "puts_with putc [c] m = putc c m" for m by (cases "putc c m") simp_all
qed

lemma exit_rpi1_puts:
  "exit_rpi1 D lr m = puts_with (dhruva_dprintf_putc D) (''panic caller LR=0x'' @ hex_digits lr @ [CHR 0x0A]) m"
  by (simp only: exit_rpi1_def dhruva_dprintf_puts_def puts_with_append exit_hex_8 puts_single)

section \<open>The consoles\<close>

lemma putc_at_out:
  assumes "putc_at D fr dr c m = Some m'"
  shows "written dr (bus m') = written dr (bus m) @ [of_char c]"
proof -
  have "uart_wait D fr m = Some m1 \<Longrightarrow> written dr (bus m1) = written dr (bus m)" for m1
    by (rule io_written [OF uart_wait_io [where P = "\<lambda>e. \<exists>v. e = BusRead fr v"]]) auto
  with assms show ?thesis by (auto simp: putc_at_def elim!: bind_SomeE)
qed

definition uart_live :: "'s device \<Rightarrow> u32 \<Rightarrow> bool" where
  "uart_live D fr \<longleftrightarrow> (\<exists>busy. uart_ok D fr busy)"

lemma putc_at_live: "uart_live D fr \<Longrightarrow> \<exists>m'. putc_at D fr dr c m = Some m'"
proof -
  assume "uart_live D fr"
  then obtain m1 where "uart_wait D fr m = Some m1"
    using uart_wait_live unfolding uart_live_def returns_def by blast
  then show ?thesis by (simp add: putc_at_def)
qed

interpretation panic_rpi1: live_console "dhruva_dprintf_putc D" "\<lambda>m. written UART_DR_RPI1 (bus m)"
    "uart_live D UART_FR_RPI1" for D
  by unfold_locales (simp_all add: dhruva_dprintf_putc_def putc_at_out putc_at_live)

interpretation panic_rpi4: live_console "dhruva_dprintf_putc_rpi4 D" "\<lambda>m. written UART_DR_RPI4 (bus m)"
    "uart_live D UART_FR_RPI4" for D
  by unfold_locales (simp_all add: dhruva_dprintf_putc_rpi4_def putc_at_out putc_at_live)

interpretation oom_rpi1: live_console "dhruva_oom_putc D" "\<lambda>m. written UART_DR_RPI1 (bus m)"
    "uart_live D UART_FR_RPI1" for D
  by unfold_locales (simp_all add: dhruva_oom_putc_def putc_at_out putc_at_live)

interpretation stage0_uart: live_console "u_putc D" "\<lambda>m. written UART_DR_RPI1 (bus m)"
    "uart_live D UART_FR_RPI1" for D
  by unfold_locales (auto simp: u_putc_out uart_live_def dest: u_putc_live [unfolded returns_def])

end
