(* ===== verification/Upload_Line.thy ===== *)
theory Upload_Line
  imports Kernel_Upload Libc_Proofs
begin

text \<open>
  The arguments of a command line: where words end, decimal numbers and hexadecimal strings, each
  with a reference that writes them, so that what is written is what the commands read.
\<close>

section \<open>Words\<close>

definition word_at :: "u8 list \<Rightarrow> nat \<Rightarrow> nat \<Rightarrow> u8 list" where
  "word_at line i j = take (j - i) (drop i line)"

definition ascii :: "string \<Rightarrow> u8 list" where
  "ascii s = map of_char s"

lemma ascii_simps [simp]: "ascii (s @ t) = ascii s @ ascii t" "ascii [] = []" "length (ascii s) = length s"
  by (simp_all add: ascii_def)

lemma byte_u32_eq: "(ucast x :: u32) = ucast y \<longleftrightarrow> x = (y :: u8)"
  using byte_ucast by metis

lemma read_byte_eq: "kbuf_read_byte buf i = 32 \<longleftrightarrow> buf ! i = 32"
  using byte_u32_eq [of "buf ! i" 32] by (simp add: kbuf_read_byte_def)

lemma find_space_stops:
  assumes "line = pre @ w @ post" and "32 \<notin> set w" and "post = [] \<or> hd post = 32"
  shows "shell_find_space line (length pre) (length line) = length pre + length w"
  using assms
proof (induction w arbitrary: pre)
  case Nil
  then show ?case
    by (subst shell_find_space.simps) (cases post; auto simp: read_byte_eq nth_append)
next
  case (Cons c w)
  have "line = (pre @ [c]) @ w @ post" using Cons.prems(1) by simp
  from Cons.IH [OF this] Cons.prems have "shell_find_space line (length pre + 1) (length line) = length pre + length (c # w)"
    by simp
  moreover have "length pre < length line" "line ! length pre = c" "c \<noteq> 32" using Cons.prems by (auto simp: nth_append)
  ultimately show ?case by (subst shell_find_space.simps) (simp add: read_byte_eq)
qed

lemma find_space_range: "i \<le> n \<Longrightarrow> i \<le> shell_find_space buf i n \<and> shell_find_space buf i n \<le> n"
proof (induction buf i n rule: shell_find_space.induct)
  case (1 buf i n)
  then show ?case by (subst (1 2) shell_find_space.simps) (cases "i < n"; fastforce)
qed

section \<open>Decimal numbers\<close>

lemma rev_dec_digits: "c \<in> set (rev_dec k) \<Longrightarrow> \<exists>d < 10. c = char_of (48 + d :: nat)"
proof (induction k rule: rev_dec.induct)
  case (1 k)
  show ?case
  proof (cases "k = 0")
    case False
    with 1 show ?thesis
      by (cases "c = char_of (48 + k mod 10)")
        (auto simp: rev_dec.simps [of k] intro: exI [of _ "k mod 10"])
  qed (use 1 in simp)
qed

lemma dec_string_digits:
  assumes "c \<in> set (dec_string k)"
  shows "\<exists>d < 10. c = char_of (48 + d :: nat)"
proof (cases "k = 0")
  case True
  have "CHR ''0'' = char_of (48 + 0 :: nat)" using char_of_char [of "CHR ''0''", where 'a = nat] by simp
  with True assms show ?thesis by (intro exI [of _ 0]) (simp add: dec_string_def)
qed (use assms rev_dec_digits [of c k] in \<open>simp add: dec_string_def\<close>)

lemma digit_byte:
  assumes "d < 10" and "c = char_of (48 + d :: nat)"
  shows "(of_char c :: nat) = 48 + d" and "unat (of_char c :: u8) = 48 + d"
proof -
  show c: "(of_char c :: nat) = 48 + d" using assms by simp
  have "(of_char c :: u8) = of_nat (of_char c)" by (simp add: of_char_def)
  then have "(of_char c :: u8) = of_nat (48 + d)" by (simp only: c)
  then show "unat (of_char c :: u8) = 48 + d" using assms(1) by (simp add: unat_of_nat del: of_nat_add)
qed

lemma decimal_loop_value:
  assumes "\<forall>c \<in> set s. \<exists>d < 10. c = char_of (48 + d :: nat)" and "0 \<le> v"
  shows "decimal_loop (map (\<lambda>c. ucast (of_char c :: u8)) s) v
    = foldl (\<lambda>v c. v * 10 + int (of_char c - 48)) v s \<and> 0 \<le> decimal_loop (map (\<lambda>c. ucast (of_char c :: u8)) s) v"
  using assms
proof (induction s arbitrary: v)
  case (Cons c s)
  then obtain d :: nat where d: "d < 10" "c = char_of (48 + d)" by auto
  note u = digit_byte [OF this]
  have n: "unat (ucast (of_char c :: u8) :: u32) = 48 + d" using u(2) d(1) by (simp add: unsigned_ucast_eq take_bit_nat_eq_self)
  then have k: "\<not> ((ucast (of_char c :: u8) :: u32) < 48 \<or> (ucast (of_char c :: u8) :: u32) > 57)"
    using d(1) by (simp add: word_less_nat_alt)
  have "uint ((ucast (of_char c :: u8) :: u32) - 48) = int d"
    using n by (simp add: uint_nat unat_sub word_le_nat_alt)
  with Cons.prems Cons.IH [of "v * 10 + int d"] k u(1) show ?case by simp
qed simp

lemma foldl_int: "foldl (\<lambda>v c. v * 10 + int (of_char c - 48)) (int k) s = int (foldl (\<lambda>v c. 10 * v + (of_char c - 48)) k s)"
proof (induction s arbitrary: k)
  case (Cons c s)
  from Cons [of "10 * k + (of_char c - 48)"] show ?case by (simp add: mult.commute)
qed simp

lemma dec_string_length: "k < 10 ^ n \<Longrightarrow> 0 < n \<Longrightarrow> length (dec_string k) \<le> n"
  using rev_dec_length [of k n] by (simp add: dec_string_def)

lemma dec_string_nonempty: "dec_string k \<noteq> []"
  by (subst dec_string_def) (subst rev_dec.simps, simp)

lemma parse_decimal_text:
  assumes "line = pre @ ascii (dec_string k) @ post" and "k < 10 ^ 10"
  shows "shell_parse_decimal line (length pre) (length pre + length (dec_string k)) = int k"
proof -
  have "map (kbuf_read_byte line) [length pre..<length pre + length (dec_string k)]
      = map (\<lambda>c. ucast (of_char c :: u8)) (dec_string k)"
    by (intro nth_equalityI) (simp_all add: assms(1) kbuf_read_byte_def nth_append ascii_def)
  moreover have "decimal_loop (map (\<lambda>c. ucast (of_char c :: u8)) (dec_string k)) 0 = int k"
    using decimal_loop_value [of "dec_string k" 0] dec_string_digits foldl_int [of 0] dec_value_string [of k]
    by (auto simp: dec_value_def)
  ultimately show ?thesis
    using dec_string_length [OF assms(2)] dec_string_nonempty [of k] by (simp add: shell_parse_decimal_def)
qed

lemma decimal_no_space: "32 \<notin> set (ascii (dec_string k))"
proof
  assume "32 \<in> set (ascii (dec_string k))"
  then obtain c where c: "c \<in> set (dec_string k)" "(of_char c :: u8) = 32" by (auto simp: ascii_def)
  then obtain d :: nat where "d < 10" "c = char_of (48 + d)" using dec_string_digits by blast
  from digit_byte [OF this] c(2) show False by simp
qed

section \<open>Hexadecimal strings\<close>

definition hex_char :: "nat \<Rightarrow> u8" where
  "hex_char d = (if d < 10 then of_nat (48 + d) else of_nat (87 + d))"

definition hex_text :: "u8 list \<Rightarrow> u8 list" where
  "hex_text bs = concat (map (\<lambda>b. [hex_char (unat b div 16), hex_char (unat b mod 16)]) bs)"

lemma length_hex_text [simp]: "length (hex_text bs) = 2 * length bs"
  by (induction bs) (simp_all add: hex_text_def)

lemma hex_char_nibble:
  assumes "d < 16"
  shows "shell_is_hex_digit (ucast (hex_char d))" and "hex_ascii_to_nibble (ucast (hex_char d)) = of_nat d"
    and "hex_char d \<noteq> 32"
proof -
  have "d = 0 \<or> d = 1 \<or> d = 2 \<or> d = 3 \<or> d = 4 \<or> d = 5 \<or> d = 6 \<or> d = 7 \<or> d = 8 \<or> d = 9
      \<or> d = 10 \<or> d = 11 \<or> d = 12 \<or> d = 13 \<or> d = 14 \<or> d = 15"
    using assms by arith
  then show "shell_is_hex_digit (ucast (hex_char d))" "hex_ascii_to_nibble (ucast (hex_char d)) = of_nat d"
      "hex_char d \<noteq> 32"
    by (elim disjE; simp add: shell_is_hex_digit_def hex_ascii_to_nibble_def hex_char_def)+
qed

lemma hex_nibbles: "unat (b :: u8) div 16 < 16" "unat (b :: u8) mod 16 < 16"
  using unsigned_less [of b, where 'a = nat] by (simp_all add: less_mult_imp_div_less)

lemma hex_no_space: "32 \<notin> set (hex_text bs)"
proof
  assume "32 \<in> set (hex_text bs)"
  then obtain b :: u8 where "32 = hex_char (unat b div 16) \<or> 32 = hex_char (unat b mod 16)"
    by (force simp: hex_text_def)
  then show False using hex_char_nibble(3) hex_nibbles by metis
qed


text \<open>What the reader stores, for any text: the bytes up to the first pair that is not one.\<close>

definition hex_pair :: "u8 list \<Rightarrow> nat \<Rightarrow> bool" where
  "hex_pair line j \<longleftrightarrow> shell_is_hex_digit (kbuf_read_byte line j) \<and> shell_is_hex_digit (kbuf_read_byte line (j + 1))"

definition hex_byte :: "u8 list \<Rightarrow> nat \<Rightarrow> u8" where
  "hex_byte line j = ucast (push_bit 4 (hex_ascii_to_nibble (kbuf_read_byte line j))
     OR hex_ascii_to_nibble (kbuf_read_byte line (j + 1)))"

lemma hex_loop_spec:
  "hex_loop line start is out = (0, out') \<Longrightarrow>
     (\<forall>i \<in> set is. hex_pair line (start + i * 2)) \<and> out' = fold (\<lambda>i out. out[i := hex_byte line (start + i * 2)]) is out"
  by (induction "is" arbitrary: out)
    (auto simp: Let_def hex_pair_def hex_byte_def kbuf_write_byte_def split: if_splits)

lemma hex_loop_total:
  "\<forall>i \<in> set is. hex_pair line (start + i * 2) \<Longrightarrow>
     hex_loop line start is out = (0, fold (\<lambda>i out. out[i := hex_byte line (start + i * 2)]) is out)"
  by (induction "is" arbitrary: out) (simp_all add: Let_def hex_pair_def hex_byte_def kbuf_write_byte_def)

lemma hex_bytes_out:
  assumes "shell_parse_hex_bytes line i j out n = (0, out')" and "n \<le> length out"
  shows "out' = map (\<lambda>k. hex_byte line (i + k * 2)) [0..<n] @ drop n out" and "length out' = length out"
proof -
  have "out' = fold (\<lambda>k out. out[k := hex_byte line (i + k * 2)]) [0..<n] out"
    using assms(1) hex_loop_spec by (auto simp: shell_parse_hex_bytes_def split: if_splits)
  also have "\<dots> = map (\<lambda>k. hex_byte line (i + k * 2)) [0..<n] @ drop n out"
    using assms(2) nth_fold_update [of 0 "\<lambda>k. hex_byte line (i + k * 2)" n out]
    by (intro nth_equalityI) (auto simp: nth_append)
  finally show "out' = map (\<lambda>k. hex_byte line (i + k * 2)) [0..<n] @ drop n out" .
  then show "length out' = length out" using assms(2) by simp
qed

lemma hex_text_nth:
  "k < length bs \<Longrightarrow> hex_text bs ! (2 * k) = hex_char (unat (bs ! k) div 16)
     \<and> hex_text bs ! (2 * k + 1) = hex_char (unat (bs ! k) mod 16)"
proof (induction bs arbitrary: k)
  case (Cons b bs)
  then show ?case by (cases k) (auto simp: hex_text_def)
qed simp

lemma nibbles_byte: "ucast (push_bit 4 (of_nat (unat b div 16) :: u32) OR of_nat (unat b mod 16)) = (b :: u8)"
proof -
  have "of_nat (unat b div 16) = (ucast (drop_bit 4 b) :: u32)"
    using unat_drop [of 4 b] of_nat_unat [of "drop_bit 4 b"] by simp
  moreover have "of_nat (unat b mod 16) = (ucast (take_bit 4 b) :: u32)"
    using unsigned_take_bit_eq [of 4 b, where 'a = nat] of_nat_unat [of "take_bit 4 b"] by (simp add: take_bit_eq_mod)
  ultimately show ?thesis
    by (intro bit_word_eqI) (auto simp: bit_simps)
qed

lemma parse_hex_text:
  assumes "line = pre @ hex_text bs @ post" and "length bs \<le> length out"
  shows "shell_parse_hex_bytes line (length pre) (length pre + length (hex_text bs)) out (length bs)
    = (0, bs @ drop (length bs) out)"
proof -
  let ?i = "length pre"
  have at: "line ! (?i + k * 2) = hex_char (unat (bs ! k) div 16)"
      "line ! (?i + k * 2 + 1) = hex_char (unat (bs ! k) mod 16)" if "k < length bs" for k
    using hex_text_nth [OF that] that by (simp_all add: assms(1) nth_append mult.commute)
  have pair: "hex_pair line (?i + k * 2)" "hex_byte line (?i + k * 2) = bs ! k" if "k < length bs" for k
    unfolding hex_pair_def hex_byte_def kbuf_read_byte_def
    using at [OF that] hex_char_nibble(1,2) hex_nibbles [of "bs ! k"] nibbles_byte [of "bs ! k"] by simp_all
  then have run: "shell_parse_hex_bytes line ?i (?i + length (hex_text bs)) out (length bs)
      = (0, fold (\<lambda>k out. out[k := hex_byte line (?i + k * 2)]) [0..<length bs] out)"
    by (simp add: shell_parse_hex_bytes_def hex_loop_total)
  have "map (\<lambda>k. hex_byte line (?i + k * 2)) [0..<length bs] = bs"
    using pair(2) by (intro nth_equalityI) simp_all
  with hex_bytes_out(1) [OF run assms(2)] run show ?thesis by simp
qed

end
