(* ===== verification/Upload_Properties.thy ===== *)
theory Upload_Properties
  imports Upload_Record Upload_Line
begin

text \<open>
  The properties of \<open>kernelupload commit\<close>: what a commit can change on the card, and what was
  verified before it does; and that a whole upload is accepted.
\<close>

section \<open>The blocks of an image\<close>

lemma slot_block_apart:
  assumes "x \<in> state_blocks \<union> progress_blocks" and "k \<le> 12288"
  shows "x \<noteq> slot_base_block t + of_nat k"
proof
  assume eq: "x = slot_base_block t + of_nat k"
  have base: "unat (slot_base_block t) = 10240 \<or> unat (slot_base_block t) = 22528"
    by (simp add: slot_base_block_def kernelslot_a_base_block_def kernelslot_b_base_block_def)
  have "unat (of_nat k :: u64) = k" using assms(2) by (simp add: unat_of_nat)
  then have "10240 \<le> unat (slot_base_block t + of_nat k)" using base assms(2) by (auto simp: unat_word_ariths)
  moreover have "unat x < 10240"
    using assms(1) by (auto simp: state_blocks_def progress_blocks_def kernelslot_state_block_a_def
        kernelslot_state_block_b_def kernelupload_chunk_state_block_a_def kernelupload_chunk_state_block_b_def)
  ultimately show False by (simp add: eq)
qed

lemma size_blocks:
  assumes "int len \<le> kernelslot_size_bytes"
  shows "len div 512 \<le> 12288" and "block_count len \<le> 12288"
  using assms by (simp_all add: kernelslot_size_bytes_def block_count_def)

lemma card_image_cong:
  assumes "int len \<le> kernelslot_size_bytes"
    and "\<And>x. x \<notin> state_blocks \<union> progress_blocks \<Longrightarrow> v' x = v x"
  shows "card_image v' (slot_base_block t) len = card_image v (slot_base_block t) len"
proof -
  have "v' (slot_base_block t + of_nat k) = v (slot_base_block t + of_nat k)" if "k < block_count len" for k
    using slot_block_apart [of _ k t] size_blocks(2) [OF assms(1)] that by (intro assms(2)) auto
  then have "map (\<lambda>k. v' (slot_base_block t + of_nat k)) [0..<block_count len]
      = map (\<lambda>k. v (slot_base_block t + of_nat k)) [0..<block_count len]"
    by (intro map_cong) auto
  then show ?thesis by (simp only: card_image_def)
qed

text \<open>The digest that a command line claims.\<close>

definition line_digest :: "u8 list \<Rightarrow> nat \<Rightarrow> nat \<Rightarrow> u8 list" where
  "line_digest line sub_end n = map (\<lambda>k. hex_byte line (sha_word line sub_end n + k * 2)) [0..<32]"

lemma claimed_digest:
  assumes "up_wf st" and "shell_parse_hex_bytes line (sha_word line sub_end n) j (up_decode_buf st) 32 = (0, buf)"
  shows "take 32 buf = line_digest line sub_end n" and "up_wf (st\<lparr>up_decode_buf := buf\<rparr>)"
  using hex_bytes_out [OF assms(2)] assms(1) by (simp_all add: up_wf_def line_digest_def)

section \<open>Only what was verified is marked\<close>

lemma commit_marks:
  assumes sound: "sd_sound dev view" and wf: "up_wf st"
    and run: "kernelupload_commit dev line sub_end n st = Some st'"
    and x: "x \<in> state_blocks" and changed: "view (sd st') x \<noteq> view (sd st) x"
  shows "\<exists>len r r' y. len = unat (up_total_len st) \<and> 0 < len \<and> int len \<le> kernelslot_size_bytes
    \<and> sha256_digest (card_image (view (sd st')) (slot_base_block (up_target_slot st)) len) = line_digest line sub_end n
    \<and> y \<in> state_blocks \<and> y \<noteq> x \<and> parse_slot_state (view (sd st) y) = Some r
    \<and> record_upload (up_target_slot st) (of_nat len) (line_digest line sub_end n) r = Some r'
    \<and> (view (sd st') x = slot_wire r' \<or> last (printed st') = Str ''kernelupload: slot-state write-back failed\<newline>'')"
  using run
proof (cases rule: commit_enters)
  case (refused os b buf)
  then show ?thesis using changed by (simp add: say_def)
next
  case (image buf)
  let ?len = "unat (up_total_len st)" and ?st = "st\<lparr>up_decode_buf := buf\<rparr>" and ?t = "up_target_slot st"
  have size: "int ?len \<le> kernelslot_size_bytes" using image(2) by simp
  note d = claimed_digest [OF wf image(4)]
  note away = slot_block_apart [of x "?len div 512" ?t] size_blocks(1) [OF size]
  from sound d(2) image(1,5) show ?thesis
  proof (cases rule: commit_image_cases)
    case rejected
    then show ?thesis using changed x away by (simp add: same_but_last_def)
  next
    case (verified st1)
    from verified(2) have same: "view (sd st1) x = view (sd st) x"
      "length (up_record_buf st1) = 512" "up_decode_buf st1 = buf" "32 \<le> length (up_decode_buf st1)"
      and other: "\<And>y. y \<in> state_blocks \<Longrightarrow> view (sd st1) y = view (sd st) y"
      using x away d(2) slot_block_apart [of _ "?len div 512" ?t] size_blocks(1) [OF size]
      by (auto simp: same_but_last_def up_wf_def)
    from sound same(2,4) verified(1) show ?thesis
    proof (cases rule: commit_record_cases)
      case (kept msg)
      then show ?thesis using changed same by simp
    next
      case (written r r' msg)
      have stale: "x = kernelslot_stale_block r"
        using written(5) changed same(1) stale_not_progress [OF x] by auto
      have "card_image (view (sd st')) (slot_base_block ?t) ?len = card_image (view (sd st1)) (slot_base_block ?t) ?len"
        using written(5) by (intro card_image_cong size) (metis stale_in_state_blocks UnCI insertE)
      moreover have "chosen_block r \<noteq> x"
        using written(3) by (auto simp: stale kernelslot_stale_block_def state_blocks_def
            kernelslot_state_block_a_def kernelslot_state_block_b_def split: if_splits)
      ultimately show ?thesis
        using image(1) size verified(4) d(1) same(3) written(2,3,4,6,7) other [OF written(3)] stale
        by (intro exI [of _ ?len] exI [of _ "slot_state.truncate r"] exI [of _ r'] exI [of _ "chosen_block r"]) auto
    qed
  qed
qed

end
