(* ===== verification/Upload_Complete.thy ===== *)
theory Upload_Complete
  imports Upload_Properties
begin

text \<open>
  An upload that comes in whole is accepted: on a working driver the bytes taken in, the commit and
  the slot-state record fit together.
\<close>

section \<open>The image on the card\<close>

definition sd_writes_all :: "'d kernel_io \<Rightarrow> bool" where
  "sd_writes_all dev \<longleftrightarrow> (\<forall>b out d. fst (io_write dev b out d) = 0)"

lemma concat_pieces: "concat (map (\<lambda>k. take 512 (drop (k * 512) msg)) [0..<n]) = take (n * 512) msg"
proof (induction n)
  case (Suc n)
  then show ?case using take_add [of "n * 512" 512 msg] by (simp add: add.commute)
qed simp

lemma card_image_whole:
  assumes "blocks_on v base msg"
    and "length msg mod 512 \<noteq> 0 \<Longrightarrow>
      take (length msg mod 512) (v (base + of_nat (length msg div 512))) = drop (length msg div 512 * 512) msg"
  shows "card_image v base (length msg) = msg"
proof -
  let ?q = "length msg div 512" and ?p = "length msg mod 512"
  have len: "length msg = ?q * 512 + ?p" by simp
  have bc: "block_count (length msg) = (if ?p = 0 then ?q else Suc ?q)"
  proof -
    have "(?q * 512 + (?p + 511)) div 512 = ?q + (?p + 511) div 512" by (rule div_mult_self3) simp
    moreover have "?q * 512 + (?p + 511) = length msg + 511" using len by linarith
    moreover have "(?p + 511) div 512 = 1" if "0 < ?p"
      using that by (intro div_nat_eqI) (simp_all add: less_imp_le)
    ultimately show ?thesis by (cases "?p = 0") (simp_all add: block_count_def)
  qed
  have "map (\<lambda>k. v (base + of_nat k)) [0..<?q] = map (\<lambda>k. take 512 (drop (k * 512) msg)) [0..<?q]"
    using assms(1) by (intro map_cong) (auto simp: blocks_on_def)
  then have full: "concat (map (\<lambda>k. v (base + of_nat k)) [0..<?q]) = take (?q * 512) msg"
    by (simp only: concat_pieces)
  show ?thesis
  proof (cases "?p = 0")
    case True
    then have "?q * 512 = length msg" using len by linarith
    then show ?thesis using full True by (simp add: card_image_def bc)
  next
    case False
    have "take (length msg) (take (?q * 512) msg @ v (base + of_nat ?q))
        = take (?q * 512) msg @ take ?p (v (base + of_nat ?q))"
      using len False by (simp add: min_absorb2 minus_div_mult_eq_mod)
    also have "\<dots> = msg" using assms(2) [OF False] by (metis append_take_drop_id)
    finally show ?thesis using False full by (simp add: card_image_def bc)
  qed
qed

lemma pad_keeps: "take p (fold (\<lambda>i buf. kbuf_write_byte buf i 0) [p..<512] buf) = take p buf"
proof -
  have "\<forall>i \<in> set is. p \<le> i \<Longrightarrow> take p (fold (\<lambda>i buf. kbuf_write_byte buf i 0) is buf) = take p buf" for "is"
    by (induction "is" arbitrary: buf) (simp_all add: kbuf_write_byte_def take_update_cancel)
  then show ?thesis by simp
qed

lemma last_block_whole:
  assumes sound: "sd_sound dev view" and writes: "sd_writes_all dev" and "length msg < 2 ^ 32"
    and taken: "taken_in view base msg ctx st"
    and run: "commit_last_block dev base (length msg) ctx st = (r, st')"
  shows "\<exists>c. r = Some c \<and> ctx_absorbed c msg" and "card_image (view (sd st')) base (length msg) = msg"
proof -
  let ?q = "length msg div 512" and ?p = "length msg mod 512"
  note t = taken [unfolded taken_in_def]
  have full: "full_part msg @ drop (?q * 512) msg = msg" by (simp add: full_part_def)
  show "\<exists>c. r = Some c \<and> ctx_absorbed c msg" and "card_image (view (sd st')) base (length msg) = msg"
  proof (atomize(full), cases "?p = 0")
    case True
    then have "r = Some ctx" "st' = st" using run by (simp_all add: commit_last_block_def Let_def)
    moreover have "?q * 512 = length msg" using True div_mult_mod_eq [of "length msg" 512] by linarith
    then have "full_part msg = msg" by (simp add: full_part_def)
    ultimately show "(\<exists>c. r = Some c \<and> ctx_absorbed c msg) \<and> card_image (view (sd st')) base (length msg) = msg"
      using t True card_image_whole [of "view (sd st)" base msg] by simp
  next
    case False
    let ?buf = "fold (\<lambda>i buf. kbuf_write_byte buf i 0) [?p..<512] (up_block_buf st)"
    obtain d where w: "io_write dev (base + of_nat ?q) ?buf (sd st) = (0, d)"
      using writes by (metis eq_fst_iff sd_writes_all_def)
    have r: "r = Some (hash_block ctx ?buf ?p)" "sd st' = d"
      using run w False by (auto simp: commit_last_block_def Let_def)
    note wr = sd_sound_write [OF sound w]
    have buf: "length ?buf = 512" "take ?p ?buf = drop (?q * 512) msg" using t by (simp_all add: pad_keeps)
    have "ctx_absorbed (hash_block ctx ?buf ?p) (full_part msg @ take ?p ?buf)"
      using t buf(1) by (intro hash_block) simp_all
    moreover have "view d (base + of_nat k) = view (sd st) (base + of_nat k)" if "k < ?q" for k
      using wr(1) block_number_inj [of k ?q base] that assms(3) by simp
    then have "blocks_on (view d) base msg" using t by (simp add: blocks_on_def)
    ultimately show "(\<exists>c. r = Some c \<and> ctx_absorbed c msg) \<and> card_image (view (sd st')) base (length msg) = msg"
      using card_image_whole [of "view d" base msg] wr(2) buf r full by simp
  qed
qed

lemma readback_total:
  assumes "sd_reads_all dev"
  shows "\<exists>c st'. readback_loop dev base n p rbs ctx st = (Some c, st')"
proof (induction rbs arbitrary: ctx st)
  case (Cons rb rbs)
  obtain buf d where "io_read dev (base + of_nat rb) (up_block_buf st) (sd st) = (0, buf, d)"
    using assms by (metis eq_fst_iff sd_reads_all_def prod.collapse)
  then show ?case using Cons by simp
qed simp

text \<open>The first half of a commit, where the claimed digest is the right one.\<close>

lemma commit_image_accepts:
  assumes sound: "sd_sound dev view" and works: "sd_reads_all dev" "sd_writes_all dev" and wf: "up_wf st"
    and msg: "0 < length msg" "length msg < 2 ^ 32" "take 32 (up_decode_buf st) = sha256_digest msg"
    and taken: "taken_in view (slot_base_block (up_target_slot st)) msg (kernelupload_ctx_load (up_sha_ctx st)) st"
  obtains st1 where "commit_image dev (length msg) st = commit_record dev (up_target_slot st) (length msg) st1"
    "same_but_last view (slot_base_block (up_target_slot st)) (length msg) st st1" "printed st1 = printed st"
    "card_image (view (sd st1)) (slot_base_block (up_target_slot st)) (length msg) = msg"
proof -
  let ?base = "slot_base_block (up_target_slot st)" and ?len = "length msg"
  obtain r1 sa where last: "commit_last_block dev ?base ?len (kernelupload_ctx_load (up_sha_ctx st)) st = (r1, sa)"
    by fastforce
  from last_block_whole [OF sound works(2) msg(2) taken last] obtain ctx where ctx: "r1 = Some ctx" "ctx_absorbed ctx msg"
      and img: "card_image (view (sd sa)) ?base ?len = msg" by blast
  have buf: "length (up_block_buf st) = 512" "32 \<le> length (up_sd_scratch st)" "32 \<le> length (up_decode_buf st)"
    using wf by (simp_all add: up_wf_def)
  note l = last_block_spec [OF sound buf(1) last]
  note fa = touchedD [OF l(1)]
  let ?sb = "put_digest (kernel_sha256_finalize ctx) sa"
  obtain ctx2 sc where rb: "readback_loop dev ?base (block_count ?len) (?len mod 512) [0..<block_count ?len]
      kernel_sha256_init ?sb = (Some ctx2, sc)"
    using readback_total [OF works(1)] by blast
  note k = readback_keeps [OF sound rb]
  note fc = touchedD [OF k(2)]
  let ?sd = "put_digest (kernel_sha256_finalize ctx2) sc"
  have "?len mod 512 < 512" "length (up_block_buf ?sb) = 512" using l(2) by simp_all
  from readback_spec [OF sound this(1) rb ctx_absorbed_init this(2)]
  have "ctx_absorbed ctx2 msg"
    using image_pieces [OF msg(1), of "\<lambda>k. view (sd sa) (?base + of_nat k)"] sd_soundD(1) [OF sound] img
    by (simp add: card_image_def)
  then have eq: "sha256_bytes_equal (up_sd_scratch ?sb) (up_decode_buf ?sb) 32"
      "sha256_bytes_equal (up_sd_scratch ?sd) (up_decode_buf ?sd) 32"
    using equal_digest [of "sha256_digest msg" sa "up_decode_buf sa"]
      equal_digest [of "sha256_digest msg" sc "up_decode_buf sc"] ctx(2) buf fa fc msg(3)
    by (simp_all add: ctx_absorbed_finalize)
  show thesis
  proof (rule that [of ?sd])
    show "commit_image dev ?len st = commit_record dev (up_target_slot st) ?len ?sd"
      using last ctx(1) rb eq by (simp add: commit_image_def Let_def)
  qed (use l(3) fa fc k(1) img in \<open>simp_all add: same_but_last_def\<close>)
qed


section \<open>The records\<close>

text \<open>The progress record that a card holds, where no read fails.\<close>

definition progress_select :: "(u64 \<Rightarrow> u8 list) \<Rightarrow> KernelUploadChunkProgress" where
  "progress_select v = fst (kernelupload_chunk_progress_lookup (\<lambda>b buf d. (0, v b, d)) ([], ()))"

lemma progress_lookup_all:
  assumes sound: "sd_sound dev view" and reads: "sd_reads_all dev" and buf: "length buf = 512"
    and look: "kernelupload_chunk_progress_lookup (io_read dev) (buf, d) = (p, buf', d')"
  shows "p = progress_select (view d)"
proof -
  obtain ba d1 where a: "io_read dev kernelupload_chunk_state_block_a buf d = (0, ba, d1)"
    using reads by (metis eq_fst_iff sd_reads_all_def prod.collapse)
  obtain bb d2 where b: "io_read dev kernelupload_chunk_state_block_b ba d1 = (0, bb, d2)"
    using reads by (metis eq_fst_iff sd_reads_all_def prod.collapse)
  have "ba = view d kernelupload_chunk_state_block_a" "bb = view d kernelupload_chunk_state_block_b"
    using sd_sound_read [OF sound a] sd_sound_read [OF sound b] buf by simp_all
  then have "fst (kernelupload_chunk_progress_lookup (io_read dev) (buf, d)) = progress_select (view d)"
    using a b by (simp add: progress_select_def kernelupload_chunk_progress_lookup_def Let_def)
  then show ?thesis by (simp add: look)
qed

lemma progress_select_cong:
  "\<forall>x \<in> progress_blocks. v' x = v x \<Longrightarrow> progress_select v' = progress_select v"
  by (simp add: progress_select_def kernelupload_chunk_progress_lookup_def progress_blocks_def Let_def)

text \<open>Its generation is not the last one.\<close>

definition progress_counts :: "(u64 \<Rightarrow> u8 list) \<Rightarrow> bool" where
  "progress_counts v \<longleftrightarrow> p_valid (progress_select v) = 1 \<longrightarrow> p_generation (progress_select v) \<noteq> - 1"

lemma progress_clear_total:
  assumes "sd_sound dev view" and "sd_reads_all dev" and "length buf = 512"
    and "p_generation (progress_select (view d)) \<noteq> - 1"
  shows "\<exists>s buf' d'. kernelupload_chunk_progress_clear (io_read dev) (io_write dev) (buf, d) = Some (s, buf', d')"
proof -
  obtain p b1 d1 where look: "kernelupload_chunk_progress_lookup (io_read dev) (buf, d) = (p, b1, d1)"
    by (metis prod_cases3)
  with progress_lookup_all [OF assms(1-3) look] assms(4) show ?thesis
    by (simp add: kernelupload_chunk_progress_clear_def kernelupload_chunk_progress_write_def Let_def split: prod.split)
qed

lemma record_returns:
  assumes sound: "sd_sound dev view" and works: "sd_reads_all dev" "sd_writes_all dev" and buf: "length buf = 512"
    and sel: "card_select (slot_copies (view d)) = Some (s, stale)" and gen: "generation s \<noteq> - 1"
  shows "\<exists>buf' d'. kernelupload_record (io_read dev) (io_write dev) t len digest (buf, d) = Some ([], 0, buf', d')"
proof -
  obtain r b1 d1 where look: "kernelslot_lookup (io_read dev) (buf, d) = (r, b1, d1)" by (metis prod_cases3)
  from lookup_view(4) [OF sound buf look works(1)] sel have r: "valid r = 1" "slot_state.truncate r = s"
    by (auto split: if_splits)
  then have "generation r \<noteq> - 1" using gen truncate_fields(1) [of r] by simp
  then obtain q where q: "record_upload t len digest r = Some q" by (auto simp: kernel_update_defs)
  obtain d2 where "io_write dev (kernelslot_stale_block r) (kernelslot_build q b1) d1 = (0, d2)"
    using works(2) by (metis eq_fst_iff sd_writes_all_def)
  then show ?thesis using look r(1) q by (simp add: kernelupload_record_def kernelslot_write_record_def)
qed

lemma put_stale:
  assumes "\<forall>x. x \<notin> insert b progress_blocks \<longrightarrow> v' x = v x" and "b \<in> state_blocks"
  shows "slot_copies v' = put_block (ucast b) (v' b) (slot_copies v)"
proof -
  have keep: "x \<in> state_blocks \<Longrightarrow> x \<noteq> b \<Longrightarrow> v' x = v x" for x
    using assms(1) stale_not_progress [of x] by simp
  have ab: "kernelslot_state_block_a \<in> state_blocks" "kernelslot_state_block_b \<in> state_blocks"
    by (simp_all add: state_blocks_def)
  have u: "ucast kernelslot_state_block_a = SLOT_STATE_BLOCK_A" "ucast kernelslot_state_block_b \<noteq> SLOT_STATE_BLOCK_A"
      "kernelslot_state_block_a \<noteq> kernelslot_state_block_b"
    by (simp_all add: kernelslot_state_block_a_def kernelslot_state_block_b_def stage0_const_defs)
  from assms(2) consider "b = kernelslot_state_block_a" | "b = kernelslot_state_block_b"
    by (auto simp: state_blocks_def)
  then show ?thesis
    using keep [OF ab(1)] keep [OF ab(2)] u by cases (simp_all add: slot_copies_def put_block_def)
qed

lemma commit_record_accepts:
  assumes sound: "sd_sound dev view" and works: "sd_reads_all dev" "sd_writes_all dev"
    and wf: "length (up_record_buf st) = 512" "length (up_chunk_record_buf st) = 512" "32 \<le> length (up_decode_buf st)"
    and sel: "card_select (slot_copies (view (sd st))) = Some (r, stale)" and gen: "generation r \<noteq> - 1"
    and prog: "progress_counts (view (sd st))"
  obtains st' r' where "commit_record dev t len st = Some st'" "printed st' = printed st @ commit_ok_msg t len"
    "record_upload t (of_nat len) (take 32 (up_decode_buf st)) r = Some r'"
    "\<exists>stale'. card_select (slot_copies (view (sd st'))) = Some (r', stale')"
    "\<forall>x. x \<notin> state_blocks \<union> progress_blocks \<longrightarrow> view (sd st') x = view (sd st) x"
proof -
  let ?digest = "take 32 (up_decode_buf st)"
  have digest: "map (\<lambda>i. ucast (kbuf_read_byte (up_decode_buf st) i)) [0..<32] = ?digest"
    using map_nth_take [of 32 "up_decode_buf st"] wf(3) by (simp add: kbuf_read_byte_def)
  obtain buf d where rec: "kernelupload_record (io_read dev) (io_write dev) t (of_nat len) ?digest
      (up_record_buf st, sd st) = Some ([], 0, buf, d)"
    using record_returns [OF sound works wf(1) sel gen] by blast
  obtain p cbuf d2 where look: "kernelupload_chunk_progress_lookup (io_read dev) (up_chunk_record_buf st, d) = (p, cbuf, d2)"
    by (metis prod_cases3)
  note l = progress_lookup_view [OF sound look] and p = progress_lookup_all [OF sound works(1) wf(2) look]
  have sha: "length ?digest = 32" using wf(3) by simp
  let ?st = "st\<lparr>up_record_buf := buf, up_active := 0, up_chunk_record_buf := cbuf, sd := d2\<rparr>"
  have res: "\<exists>st'. commit_record dev t len st = Some st' \<and> printed st' = printed st @ commit_ok_msg t len
      \<and> (\<forall>x. x \<notin> progress_blocks \<longrightarrow> view (sd st') x = view d x)" if "progress_counts (view d)"
  proof (cases "p_valid p = 1 \<and> p_target_slot p = t")
    case True
    then have "p_generation (progress_select (view d2)) \<noteq> - 1" using that p l(1) by (simp add: progress_counts_def)
    then obtain s b3 d3 where clear: "kernelupload_chunk_progress_clear (io_read dev) (io_write dev) (cbuf, d2) = Some (s, b3, d3)"
      using progress_clear_total [OF sound works(1)] l(2) wf(2) by metis
    then have "commit_record dev t len st = Some (say (commit_ok_msg t len) (?st\<lparr>up_chunk_record_buf := b3, sd := d3\<rparr>))"
      using rec look True by (simp add: commit_record_def digest Let_def commit_ok_msg_def)
    then show ?thesis
      using progress_clear_view(1) [OF sound clear] l(1) by (simp add: say_def progress_blocks_def)
  next
    case False
    then have "commit_record dev t len st = Some (say (commit_ok_msg t len) ?st)"
      using rec look by (auto simp: commit_record_def digest Let_def commit_ok_msg_def)
    then show ?thesis using l(1) by (simp add: say_def)
  qed
  from sound wf(1) sha rec show thesis
  proof (cases rule: upload_record_cases)
    case (written q r')
    have q: "slot_state.truncate q = r" "stale = ucast (kernelslot_stale_block q)"
      using written(9) works(1) sel by simp_all
    have "\<forall>x \<in> progress_blocks. view d x = view (sd st) x"
      using written(5) stale_not_progress by (metis stale_in_state_blocks)
    then have "progress_counts (view d)" using prog progress_select_cong by (metis progress_counts_def)
    from res [OF this] obtain st' where st': "commit_record dev t len st = Some st'"
        "printed st' = printed st @ commit_ok_msg t len" "\<forall>x. x \<notin> progress_blocks \<longrightarrow> view (sd st') x = view d x" by blast
    have "slot_ok r'" using update_ok [OF slot_update.upload [OF sha written(4)]] slot_ok_parse written(2) by blast
    then have wire: "slot_wire r' = build_slot_state r' (replicate 512 0)"
      using build_slot_state_layout [of r' "replicate 512 0"] by simp
    have stale: "view (sd st') (kernelslot_stale_block q) = slot_wire r'"
      using st'(3) stale_not_progress written(6) by simp
    have others: "\<forall>x. x \<notin> insert (kernelslot_stale_block q) progress_blocks \<longrightarrow> view (sd st') x = view (sd st) x"
      using st'(3) written(5) by simp
    have "slot_copies (view (sd st')) = put_block stale (build_slot_state r' (replicate 512 0)) (slot_copies (view (sd st)))"
      using put_stale [OF others] stale wire q(2) by simp
    moreover have "is_block (replicate 512 0)" by (simp add: is_block_def BLOCK_SIZE_def)
    moreover have "slot_update r r'" using slot_update.upload [OF sha written(4)] q(1) by simp
    ultimately have "\<exists>stale'. card_select (slot_copies (view (sd st'))) = Some (r', stale')"
      using card_select_put [OF sel _ _ gen] by simp
    moreover have "\<forall>x. x \<notin> state_blocks \<union> progress_blocks \<longrightarrow> view (sd st') x = view (sd st) x"
      using others stale_in_state_blocks by (metis UnCI insertE)
    ultimately show thesis using that st'(1,2) written(4) q(1) by metis
  qed simp
qed

section \<open>A whole commit\<close>

definition commit_line :: "nat \<Rightarrow> u8 list \<Rightarrow> u8 list" where
  "commit_line len digest = ascii ''kernelupload commit '' @ ascii (dec_string len) @ [32] @ hex_text digest"

lemma commit_line_words:
  fixes len digest
  defines "line \<equiv> commit_line len digest"
  shows "shell_find_space line 20 (length line) = 20 + length (dec_string len)"
    and "20 + length (dec_string len) < length line"
    and "len < 10 ^ 10 \<Longrightarrow> shell_parse_decimal line 20 (20 + length (dec_string len)) = int len"
    and "shell_find_space line (21 + length (dec_string len)) (length line) = 21 + length (dec_string len) + 2 * length digest"
    and "length digest = 32 \<Longrightarrow> 32 \<le> length buf \<Longrightarrow>
      shell_parse_hex_bytes line (21 + length (dec_string len)) (21 + length (dec_string len) + 2 * length digest) buf 32
      = (0, digest @ drop 32 buf)"
proof -
  let ?pre = "ascii ''kernelupload commit ''" and ?dec = "ascii (dec_string len)"
  have pre: "length ?pre = 20" by simp
  have pre2: "length (?pre @ ?dec @ [32]) = 21 + length (dec_string len)" by (simp only: length_append pre ascii_simps) simp
  have l1: "line = ?pre @ ?dec @ (32 # hex_text digest)"
    and l2: "line = (?pre @ ?dec @ [32]) @ hex_text digest @ []"
    by (simp_all add: line_def commit_line_def)
  show "shell_find_space line 20 (length line) = 20 + length (dec_string len)"
    using find_space_stops [OF l1 decimal_no_space, unfolded pre] by simp
  show "20 + length (dec_string len) < length line" by (simp add: l1)
  show "len < 10 ^ 10 \<Longrightarrow> shell_parse_decimal line 20 (20 + length (dec_string len)) = int len"
    using parse_decimal_text [OF l1] by (simp only: pre)
  show "shell_find_space line (21 + length (dec_string len)) (length line) = 21 + length (dec_string len) + 2 * length digest"
    using find_space_stops [OF l2 hex_no_space] by (simp only: pre2 length_hex_text) simp
  show "length digest = 32 \<Longrightarrow> 32 \<le> length buf \<Longrightarrow>
      shell_parse_hex_bytes line (21 + length (dec_string len)) (21 + length (dec_string len) + 2 * length digest) buf 32
      = (0, digest @ drop 32 buf)"
    using parse_hex_text [OF l2, of buf] by (simp only: pre2 length_hex_text)
qed

lemma commit_accepts:
  assumes sound: "sd_sound dev view" and works: "sd_reads_all dev" "sd_writes_all dev" and wf: "up_wf st"
    and active: "up_active st \<noteq> 0" and total: "up_total_len st = of_nat (length msg)"
    and taken: "taken_in view (slot_base_block (up_target_slot st)) msg (kernelupload_ctx_load (up_sha_ctx st)) st"
    and len: "0 < length msg" "int (length msg) \<le> kernelslot_size_bytes"
    and sel: "card_select (slot_copies (view (sd st))) = Some (r, stale)" and gen: "generation r \<noteq> - 1"
    and prog: "progress_counts (view (sd st))"
  defines "line \<equiv> commit_line (length msg) (sha256_digest msg)" and "t \<equiv> up_target_slot st"
  obtains st' r' where "kernelupload_commit dev line 19 (length line) st = Some st'"
    "printed st' = printed st @ commit_ok_msg t (length msg)"
    "record_upload t (of_nat (length msg)) (sha256_digest msg) r = Some r'"
    "\<exists>stale'. card_select (slot_copies (view (sd st'))) = Some (r', stale')"
    "card_image (view (sd st')) (slot_base_block t) (length msg) = msg"
proof -
  let ?len = "length msg" and ?buf = "sha256_digest msg @ drop 32 (up_decode_buf st)"
  let ?st = "st\<lparr>up_decode_buf := ?buf\<rparr>"
  have small: "?len < 10 ^ 10" "?len < 2 ^ 32" using len(2) by (simp_all add: kernelslot_size_bytes_def)
  have tot: "unat (up_total_len st) = ?len" using total small(2) by (simp add: unat_of_nat)
  have "length (up_decode_buf st) = 48" using wf by (simp add: up_wf_def)
  then have wf': "up_wf ?st" and dec: "take 32 (up_decode_buf ?st) = sha256_digest msg"
    using wf by (simp_all add: up_wf_def length_sha256_digest)
  note words = commit_line_words [where len = ?len and digest = "sha256_digest msg", folded line_def]
  have start: "kernelupload_commit dev line 19 (length line) st = commit_image dev ?len ?st"
    using active words \<open>length (up_decode_buf st) = 48\<close> len small(1)
    by (simp add: kernelupload_commit_def Let_def length_sha256_digest uint_nat tot)
  have "taken_in view (slot_base_block (up_target_slot ?st)) msg (kernelupload_ctx_load (up_sha_ctx ?st)) ?st"
    using taken by (simp add: taken_in_def)
  then obtain st1 where st1: "commit_image dev ?len ?st = commit_record dev t ?len st1"
      "same_but_last view (slot_base_block t) ?len ?st st1" "printed st1 = printed st"
      "card_image (view (sd st1)) (slot_base_block t) ?len = msg"
    using commit_image_accepts [OF sound works wf' len(1) small(2) dec] by (auto simp: t_def)
  have same: "view (sd st1) x = view (sd st) x" if "x \<in> state_blocks \<union> progress_blocks" for x
    using st1(2) slot_block_apart [OF that size_blocks(1) [OF len(2)], of t] by (simp add: same_but_last_def)
  have wf1: "length (up_record_buf st1) = 512" "length (up_chunk_record_buf st1) = 512" "32 \<le> length (up_decode_buf st1)"
      and dec1: "take 32 (up_decode_buf st1) = sha256_digest msg"
    using st1(2) wf' dec by (simp_all add: same_but_last_def up_wf_def)
  have sel1: "card_select (slot_copies (view (sd st1))) = Some (r, stale)"
    using sel same by (simp add: slot_copies_def state_blocks_def)
  have prog1: "progress_counts (view (sd st1))"
    using prog progress_select_cong [of "view (sd st1)" "view (sd st)"] same by (simp add: progress_counts_def)
  obtain st' r' where st': "commit_record dev t ?len st1 = Some st'" "printed st' = printed st1 @ commit_ok_msg t ?len"
      "record_upload t (of_nat ?len) (sha256_digest msg) r = Some r'"
      "\<exists>stale'. card_select (slot_copies (view (sd st'))) = Some (r', stale')"
      "\<forall>x. x \<notin> state_blocks \<union> progress_blocks \<longrightarrow> view (sd st') x = view (sd st1) x"
    using commit_record_accepts [OF sound works wf1 sel1 gen prog1, unfolded dec1] by metis
  have "card_image (view (sd st')) (slot_base_block t) ?len = msg"
    using card_image_cong [OF len(2), of "view (sd st')" "view (sd st1)" t] st'(5) st1(4) by simp
  then show thesis using that [of st' r'] start st1(1,3) st'(1-4) by simp
qed

end
