(* ===== verification/Upload_Session.thy ===== *)
theory Upload_Session
  imports Upload_Complete
begin

text \<open>
  A whole session: \<open>stream\<close> starts the upload, the bytes come in in any pieces, and \<open>commit\<close> marks
  the slot.
\<close>

section \<open>Starting\<close>

definition stream_line :: "nat \<Rightarrow> u8 list" where
  "stream_line len = ascii ''kernelupload stream '' @ ascii (dec_string len)"

lemma stream_line_words:
  assumes "n < 10 ^ 10"
  shows "shell_find_space (stream_line n) 20 (length (stream_line n)) = 20 + length (dec_string n)"
    and "shell_parse_decimal (stream_line n) 20 (20 + length (dec_string n)) = int n"
    and "19 < length (stream_line n)"
proof -
  let ?pre = "ascii ''kernelupload stream ''"
  have pre: "length ?pre = 20" by simp
  have l: "stream_line n = ?pre @ ascii (dec_string n) @ []" by (simp add: stream_line_def)
  show "shell_find_space (stream_line n) 20 (length (stream_line n)) = 20 + length (dec_string n)"
    using find_space_stops [OF l decimal_no_space, unfolded pre] by simp
  show "shell_parse_decimal (stream_line n) 20 (20 + length (dec_string n)) = int n"
    using parse_decimal_text [OF l assms, unfolded pre] .
  show "19 < length (stream_line n)" by (simp add: stream_line_def)
qed

definition upload_opened :: "('d \<Rightarrow> u64 \<Rightarrow> u8 list) \<Rightarrow> u32 \<Rightarrow> 'd upload \<Rightarrow> 'd upload \<Rightarrow> bool" where
  "upload_opened view t st st' \<longleftrightarrow> view (sd st') = view (sd st) \<and> up_wf st' \<and> upload_holds view [] st'
     \<and> up_chunk_base_block_offset st' = 0 \<and> up_target_slot st' = t \<and> up_active st' = 1"

lemma fresh_holds:
  assumes "length (up_block_buf st) = 512" and "length (up_sha_ctx st') = 112"
    and "kernelupload_ctx_load (up_sha_ctx st') = kernel_sha256_init" and "up_block_buf st' = up_block_buf st"
    and "up_total_len st' = 0"
  shows "upload_holds view [] st'"
  using assms ctx_absorbed_init by (simp add: upload_holds_def taken_in_def full_part_def blocks_on_def)

lemma init_stored:
  assumes "length buf = 112"
  shows "kernelupload_ctx_load (kernelupload_ctx_store kernel_sha256_init buf) = kernel_sha256_init"
    and "length (kernelupload_ctx_store kernel_sha256_init buf) = 112"
proof -
  have "ctx_fits kernel_sha256_init" using ctx_absorbed_fits [OF ctx_absorbed_init] by simp
  from ctx_load_store [OF this assms] show "kernelupload_ctx_load (kernelupload_ctx_store kernel_sha256_init buf) = kernel_sha256_init"
    and "length (kernelupload_ctx_store kernel_sha256_init buf) = 112" .
qed

text \<open>What \<open>stream\<close> and \<open>resumechunk\<close> set up.\<close>

lemma reset_opens:
  fixes expected :: u32
  assumes sound: "sd_sound dev view" and wf: "up_wf st" and none: "up_total_len st = 0"
  defines "st1 \<equiv> stream_reset dev expected st"
  shows "view (sd st1) = view (sd st)" and "up_wf st1" and "upload_holds view [] st1"
    and "up_chunk_base_block_offset st1 = up_chunk_base_block_offset st" and "up_target_slot st1 = up_target_slot st"
    and "up_active st1 = 1" and "printed st1 = printed st"
proof -
  obtain t1 d1 where c1: "io_clo dev (sd st) = (t1, d1)" by fastforce
  obtain t2 d2 where c2: "io_clo dev d1 = (t2, d2)" by fastforce
  have clo: "view d2 = view (sd st)" using sd_soundD(2) [OF sound] c1 c2 by (metis snd_conv)
  note f = st1_def stream_reset_def timer_clo_def maintenance_mode_engage_def c1 c2 Let_def
  note init = init_stored [of "up_sha_ctx st"] and wfD = wf [unfolded up_wf_def]
  show "view (sd st1) = view (sd st)" using clo by (simp add: f)
  show "up_wf st1" using wfD init(2) by (simp add: f up_wf_def)
  show "upload_holds view [] st1" using wfD init none by (intro fresh_holds [of st]) (simp_all add: f)
  show "up_chunk_base_block_offset st1 = up_chunk_base_block_offset st" "up_target_slot st1 = up_target_slot st"
    "up_active st1 = 1" "printed st1 = printed st" by (simp_all add: f)
qed

lemma say_keeps [simp]:
  "sd (say os st) = sd st" "up_wf (say os st) = up_wf st" "upload_holds view msg (say os st) = upload_holds view msg st"
  "up_chunk_base_block_offset (say os st) = up_chunk_base_block_offset st" "up_target_slot (say os st) = up_target_slot st"
  "up_active (say os st) = up_active st" "printed (say os st) = printed st @ os"
  by (simp_all add: say_def up_wf_def upload_holds_def taken_in_def)

lemma stream_eq:
  assumes sound: "sd_sound dev view" and reads: "sd_reads_all dev" and wf: "up_wf st"
    and sel: "card_select (slot_copies (view (sd st))) = Some (r, stale)"
    and n: "0 < n" "int n \<le> kernelslot_size_bytes"
  obtains buf d where "length buf = 512" "view d = view (sd st)"
    "kernelupload_stream dev (stream_line n) 19 (length (stream_line n)) st = say [Str ''GO '', Num (int n), Str ''\<newline>'']
      (stream_reset dev (of_nat n) (st\<lparr>up_record_buf := buf, sd := d,
        up_target_slot := (if active_slot r = 0 then 1 else 0), up_total_len := 0, up_chunk_base_block_offset := 0\<rparr>))"
proof -
  obtain q buf d where look: "kernelslot_lookup (io_read dev) (up_record_buf st, sd st) = (q, buf, d)"
    by (metis prod_cases3)
  have rb: "length (up_record_buf st) = 512" using wf by (simp add: up_wf_def)
  note l = lookup_view [OF sound rb look]
  from l(4) [OF reads] sel have q: "valid q = 1" "active_slot q = active_slot r"
    using truncate_fields(2) [of q] by (auto split: if_splits)
  have "n < 10 ^ 10" using n(2) by (simp add: kernelslot_size_bytes_def)
  note words = stream_line_words [OF this]
  show ?thesis
    using that [OF l(1,2)] words n look q by (simp add: kernelupload_stream_def lookup_slots_def fresh_target_def Let_def)
qed

lemma stream_opens:
  assumes sound: "sd_sound dev view" and reads: "sd_reads_all dev" and wf: "up_wf st"
    and sel: "card_select (slot_copies (view (sd st))) = Some (r, stale)"
    and n: "0 < n" "int n \<le> kernelslot_size_bytes"
  defines "st1 \<equiv> kernelupload_stream dev (stream_line n) 19 (length (stream_line n)) st"
  shows "upload_opened view (if active_slot r = 0 then 1 else 0) st st1"
    and "printed st1 = printed st @ [Str ''GO '', Num (int n), Str ''\<newline>'']"
proof -
  let ?t = "if active_slot r = 0 then 1 else 0"
  obtain buf d where l: "length buf = 512" "view d = view (sd st)" and st1: "st1 = say [Str ''GO '', Num (int n), Str ''\<newline>'']
      (stream_reset dev (of_nat n) (st\<lparr>up_record_buf := buf, sd := d, up_target_slot := ?t, up_total_len := 0, up_chunk_base_block_offset := 0\<rparr>))"
    unfolding st1_def by (rule stream_eq [OF assms(1-6)])
  let ?st = "st\<lparr>up_record_buf := buf, sd := d, up_target_slot := ?t, up_total_len := 0, up_chunk_base_block_offset := 0\<rparr>"
  have "up_wf ?st" "up_total_len ?st = 0" using wf l(1) by (simp_all add: up_wf_def)
  note reset = reset_opens [OF sound this, of "of_nat n"]
  then show "upload_opened view ?t st st1" using l(2) by (simp add: upload_opened_def st1)
  show "printed st1 = printed st @ [Str ''GO '', Num (int n), Str ''\<newline>'']" using reset by (simp add: st1)
qed

section \<open>The bytes\<close>

text \<open>
  The device clock does not go back during a write (its 32 bits wrap about every 71 minutes; a
  write across the wrap is a panic of the kernel).
\<close>

definition clock_forward :: "'d kernel_io \<Rightarrow> bool" where
  "clock_forward dev \<longleftrightarrow> (\<forall>d b out.
     fst (io_clo dev d) \<le> fst (io_clo dev (snd (io_write dev b out (snd (io_clo dev d))))))"

fun feed :: "'d kernel_io \<Rightarrow> u8 list list \<Rightarrow> 'd upload \<Rightarrow> (int \<times> 'd upload) option" where
  "feed dev [] st = Some (0, st)"
| "feed dev (piece # pieces) st = do {
     (s, st) \<leftarrow> kernelupload_accumulate_bytes dev piece (length piece) st;
     if s \<noteq> 0 then Some (s, st) else feed dev pieces st }"

lemma timed_write_total:
  assumes "clock_forward dev" and "sd_writes_all dev"
  shows "\<exists>st'. timed_write dev b st = Some (0, st')"
proof -
  obtain t0 d0 where c0: "io_clo dev (sd st) = (t0, d0)" by fastforce
  obtain d1 where w: "io_write dev b (up_block_buf st) d0 = (0, d1)"
    using assms(2) by (metis eq_fst_iff sd_writes_all_def)
  obtain t1 d2 where c1: "io_clo dev d1 = (t1, d2)" by fastforce
  have "t0 \<le> t1" using assms(1) c0 w c1 by (metis clock_forward_def fst_conv snd_conv)
  then show ?thesis using c0 w c1 by (simp add: timed_write_def timer_clo_def Let_def not_less)
qed

lemma accumulate_total:
  assumes "clock_forward dev" and "sd_writes_all dev"
  shows "\<exists>ctx' tot' st'. accumulate_loop dev base bs ctx tot st = Some (True, ctx', tot', st')"
proof (induction bs arbitrary: ctx tot st)
  case (Cons b bs)
  show ?case
  proof (cases "Suc tot mod 512 = 0")
    case True
    let ?st1 = "st\<lparr>up_block_buf := kbuf_write_byte (up_block_buf st) (tot mod 512) b\<rparr>"
    obtain st2 where "timed_write dev (base + of_nat (tot div 512)) ?st1 = Some (0, st2)"
      using timed_write_total [OF assms] by blast
    then show ?thesis using True Cons unfolding accumulate_step by (simp add: Let_def)
  next
    case False
    then show ?thesis using Cons unfolding accumulate_step by (simp add: Let_def)
  qed
qed simp

text \<open>What taking in bytes leaves alone.\<close>

definition upload_frame :: "'d upload \<Rightarrow> 'd upload \<Rightarrow> bool" where
  "upload_frame st st' \<longleftrightarrow> up_target_slot st' = up_target_slot st
     \<and> up_chunk_base_block_offset st' = up_chunk_base_block_offset st \<and> up_active st' = up_active st
     \<and> printed st' = printed st \<and> (up_wf st \<longrightarrow> up_wf st')"

lemma upload_frame_trans: "upload_frame a b \<Longrightarrow> upload_frame b c \<Longrightarrow> upload_frame a c"
  by (simp add: upload_frame_def)

definition upload_base :: "'d upload \<Rightarrow> u64" where
  "upload_base st = slot_base_block (up_target_slot st) + ucast (up_chunk_base_block_offset st)"

lemma accumulate_piece:
  assumes sound: "sd_sound dev view" and works: "clock_forward dev" "sd_writes_all dev"
    and holds: "upload_holds view msg st" and len: "length msg + length piece < 2 ^ 32"
  shows "\<exists>st'. kernelupload_accumulate_bytes dev piece (length piece) st = Some (0, st')
    \<and> upload_holds view (msg @ piece) st' \<and> upload_frame st st'
    \<and> (\<forall>x. (\<forall>k < length (msg @ piece) div 512. x \<noteq> upload_base st + of_nat k) \<longrightarrow> view (sd st') x = view (sd st) x)"
proof -
  let ?ctx = "kernelupload_ctx_load (up_sha_ctx st)" and ?tot = "unat (up_total_len st)"
  let ?bs = "map (kbuf_read_byte piece) [0..<length piece]"
  obtain ctx' tot' st1 where run: "accumulate_loop dev (upload_base st) ?bs ?ctx ?tot st = Some (True, ctx', tot', st1)"
    using accumulate_total [OF works] by blast
  let ?st' = "st1\<lparr>up_sha_ctx := kernelupload_ctx_store ctx' (up_sha_ctx st1), up_total_len := of_nat tot'\<rparr>"
  have acc: "kernelupload_accumulate_bytes dev piece (length piece) st = Some (0, ?st')"
    using run by (simp add: kernelupload_accumulate_bytes_def upload_base_def Let_def)
  note h = accumulate_holds [OF sound holds order.refl len acc]
  note f = touchedD [OF accumulate_frame [OF run]]
  have tot: "?tot = length msg" using holds by (simp add: upload_holds_def unat_of_nat)
  have "upload_frame st ?st'"
    using f h(1) by (auto simp: upload_frame_def up_wf_def upload_holds_def taken_in_def)
  moreover have "view (sd ?st') x = view (sd st) x" if "\<forall>k < length (msg @ piece) div 512. x \<noteq> upload_base st + of_nat k" for x
    using accumulate_others [OF sound run, of x] that by (simp add: tot)
  ultimately show ?thesis using acc h(1) by auto
qed

lemma feed_total:
  assumes sound: "sd_sound dev view" and works: "clock_forward dev" "sd_writes_all dev"
    and "upload_holds view msg st" and "length msg + length (concat pieces) < 2 ^ 32"
  shows "\<exists>st'. feed dev pieces st = Some (0, st') \<and> upload_holds view (msg @ concat pieces) st' \<and> upload_frame st st'
    \<and> (\<forall>x. (\<forall>k < length (msg @ concat pieces) div 512. x \<noteq> upload_base st + of_nat k) \<longrightarrow> view (sd st') x = view (sd st) x)"
  using assms(4,5)
proof (induction pieces arbitrary: msg st)
  case (Cons piece pieces)
  have "length msg + length piece < 2 ^ 32" using Cons.prems(2) by simp
  from accumulate_piece [OF sound works Cons.prems(1) this] obtain st1 where
    one: "kernelupload_accumulate_bytes dev piece (length piece) st = Some (0, st1)"
      "upload_holds view (msg @ piece) st1" "upload_frame st st1"
    and keep1: "\<And>x. (\<forall>k < length (msg @ piece) div 512. x \<noteq> upload_base st + of_nat k) \<Longrightarrow> view (sd st1) x = view (sd st) x"
    by blast
  have "length (msg @ piece) + length (concat pieces) < 2 ^ 32" using Cons.prems(2) by simp
  from Cons.IH [OF one(2) this] obtain st' where
    rest: "feed dev pieces st1 = Some (0, st')" "upload_holds view ((msg @ piece) @ concat pieces) st'" "upload_frame st1 st'"
    and keep2: "\<And>x. (\<forall>k < length ((msg @ piece) @ concat pieces) div 512. x \<noteq> upload_base st1 + of_nat k)
      \<Longrightarrow> view (sd st') x = view (sd st1) x"
    by blast
  have base: "upload_base st1 = upload_base st" using one(3) by (simp add: upload_frame_def upload_base_def)
  have mono: "length (msg @ piece) div 512 \<le> length ((msg @ piece) @ concat pieces) div 512"
    by (intro div_le_mono) simp
  have "view (sd st') x = view (sd st) x" if "\<forall>k < length (msg @ concat (piece # pieces)) div 512. x \<noteq> upload_base st + of_nat k" for x
    using that keep1 [of x] keep2 [of x] mono by (simp add: base)
  then show ?case using one rest upload_frame_trans [OF one(3) rest(3)] by auto
qed (simp add: upload_frame_def)

section \<open>A whole upload\<close>

text \<open>The end of it: the image has been taken in, and the records are as they were.\<close>

lemma commit_ends:
  assumes sound: "sd_sound dev view" and works: "sd_reads_all dev" "sd_writes_all dev"
    and sel: "card_select (slot_copies (view (sd st))) = Some (r, stale)"
    and gen: "generation r \<noteq> - 1" and prog: "progress_counts (view (sd st))"
    and msg: "0 < length msg" "int (length msg) \<le> kernelslot_size_bytes"
    and st2: "up_wf st2" "up_active st2 \<noteq> 0" "up_chunk_base_block_offset st2 = 0" "up_target_slot st2 = t" "upload_holds view msg st2"
    and same: "\<And>x. x \<in> state_blocks \<union> progress_blocks \<Longrightarrow> view (sd st2) x = view (sd st) x"
  shows "\<exists>st3 r'. kernelupload_commit dev (commit_line (length msg) (sha256_digest msg)) 19
        (length (commit_line (length msg) (sha256_digest msg))) st2 = Some st3
    \<and> printed st3 = printed st2 @ commit_ok_msg t (length msg)
    \<and> record_upload t (of_nat (length msg)) (sha256_digest msg) r = Some r'
    \<and> (\<exists>stale'. card_select (slot_copies (view (sd st3))) = Some (r', stale'))
    \<and> card_image (view (sd st3)) (slot_base_block t) (length msg) = msg"
proof -
  have sel2: "card_select (slot_copies (view (sd st2))) = Some (r, stale)"
    using sel same by (simp add: slot_copies_def state_blocks_def)
  have prog2: "progress_counts (view (sd st2))"
    using prog progress_select_cong [of "view (sd st2)" "view (sd st)"] same by (simp add: progress_counts_def)
  have taken: "taken_in view (slot_base_block (up_target_slot st2)) msg (kernelupload_ctx_load (up_sha_ctx st2)) st2"
      "up_total_len st2 = of_nat (length msg)"
    using st2(3,5) by (simp_all add: upload_holds_def)
  from commit_accepts [OF sound works st2(1,2) taken(2,1) msg sel2 gen prog2, unfolded st2(4)] show ?thesis by metis
qed

lemma upload_run:
  assumes sound: "sd_sound dev view" and works: "sd_reads_all dev" "sd_writes_all dev" "clock_forward dev"
    and wf: "up_wf st" and sel: "card_select (slot_copies (view (sd st))) = Some (r, stale)"
    and gen: "generation r \<noteq> - 1" and prog: "progress_counts (view (sd st))"
    and msg: "concat pieces = msg" "0 < length msg" "int (length msg) \<le> kernelslot_size_bytes"
  defines "t \<equiv> if active_slot r = 0 then 1 else 0"
    and "st1 \<equiv> kernelupload_stream dev (stream_line (length msg)) 19 (length (stream_line (length msg))) st"
  shows "\<exists>st2 st3 r'. feed dev pieces st1 = Some (0, st2)
    \<and> kernelupload_commit dev (commit_line (length msg) (sha256_digest msg)) 19
        (length (commit_line (length msg) (sha256_digest msg))) st2 = Some st3
    \<and> printed st3 = printed st @ [Str ''GO '', Num (int (length msg)), Str ''\<newline>''] @ commit_ok_msg t (length msg)
    \<and> record_upload t (of_nat (length msg)) (sha256_digest msg) r = Some r'
    \<and> (\<exists>stale'. card_select (slot_copies (view (sd st3))) = Some (r', stale'))
    \<and> card_image (view (sd st3)) (slot_base_block t) (length msg) = msg
    \<and> up_wf st2 \<and> (\<forall>x \<in> state_blocks. view (sd st2) x = view (sd st) x)"
proof -
  note o = stream_opens [OF sound works(1) wf sel msg(2,3), folded t_def st1_def]
  note op = o(1) [unfolded upload_opened_def]
  have open1: "upload_holds view [] st1" using op by simp
  have "length ([] :: u8 list) + length (concat pieces) < 2 ^ 32" using msg(1,3) by (simp add: kernelslot_size_bytes_def)
  from feed_total [OF sound works(3,2) open1 this] obtain st2 where
    feed: "feed dev pieces st1 = Some (0, st2)" "upload_holds view msg st2" "upload_frame st1 st2"
    and others: "\<And>x. (\<forall>k < length msg div 512. x \<noteq> upload_base st1 + of_nat k) \<Longrightarrow> view (sd st2) x = view (sd st1) x"
    by (auto simp: msg(1))
  have base: "upload_base st1 = slot_base_block t" using op by (simp add: upload_base_def)
  have same: "view (sd st2) x = view (sd st) x" if "x \<in> state_blocks \<union> progress_blocks" for x
    using others [of x] slot_block_apart [OF that] size_blocks(1) [OF msg(3)] op by (simp add: base)
  have f: "up_wf st2" "up_active st2 \<noteq> 0" "up_chunk_base_block_offset st2 = 0" "up_target_slot st2 = t"
      "printed st2 = printed st1"
    using feed(3) op by (simp_all add: upload_frame_def)
  from commit_ends [OF sound works(1,2) sel gen prog msg(2,3) f(1-4) feed(2) same] feed(1) f(1,5) o(2) same
  show ?thesis by (metis UnCI append.assoc)
qed

section \<open>An example\<close>

text \<open>A card in memory.\<close>

definition ram_view :: "(u64 \<Rightarrow> u8 list) \<Rightarrow> u64 \<Rightarrow> u8 list" where
  "ram_view d b = (if length (d b) = 512 then d b else replicate 512 0)"

definition ram_io :: "(u64 \<Rightarrow> u8 list) kernel_io" where
  "ram_io = \<lparr>io_read = (\<lambda>b buf d. (0, if length buf = 512 then ram_view d b else buf, d)),
     io_write = (\<lambda>b out d. (0, d(b := out))), io_clo = (\<lambda>d. (0, d)), io_tick = (\<lambda>d. 0)\<rparr>"

lemma ram_works: "sd_sound ram_io ram_view" "sd_reads_all ram_io" "sd_writes_all ram_io" "clock_forward ram_io"
  by (auto simp: sd_sound_def sd_reads_all_def sd_writes_all_def clock_forward_def ram_io_def ram_view_def)

definition ram_card :: "u64 \<Rightarrow> u8 list" where
  "ram_card b = (if b = kernelslot_state_block_a then slot_wire sample_slot else replicate 512 0)"

definition sample_upload :: "(u64 \<Rightarrow> u8 list) upload" where
  "sample_upload = \<lparr>sd = ram_card, printed = [], up_block_buf = replicate 512 0, up_sha_ctx = replicate 112 0,
     up_decode_buf = replicate 48 0, up_record_buf = replicate 512 0, up_chunk_record_buf = replicate 512 0,
     up_sd_scratch = replicate 512 0, up_total_len = 0, up_target_slot = 0, up_active = 0,
     up_chunk_base_block_offset = 0, up_sd_write_worst_us = 0, up_stream_active = 0, up_stream_expected_len = 0,
     up_stream_last_ack_len = 0, up_stream_last_activity_tick = 0, up_rx_ring_head = 0, up_rx_ring_tail = 0,
     up_watchdog_last_total_len = 0, up_watchdog_last_progress_tick = 0, up_watchdog_stall_reported = 0,
     up_last_rx_byte_us = 0, up_overrun_count = 0, up_uart_irq_entry_count = 0, up_fifo_backlog_count = 0,
     maintenance_mode_active = 0, maintenance_mode_last_touch_tick = 0\<rparr>"

lemma ram_card_blocks:
  "ram_view ram_card kernelslot_state_block_a = slot_wire sample_slot"
  "b \<noteq> kernelslot_state_block_a \<Longrightarrow> ram_view ram_card b = replicate 512 0"
  using length_slot_wire [OF sample_slot_ok] by (simp_all add: ram_view_def ram_card_def)

lemma blank_progress: "\<not> kernelupload_chunk_progress_crc_valid (replicate 512 0)"
  by (simp add: kernelupload_chunk_progress_crc_valid_def buf_read_u32_le_def kbuf_read_byte_def)

lemma sample_upload_ok:
  "up_wf sample_upload" "sd sample_upload = ram_card" "printed sample_upload = []"
  "card_select (slot_copies (ram_view ram_card)) = Some (sample_slot, SLOT_STATE_BLOCK_B)"
  "progress_counts (ram_view ram_card)"
proof -
  show "up_wf sample_upload" "sd sample_upload = ram_card" "printed sample_upload = []"
    by (simp_all add: up_wf_def sample_upload_def)
  have ab: "kernelslot_state_block_b \<noteq> kernelslot_state_block_a"
      "kernelupload_chunk_state_block_a \<noteq> kernelslot_state_block_a" "kernelupload_chunk_state_block_b \<noteq> kernelslot_state_block_a"
    by (simp_all add: kernelslot_state_block_a_def kernelslot_state_block_b_def
        kernelupload_chunk_state_block_a_def kernelupload_chunk_state_block_b_def)
  then show "card_select (slot_copies (ram_view ram_card)) = Some (sample_slot, SLOT_STATE_BLOCK_B)"
    using parse_slot_wire [OF sample_slot_ok]
    by (simp add: card_select_def slot_copies_def ram_card_blocks parse_blank select_record_def)
  show "progress_counts (ram_view ram_card)"
    using ab by (simp add: progress_counts_def progress_select_def kernelupload_chunk_progress_lookup_def
        ram_card_blocks blank_progress Let_def)
qed

lemma sample_session:
  "concat [[7], [8, 9]] = [7, 8, 9 :: u8]" "0 < length [7, 8, 9 :: u8]" "length [7, 8, 9 :: u8] = 3"
  "int (length [7, 8, 9 :: u8]) \<le> kernelslot_size_bytes" "generation sample_slot \<noteq> - 1"
  "(if active_slot sample_slot = 0 then 1 else 0) = (1 :: u32)" "slot_base_block 1 = kernelslot_b_base_block"
  by (simp_all add: kernelslot_size_bytes_def sample_slot_def slot_base_block_def)

lemmas sample_run = upload_run [OF ram_works sample_upload_ok(1), unfolded sample_upload_ok(2), OF sample_upload_ok(4)
  sample_session(5) sample_upload_ok(5) sample_session(1,2,4), unfolded sample_session(3,6,7) sample_upload_ok(3) append_Nil of_nat_numeral]

section \<open>Properties\<close>

text \<open>
  C19. A whole upload succeeds. On a working card and clock, with a selectable record whose
  generation is not the last one: after \<open>kernelupload stream\<close> with the image's length, the image's bytes in any
  pieces, and \<open>kernelupload commit\<close> with its length and its SHA-256, the commands
  have printed \<open>GO\<close> and \<open>ok\<close>, the image lies in the slot that is not active, byte for byte, and
  the record that the loader would select is the old one with that slot marked ready with
  this length and digest.
\<close>

theorem upload_succeeds:
  assumes sound: "sd_sound dev view" and works: "sd_reads_all dev" "sd_writes_all dev" "clock_forward dev"
    and wf: "up_wf st" and sel: "card_select (slot_copies (view (sd st))) = Some (r, stale)"
    and gen: "generation r \<noteq> - 1" and prog: "progress_counts (view (sd st))"
    and msg: "concat pieces = msg" "0 < length msg" "int (length msg) \<le> kernelslot_size_bytes"
  defines "t \<equiv> if active_slot r = 0 then 1 else 0"
    and "st1 \<equiv> kernelupload_stream dev (stream_line (length msg)) 19 (length (stream_line (length msg))) st"
  shows "\<exists>st2 st3 r'. feed dev pieces st1 = Some (0, st2)
    \<and> kernelupload_commit dev (commit_line (length msg) (sha256_digest msg)) 19
        (length (commit_line (length msg) (sha256_digest msg))) st2 = Some st3
    \<and> printed st3 = printed st @ [Str ''GO '', Num (int (length msg)), Str ''\<newline>''] @ commit_ok_msg t (length msg)
    \<and> record_upload t (of_nat (length msg)) (sha256_digest msg) r = Some r'
    \<and> (\<exists>stale'. card_select (slot_copies (view (sd st3))) = Some (r', stale'))
    \<and> card_image (view (sd st3)) (slot_base_block t) (length msg) = msg"
  unfolding st1_def t_def
  using upload_run [OF sound works wf sel gen prog msg] by blast

theorem upload_succeeds_witness:
  "\<exists>st2 st3 r'. feed ram_io [[7], [8, 9]] (kernelupload_stream ram_io (stream_line 3) 19 (length (stream_line 3)) sample_upload)
      = Some (0, st2)
    \<and> kernelupload_commit ram_io (commit_line 3 (sha256_digest [7, 8, 9])) 19
        (length (commit_line 3 (sha256_digest [7, 8, 9]))) st2 = Some st3
    \<and> printed st3 = [Str ''GO '', Num 3, Str ''\<newline>''] @ commit_ok_msg 1 3
    \<and> record_upload 1 3 (sha256_digest [7, 8, 9]) sample_slot = Some r'
    \<and> card_image (ram_view (sd st3)) kernelslot_b_base_block 3 = [7, 8, 9]"
proof -
  from upload_succeeds [OF ram_works sample_upload_ok(1), unfolded sample_upload_ok(2), OF sample_upload_ok(4)
    sample_session(5) sample_upload_ok(5) sample_session(1,2,4), unfolded sample_session(3,6,7) sample_upload_ok(3)
    append_Nil of_nat_numeral]
  show ?thesis by blast
qed

text \<open>
  C5. A slot is marked only after the image on the card was verified. Whatever command line
  \<open>kernelupload commit\<close> gets, in whatever state of an upload, on a driver whose reads and writes
  may fail: if it changes a block of the slot-state record, then the bytes that lie in the target
  slot afterwards, as many as were received, have the SHA-256 that the line claims and fit into
  the slot; the block written is the stale copy, the other one parses to the current record,
  and what was written is that record with the target slot marked ready with this length and digest
  (or the driver reported the write as failed, and so did the command).
\<close>

theorem commit_marks_only_verified:
  assumes sound: "sd_sound dev view" and wf: "up_wf st"
    and run: "kernelupload_commit dev line sub_end n st = Some st'"
    and x: "x \<in> state_blocks" and changed: "view (sd st') x \<noteq> view (sd st) x"
  shows "\<exists>len r r' y. len = unat (up_total_len st) \<and> 0 < len \<and> int len \<le> kernelslot_size_bytes
    \<and> sha256_digest (card_image (view (sd st')) (slot_base_block (up_target_slot st)) len) = line_digest line sub_end n
    \<and> y \<in> state_blocks \<and> y \<noteq> x \<and> parse_slot_state (view (sd st) y) = Some r
    \<and> record_upload (up_target_slot st) (of_nat len) (line_digest line sub_end n) r = Some r'
    \<and> (view (sd st') x = slot_wire r' \<or> last (printed st') = Str ''kernelupload: slot-state write-back failed\<newline>'')"
  using commit_marks [OF assms] .

theorem commit_marks_only_verified_witness:
  "\<exists>st2 st3 x. x \<in> state_blocks \<and> ram_view (sd st3) x \<noteq> ram_view (sd st2) x
    \<and> (let line = commit_line 3 (sha256_digest [7, 8, 9]) in
      kernelupload_commit ram_io line 19 (length line) st2 = Some st3
      \<and> sha256_digest (card_image (ram_view (sd st3)) (slot_base_block (up_target_slot st2)) (unat (up_total_len st2)))
        = line_digest line 19 (length line))"
proof -
  let ?line = "commit_line 3 (sha256_digest [7, 8, 9])"
  obtain st2 st3 r' stale where run: "kernelupload_commit ram_io ?line 19 (length ?line) st2 = Some st3"
      and r': "record_upload 1 3 (sha256_digest [7, 8, 9]) sample_slot = Some r'"
        "card_select (slot_copies (ram_view (sd st3))) = Some (r', stale)"
      and wf: "up_wf st2" "\<forall>x \<in> state_blocks. ram_view (sd st2) x = ram_view ram_card x"
    using sample_run by metis
  have "r' \<noteq> sample_slot" using r'(1) by (auto simp: kernel_updates sample_slot_def)
  then have "slot_copies (ram_view (sd st3)) \<noteq> slot_copies (ram_view ram_card)"
    using r'(2) sample_upload_ok(4) by auto
  then obtain x where x: "x \<in> state_blocks" "ram_view (sd st3) x \<noteq> ram_view (sd st2) x"
    using wf(2) by (auto simp: slot_copies_def state_blocks_def)
  from commit_marks_only_verified [where view = ram_view, OF ram_works(1) wf(1) run x] x run show ?thesis
    by (auto simp: Let_def)
qed

end
