(* ===== verification/Upload_Types.thy ===== *)
theory Upload_Types
  imports Kernel_Resume Upload_Session
begin

text \<open>
  Every subcommand of \<open>kernelupload\<close> keeps the sizes of the buffers that the others rely on, in every
  outcome: the state stays well-formed.
\<close>

section \<open>Sizes\<close>

definition sizes :: "'d upload \<Rightarrow> nat list" where
  "sizes st = [length (up_block_buf st), length (up_sha_ctx st), length (up_decode_buf st), length (up_record_buf st),
     length (up_chunk_record_buf st), length (up_sd_scratch st)]"

lemma wf_sizes: "sizes st' = sizes st \<Longrightarrow> up_wf st' \<longleftrightarrow> up_wf st"
  by (simp add: sizes_def up_wf_def)

lemma sizes_fields [simp]:
  "sizes (say os st) = sizes st" "sizes (st\<lparr>sd := d\<rparr>) = sizes st" "sizes (st\<lparr>up_total_len := n\<rparr>) = sizes st"
  "sizes (st\<lparr>up_target_slot := n\<rparr>) = sizes st" "sizes (st\<lparr>up_active := n\<rparr>) = sizes st"
  "sizes (st\<lparr>up_chunk_base_block_offset := n\<rparr>) = sizes st" "sizes (st\<lparr>up_sd_write_worst_us := n\<rparr>) = sizes st"
  "sizes (st\<lparr>up_stream_active := n\<rparr>) = sizes st" "sizes (maintenance_mode_disengage st) = sizes st"
  "sizes (maintenance_mode_engage dev st) = sizes st" "sizes (put_digest digest st) = sizes st"
  by (simp_all add: sizes_def say_def maintenance_mode_disengage_def maintenance_mode_engage_def put_digest_def
      length_write_fold)

lemma sizes_buffers:
  "length b = length (up_block_buf st) \<Longrightarrow> sizes (st\<lparr>up_block_buf := b\<rparr>) = sizes st"
  "length b = length (up_sha_ctx st) \<Longrightarrow> sizes (st\<lparr>up_sha_ctx := b\<rparr>) = sizes st"
  "length b = length (up_decode_buf st) \<Longrightarrow> sizes (st\<lparr>up_decode_buf := b\<rparr>) = sizes st"
  "length b = length (up_record_buf st) \<Longrightarrow> sizes (st\<lparr>up_record_buf := b\<rparr>) = sizes st"
  "length b = length (up_chunk_record_buf st) \<Longrightarrow> sizes (st\<lparr>up_chunk_record_buf := b\<rparr>) = sizes st"
  by (simp_all add: sizes_def)

text \<open>All that is asked of the driver: a read does not change the length of its buffer.\<close>

definition sd_lengths :: "'d kernel_io \<Rightarrow> bool" where
  "sd_lengths dev \<longleftrightarrow> (\<forall>b buf d s buf' d'. io_read dev b buf d = (s, buf', d') \<longrightarrow> length buf' = length buf)"

lemma sd_lengthsD: "sd_lengths dev \<Longrightarrow> io_read dev b buf d = (s, buf', d') \<Longrightarrow> length buf' = length buf"
  unfolding sd_lengths_def by blast

section \<open>The pieces\<close>

lemma write_byte_length [simp]: "length (kbuf_write_byte buf i v) = length buf"
  by (simp add: kbuf_write_byte_def)

lemma write_u32_length [simp]: "length (buf_write_u32_le buf i v) = length buf"
  by (simp add: buf_write_u32_le_def Let_def)

lemma ctx_store_length: "length (kernelupload_ctx_store ctx buf) = length buf"
proof -
  have "length (fold (\<lambda>i buf. buf_write_u32_le buf (g i) (f i)) is buf) = length buf" for g f and "is" :: "nat list" and buf
    by (induction "is" arbitrary: buf) simp_all
  then show ?thesis by (simp add: kernelupload_ctx_store_def Let_def length_write_fold del: upt_Suc)
qed

lemma hex_loop_length: "length (snd (hex_loop line i is out)) = length out"
  by (induction line i "is" out rule: hex_loop.induct) (simp_all add: Let_def)

lemma hex_length: "shell_parse_hex_bytes line i j out n = (s, out') \<Longrightarrow> length out' = length out"
  using hex_loop_length [of line i "[0..<n]" out] by (auto simp: shell_parse_hex_bytes_def split: if_splits)

lemma build_length: "length (kernelslot_build r buf) = length buf"
proof -
  have "length (fold (\<lambda>j out. kbuf_write_byte (kbuf_write_byte out (g j) (f j)) (g' j) (f' j)) is buf) = length buf"
    for g f g' f' and "is" :: "nat list" and buf
    by (induction "is" arbitrary: buf) simp_all
  then show ?thesis by (simp add: kernelslot_build_def Let_def length_write_fold del: upt_Suc)
qed

lemma lookup_length:
  assumes "sd_lengths dev" and "kernelslot_lookup (io_read dev) (buf, d) = (r, buf', d')"
  shows "length buf' = length buf"
  using assms(2) sd_lengthsD [OF assms(1)]
  by (auto simp: kernelslot_lookup_def Let_def split: prod.splits)

lemma progress_length:
  assumes "sd_lengths dev" and "kernelupload_chunk_progress_lookup (io_read dev) (buf, d) = (p, buf', d')"
  shows "length buf' = length buf"
  using assms(2) sd_lengthsD [OF assms(1)]
  by (auto simp: kernelupload_chunk_progress_lookup_def Let_def split: prod.splits)

lemma clear_length:
  assumes "sd_lengths dev"
    and "kernelupload_chunk_progress_clear (io_read dev) wr (buf, d) = Some (s, buf', d')"
  shows "length buf' = length buf"
  using assms(2) progress_length [OF assms(1)]
  by (auto simp: kernelupload_chunk_progress_clear_def kernelupload_chunk_progress_write_def Let_def
      split: prod.splits if_splits)

lemma record_length:
  assumes "sd_lengths dev"
    and "kernelupload_record (io_read dev) wr t len digest (buf, d) = Some (msg, act, buf', d')"
  shows "length buf' = length buf"
  using assms(2) lookup_length [OF assms(1)] build_length
  by (auto simp: kernelupload_record_def kernelslot_write_record_def bind_eq_Some_conv Let_def
      split: prod.splits if_splits)

lemma lookup_slots_sizes:
  assumes "sd_lengths dev" and "lookup_slots dev st = (r, st')"
  shows "sizes st' = sizes st"
  using assms(2) lookup_length [OF assms(1)]
  by (auto simp: lookup_slots_def sizes_buffers split: prod.splits)

lemma progress_get_sizes:
  assumes "sd_lengths dev" and "progress_get dev st = (p, st')"
  shows "sizes st' = sizes st"
  using assms(2) progress_length [OF assms(1)]
  by (auto simp: progress_get_def sizes_buffers split: prod.splits)

lemma progress_put_sizes: "progress_put dev r st = (s, st') \<Longrightarrow> sizes st' = sizes st"
  by (auto simp: progress_put_def kernelupload_chunk_progress_write_def sizes_buffers Let_def split: prod.splits)

lemma hash_store_sizes [simp]: "sizes (st\<lparr>up_sha_ctx := kernelupload_ctx_store ctx (up_sha_ctx st)\<rparr>) = sizes st"
  by (simp add: sizes_buffers ctx_store_length)

lemma timer_sizes [simp]: "sizes (snd (timer_clo dev st)) = sizes st"
  by (simp add: timer_clo_def split: prod.split)

lemma timed_write_sizes: "timed_write dev b st = Some (s, st') \<Longrightarrow> sizes st' = sizes st"
  by (auto elim!: timed_writeE)

lemma accumulate_loop_sizes:
  "accumulate_loop dev base bs ctx tot st = Some (ok, ctx', tot', st') \<Longrightarrow> sizes st' = sizes st"
proof (induction bs arbitrary: ctx tot st)
  case (Cons b bs)
  let ?st = "st\<lparr>up_block_buf := kbuf_write_byte (up_block_buf st) (tot mod 512) b\<rparr>"
  have "sizes ?st = sizes st" by (simp add: sizes_buffers)
  with Cons show ?case
    unfolding accumulate_step
    by (auto simp: Let_def bind_eq_Some_conv dest!: timed_write_sizes split: if_splits)
qed simp

lemma accumulate_sizes: "kernelupload_accumulate_bytes dev buf n st = Some (s, st') \<Longrightarrow> sizes st' = sizes st"
  by (auto simp: kernelupload_accumulate_bytes_def Let_def bind_eq_Some_conv dest!: accumulate_loop_sizes split: if_splits)

lemma readback_sizes:
  assumes "sd_lengths dev"
  shows "readback_loop dev base n p rbs ctx st = (r, st') \<Longrightarrow> sizes st' = sizes st"
proof (induction rbs arbitrary: ctx st)
  case (Cons rb rbs)
  obtain s buf d where rd: "io_read dev (base + of_nat rb) (up_block_buf st) (sd st) = (s, buf, d)"
    by (metis prod_cases3)
  have "sizes (st\<lparr>up_block_buf := buf, sd := d\<rparr>) = sizes st"
    using sd_lengthsD [OF assms rd] by (simp add: sizes_buffers)
  with Cons rd show ?case by (auto simp: Let_def split: if_splits)
qed simp

lemma pad_length [simp]: "length (fold (\<lambda>i buf. kbuf_write_byte buf i 0) is buf) = length buf"
  by (rule length_write_fold)

section \<open>The subcommands\<close>

text \<open>The results of the steps as equations.\<close>

lemma hex_length_snd [simp]: "length (snd (shell_parse_hex_bytes line i j out n)) = length out"
  using hex_length by (metis prod.collapse)

lemma put_sizes_snd [simp]: "sizes (snd (progress_put dev r st)) = sizes st"
  using progress_put_sizes by (metis prod.collapse)

lemma tail_sizes_snd [simp]: "sizes (snd (write_tail dev base len st)) = sizes st"
  by (simp add: write_tail_def Let_def sizes_buffers split: prod.split)

lemma get_sizes_snd [simp]: "sd_lengths dev \<Longrightarrow> sizes (snd (progress_get dev st)) = sizes st"
  using progress_get_sizes by (metis prod.collapse)

lemma slots_sizes_snd [simp]: "sd_lengths dev \<Longrightarrow> sizes (snd (lookup_slots dev st)) = sizes st"
  using lookup_slots_sizes by (metis prod.collapse)

lemma start_sizes_snd [simp]: "sd_lengths dev \<Longrightarrow> sizes (snd (chunk_start dev st)) = sizes st"
  by (simp add: chunk_start_def case_prod_beta Let_def sizes_buffers ctx_store_length)

lemma verify_sizes_snd [simp]:
  "sd_lengths dev \<Longrightarrow> sizes (snd (kernelupload_chunk_verify_range dev base len want st)) = sizes st"
  using readback_sizes [of dev]
  by (auto simp: kernelupload_chunk_verify_range_def Let_def split: prod.split option.split)

lemma chunk_sizes:
  assumes "sd_lengths dev" and "kernelupload_chunk dev line sub_end n st = Some st'"
  shows "sizes st' = sizes st"
  using assms
  by (auto simp: kernelupload_chunk_def case_prod_beta Let_def bind_eq_Some_conv sizes_buffers
      dest!: accumulate_sizes split: if_splits)

lemma reset_sizes [simp]: "sizes (stream_reset dev expected st) = sizes st"
  by (simp add: stream_reset_def timer_clo_def Let_def sizes_def maintenance_mode_engage_def ctx_store_length
      split: prod.split)

lemma stream_sizes:
  assumes "sd_lengths dev"
  shows "sizes (kernelupload_stream dev line sub_end n st) = sizes st"
  using assms by (simp add: kernelupload_stream_def case_prod_beta Let_def)

lemma last_block_sizes: "commit_last_block dev base len ctx st = (r, st') \<Longrightarrow> sizes st' = sizes st"
  by (auto simp: commit_last_block_def Let_def sizes_buffers split: if_splits prod.splits)

lemma commit_record_sizes:
  assumes "sd_lengths dev" and "commit_record dev t len st = Some st'"
  shows "sizes st' = sizes st"
  using assms(2) record_length [OF assms(1)] progress_length [OF assms(1)] clear_length [OF assms(1)]
  by (auto simp: commit_record_def Let_def bind_eq_Some_conv sizes_buffers split: if_splits prod.splits)

lemma commit_image_sizes:
  assumes "sd_lengths dev" and "commit_image dev len st = Some st'"
  shows "sizes st' = sizes st"
  using assms(2) last_block_sizes readback_sizes [OF assms(1)] commit_record_sizes [OF assms(1)]
  by (fastforce simp: commit_image_def Let_def split: if_splits prod.splits option.splits)

lemma commit_sizes:
  assumes "sd_lengths dev" and "kernelupload_commit dev line sub_end n st = Some st'"
  shows "sizes st' = sizes st"
  using assms
  by (auto simp: kernelupload_commit_def case_prod_beta Let_def sizes_buffers dest!: commit_image_sizes [OF assms(1)] split: if_splits)

lemma again_sizes: "resumebegin_again dev prog st = Some st' \<Longrightarrow> sizes st' = sizes st"
  by (auto simp: resumebegin_again_def case_prod_beta Let_def bind_eq_Some_conv split: if_splits)

lemma fresh_sizes: "resumebegin_fresh dev t len cs cc prog st = Some st' \<Longrightarrow> sizes st' = sizes st"
  by (auto simp: resumebegin_fresh_def case_prod_beta Let_def bind_eq_Some_conv split: if_splits)

lemma begin_checked_sizes:
  assumes "sd_lengths dev" and "resumebegin_checked dev len cc st = Some st'"
  shows "sizes st' = sizes st"
  using assms
  by (auto simp: resumebegin_checked_def case_prod_beta Let_def dest!: again_sizes fresh_sizes split: if_splits)

lemma resumebegin_sizes:
  assumes "sd_lengths dev" and "kernelupload_resumebegin dev line sub_end n st = Some st'"
  shows "sizes st' = sizes st"
  using assms
  by (auto simp: kernelupload_resumebegin_def case_prod_beta Let_def sizes_buffers
      dest!: begin_checked_sizes [OF assms(1)] split: if_splits)

lemma resumechunk_sizes:
  assumes "sd_lengths dev" and "kernelupload_resumechunk dev line sub_end n st = Some st'"
  shows "sizes st' = sizes st"
  using assms
  by (auto simp: kernelupload_resumechunk_def case_prod_beta Let_def bind_eq_Some_conv split: if_splits)

lemma stitch_sizes:
  assumes "sd_lengths dev"
  shows "sizes (stitch dev prog idx st) = sizes st"
  using readback_sizes [OF assms] sd_lengthsD [OF assms]
  by (auto simp: stitch_def Let_def sizes_buffers ctx_store_length split: prod.split option.split)

lemma advance_sizes:
  assumes "sd_lengths dev" and "advance_progress dev prog idx st = Some st'"
  shows "sizes st' = sizes st"
  using assms(2) stitch_sizes [OF assms(1)]
  by (auto simp: advance_progress_def case_prod_beta Let_def bind_eq_Some_conv split: if_splits)

lemma verify_chunk_sizes:
  assumes "sd_lengths dev" and "verify_chunk dev prog idx base len st = Some st'"
  shows "sizes st' = sizes st"
  using assms by (auto simp: verify_chunk_def case_prod_beta Let_def dest!: advance_sizes [OF assms(1)] split: if_splits)

lemma verify_checked_sizes:
  assumes "sd_lengths dev" and "resumeverify_checked dev prog idx st = Some st'"
  shows "sizes st' = sizes st"
  using assms
  by (auto simp: resumeverify_checked_def case_prod_beta Let_def bind_eq_Some_conv
      dest!: verify_chunk_sizes [OF assms(1)] split: if_splits)

lemma resumeverify_sizes:
  assumes "sd_lengths dev" and "kernelupload_resumeverify dev line sub_end n st = Some st'"
  shows "sizes st' = sizes st"
  using assms
  by (auto simp: kernelupload_resumeverify_def case_prod_beta Let_def sizes_buffers
      dest!: verify_checked_sizes [OF assms(1)] split: if_splits)

lemma resumeabort_sizes:
  assumes "sd_lengths dev" and "kernelupload_resumeabort dev st = Some st'"
  shows "sizes st' = sizes st"
proof -
  let ?st = "maintenance_mode_disengage (st\<lparr>up_stream_active := 0, up_active := 0, up_total_len := 0\<rparr>)"
  from assms(2) obtain s buf d where
    clear: "kernelupload_chunk_progress_clear (io_read dev) (io_write dev) (up_chunk_record_buf ?st, sd ?st) = Some (s, buf, d)"
    and "st' = say [Str ''ok\<newline>''] (?st\<lparr>up_chunk_record_buf := buf, sd := d\<rparr>)"
    by (auto simp: kernelupload_resumeabort_def Let_def bind_eq_Some_conv)
  then show ?thesis using clear_length [OF assms(1) clear] by (simp add: sizes_buffers)
qed

lemma dispatch_sizes:
  assumes "sd_lengths dev" and "shell_dispatch_kernelupload dev uid line cmd_end n st = Some st'"
  shows "sizes st' = sizes st"
proof -
  have "sizes (kernelupload_resumestatus dev st) = sizes st" "sizes (kernelupload_abort st) = sizes st"
    using assms(1) by (simp_all add: kernelupload_resumestatus_def kernelupload_abort_def case_prod_beta Let_def)
  then show ?thesis
    using assms stream_sizes [OF assms(1)]
    by (auto simp: shell_dispatch_kernelupload_def Let_def split: if_splits
        dest: chunk_sizes resumebegin_sizes resumechunk_sizes resumeverify_sizes resumeabort_sizes commit_sizes)
qed

section \<open>Property\<close>



end
