(* ===== verification/Upload_Boot.thy ===== *)
theory Upload_Boot
  imports Upload_Types Ideal_Boot Kernel_Protocol
begin

text \<open>
  From a committed upload to the next start: the activation of the slot, and the loader on the card
  that the kernel left.
\<close>

text \<open>The loader's view of the card, 128 words a block, shows the kernel's.\<close>

definition card_shows :: "(u32 \<Rightarrow> u32 list) \<Rightarrow> (u64 \<Rightarrow> u8 list) \<Rightarrow> bool" where
  "card_shows d v \<longleftrightarrow> (\<forall>n. block_bytes d n = v (ucast n))"

lemma shown_records: "card_shows d v \<Longrightarrow> disk_records d = slot_copies v"
  by (simp add: card_shows_def disk_records_def slot_copies_def stage0_const_defs
      kernelslot_state_block_a_def kernelslot_state_block_b_def)

lemma shown_payload:
  assumes "card_shows d v" and "slot_len s \<le> SLOT_SIZE_BYTES" and "t = ucast (active_slot s)"
  shows "disk_payload d s = card_image v (slot_base_block t) (unat (slot_len s))"
proof -
  have len: "unat (slot_len s) \<le> 12288 * 512" using assms(2) by (simp add: SLOT_SIZE_BYTES_def word_le_nat_alt)
  have "slot_len s + of_nat BLOCK_SIZE - 1 = slot_len s + 511" by (simp add: BLOCK_SIZE_def)
  moreover have "unat (slot_len s + 511) = unat (slot_len s) + 511"
    using len by (subst unat_word_ariths(1)) simp
  ultimately have n: "unat (num_blocks (slot_len s)) = block_count (unat (slot_len s))"
    by (simp only: num_blocks_def block_count_def unat_div) (simp add: BLOCK_SIZE_def)
  have small: "block_count (unat (slot_len s)) \<le> 12288" using len by (simp add: block_count_def)
  have t0: "ucast (active_slot s) = (0 :: u32) \<longleftrightarrow> active_slot s = 0" 
    using byte_u32_eq [of "active_slot s" 0] by simp
  have base: "ucast (slot_base s + of_nat k) = slot_base_block t + of_nat k" if "k < 12288" for k
  proof (rule word_unat_eq_iff [THEN iffD2])
    have "unat (slot_base s + of_nat k) = unat (slot_base s) + k" "unat (slot_base_block t + of_nat k) = unat (slot_base_block t) + k"
      using that by (simp_all add: unat_word_ariths unat_of_nat slot_base_def slot_base_block_def stage0_const_defs
          kernelslot_a_base_block_def kernelslot_b_base_block_def)
    moreover have "unat (slot_base s) = unat (slot_base_block t)"
      by (simp add: assms(3) t0 slot_base_def slot_base_block_def stage0_const_defs
          kernelslot_a_base_block_def kernelslot_b_base_block_def)
    ultimately show "unat (ucast (slot_base s + of_nat k) :: u64) = unat (slot_base_block t + of_nat k)"
      using that by (simp add: unsigned_ucast_eq take_bit_nat_eq_self slot_base_block_def
          kernelslot_a_base_block_def kernelslot_b_base_block_def)
  qed
  have "map (\<lambda>k. block_bytes d (slot_base s + of_nat k)) [0..<block_count (unat (slot_len s))]
      = map (\<lambda>k. v (slot_base_block t + of_nat k)) [0..<block_count (unat (slot_len s))]"
    using assms(1) base small by (intro map_cong) (auto simp: card_shows_def)
  then show ?thesis by (simp only: disk_payload_def card_image_def n)
qed

lemma activation_accepts:
  assumes sound: "sd_sound dev view" and works: "sd_reads_all dev" "sd_writes_all dev" and buf: "length buf = 512"
    and sel: "card_select (slot_copies (view d)) = Some (r, stale)" and gen: "generation r \<noteq> - 1"
    and ready: "(if a then slot_a_ready r else slot_b_ready r) = 1" and want: "a \<or> b"
  obtains msg buf' d' r' where "kernelslot_activate (io_read dev) (io_write dev) 0 a b (buf, d) = Some (msg, buf', d')"
    "activate_slot (if a then 0 else 1) r = Some r'" "\<exists>stale'. card_select (slot_copies (view d')) = Some (r', stale')"
    "\<forall>x. x \<notin> state_blocks \<longrightarrow> view d' x = view d x"
proof -
  obtain q b1 d1 where look: "kernelslot_lookup (io_read dev) (buf, d) = (q, b1, d1)" by (metis prod_cases3)
  note l = lookup_view [OF sound buf look]
  from l(4) [OF works(1)] sel have q: "valid q = 1" "slot_state.truncate q = r" "stale = ucast (kernelslot_stale_block q)"
    by (auto split: if_splits)
  then have "generation q \<noteq> - 1" and rq: "(if a then slot_a_ready q else slot_b_ready q) = 1"
    using gen ready truncate_fields(1,4,5) [of q] by auto
  then obtain q' where q': "activate_slot (if a then 0 else 1) q = Some q'" by (auto simp: kernel_update_defs)
  let ?out = "build_slot_state (slot_state.truncate q') b1" and ?b = "kernelslot_stale_block q"
  obtain d2 where w: "io_write dev ?b ?out d1 = (0, d2)"
    using works(2) by (metis eq_fst_iff sd_writes_all_def)
  have up: "activate_slot (if a then 0 else 1) r = Some (slot_state.truncate q')"
    using updates_truncate(3) [OF q'] q(2) by simp
  have step: "slot_update r (slot_state.truncate q')" using slot_update.activate [OF ready up] .
  have "slot_ok r" using l(3) [OF q(1)] q(2) slot_ok_parse by auto
  then have out: "length ?out = 512"
    using update_ok [OF step] build_slot_state_layout [of _ b1] length_slot_wire l(1) by simp
  note wr = sd_sound_write [OF sound w]
  have others: "\<forall>x. x \<notin> insert ?b progress_blocks \<longrightarrow> view d2 x = view d x" using wr(1) l(2) by simp
  have "slot_copies (view d2) = put_block stale ?out (slot_copies (view d))"
    using put_stale [OF others] wr(2) out q(3) by simp
  moreover have "is_block b1" using l(1) by (simp add: is_block_def BLOCK_SIZE_def)
  ultimately have "\<exists>stale'. card_select (slot_copies (view d2)) = Some (slot_state.truncate q', stale')"
    using card_select_put [OF sel _ step gen] by simp
  moreover have "kernelslot_activate (io_read dev) (io_write dev) 0 a b (buf, d)
      = Some (''ok, slot '' @ (if a then ''A'' else ''B'') @ '' is now active (lasting choice, takes effect next reboot)\<newline>'', ?out, d2)"
    using look q(1) rq q' w want
    by (simp add: kernelslot_activate_def kernelslot_write_record_def kernelslot_build_state)
  moreover have "\<forall>x. x \<notin> state_blocks \<longrightarrow> view d2 x = view d x"
    using wr(1) l(2) stale_in_state_blocks by metis
  ultimately show thesis using that up by blast
qed

text \<open>The start after an activation takes the activated slot.\<close>

lemma decide_activated:
  assumes "activate_slot t s = Some s'"
  shows "active_slot (boot_decide s') = t" and "slot_len (boot_decide s') = (if t = 0 then slot_a_len s else slot_b_len s)"
    and "slot_sha (boot_decide s') = (if t = 0 then slot_a_sha256 s else slot_b_sha256 s)"
proof -
  have s': "attempt_count s' = 0" "active_slot s' = t" "slot_a_len s' = slot_a_len s" "slot_b_len s' = slot_b_len s"
      "slot_a_sha256 s' = slot_a_sha256 s" "slot_b_sha256 s' = slot_b_sha256 s"
    using assms by (auto simp: kernel_updates)
  then show "active_slot (boot_decide s') = t"
    using decide_counting(2) [of s'] effective_limit_pos [of s'] by simp
  with s' decide_same [of s'] show "slot_len (boot_decide s') = (if t = 0 then slot_a_len s else slot_b_len s)"
    and "slot_sha (boot_decide s') = (if t = 0 then slot_a_sha256 s else slot_b_sha256 s)"
    by (simp_all add: slot_len_def slot_sha_def same_slots_def)
qed

lemma shown_boot:
  assumes "card_shows dk v" and "card_select (slot_copies v) = Some (r'', stale)"
    and "record_upload t (of_nat (length msg)) (sha256_digest msg) r = Some r'"
    and "activate_slot (if t = 0 then 0 else 1) r' = Some r''" and t: "t = 0 \<or> t = 1"
    and msg: "0 < length msg" "int (length msg) \<le> kernelslot_size_bytes" "card_image v (slot_base_block t) (length msg) = msg"
  defines "s \<equiv> boot_decide r''"
  shows "fst (boot_spec dk) = Jumped (jump_value s)" and "active_slot s = ucast t" and "disk_payload dk s = msg"
proof -
  have len: "length msg \<le> 12288 * 512" using msg(2) by (simp add: kernelslot_size_bytes_def)
  then have u: "unat (of_nat (length msg) :: u32) = length msg" by (simp add: unat_of_nat)
  note d = decide_activated [OF assms(4), folded s_def]
  have s: "active_slot s = ucast t" "slot_len s = of_nat (length msg)" "slot_sha s = sha256_digest msg"
    using d assms(3) t by (auto simp: kernel_updates)
  show "active_slot s = ucast t" by (fact s(1))
  have le: "slot_len s \<le> SLOT_SIZE_BYTES" "slot_len s \<noteq> 0"
    using u len msg(1) by (auto simp: s(2) SLOT_SIZE_BYTES_def word_le_nat_alt simp flip: unat_eq_zero)
  have tt: "t = ucast (active_slot s)" using t by (auto simp: s(1))
  show pay: "disk_payload dk s = msg"
    using shown_payload [OF assms(1) le(1) tt] msg(3) u by (simp add: s(2))
  have "card_select (disk_records dk) = Some (r'', stale)" using assms(2) shown_records [OF assms(1)] by simp
  then show "fst (boot_spec dk) = Jumped (jump_value s)"
    using le pay s(3) by (simp add: boot_spec_def Let_def not_less s_def)
qed

text \<open>From the commit of an image to the start that runs it.\<close>

lemma committed_boots:
  assumes sound: "sd_sound dev view" and works: "sd_reads_all dev" "sd_writes_all dev"
    and gen: "unat (generation r) + 2 < 2 ^ 32" and msg: "0 < length msg" "int (length msg) \<le> kernelslot_size_bytes"
    and junk: "sha_fresh junk" and t: "t = 0 \<or> t = (1 :: u32)"
    and wf: "up_wf st2" and commit: "kernelupload_commit dev line sub_end n st2 = Some st3"
    and r': "record_upload t (of_nat (length msg)) (sha256_digest msg) r = Some r'"
    and sel: "\<exists>stale'. card_select (slot_copies (view (sd st3))) = Some (r', stale')"
    and img: "card_image (view (sd st3)) (slot_base_block t) (length msg) = msg"
  shows "\<exists>buf d ack. kernelslot_activate (io_read dev) (io_write dev) 0 (t = 0) (t \<noteq> 0) (up_record_buf st3, sd st3) = Some (ack, buf, d)
    \<and> (\<forall>m :: (card, 'z) stage0_scheme. card_shows (disk (hw m)) (view d) \<and> rx (hw m) = [] \<and> (\<forall>n. length (disk (hw m) n) = 128)
          \<and> length (block_buf m) = 512 \<longrightarrow>
        (\<exists>m' s. stage0_main ideal_card wd junk m = Some (Jumped (jump_value s), m')
          \<and> active_slot s = ucast t \<and> disk_payload (disk (hw m)) s = msg))"
proof -
  obtain stale' where sel3: "card_select (slot_copies (view (sd st3))) = Some (r', stale')" using sel by blast
  have "sd_lengths dev" using sd_sound_read(2) [OF sound] by (simp add: sd_lengths_def)
  then have buf: "length (up_record_buf st3) = 512"
    using wf_sizes [OF commit_sizes [OF _ commit]] wf by (simp add: up_wf_def)
  have gen1: "generation r' = generation r + 1" and ready: "(if t = 0 then slot_a_ready r' else slot_b_ready r') = 1"
    using r' by (auto simp: kernel_updates)
  have "unat (generation r + 1) = unat (generation r) + 1"
    using gen by (intro unat_add_one [of _ "2 ^ 32 - 2"]) simp_all
  then have "unat (generation r + 1) \<noteq> unat (- 1 :: u32)" using gen by (simp only: unat_max) simp
  then have gen': "generation r' \<noteq> - 1" using gen1 by metis
  have want: "t = 0 \<or> t \<noteq> 0" by simp
  obtain ack buf d r'' where
    act: "kernelslot_activate (io_read dev) (io_write dev) 0 (t = 0) (t \<noteq> 0) (up_record_buf st3, sd st3) = Some (ack, buf, d)"
    and r'': "activate_slot (if t = 0 then 0 else 1) r' = Some r''"
      "\<exists>stale''. card_select (slot_copies (view d)) = Some (r'', stale'')"
    and others: "\<forall>x. x \<notin> state_blocks \<longrightarrow> view d x = view (sd st3) x"
    by (rule activation_accepts [OF sound works buf sel3 gen' ready want])
  then obtain stale'' where sel4: "card_select (slot_copies (view d)) = Some (r'', stale'')" by blast
  have img': "card_image (view d) (slot_base_block t) (length msg) = msg"
    using card_image_cong [OF msg(2), of "view d" "view (sd st3)" t] others img by simp
  have "\<exists>m' s. stage0_main ideal_card wd junk m = Some (Jumped (jump_value s), m')
      \<and> active_slot s = ucast t \<and> disk_payload (disk (hw m)) s = msg"
    if m: "card_shows (disk (hw m)) (view d)" "rx (hw m) = []" "\<forall>n. length (disk (hw m) n) = 128" "length (block_buf m) = 512" for m :: "(card, 'z) stage0_scheme"
    using card_main [OF m(2-4) junk, of wd] shown_boot [OF m(1) sel4 r' r''(1) t msg img'] by metis
  then show ?thesis using act by blast
qed

end
