(* ===== verification/Progress_Proofs.thy ===== *)
theory Progress_Proofs
  imports Kernel_Resume Upload_Complete
begin

text \<open>
  The progress record on the card: its format is read back, and its two copies are a versioned store
  like those of the slot-state record, so the same lemmas apply.
\<close>

section \<open>The format\<close>

definition progress_header :: "KernelUploadChunkProgress \<Rightarrow> u8 list" where
  "progress_header p =
     le_bytes 0x4B554350 @ le_bytes (p_generation p) @ le_bytes (p_target_slot p) @ le_bytes (p_total_len p)
     @ le_bytes (p_chunk_size p) @ le_bytes (p_chunk_count p) @ le_bytes (p_chunks_confirmed p)
     @ le_bytes (p_attempt_count p)"

definition progress_fields :: "KernelUploadChunkProgress \<Rightarrow> u8 list" where
  "progress_fields p = progress_header p @ p_final_sha256 p"

definition progress_wire :: "KernelUploadChunkProgress \<Rightarrow> u8 list" where
  "progress_wire p = progress_fields p @ le_bytes (crc32_ieee (progress_fields p)) @ replicate 444 0"

text \<open>A record as it is stored: the two fields that are not on the card have fixed values.\<close>

definition progress_ok :: "KernelUploadChunkProgress \<Rightarrow> bool" where
  "progress_ok p \<longleftrightarrow> length (p_final_sha256 p) = 32 \<and> p_valid p = 1 \<and> p_chosen_block p = 0"

definition progress_dec :: "u8 list \<Rightarrow> KernelUploadChunkProgress option" where
  "progress_dec raw =
     (if kernelupload_chunk_progress_crc_valid raw then Some (kernelupload_chunk_progress_parse raw 0) else None)"

lemma length_progress_header [simp]: "length (progress_header p) = 32"
  by (simp add: progress_header_def)

lemma length_progress_wire: "length (p_final_sha256 p) = 32 \<Longrightarrow> length (progress_wire p) = 512"
  by (simp add: progress_wire_def progress_fields_def)

lemma progress_header_writes:
  "write_u32_le (write_u32_le (write_u32_le (write_u32_le (write_u32_le (write_u32_le (write_u32_le (write_u32_le
     (replicate 32 0) 0 0x4B554350) 4 (p_generation p)) 8 (p_target_slot p)) 12 (p_total_len p))
     16 (p_chunk_size p)) 20 (p_chunk_count p)) 24 (p_chunks_confirmed p)) 28 (p_attempt_count p)
   = progress_header p"
  by (simp add: write_u32_le_def progress_header_def le_bytes_def list_update_numeral replicate_numeral_unfold)

lemma kernelslot_crc32_prefix:
  assumes "length xs = 64"
  shows "kernelslot_crc32 (xs @ ys) 64 = crc32_ieee xs"
proof -
  have "kernelslot_crc32 (xs @ ys) 64 = crc32_bytes (xs @ ys) 64"
    unfolding kernelslot_crc32_def crc32_bytes_def foldl_conv_fold crc32_byte_def kernelslot_crc32_bit kbuf_read_byte_def
    by simp
  then show ?thesis using assms by (simp add: crc32_bytes_prefix)
qed

lemma progress_build_wire:
  assumes "length (p_final_sha256 p) = 32" and "length out = 512"
  shows "kernelupload_chunk_progress_build p out = progress_wire p"
proof -
  let ?rest = "replicate 32 0 @ replicate 448 (0 :: u8)"
  have zeros: "fold (\<lambda>i out. out[i := 0]) [0..<512] out = replicate 32 0 @ ?rest"
    using assms(2) by (simp add: fold_zero flip: replicate_add)
  have hdr: "write_u32_le (write_u32_le (write_u32_le (write_u32_le (write_u32_le (write_u32_le (write_u32_le (write_u32_le
     (replicate 32 0 @ ?rest) 0 0x4B554350) 4 (p_generation p)) 8 (p_target_slot p)) 12 (p_total_len p))
     16 (p_chunk_size p)) 20 (p_chunk_count p)) 24 (p_chunks_confirmed p)) 28 (p_attempt_count p)
   = progress_header p @ ?rest"
    by (simp only: write_u32_le_append length_replicate length_write_u32_le flip: progress_header_writes)
  have seg: "fold (\<lambda>j out. out[32 + j := p_final_sha256 p ! j]) [0..<32] (progress_header p @ ?rest)
      = progress_fields p @ [0, 0, 0, 0] @ replicate 444 0"
    using fold_copy_segment [of 32 "progress_header p" "replicate 32 0" 32 "p_final_sha256 p" "replicate 448 0"] assms(1)
    by (simp add: progress_fields_def replicate_numeral_unfold)
  have len: "length (progress_fields p) = 64" using assms(1) by (simp add: progress_fields_def)
  have "kernelupload_chunk_progress_build p out
      = write_u32_le (progress_fields p @ [0, 0, 0, 0] @ replicate 444 0) 64 (crc32_ieee (progress_fields p))"
    by (simp only: kernelupload_chunk_progress_build_def Let_def buf_write_u32_le kbuf_write_byte_def byte_ucast
        unsigned_0 zeros hdr seg kernelslot_crc32_prefix [OF len])
  also have "\<dots> = progress_wire p"
    unfolding progress_wire_def using len by (intro write_u32_le_middle) simp
  finally show ?thesis .
qed

lemma read_progress_header:
  assumes "bs = progress_header p @ rest"
  shows "read_u32_le bs 0 = 0x4B554350" "read_u32_le bs 4 = p_generation p" "read_u32_le bs 8 = p_target_slot p"
    "read_u32_le bs 12 = p_total_len p" "read_u32_le bs 16 = p_chunk_size p" "read_u32_le bs 20 = p_chunk_count p"
    "read_u32_le bs 24 = p_chunks_confirmed p" "read_u32_le bs 28 = p_attempt_count p"
  by (simp_all add: assms progress_header_def read_u32_le_def le_bytes_def
      nth_Cons_numeral le_word_le_bytes [unfolded le_word_def])

lemma progress_dec_wire:
  assumes "progress_ok p"
  shows "progress_dec (progress_wire p) = Some p"
proof -
  let ?bs = "progress_wire p"
  have sha: "length (p_final_sha256 p) = 32" using assms by (simp add: progress_ok_def)
  have bs: "?bs = progress_header p @ p_final_sha256 p @ le_bytes (crc32_ieee (progress_fields p)) @ replicate 444 0"
    by (simp add: progress_wire_def progress_fields_def)
  note header = read_progress_header [OF bs]
  have len: "length (progress_fields p) = 64" using sha by (simp add: progress_fields_def)
  have crc: "kernelslot_crc32 ?bs 64 = crc32_ieee (progress_fields p)"
    by (simp add: progress_wire_def kernelslot_crc32_prefix [OF len])
  have stored: "read_u32_le ?bs 64 = crc32_ieee (progress_fields p)"
    unfolding progress_wire_def using len by (intro read_u32_le_at) simp
  have "map (\<lambda>i. ?bs ! (32 + i)) [0..<32] = p_final_sha256 p"
    unfolding bs using sha by (intro map_nth_segment) simp_all
  then have "kernelupload_chunk_progress_parse ?bs 0 = p"
    using assms by (simp add: kernelupload_chunk_progress_parse_def buf_read_u32_le header kbuf_read_byte_def progress_ok_def)
  then show ?thesis
    by (simp add: progress_dec_def kernelupload_chunk_progress_crc_valid_def buf_read_u32_le header crc stored)
qed

lemma progress_dec_ok: "progress_dec raw = Some p \<Longrightarrow> progress_ok p"
  by (auto simp: progress_dec_def progress_ok_def kernelupload_chunk_progress_parse_def split: if_splits)

section \<open>The two copies\<close>

definition progress_step :: "KernelUploadChunkProgress \<Rightarrow> KernelUploadChunkProgress \<Rightarrow> bool" where
  "progress_step p p' \<longleftrightarrow> progress_ok p' \<and> p_generation p' = p_generation p + 1"

interpretation progress_store: versioned_store kernelupload_chunk_progress_build progress_dec progress_ok is_block
    p_generation progress_step
proof
  fix r out x r'
  show "progress_ok r \<Longrightarrow> is_block out \<Longrightarrow> progress_dec (kernelupload_chunk_progress_build r out) = Some r"
    by (simp add: progress_build_wire progress_dec_wire is_block_def BLOCK_SIZE_def progress_ok_def)
  show "progress_ok r \<Longrightarrow> is_block out \<Longrightarrow> is_block (kernelupload_chunk_progress_build r out)"
    by (simp add: is_block_def)
  show "progress_dec x = Some r \<Longrightarrow> progress_ok r" by (rule progress_dec_ok)
qed (simp_all add: progress_step_def)

definition progress_copies :: "(u64 \<Rightarrow> u8 list) \<Rightarrow> u8 list \<times> u8 list" where
  "progress_copies v = (v kernelupload_chunk_state_block_a, v kernelupload_chunk_state_block_b)"

definition progress_block :: "bool \<Rightarrow> u64" where
  "progress_block a = (if a then kernelupload_chunk_state_block_a else kernelupload_chunk_state_block_b)"

text \<open>The lookup finds the current copy of the store, unless its number of chunks is zero.\<close>

lemma progress_select_current:
  "progress_store.current (progress_copies v) = Some (r, sb) \<Longrightarrow>
     progress_select v = r\<lparr>p_chosen_block := progress_block sb, p_valid := (if p_chunk_count r = 0 then 0 else 1)\<rparr>"
  "progress_store.current (progress_copies v) = None \<Longrightarrow>
     p_valid (progress_select v) = 0 \<and> p_chosen_block (progress_select v) = kernelupload_chunk_state_block_a"
proof -
  let ?a = "v kernelupload_chunk_state_block_a" and ?b = "v kernelupload_chunk_state_block_b"
  have parse: "kernelupload_chunk_progress_parse raw blk
      = (kernelupload_chunk_progress_parse raw 0)\<lparr>p_chosen_block := blk\<rparr>" for raw blk
    by (simp add: kernelupload_chunk_progress_parse_def)
  have valid: "p_valid (kernelupload_chunk_progress_parse raw blk) = 1" for raw blk
    by (simp add: kernelupload_chunk_progress_parse_def)
  have upd: "r\<lparr>p_valid := p_valid r\<rparr> = r" for r :: KernelUploadChunkProgress by simp
  show "progress_store.current (progress_copies v) = Some (r, sb) \<Longrightarrow>
     progress_select v = r\<lparr>p_chosen_block := progress_block sb, p_valid := (if p_chunk_count r = 0 then 0 else 1)\<rparr>"
    and "progress_store.current (progress_copies v) = None \<Longrightarrow>
     p_valid (progress_select v) = 0 \<and> p_chosen_block (progress_select v) = kernelupload_chunk_state_block_a"
    unfolding progress_select_def kernelupload_chunk_progress_lookup_def progress_copies_def
      progress_store.current_def progress_dec_def
    using parse [of ?a kernelupload_chunk_state_block_a] parse [of ?b kernelupload_chunk_state_block_b]
    by (auto simp: Let_def progress_block_def valid split: if_splits)
qed

end
