(* ===== verification/Resume_Proofs.thy ===== *)
theory Resume_Proofs
  imports Progress_Proofs Upload_Types
begin

text \<open>
  Lemmas on resumable uploads: the card between two chunks (\<open>resume_at\<close>), what an advance of the
  progress record does, and that the chunks on the card put together are the image.
\<close>

section \<open>Advancing the progress record\<close>

lemma progress_wire_fields [simp]:
  "progress_wire (p\<lparr>p_valid := x\<rparr>) = progress_wire p" "progress_wire (p\<lparr>p_chosen_block := b\<rparr>) = progress_wire p"
  by (simp_all add: progress_wire_def progress_fields_def progress_header_def)

lemma progress_get_all:
  assumes "sd_sound dev view" and "sd_reads_all dev" and "up_wf st" and "progress_get dev st = (p, st')"
  shows "p = progress_select (view (sd st))" and "view (sd st') = view (sd st)"
    and "\<exists>buf d. st' = st\<lparr>up_chunk_record_buf := buf, sd := d\<rparr> \<and> length buf = 512"
proof -
  obtain buf d where look: "kernelupload_chunk_progress_lookup (io_read dev) (up_chunk_record_buf st, sd st) = (p, buf, d)"
    and st': "st' = st\<lparr>up_chunk_record_buf := buf, sd := d\<rparr>"
    using assms(4) by (auto simp: progress_get_def split: prod.splits)
  have len: "length (up_chunk_record_buf st) = 512" using assms(3) by (simp add: up_wf_def)
  note l = progress_lookup_view [OF assms(1) look]
  show "p = progress_select (view (sd st))" using progress_lookup_all [OF assms(1,2) len look] .
  show "view (sd st') = view (sd st)" using l(1) st' by simp
  show "\<exists>buf d. st' = st\<lparr>up_chunk_record_buf := buf, sd := d\<rparr> \<and> length buf = 512" using l(2) len st' by auto
qed

lemma progress_put_all:
  assumes "sd_sound dev view" and "sd_writes_all dev" and "up_wf st" and "length (p_final_sha256 p) = 32"
    and "progress_put dev p st = (s, st')"
  shows "s = 0" and "view (sd st') (p_chosen_block p) = progress_wire p"
    and "x \<noteq> p_chosen_block p \<Longrightarrow> view (sd st') x = view (sd st) x"
    and "\<exists>buf d. st' = st\<lparr>up_chunk_record_buf := buf, sd := d\<rparr> \<and> length buf = 512"
proof -
  have len: "length (up_chunk_record_buf st) = 512" using assms(3) by (simp add: up_wf_def)
  note build = progress_build_wire [OF assms(4) len]
  obtain d where w: "io_write dev (p_chosen_block p) (progress_wire p) (sd st) = (0, d)"
    using assms(2) by (metis eq_fst_iff sd_writes_all_def)
  then have st': "s = 0" "st' = st\<lparr>up_chunk_record_buf := progress_wire p, sd := d\<rparr>"
    using assms(5) by (simp_all add: progress_put_def kernelupload_chunk_progress_write_def build)
  note wr = sd_sound_write [OF assms(1) w]
  show "s = 0" "view (sd st') (p_chosen_block p) = progress_wire p"
    "x \<noteq> p_chosen_block p \<Longrightarrow> view (sd st') x = view (sd st) x"
    "\<exists>buf d. st' = st\<lparr>up_chunk_record_buf := buf, sd := d\<rparr> \<and> length buf = 512"
    using st' wr length_progress_wire [OF assms(4)] by auto
qed

lemma progress_block_cases: "progress_block a \<in> progress_blocks" "progress_block a \<noteq> progress_block (\<not> a)"
  by (simp_all add: progress_block_def progress_blocks_def kernelupload_chunk_state_block_a_def
      kernelupload_chunk_state_block_b_def)

lemma stale_progress_block:
  "p_chosen_block p = progress_block a \<Longrightarrow> kernelupload_chunk_progress_stale_block p = progress_block (\<not> a)"
  by (cases a) (simp_all add: kernelupload_chunk_progress_stale_block_def progress_block_def
      kernelupload_chunk_state_block_a_def kernelupload_chunk_state_block_b_def)

lemma progress_advanced:
  assumes cur: "progress_store.current (progress_copies v) = Some (r, sb)" and gen: "p_generation r \<noteq> - 1"
    and step: "progress_step r r'"
    and put: "v' (progress_block (\<not> sb)) = progress_wire r'" "v' (progress_block sb) = v (progress_block sb)"
  shows "progress_store.current (progress_copies v') = Some (r', \<not> sb)"
proof -
  have out: "is_block (replicate 512 0)" by (simp add: is_block_def BLOCK_SIZE_def)
  have "length (p_final_sha256 r') = 32" using step by (simp add: progress_step_def progress_ok_def)
  then have "kernelupload_chunk_progress_build r' (replicate 512 0) = progress_wire r'"
    by (simp add: progress_build_wire)
  then have "progress_copies v' = overwrite sb (kernelupload_chunk_progress_build r' (replicate 512 0)) (progress_copies v)"
    using put by (cases sb) (simp_all add: progress_copies_def overwrite_def progress_block_def)
  with progress_store.committed_seen [OF cur out step gen] show ?thesis by simp
qed

section \<open>Images in parts\<close>

lemma card_image_append:
  assumes "\<forall>b. length (v b) = 512" and "a mod 512 = 0"
  shows "card_image v base (a + b) = card_image v base a @ card_image v (base + of_nat (a div 512)) b"
proof -
  obtain q where a: "a = 512 * q" using assms(2) by (auto simp: mod_eq_0_iff_dvd)
  have bc: "block_count (512 * q + b) = q + block_count b" "block_count (512 * q) = q"
    using div_mult_self4 [of 512 q "b + 511"] div_mult_self4 [of 512 q 511] by (simp_all add: block_count_def add.assoc)
  let ?f = "\<lambda>k. v (base + of_nat k)"
  have len: "length (concat (map ?f [0..<q])) = 512 * q"
    using concat_blocks_length [of ?f "[0..<q]"] assms(1) by simp
  have split: "[0..<q + block_count b] = [0..<q] @ map (\<lambda>k. k + q) [0..<block_count b]"
    unfolding map_add_upt using upt_add_eq_append [of 0 q "block_count b"] by (simp only: add.commute [of q] le0)
  have "concat (map ?f [0..<q + block_count b])
      = concat (map ?f [0..<q]) @ concat (map (\<lambda>k. v (base + of_nat q + of_nat k)) [0..<block_count b])"
    unfolding split map_append map_map concat_append by (simp only: o_def of_nat_add add.assoc add.commute [of "of_nat q :: u64"])
  then show ?thesis using len by (simp add: card_image_def a bc)
qed

lemma card_image_cong_blocks:
  assumes "\<And>k. k < block_count n \<Longrightarrow> v' (base + of_nat k) = v (base + of_nat k)"
  shows "card_image v' base n = card_image v base n"
proof -
  have "map (\<lambda>k. v' (base + of_nat k)) [0..<block_count n] = map (\<lambda>k. v (base + of_nat k)) [0..<block_count n]"
    using assms by (intro map_cong) auto
  then show ?thesis by (simp only: card_image_def)
qed

lemma length_card_image:
  assumes "\<forall>b. length (v b) = 512"
  shows "length (card_image v base n) = n"
proof -
  have "n \<le> 512 * block_count n"
  proof (cases "n = 0")
    case False
    then have "n - 512 * ((n - 1) div 512) \<le> 512" using block_count_pos(2) [of n] by simp
    then show ?thesis using False block_count_pos(1) [of n] by simp
  qed simp
  then show ?thesis
    using concat_blocks_length [of "\<lambda>k. v (base + of_nat k)" "[0..<block_count n]"] assms
    by (simp add: card_image_def)
qed

section \<open>Chunks\<close>

text \<open>What \<open>resumebegin\<close> makes sure of: all chunks are whole blocks, and none but the last is short.\<close>

definition geometry :: "nat \<Rightarrow> nat \<Rightarrow> nat \<Rightarrow> bool" where
  "geometry len cs cc \<longleftrightarrow> 0 < len \<and> len \<le> 12288 * 512 \<and> cs mod 512 = 0 \<and> cs \<le> 12288 * 512
     \<and> 0 < cc \<and> cc \<le> 1000 \<and> cs * (cc - 1) < len \<and> len \<le> cs * cc"

definition chunk_len :: "nat \<Rightarrow> nat \<Rightarrow> nat \<Rightarrow> nat \<Rightarrow> nat" where
  "chunk_len len cs cc i = (if Suc i = cc then len - cs * i else cs)"

definition chunk_of :: "u8 list \<Rightarrow> nat \<Rightarrow> nat \<Rightarrow> u8 list" where
  "chunk_of msg cs i = take cs (drop (cs * i) msg)"

lemma chunk_fits:
  assumes "geometry len cs cc" and "i < cc"
  shows "cs * i + chunk_len len cs cc i \<le> len" and "cs * i < len" and "chunk_len len cs cc i \<le> cs"
    and "0 < chunk_len len cs cc i" and "Suc i < cc \<Longrightarrow> chunk_len len cs cc i = cs"
    and "Suc i = cc \<Longrightarrow> cs * i + chunk_len len cs cc i = len" and "cs * i mod 512 = 0"
proof -
  note g = assms(1) [unfolded geometry_def]
  have le: "cs * i \<le> cs * (cc - 1)" using assms(2) by (intro mult_le_mono2) simp
  then show lt: "cs * i < len" using g by linarith
  have next_le: "cs * Suc i \<le> cs * (cc - 1)" if "Suc i < cc" using that by (intro mult_le_mono2) simp
  show "cs * i + chunk_len len cs cc i \<le> len"
  proof (cases "Suc i = cc")
    case False
    then have "Suc i < cc" using assms(2) by simp
    with next_le g show ?thesis by (simp add: chunk_len_def)
  qed (use lt in \<open>simp add: chunk_len_def\<close>)
  have last: "len \<le> cs * i + cs" if "Suc i = cc" using g that by auto
  show "chunk_len len cs cc i \<le> cs"
  proof (cases "Suc i = cc")
    case True
    with last have "len \<le> cs * i + cs" .
    with True show ?thesis by (simp add: chunk_len_def)
  qed (simp add: chunk_len_def)
  have "cs \<noteq> 0" using g by (metis less_le_not_le mult_0 not_less_zero le_zero_eq)
  then show "0 < chunk_len len cs cc i" using lt by (simp add: chunk_len_def)
  show "Suc i < cc \<Longrightarrow> chunk_len len cs cc i = cs" by (simp add: chunk_len_def)
  show "Suc i = cc \<Longrightarrow> cs * i + chunk_len len cs cc i = len" using lt by (simp add: chunk_len_def)
  have "512 dvd cs" using g by (simp add: mod_eq_0_iff_dvd)
  then show "cs * i mod 512 = 0" by (simp add: mod_eq_0_iff_dvd)
qed

lemma chunk_of_props:
  assumes "geometry (length msg) cs cc" and "i < cc"
  shows "length (chunk_of msg cs i) = chunk_len (length msg) cs cc i"
    and "take (cs * i) msg @ chunk_of msg cs i = take (cs * Suc i) msg"
proof -
  note f = chunk_fits [OF assms]
  show "length (chunk_of msg cs i) = chunk_len (length msg) cs cc i"
  proof (cases "Suc i = cc")
    case True
    then show ?thesis using f(3,6) by (simp add: chunk_of_def)
  next
    case False
    then have "Suc i < cc" using assms(2) by simp
    with f(1,5) show ?thesis by (simp add: chunk_of_def)
  qed
  show "take (cs * i) msg @ chunk_of msg cs i = take (cs * Suc i) msg"
    using take_add [of "cs * i" cs msg] by (simp add: chunk_of_def add.commute)
qed

text \<open>The geometry that \<open>resumebegin\<close> computes.\<close>

lemma chunk_size_geometry:
  assumes "0 < len" and "int len \<le> kernelslot_size_bytes" and "0 < cc" and "cc \<le> 1000"
    and "0 < int len - int (chunk_size_for len cc) * (int cc - 1)"
  shows "geometry len (chunk_size_for len cc) cc"
proof -
  let ?raw = "(len + cc - 1) div cc" and ?cs = "chunk_size_for len cc"
  have len: "len \<le> 12288 * 512" using assms(2) by (simp add: kernelslot_size_bytes_def)
  have "len + cc - 1 \<le> len * cc"
    using assms(1,3) by (cases len; cases cc) (simp_all add: algebra_simps)
  then have "?raw \<le> len * cc div cc" by (intro div_le_mono)
  then have raw: "?raw \<le> len" using assms(3) by simp
  have cs: "?cs = (?raw + 511) div 512 * 512" by (simp add: chunk_size_for_def)
  have "(?raw + 511) div 512 \<le> (12288 * 512 + 511) div 512" using raw len by (intro div_le_mono) linarith
  then have max: "?cs \<le> 12288 * 512" by (simp add: cs)
  have "len \<le> ?raw * cc"
  proof -
    have "(len + cc - 1) div cc * cc + (len + cc - 1) mod cc = len + cc - 1" by simp
    moreover have "(len + cc - 1) mod cc < cc" using assms(3) by simp
    ultimately show ?thesis by linarith
  qed
  moreover have "?raw \<le> ?cs"
  proof -
    have "(?raw + 511) div 512 * 512 + (?raw + 511) mod 512 = ?raw + 511" by simp
    moreover have "(?raw + 511) mod 512 < 512" by simp
    ultimately show ?thesis unfolding cs by linarith
  qed
  ultimately have cover: "len \<le> ?cs * cc" by (meson le_trans mult_le_mono1)
  have "int ?cs * (int cc - 1) = int (?cs * (cc - 1))" using assms(3) by (simp add: of_nat_diff)
  then have "?cs * (cc - 1) < len" using assms(5) by linarith
  moreover have "?cs mod 512 = 0" by (simp add: cs)
  ultimately show ?thesis using assms(1,3,4) len max cover by (simp add: geometry_def)
qed

section \<open>Between two chunks\<close>

text \<open>The current progress record describes the upload, and its confirmed chunks are on the card.\<close>

definition progress_for :: "u32 \<Rightarrow> nat \<Rightarrow> nat \<Rightarrow> nat \<Rightarrow> nat \<Rightarrow> KernelUploadChunkProgress \<Rightarrow> bool" where
  "progress_for t len cs cc i r \<longleftrightarrow> p_target_slot r = t \<and> p_total_len r = of_nat len \<and> p_chunk_size r = of_nat cs
     \<and> p_chunk_count r = of_nat cc \<and> p_chunks_confirmed r = of_nat i"

definition resume_at ::
    "(u64 \<Rightarrow> u8 list) \<Rightarrow> u32 \<Rightarrow> u8 list \<Rightarrow> nat \<Rightarrow> nat \<Rightarrow> nat \<Rightarrow> KernelUploadChunkProgress \<Rightarrow> bool \<Rightarrow> bool" where
  "resume_at v t msg cs cc i r sb \<longleftrightarrow>
     progress_store.current (progress_copies v) = Some (r, sb) \<and> progress_for t (length msg) cs cc i r
     \<and> card_image v (slot_base_block t) (min (cs * i) (length msg)) = take (cs * i) msg"

lemma resume_select:
  assumes "resume_at v t msg cs cc i r sb" and "geometry (length msg) cs cc"
  shows "progress_select v = r\<lparr>p_chosen_block := progress_block sb, p_valid := 1\<rparr>"
proof -
  have "p_chunk_count r \<noteq> 0"
    using assms by (auto simp: resume_at_def progress_for_def geometry_def simp flip: unat_eq_zero) (simp add: unat_of_nat)
  then show ?thesis using progress_select_current(1) [of v r sb] assms(1) by (simp add: resume_at_def)
qed

lemma expected_len:
  assumes "progress_for t len cs cc i r" and "geometry len cs cc" and "i < cc"
  shows "expected_chunk_len r (int i) = Some (int (chunk_len len cs cc i))"
    and "mul_i64 (int i) (uint (p_chunk_size r)) = Some (int (cs * i))"
proof -
  note g = assms(2) [unfolded geometry_def]
  have u: "uint (p_chunk_size r) = int cs" "uint (p_total_len r) = int len" "uint (p_chunk_count r) = int cc"
    using assms(1) g by (simp_all add: progress_for_def uint_nat unat_of_nat)
  have "cs * i < 2 ^ 63" using chunk_fits(2) [OF assms(2,3)] g by simp
  then have small: "int cs * int i < 2 ^ 63" by (simp flip: of_nat_mult)
  have "- (2 ^ 63 :: int) \<le> 0" by simp
  also have "\<dots> \<le> int cs * int i" by simp
  finally have low: "- (2 ^ 63) \<le> int cs * int i" .
  from small low have mul: "mul_i64 (int cs) (int i) = Some (int (cs * i))" by (simp add: mul_i64_def)
  then show "mul_i64 (int i) (uint (p_chunk_size r)) = Some (int (cs * i))"
    using small low by (simp add: u mul_i64_def mult.commute)
  have "int i + 1 = int cc \<longleftrightarrow> Suc i = cc" by linarith
  then show "expected_chunk_len r (int i) = Some (int (chunk_len len cs cc i))"
    using mul chunk_fits(2) [OF assms(2,3)] by (simp add: expected_chunk_len_def u chunk_len_def of_nat_diff)
qed

end
