(* ===== verification/Resume_Chunk.thy ===== *)
theory Resume_Chunk
  imports Resume_Proofs
begin

text \<open>
  One chunk of a resumable upload: \<open>resumechunk\<close> opens its place in the slot, the bytes come in, and
  \<open>resumeverify\<close> counts it.
\<close>

section \<open>Command lines\<close>

definition chunk_line :: "nat \<Rightarrow> nat \<Rightarrow> u8 list" where
  "chunk_line i n = ascii ''kernelupload resumechunk '' @ ascii (dec_string i) @ [32] @ ascii (dec_string n)"

definition verify_line :: "nat \<Rightarrow> u8 list \<Rightarrow> u8 list" where
  "verify_line i digest = ascii ''kernelupload resumeverify '' @ ascii (dec_string i) @ [32] @ hex_text digest"

lemma two_words:
  assumes line: "line = pre @ ascii (dec_string i) @ [32] @ w" and p: "length pre = p" and w: "32 \<notin> set w"
    and i: "i < 10 ^ 10"
  shows "shell_find_space line p (length line) = p + length (dec_string i)"
    and "p + length (dec_string i) < length line"
    and "shell_parse_decimal line p (p + length (dec_string i)) = int i"
    and "shell_find_space line (Suc (p + length (dec_string i))) (length line) = Suc (p + length (dec_string i)) + length w"
    and "length (pre @ ascii (dec_string i) @ [32]) = Suc (p + length (dec_string i))"
proof -
  have l1: "line = pre @ ascii (dec_string i) @ (32 # w)" by (simp add: line)
  have l2: "line = (pre @ ascii (dec_string i) @ [32]) @ w @ []" by (simp add: line)
  show p2: "length (pre @ ascii (dec_string i) @ [32]) = Suc (p + length (dec_string i))" using p by simp
  show "shell_find_space line p (length line) = p + length (dec_string i)"
    using find_space_stops [OF l1 decimal_no_space] by (simp add: p)
  show "p + length (dec_string i) < length line" using p by (simp add: line)
  show "shell_parse_decimal line p (p + length (dec_string i)) = int i"
    using parse_decimal_text [OF l1 i] by (simp add: p)
  show "shell_find_space line (Suc (p + length (dec_string i))) (length line) = Suc (p + length (dec_string i)) + length w"
    using find_space_stops [OF l2 w] by (simp only: p2) simp
qed

lemma chunk_line_words:
  fixes i n
  defines "line \<equiv> chunk_line i n" and "e \<equiv> 25 + length (dec_string i)"
  assumes "i < 10 ^ 10" and "n < 10 ^ 10"
  shows "shell_find_space line 25 (length line) = e" and "e < length line" and "24 < length line"
    and "shell_parse_decimal line 25 e = int i"
    and "shell_find_space line (Suc e) (length line) = Suc e + length (dec_string n)"
    and "shell_parse_decimal line (Suc e) (Suc e + length (dec_string n)) = int n"
proof -
  have line: "line = ascii ''kernelupload resumechunk '' @ ascii (dec_string i) @ [32] @ ascii (dec_string n)"
    by (simp add: line_def chunk_line_def)
  have pre: "length (ascii ''kernelupload resumechunk '') = 25" by simp
  note w = two_words [OF line pre decimal_no_space assms(3)]
  show "shell_find_space line 25 (length line) = e" "e < length line" "24 < length line"
    "shell_parse_decimal line 25 e = int i"
    "shell_find_space line (Suc e) (length line) = Suc e + length (dec_string n)"
    using w by (simp_all add: e_def)
  have line2: "line = (ascii ''kernelupload resumechunk '' @ ascii (dec_string i) @ [32]) @ ascii (dec_string n) @ []"
    by (simp add: line)
  show "shell_parse_decimal line (Suc e) (Suc e + length (dec_string n)) = int n"
    using parse_decimal_text [OF line2 assms(4)] by (simp only: w(5) e_def)
qed

lemma verify_line_words:
  fixes i digest
  defines "line \<equiv> verify_line i digest" and "e \<equiv> 26 + length (dec_string i)"
  assumes "i < 10 ^ 10" and "length digest = 32" and "length buf = 48"
  shows "shell_find_space line 26 (length line) = e" and "e < length line" and "25 < length line"
    and "shell_parse_decimal line 26 e = int i"
    and "shell_find_space line (Suc e) (length line) = Suc e + 64"
    and "shell_parse_hex_bytes line (Suc e) (Suc e + 64) buf 32 = (0, digest @ drop 32 buf)"
proof -
  have line: "line = ascii ''kernelupload resumeverify '' @ ascii (dec_string i) @ [32] @ hex_text digest"
    by (simp add: line_def verify_line_def)
  have pre: "length (ascii ''kernelupload resumeverify '') = 26" by simp
  note w = two_words [OF line pre hex_no_space assms(3)]
  show "shell_find_space line 26 (length line) = e" "e < length line" "25 < length line"
    "shell_parse_decimal line 26 e = int i" "shell_find_space line (Suc e) (length line) = Suc e + 64"
    using w by (simp_all add: e_def assms(4))
  have line2: "line = (ascii ''kernelupload resumeverify '' @ ascii (dec_string i) @ [32]) @ hex_text digest @ []"
    by (simp add: line)
  show "shell_parse_hex_bytes line (Suc e) (Suc e + 64) buf 32 = (0, digest @ drop 32 buf)"
    using parse_hex_text [OF line2, of buf] assms(4,5) by (simp only: w(5) e_def length_hex_text) simp
qed

section \<open>Opening a chunk\<close>

definition chunk_base :: "u32 \<Rightarrow> nat \<Rightarrow> nat \<Rightarrow> u64" where
  "chunk_base t cs i = slot_base_block t + of_nat (cs * i div 512)"

lemma resume_prog:
  assumes "resume_at v t msg cs cc i r sb" and "geometry (length msg) cs cc" and "i < cc"
  shows "p_valid (progress_select v) = 1" and "\<not> p_chunks_confirmed (progress_select v) \<ge> p_chunk_count (progress_select v)"
    and "uint (p_chunks_confirmed (progress_select v)) = int i" and "p_target_slot (progress_select v) = t"
    and "uint (p_chunk_count (progress_select v)) = int cc"
    and "progress_for t (length msg) cs cc i (progress_select v)"
proof -
  note s = resume_select [OF assms(1,2)]
  have f: "progress_for t (length msg) cs cc i r" using assms(1) by (simp add: resume_at_def)
  then show "progress_for t (length msg) cs cc i (progress_select v)" by (simp add: s progress_for_def)
  have "cc \<le> 1000" using assms(2) by (simp add: geometry_def)
  then have u: "uint (of_nat i :: u32) = int i" "uint (of_nat cc :: u32) = int cc"
    using assms(3) by (simp_all add: uint_nat unat_of_nat)
  show "p_valid (progress_select v) = 1" "uint (p_chunks_confirmed (progress_select v)) = int i"
    "p_target_slot (progress_select v) = t" "uint (p_chunk_count (progress_select v)) = int cc"
    "\<not> p_chunks_confirmed (progress_select v) \<ge> p_chunk_count (progress_select v)"
    using f u assms(3) by (simp_all add: s progress_for_def word_le_def)
qed

definition chunk_opened :: "('d \<Rightarrow> u64 \<Rightarrow> u8 list) \<Rightarrow> u32 \<Rightarrow> nat \<Rightarrow> nat \<Rightarrow> 'd upload \<Rightarrow> 'd upload \<Rightarrow> bool" where
  "chunk_opened view t cs i st st' \<longleftrightarrow> view (sd st') = view (sd st) \<and> up_wf st' \<and> upload_holds view [] st'
     \<and> upload_base st' = chunk_base t cs i \<and> up_active st' = 1 \<and> up_target_slot st' = t"

lemma resumechunk_opens:
  assumes sound: "sd_sound dev view" and reads: "sd_reads_all dev" and wf: "up_wf st"
    and at: "resume_at (view (sd st)) t msg cs cc i r sb" and geo: "geometry (length msg) cs cc" and i: "i < cc"
  defines "n \<equiv> chunk_len (length msg) cs cc i"
  shows "\<exists>st'. kernelupload_resumechunk dev (chunk_line i n) 24 (length (chunk_line i n)) st = Some st'
    \<and> chunk_opened view t cs i st st' \<and> printed st' = printed st @ [Str ''GO '', Num (int n), Str ''\<newline>'']"
proof -
  obtain prog sa where get: "progress_get dev st = (prog, sa)" by fastforce
  note g = progress_get_all [OF sound reads wf get]
  obtain buf d where sa: "sa = st\<lparr>up_chunk_record_buf := buf, sd := d\<rparr>" "length buf = 512" using g(3) by blast
  note p = resume_prog [OF at geo i, folded g(1)]
  have small: "i < 10 ^ 10" "n < 10 ^ 10" "cs * i < 2 ^ 32"
    using i geo chunk_fits(2,3) [OF geo i] by (simp_all add: n_def geometry_def)
  note words = chunk_line_words [OF small(1,2)]
  note ex = expected_len [OF p(6) geo i, folded n_def]
  let ?st = "sa\<lparr>up_chunk_base_block_offset := word_of_int (int (cs * i) div 512), up_target_slot := t, up_total_len := 0\<rparr>"
  have run: "kernelupload_resumechunk dev (chunk_line i n) 24 (length (chunk_line i n)) st
      = Some (say [Str ''GO '', Num (int n), Str ''\<newline>''] (stream_reset dev (word_of_int (int n)) ?st))"
    using words get p ex by (simp add: kernelupload_resumechunk_def Let_def)
  have "up_wf ?st" "up_total_len ?st = 0" using wf sa by (simp_all add: up_wf_def)
  note reset = reset_opens [OF sound this, of "word_of_int (int n)"]
  have "(word_of_int (int (cs * i) div 512) :: u32) = of_nat (cs * i div 512)"
    using zdiv_int [of "cs * i" 512] by (simp only: of_nat_numeral) (metis of_int_of_nat_eq)
  moreover have "cs * i div 512 < 2 ^ 32" using small(3) by (meson div_le_dividend le_less_trans)
  ultimately have off: "ucast (word_of_int (int (cs * i) div 512) :: u32) = (of_nat (cs * i div 512) :: u64)"
    by (simp add: word_unat_eq_iff unat_of_nat unsigned_ucast_eq take_bit_nat_eq_self)
  have "chunk_opened view t cs i st (say [Str ''GO '', Num (int n), Str ''\<newline>''] (stream_reset dev (word_of_int (int n)) ?st))"
    using reset g(2) off by (simp add: chunk_opened_def upload_base_def chunk_base_def)
  moreover have "printed ?st = printed st" using sa by simp
  ultimately show ?thesis using run reset(7) by simp
qed

end
