(* ===== verification/Resume_Verify.thy ===== *)
theory Resume_Verify
  imports Resume_Chunk
begin

text \<open>
  \<open>resumeverify\<close> on a driver whose reads and writes may fail: the progress record counts a chunk
  only where the card holds what the line's digest says.
\<close>

section \<open>The blocks of a range\<close>

lemma card_block_apart:
  assumes "x \<in> state_blocks \<union> progress_blocks" and "k < 2 ^ 60"
  shows "x \<noteq> slot_base_block t + of_nat k"
proof
  assume eq: "x = slot_base_block t + of_nat k"
  have base: "unat (slot_base_block t) = 10240 \<or> unat (slot_base_block t) = 22528"
    by (simp add: slot_base_block_def kernelslot_a_base_block_def kernelslot_b_base_block_def)
  have "unat (of_nat k :: u64) = k" using assms(2) by (simp add: unat_of_nat)
  then have "10240 \<le> unat (slot_base_block t + of_nat k)" using base assms(2) by (auto simp: unat_word_ariths)
  moreover have "unat x < 10240"
    using assms(1) by (auto simp: state_blocks_def progress_blocks_def kernelslot_state_block_a_def
        kernelslot_state_block_b_def kernelupload_chunk_state_block_a_def kernelupload_chunk_state_block_b_def)
  ultimately show False by (simp add: eq)
qed

text \<open>The range of a chunk, as the record's 32-bit fields give it.\<close>

definition range_base :: "KernelUploadChunkProgress \<Rightarrow> u64" where
  "range_base p = slot_base_block (p_target_slot p)
     + of_nat (unat (p_chunks_confirmed p) * unat (p_chunk_size p) div 512)"

lemma range_apart:
  assumes "x \<in> state_blocks \<union> progress_blocks" and "k < 2 ^ 32"
  shows "x \<noteq> range_base p + of_nat k"
proof -
  let ?a = "unat (p_chunks_confirmed p) * unat (p_chunk_size p)"
  have "?a \<le> (2 ^ 32 - 1) * (2 ^ 32 - 1)"
    using unsigned_less [of "p_chunks_confirmed p", where 'a = nat] unsigned_less [of "p_chunk_size p", where 'a = nat]
    by (intro mult_le_mono) simp_all
  then have "?a div 512 \<le> (2 ^ 32 - 1) * (2 ^ 32 - 1) div 512" by (rule div_le_mono)
  then have "?a div 512 + k < 2 ^ 60" using assms(2) by simp
  from card_block_apart [OF assms(1) this, of "p_target_slot p"] show ?thesis by (simp add: range_base_def add.assoc)
qed

section \<open>Reading the record\<close>

lemma progress_get_view:
  assumes sound: "sd_sound dev view" and wf: "up_wf st" and run: "progress_get dev st = (p, st')"
  shows "view (sd st') = view (sd st)"
    and "\<exists>buf d. st' = st\<lparr>up_chunk_record_buf := buf, sd := d\<rparr> \<and> length buf = 512"
    and "p_valid p = 1 \<Longrightarrow> p_chosen_block p \<in> progress_blocks
      \<and> progress_dec (view (sd st) (p_chosen_block p)) = Some (p\<lparr>p_chosen_block := 0\<rparr>)"
proof -
  obtain buf d where look: "kernelupload_chunk_progress_lookup (io_read dev) (up_chunk_record_buf st, sd st) = (p, buf, d)"
    and st': "st' = st\<lparr>up_chunk_record_buf := buf, sd := d\<rparr>"
    using run by (auto simp: progress_get_def split: prod.splits)
  have len: "length (up_chunk_record_buf st) = 512" using wf by (simp add: up_wf_def)
  note l = progress_lookup_view [OF sound look]
  show "view (sd st') = view (sd st)" using l(1) st' by simp
  show "\<exists>buf d. st' = st\<lparr>up_chunk_record_buf := buf, sd := d\<rparr> \<and> length buf = 512" using l(2) len st' by auto
  obtain sa ba d1 where a: "io_read dev kernelupload_chunk_state_block_a (up_chunk_record_buf st) (sd st) = (sa, ba, d1)"
    by (metis prod_cases3)
  obtain sb bb d2 where b: "io_read dev kernelupload_chunk_state_block_b ba d1 = (sb, bb, d2)" by (metis prod_cases3)
  note ra = sd_sound_read [OF sound a] and rb = sd_sound_read [OF sound b]
  have va: "sa = 0 \<Longrightarrow> ba = view (sd st) kernelupload_chunk_state_block_a"
    and vb: "sb = 0 \<Longrightarrow> bb = view (sd st) kernelupload_chunk_state_block_b" using ra rb len by simp_all
  have parse: "kernelupload_chunk_progress_parse raw blk\<lparr>p_chosen_block := 0\<rparr> = kernelupload_chunk_progress_parse raw 0"
      "p_chosen_block (kernelupload_chunk_progress_parse raw blk) = blk" for raw blk
    by (simp_all add: kernelupload_chunk_progress_parse_def)
  show "p_chosen_block p \<in> progress_blocks
      \<and> progress_dec (view (sd st) (p_chosen_block p)) = Some (p\<lparr>p_chosen_block := 0\<rparr>)" if "p_valid p = 1"
    using look a b that va vb
    by (cases "sa = 0 \<and> kernelupload_chunk_progress_crc_valid ba"; cases "sb = 0 \<and> kernelupload_chunk_progress_crc_valid bb")
      (auto simp: kernelupload_chunk_progress_lookup_def Let_def progress_blocks_def progress_dec_def parse split: if_splits)
qed

section \<open>Verifying\<close>

lemma verify_range:
  assumes sound: "sd_sound dev view" and wf: "up_wf st" and want: "32 \<le> length want"
    and run: "kernelupload_chunk_verify_range dev base len want st = (s, st')"
  shows "view (sd st') = view (sd st)" and "printed st' = printed st"
    and "up_chunk_record_buf st' = up_chunk_record_buf st" and "up_wf st'"
    and "s = 0 \<Longrightarrow> sha256_digest (card_image (view (sd st)) base len) = take 32 want"
    and "sd_reads_all dev \<Longrightarrow> sha256_digest (card_image (view (sd st)) base len) = take 32 want \<Longrightarrow> s = 0"
proof -
  let ?img = "card_image (view (sd st)) base len"
  obtain r sa where rb: "readback_loop dev base (block_count len) (len mod 512) [0..<block_count len]
      kernel_sha256_init st = (r, sa)" by fastforce
  note k = readback_keeps [OF sound rb]
  note f = touchedD [OF k(2)]
  have wfa: "up_wf sa" using wf k(3) f by (simp add: up_wf_def)
  have digest: "kernel_sha256_finalize ctx = sha256_digest ?img" if "r = Some ctx" for ctx
  proof -
    have "len mod 512 < 512" "length (up_block_buf st) = 512" using wf by (simp_all add: up_wf_def)
    from readback_spec [OF sound this(1) rb [unfolded that] ctx_absorbed_init this(2)]
    have "ctx_absorbed ctx ?img"
      using image_pieces [of len "\<lambda>k. view (sd st) (base + of_nat k)"] sd_soundD(1) [OF sound]
      by (cases "len = 0") (simp_all add: card_image_def block_count_def)
    then show ?thesis by (rule ctx_absorbed_finalize)
  qed
  have res: "st' = (case r of None \<Rightarrow> sa | Some ctx \<Rightarrow> put_digest (kernel_sha256_finalize ctx) sa)"
    "s = (case r of None \<Rightarrow> - 1 | Some ctx \<Rightarrow> if sha256_digest ?img = take 32 want then 0 else 1)"
    using run rb digest equal_digest [of "sha256_digest ?img" sa want] wfa want
    by (auto simp: kernelupload_chunk_verify_range_def Let_def length_sha256_digest up_wf_def split: option.splits if_splits)
  moreover have "up_wf (put_digest x sa)" for x using wfa wf_sizes [of "put_digest x sa" sa] by simp
  ultimately show "view (sd st') = view (sd st)" "printed st' = printed st"
    "up_chunk_record_buf st' = up_chunk_record_buf st" "up_wf st'"
    using k(1) f wfa by (auto split: option.splits)
  show "s = 0 \<Longrightarrow> sha256_digest ?img = take 32 want" using res(2) by (auto split: option.splits if_splits)
  show "sd_reads_all dev \<Longrightarrow> sha256_digest ?img = take 32 want \<Longrightarrow> s = 0"
  proof -
    assume "sd_reads_all dev" and eq: "sha256_digest ?img = take 32 want"
    then obtain c where "r = Some c" using rb readback_total by (metis Pair_inject)
    then show "s = 0" using res(2) eq by simp
  qed
qed

lemma write_tail_view:
  assumes sound: "sd_sound dev view" and wf: "up_wf st" and run: "write_tail dev base len st = (s, st')"
  shows "x \<noteq> base + of_nat (len div 512) \<Longrightarrow> view (sd st') x = view (sd st) x" and "printed st' = printed st"
    and "up_decode_buf st' = up_decode_buf st" and "up_chunk_record_buf st' = up_chunk_record_buf st" and "up_wf st'"
proof -
  let ?buf = "fold (\<lambda>i buf. kbuf_write_byte buf i 0) [len mod 512..<512] (up_block_buf st)"
  obtain d where w: "io_write dev (base + of_nat (len div 512)) ?buf (sd st) = (s, d)"
      and st': "st' = st\<lparr>up_block_buf := ?buf, sd := d\<rparr>"
    using run by (auto simp: write_tail_def Let_def split: prod.splits)
  show "x \<noteq> base + of_nat (len div 512) \<Longrightarrow> view (sd st') x = view (sd st) x"
    using sd_sound_write(1) [OF sound w] st' by simp
  show "printed st' = printed st" "up_decode_buf st' = up_decode_buf st"
    "up_chunk_record_buf st' = up_chunk_record_buf st" "up_wf st'" using st' wf by (simp_all add: up_wf_def)
qed

section \<open>Counting\<close>

lemma stitch_view:
  assumes sound: "sd_sound dev view"
  shows "view (sd (stitch dev p i st)) = view (sd st)"
proof -
  obtain r sa where rb: "readback_loop dev (slot_base_block (p_target_slot p)) (unat (p_total_len p) div 512) 0
      [0..<unat (p_total_len p) div 512] kernel_sha256_init st = (r, sa)" by fastforce
  show ?thesis
    using readback_keeps(1) [OF sound rb] sd_sound_read(1) [OF sound]
    by (auto simp: stitch_def rb Let_def split: option.split prod.split)
qed

definition counted :: "KernelUploadChunkProgress \<Rightarrow> KernelUploadChunkProgress" where
  "counted p = p\<lparr>p_generation := p_generation p + 1, p_chunks_confirmed := p_chunks_confirmed p + 1\<rparr>"

lemma progress_wire_chosen [simp]: "progress_wire (counted (p\<lparr>p_chosen_block := b\<rparr>)) = progress_wire (counted p)"
proof -
  have "counted (p\<lparr>p_chosen_block := b\<rparr>) = counted p\<lparr>p_chosen_block := b\<rparr>" by (simp add: counted_def)
  then show ?thesis by simp
qed

lemma advance_view:
  assumes sound: "sd_sound dev view" and wf: "up_wf st" and sha: "length (p_final_sha256 p) = 32"
    and run: "advance_progress dev p i st = Some st'"
  defines "b \<equiv> kernelupload_chunk_progress_stale_block p"
  shows "x \<noteq> b \<Longrightarrow> view (sd st') x = view (sd st) x"
    and "view (sd st') b = progress_wire (counted p) \<or> printed st' = printed st @ not_persisted ''resumeverify''"
proof -
  let ?q = "p\<lparr>p_valid := 1, p_chosen_block := b, p_generation := p_generation p + 1,
    p_chunks_confirmed := p_chunks_confirmed p + 1\<rparr>"
  have wire: "progress_wire ?q = progress_wire (counted p)"
  proof -
    have "?q = counted p\<lparr>p_valid := 1, p_chosen_block := b\<rparr>" by (simp add: counted_def)
    then show ?thesis by simp
  qed
  have "length (up_chunk_record_buf st) = 512" using wf by (simp add: up_wf_def)
  moreover have "length (p_final_sha256 ?q) = 32" using sha by simp
  ultimately have build: "kernelupload_chunk_progress_build ?q (up_chunk_record_buf st) = progress_wire (counted p)"
    using progress_build_wire wire by metis
  obtain s d where w: "io_write dev b (progress_wire (counted p)) (sd st) = (s, d)" by fastforce
  let ?st = "st\<lparr>up_chunk_record_buf := progress_wire (counted p), sd := d\<rparr>"
  have put: "progress_put dev ?q st = (s, ?st)"
    using w build by (simp add: progress_put_def kernelupload_chunk_progress_write_def)
  note wr = sd_sound_write [OF sound w]
  have st': "st' = (if s \<noteq> 0 then say (not_persisted ''resumeverify'') ?st
      else if p_chunks_confirmed ?q = p_chunk_count ?q then stitch dev ?q i ?st
      else say [Str ''CHUNKOK '', Num i, Str ''\<newline>''] ?st)"
    using run put by (auto simp: advance_progress_def inc_u32_def b_def bind_eq_Some_conv Let_def split: if_splits)
  have view: "view (sd st') = view d" unfolding st' by (simp add: stitch_view [OF sound])
  show "x \<noteq> b \<Longrightarrow> view (sd st') x = view (sd st) x" using wr(1) by (simp add: view)
  have "length (progress_wire (counted p)) = 512" using sha by (simp add: length_progress_wire counted_def)
  then show "view (sd st') b = progress_wire (counted p) \<or> printed st' = printed st @ not_persisted ''resumeverify''"
    using wr(2) view st' by (cases "s = 0") simp_all
qed

section \<open>The whole command\<close>

lemma counts_view:
  assumes sound: "sd_sound dev view" and wf: "up_wf st" and valid: "length (p_final_sha256 p) = 32"
    and b: "kernelupload_chunk_progress_stale_block p \<in> progress_blocks"
    and i: "i = uint (p_chunks_confirmed p)"
    and run: "resumeverify_checked dev p i st = Some st'"
    and x: "x \<in> progress_blocks" and changed: "view (sd st') x \<noteq> view (sd st) x"
  shows "x = kernelupload_chunk_progress_stale_block p" and "expected_chunk_len p i = Some (uint (up_total_len st))"
    and "sha256_digest (card_image (view (sd st')) (range_base p) (unat (up_total_len st))) = take 32 (up_decode_buf st)"
    and "view (sd st') x = progress_wire (counted p) \<or> last (printed st') = last (not_persisted ''resumeverify'')"
proof -
  let ?len = "unat (up_total_len st)" and ?b = "kernelupload_chunk_progress_stale_block p"
  let ?i = "unat (p_chunks_confirmed p)"
  have len: "uint (up_total_len st) = int ?len" "nat (uint (up_total_len st)) = ?len" by simp_all
  have lim: "?len < 2 ^ 32" using unsigned_less [of "up_total_len st", where 'a = nat] by simp
  have base: "slot_base_block (p_target_slot p) + word_of_int (i * uint (p_chunk_size p) div 512) = range_base p"
  proof -
    have "i * uint (p_chunk_size p) div 512 = int (?i * unat (p_chunk_size p) div 512)"
      using zdiv_int [of "?i * unat (p_chunk_size p)" 512] by (simp add: i)
    then show ?thesis by (simp only: range_base_def of_int_of_nat_eq)
  qed
  let ?st = "st\<lparr>up_active := 0\<rparr>"
  let ?tail = "if i + 1 = uint (p_chunk_count p) \<and> ?len mod 512 \<noteq> 0 then write_tail dev (range_base p) ?len ?st else (0, ?st)"
  obtain ts sa where tail: "?tail = (ts, sa)" by fastforce
  have wf1: "up_wf ?st" using wf by (simp add: up_wf_def)
  have sa: "y \<noteq> range_base p + of_nat (?len div 512) \<Longrightarrow> view (sd sa) y = view (sd st) y"
    "up_decode_buf sa = up_decode_buf st" "up_wf sa" for y
    using tail write_tail_view [OF sound wf1, of "range_base p" ?len ts sa] wf1 by (auto split: if_splits)
  have away: "y \<noteq> range_base p + of_nat k" if "y \<in> progress_blocks" "k < 2 ^ 32" for y k
    using range_apart [of y k p] that by simp
  have "?len div 512 < 2 ^ 32" using lim by (meson div_le_dividend le_less_trans)
  then have prog: "view (sd sa) y = view (sd st) y" if "y \<in> progress_blocks" for y
    using sa(1) away [OF that] by blast
  have enter: "\<exists>before. mul_i64 i (uint (p_chunk_size p)) = Some before" if "expected_chunk_len p i = Some (uint (up_total_len st))"
    using run that by (auto simp: resumeverify_checked_def Let_def bind_eq_Some_conv)
  have "expected_chunk_len p i = Some (uint (up_total_len st))"
  proof (rule ccontr)
    assume "expected_chunk_len p i \<noteq> Some (uint (up_total_len st))"
    then have "view (sd st') = view (sd st)"
      using run by (auto simp: resumeverify_checked_def Let_def bind_eq_Some_conv split: if_splits)
    with changed show False by simp
  qed
  then show ex: "expected_chunk_len p i = Some (uint (up_total_len st))" .
  from enter [OF ex] have mul: "mul_i64 i (uint (p_chunk_size p)) = Some (i * uint (p_chunk_size p))"
    by (auto simp: mul_i64_def split: if_splits)
  have st': "(if ts \<noteq> 0 then Some (say (chunk_failed i '' (final-block SD write failed -- resend this same chunk)\<newline>'') sa)
      else verify_chunk dev p i (range_base p) ?len sa) = Some st'"
  proof -
    have "int ?len mod 512 = int (?len mod 512)" by (simp add: zmod_int)
    then have part: "uint (up_total_len st) mod 512 \<noteq> 0 \<longleftrightarrow> ?len mod 512 \<noteq> 0" unfolding len(1) by simp
    show ?thesis using run tail unfolding resumeverify_checked_def ex Let_def
      by (simp add: mul base part cong: if_cong prod.case_cong)
  qed
  obtain vs sb where ver: "kernelupload_chunk_verify_range dev (range_base p) ?len (up_decode_buf sa) sa = (vs, sb)"
    by fastforce
  have want: "32 \<le> length (up_decode_buf sa)" using sa(3) by (simp add: up_wf_def)
  note v = verify_range [OF sound sa(3) want ver]
  have same: "view (sd sb) x = view (sd st) x" using v(1) prog [OF x] by simp
  have vs: "ts = 0 \<and> vs = 0"
    using st' ver changed same v(1) by (auto simp: verify_chunk_def split: if_splits)
  then have adv: "advance_progress dev p i sb = Some st'" using st' ver by (simp add: verify_chunk_def)
  note a = advance_view [OF sound v(4) valid adv]
  show xb: "x = ?b" using a(1) [of x] changed same by auto
  have "card_image (view (sd st')) (range_base p) ?len = card_image (view (sd sa)) (range_base p) ?len"
  proof (rule card_image_cong_blocks)
    fix k assume "k < block_count ?len"
    then have "k < 2 ^ 32" using lim by (simp add: block_count_def)
    then show "view (sd st') (range_base p + of_nat k) = view (sd sa) (range_base p + of_nat k)"
      using a(1) away [OF b] v(1) by metis
  qed
  then show "sha256_digest (card_image (view (sd st')) (range_base p) ?len) = take 32 (up_decode_buf st)"
    using v(5) vs sa(2) by simp
  show "view (sd st') x = progress_wire (counted p) \<or> last (printed st') = last (not_persisted ''resumeverify'')"
    using a(2) by (auto simp: xb not_persisted_def)
qed

lemma progress_stale:
  assumes "p_chosen_block p \<in> progress_blocks"
  shows "kernelupload_chunk_progress_stale_block p \<in> progress_blocks"
    and "kernelupload_chunk_progress_stale_block p \<noteq> p_chosen_block p"
  using assms by (auto simp: kernelupload_chunk_progress_stale_block_def progress_blocks_def
      kernelupload_chunk_state_block_a_def kernelupload_chunk_state_block_b_def)

lemma resume_counts:
  assumes sound: "sd_sound dev view" and wf: "up_wf st"
    and run: "kernelupload_resumeverify dev line sub_end n st = Some st'"
    and x: "x \<in> progress_blocks" and changed: "view (sd st') x \<noteq> view (sd st) x"
  shows "\<exists>y p len. y \<in> progress_blocks \<and> y \<noteq> x \<and> progress_dec (view (sd st) y) = Some p
    \<and> p_chunks_confirmed p < p_chunk_count p
    \<and> len = unat (up_total_len st) \<and> expected_chunk_len p (uint (p_chunks_confirmed p)) = Some (int len)
    \<and> sha256_digest (card_image (view (sd st')) (range_base p) len) = line_digest line sub_end n
    \<and> (view (sd st') x = progress_wire (counted p) \<or> last (printed st') = last (not_persisted ''resumeverify''))"
proof -
  obtain p sa where get: "progress_get dev st = (p, sa)" by fastforce
  note g = progress_get_view [OF sound wf get]
  let ?i = "uint (p_chunks_confirmed p)"
  let ?s = "sha_word line sub_end n" and ?e = "shell_find_space line (sub_end + 1) n"
  obtain hs buf where hex: "shell_parse_hex_bytes line ?s (shell_find_space line ?s n) (up_decode_buf sa) 32 = (hs, buf)"
    by fastforce
  let ?sb = "sa\<lparr>up_decode_buf := buf\<rparr>"
  obtain cbuf d where sa: "sa = st\<lparr>up_chunk_record_buf := cbuf, sd := d\<rparr>" "length cbuf = 512" using g(2) by blast
  have wfa: "up_wf sa" using wf sa by (simp add: up_wf_def)
  have keep: "view (sd (say os st)) = view (sd st)" "view (sd (say os sa)) = view (sd st)"
    "view (sd (say os ?sb)) = view (sd st)" for os using g(1) by simp_all
  have go: "p_valid p = 1 \<and> p_chunks_confirmed p < p_chunk_count p \<and> hs = 0 \<and> resumeverify_checked dev p ?i ?sb = Some st'"
    using run get hex changed keep unfolding kernelupload_resumeverify_def Let_def sha_word_def
    by (auto split: if_splits)
  note c = claimed_digest [OF wfa, of line sub_end n "shell_find_space line ?s n" buf]
  have hex0: "shell_parse_hex_bytes line ?s (shell_find_space line ?s n) (up_decode_buf sa) 32 = (0, buf)"
    using hex go by simp
  note c = claimed_digest [OF wfa hex0]
  have g3: "p_chosen_block p \<in> progress_blocks" "progress_dec (view (sd st) (p_chosen_block p)) = Some (p\<lparr>p_chosen_block := 0\<rparr>)"
    using g(3) go by simp_all
  note st = progress_stale [OF g3(1)]
  have sha: "length (p_final_sha256 p) = 32" using progress_dec_ok [OF g3(2)] by (simp add: progress_ok_def)
  have ch: "view (sd st') x \<noteq> view (sd ?sb) x" using changed g(1) by simp
  have run': "resumeverify_checked dev p ?i ?sb = Some st'" using go by simp
  note v = counts_view [OF sound c(2) sha st(1) refl run' x ch]
  have tot: "up_total_len ?sb = up_total_len st" using sa by simp
  show ?thesis
    using g3 st(2) v go c(1) tot
    by (intro exI [of _ "p_chosen_block p"] exI [of _ "p\<lparr>p_chosen_block := 0\<rparr>"] exI [of _ "unat (up_total_len st)"])
      (auto simp: range_base_def expected_chunk_len_def)
qed

end
