(* ===== verification/Resume_Round.thy ===== *)
theory Resume_Round
  imports Resume_Verify
begin

text \<open>
  On a working card and clock every round of a resumable upload counts its chunk, and the last one
  leaves the image ready for \<open>commit\<close>.
\<close>

section \<open>Images on the card\<close>

lemma concat_block_at:
  assumes "\<forall>k. length (f k) = (512 :: nat)" and "k < n"
  shows "take 512 (drop (k * 512) (concat (map f [0..<n]))) = f k"
proof -
  have split: "[0..<n] = [0..<k] @ k # [Suc k..<n]" 
    using upt_add_eq_append [of 0 k "n - k"] assms(2) by (simp add: upt_conv_Cons)
  have "length (concat (map f [0..<k])) = k * 512" using concat_blocks_length [OF assms(1), of "[0..<k]"] by simp
  then show ?thesis using assms(1) unfolding split by simp
qed

lemma card_image_blocks:
  assumes len: "\<forall>b. length (v b) = 512" and img: "card_image v base (length msg) = msg"
  shows "blocks_on v base msg" and "concat (map (\<lambda>k. v (base + of_nat k)) [0..<length msg div 512]) = full_part msg"
    and "take (length msg mod 512) (v (base + of_nat (length msg div 512))) = drop (length msg div 512 * 512) msg"
proof -
  let ?q = "length msg div 512" and ?p = "length msg mod 512"
  let ?f = "\<lambda>k. v (base + of_nat k)" and ?n = "block_count (length msg)"
  let ?c = "concat (map ?f [0..<?n])"
  have f: "\<forall>k. length (?f k) = 512" using len by simp
  have c: "msg = take (length msg) ?c" using img by (simp add: card_image_def)
  have n: "?q \<le> ?n" "?p \<noteq> 0 \<Longrightarrow> ?q < ?n"
  proof -
    show "?q \<le> ?n" unfolding block_count_def by (rule div_le_mono) simp
    assume "?p \<noteq> 0"
    then have "1 \<le> ?p" by simp
    moreover have "?q * 512 + ?p = length msg" by simp
    ultimately have "(?q + 1) * 512 \<le> length msg + 511" unfolding add_mult_distrib by linarith
    from div_le_mono [OF this, of 512] show "?q < ?n" by (simp add: block_count_def)
  qed
  have at: "take 512 (drop (k * 512) msg) = ?f k" if "k < ?q" for k
  proof -
    have "512 \<le> length msg - k * 512" using below_full [OF that] by simp
    then have "take 512 (drop (k * 512) (take (length msg) ?c)) = take 512 (drop (k * 512) ?c)"
      by (simp add: drop_take min_absorb1)
    then show ?thesis using concat_block_at [OF f, of k ?n] that n(1) by (simp flip: c)
  qed
  then show "blocks_on v base msg" by (simp add: blocks_on_def)
  have "map ?f [0..<?q] = map (\<lambda>k. take 512 (drop (k * 512) msg)) [0..<?q]" using at by simp
  then show "concat (map ?f [0..<?q]) = full_part msg" by (simp only: concat_pieces full_part_def)
  show "take ?p (?f ?q) = drop (?q * 512) msg"
  proof (cases "?p = 0")
    case True
    then have "?q * 512 = length msg" using div_mult_mod_eq [of "length msg" 512] by linarith
    then show ?thesis using True by simp
  next
    case False
    have "drop (?q * 512) msg = take ?p (drop (?q * 512) ?c)"
      by (subst c) (simp add: drop_take minus_div_mult_eq_mod)
    also have "\<dots> = take ?p (take 512 (drop (?q * 512) ?c))" by (simp add: min_absorb1)
    also have "\<dots> = take ?p (?f ?q)" using concat_block_at [OF f n(2)] False by simp
    finally show ?thesis by simp
  qed
qed

section \<open>The tail of the last chunk\<close>

lemma tail_whole:
  assumes sound: "sd_sound dev view" and writes: "sd_writes_all dev" and small: "length msg < 2 ^ 32"
    and taken: "taken_in view base msg ctx st" and last: "length msg mod 512 \<noteq> 0 \<Longrightarrow> c"
    and run: "(if c \<and> length msg mod 512 \<noteq> 0 then write_tail dev base (length msg) st else (0, st)) = (s, st')"
  shows "s = 0" and "card_image (view (sd st')) base (length msg) = msg"
proof -
  have "\<exists>x. commit_last_block dev base (length msg) ctx st = (x, st') \<and> s = 0"
  proof (cases "length msg mod 512 = 0")
    case True
    then show ?thesis using run by (simp add: commit_last_block_def)
  next
    case False
    let ?buf = "fold (\<lambda>i buf. kbuf_write_byte buf i 0) [length msg mod 512..<512] (up_block_buf st)"
    obtain d where "io_write dev (base + of_nat (length msg div 512)) ?buf (sd st) = (0, d)"
      using writes by (metis eq_fst_iff sd_writes_all_def)
    then show ?thesis using run False last by (auto simp: commit_last_block_def write_tail_def Let_def)
  qed
  then show "s = 0" and "card_image (view (sd st')) base (length msg) = msg"
    using last_block_whole(2) [OF sound writes small taken] by blast+
qed

section \<open>Putting the chunks together\<close>

definition commit_ready :: "('d \<Rightarrow> u64 \<Rightarrow> u8 list) \<Rightarrow> u32 \<Rightarrow> u8 list \<Rightarrow> 'd upload \<Rightarrow> bool" where
  "commit_ready view t msg st \<longleftrightarrow> up_active st = 1 \<and> up_target_slot st = t \<and> up_total_len st = of_nat (length msg)
     \<and> taken_in view (slot_base_block t) msg (kernelupload_ctx_load (up_sha_ctx st)) st"

definition stitched_msg :: "nat \<Rightarrow> out list" where
  "stitched_msg len = [Str ''ALLDONE '', Num (int len),
     Str '' -- all chunks verified and stitched, send 'kernelupload commit' next\<newline>'']"

lemma stitch_whole:
  assumes sound: "sd_sound dev view" and reads: "sd_reads_all dev" and wf: "up_wf st" and small: "length msg < 2 ^ 32"
    and p: "p_target_slot p = t" "p_total_len p = of_nat (length msg)"
    and img: "card_image (view (sd st)) (slot_base_block t) (length msg) = msg"
  shows "commit_ready view t msg (stitch dev p i st)" and "printed (stitch dev p i st) = printed st @ stitched_msg (length msg)"
proof -
  let ?q = "length msg div 512" and ?base = "slot_base_block t" and ?v = "view (sd st)"
  have len: "unat (of_nat (length msg) :: u32) = length msg" using small by (simp add: unat_of_nat)
  note blocks = card_image_blocks [OF _ img] sd_soundD(1) [OF sound]
  obtain c sa where rb: "readback_loop dev ?base ?q 0 [0..<?q] kernel_sha256_init st = (Some c, sa)"
    using readback_total [OF reads] by blast
  note k = readback_keeps [OF sound rb]
  note f = touchedD [OF k(2)]
  have buf: "length (up_block_buf st) = 512" using wf by (simp add: up_wf_def)
  have "ctx_absorbed c (concat (map (\<lambda>k. ?v (?base + of_nat k)) [0..<?q]))"
    using readback_spec [OF sound _ rb ctx_absorbed_init buf] sd_soundD(1) [OF sound] by (simp add: valid_in_block_def)
  then have c: "ctx_absorbed c (full_part msg)" using blocks by simp
  have "length (full_part msg) < 2 ^ 32" using small by (simp add: full_part_def)
  note fits = ctx_absorbed_fits [OF c this]
  have sha: "length (up_sha_ctx sa) = 112" using wf f by (simp add: up_wf_def)
  obtain buf' d' where rd: "io_read dev (?base + of_nat ?q) (up_block_buf sa) (sd sa) = (0, buf', d')"
    using reads by (metis eq_fst_iff sd_reads_all_def prod.collapse)
  note r = sd_sound_read [OF sound rd]
  let ?sb = "if length msg mod 512 \<noteq> 0 then sa\<lparr>up_block_buf := buf', sd := d'\<rparr> else sa"
  let ?sc = "?sb\<lparr>up_target_slot := t, up_total_len := of_nat (length msg),
    up_sha_ctx := kernelupload_ctx_store c (up_sha_ctx sa), up_active := 1\<rparr>"
  have st': "stitch dev p i st = say (stitched_msg (length msg)) ?sc"
    using rb rd by (simp add: stitch_def p len Let_def stitched_msg_def)
  have "view (sd ?sb) = ?v" "length (up_block_buf ?sb) = 512" using r k buf by simp_all
  moreover have "take (length msg mod 512) (up_block_buf ?sb) = drop (?q * 512) msg"
    using blocks r(3) k buf by auto
  ultimately have "taken_in view ?base msg c ?sc" using c blocks by (simp add: taken_in_def)
  then show "commit_ready view t msg (stitch dev p i st)"
    using ctx_load_store(1) [OF fits sha] by (simp add: commit_ready_def st' say_def taken_in_def)
  show "printed (stitch dev p i st) = printed st @ stitched_msg (length msg)" using f by (simp add: st')
qed

section \<open>A chunk is counted\<close>

lemma whole_chunks:
  assumes "geometry (length msg) cs cc" and "i < cc"
  shows "min (cs * i) (length msg) = cs * i" and "block_count (cs * i) = cs * i div 512"
    and "chunk_base t cs i = slot_base_block t + of_nat (cs * i div 512)"
proof -
  note f = chunk_fits [OF assms]
  show "min (cs * i) (length msg) = cs * i" using f(2) by simp
  obtain q where "cs * i = 512 * q" using f(7) by (auto simp: mod_eq_0_iff_dvd)
  then show "block_count (cs * i) = cs * i div 512"
    using div_mult_self4 [of 512 q 511] by (simp add: block_count_def)
qed (simp add: chunk_base_def)

lemma resume_at_cong:
  assumes "resume_at v t msg cs cc i r sb" and "geometry (length msg) cs cc" and "i < cc"
    and "\<forall>x \<in> progress_blocks. v' x = v x"
    and "\<And>k. k < cs * i div 512 \<Longrightarrow> v' (slot_base_block t + of_nat k) = v (slot_base_block t + of_nat k)"
  shows "resume_at v' t msg cs cc i r sb"
proof -
  have "progress_copies v' = progress_copies v" using assms(4) by (simp add: progress_copies_def progress_blocks_def)
  moreover have "card_image v' (slot_base_block t) (cs * i) = card_image v (slot_base_block t) (cs * i)"
    using assms(5) whole_chunks(2) [OF assms(2,3)] by (intro card_image_cong_blocks) simp
  ultimately show ?thesis using assms(1) whole_chunks(1) [OF assms(2,3)] by (simp add: resume_at_def)
qed

lemma chunk_landed:
  assumes at: "resume_at v t msg cs cc i r sb" and geo: "geometry (length msg) cs cc" and i: "i < cc"
    and gen: "p_generation r \<noteq> - 1" and len: "\<forall>b. length (v' b) = 512"
    and rec: "v' (progress_block (\<not> sb)) = progress_wire (counted r)" "v' (progress_block sb) = v (progress_block sb)"
    and before: "\<And>k. k < cs * i div 512 \<Longrightarrow> v' (slot_base_block t + of_nat k) = v (slot_base_block t + of_nat k)"
    and chunk: "card_image v' (chunk_base t cs i) (chunk_len (length msg) cs cc i) = chunk_of msg cs i"
  shows "resume_at v' t msg cs cc (Suc i) (counted r) (\<not> sb)"
proof -
  let ?n = "chunk_len (length msg) cs cc i" and ?base = "slot_base_block t"
  note a = at [unfolded resume_at_def] and f = chunk_fits [OF geo i] and w = whole_chunks [OF geo i]
  have ok: "progress_ok r"
    using progress_store.current_wf a by blast
  then have "progress_step r (counted r)" by (simp add: progress_step_def progress_ok_def counted_def)
  note cur = progress_advanced [of v r sb "counted r" v', OF conjunct1 [OF a] gen this rec]
  have "min (cs * Suc i) (length msg) = cs * i + ?n"
  proof (cases "Suc i = cc")
    case True
    then have "length msg \<le> cs * Suc i" using geo by (simp add: geometry_def)
    then show ?thesis using True f(6) by simp
  next
    case False
    then have "Suc i < cc" using i by simp
    then show ?thesis using f(1,5) by simp
  qed
  then have "card_image v' ?base (min (cs * Suc i) (length msg)) = card_image v' ?base (cs * i) @ card_image v' (chunk_base t cs i) ?n"
    using card_image_append [OF len f(7), of ?base ?n] w(3) by simp
  also have "card_image v' ?base (cs * i) = take (cs * i) msg"
    using a w(1) card_image_cong_blocks [of "cs * i" v' ?base v] before w(2) by simp
  also have "\<dots> @ card_image v' (chunk_base t cs i) ?n = take (cs * Suc i) msg"
    using chunk chunk_of_props(2) [OF geo i] by simp
  finally have "card_image v' ?base (min (cs * Suc i) (length msg)) = take (cs * Suc i) msg" .
  then show ?thesis using cur a by (simp add: resume_at_def progress_for_def counted_def)
qed

section \<open>Verifying on a working card\<close>

text \<open>The answer to a counted chunk; after the last one the image is ready for \<open>commit\<close>.\<close>

definition counted_answer ::
    "('d \<Rightarrow> u64 \<Rightarrow> u8 list) \<Rightarrow> u32 \<Rightarrow> u8 list \<Rightarrow> nat \<Rightarrow> nat \<Rightarrow> 'd upload \<Rightarrow> 'd upload \<Rightarrow> bool" where
  "counted_answer view t msg cc i st st' \<longleftrightarrow>
     (if Suc i < cc then printed st' = printed st @ [Str ''CHUNKOK '', Num (int i), Str ''\<newline>'']
      else printed st' = printed st @ stitched_msg (length msg) \<and> commit_ready view t msg st')"

lemma advance_works:
  assumes sound: "sd_sound dev view" and works: "sd_reads_all dev" "sd_writes_all dev" and wf: "up_wf st"
    and at: "resume_at v t msg cs cc i r sb" and geo: "geometry (length msg) cs cc" and i: "i < cc"
    and gen: "p_generation r \<noteq> - 1"
    and before: "view (sd st) (progress_block sb) = v (progress_block sb)"
      "\<And>k. k < cs * i div 512 \<Longrightarrow> view (sd st) (slot_base_block t + of_nat k) = v (slot_base_block t + of_nat k)"
    and chunk: "card_image (view (sd st)) (chunk_base t cs i) (chunk_len (length msg) cs cc i) = chunk_of msg cs i"
  shows "\<exists>st'. advance_progress dev (progress_select v) (int i) st = Some st'
    \<and> resume_at (view (sd st')) t msg cs cc (Suc i) (counted r) (\<not> sb) \<and> counted_answer view t msg cc i st st'
    \<and> (\<forall>x. x \<noteq> progress_block (\<not> sb) \<longrightarrow> view (sd st') x = view (sd st) x)"
proof -
  let ?p = "progress_select v" and ?b = "progress_block (\<not> sb)"
  note p = resume_select [OF at geo] and q = resume_prog [OF at geo i] and g = geo [unfolded geometry_def]
  let ?q = "?p\<lparr>p_valid := 1, p_chosen_block := ?b, p_generation := p_generation r + 1,
    p_chunks_confirmed := p_chunks_confirmed r + 1\<rparr>"
  have cr: "?q = counted r\<lparr>p_valid := 1, p_chosen_block := ?b\<rparr>" by (simp add: p counted_def)
  have "progress_ok r" using progress_store.current_wf at unfolding resume_at_def by blast
  then have sha: "length (p_final_sha256 ?q) = 32" by (simp add: p progress_ok_def)
  obtain s sa where put: "progress_put dev ?q st = (s, sa)" by fastforce
  note w = progress_put_all [OF sound works(2) wf sha put]
  obtain buf d where sa: "sa = st\<lparr>up_chunk_record_buf := buf, sd := d\<rparr>" "length buf = 512" using w(4) by blast
  have confirmed: "p_chunks_confirmed r = of_nat i" "p_chunk_count r = of_nat cc"
    using at by (simp_all add: resume_at_def progress_for_def)
  have "unat (of_nat (Suc i) :: u32) = Suc i" using i g by (simp add: unat_of_nat del: of_nat_Suc)
  then have "(of_nat (Suc i) :: u32) \<noteq> 0" by (metis nat.distinct(1) unsigned_0)
  then have "p_chunks_confirmed r \<noteq> - 1" by (auto simp: confirmed)
  with put w(1) gen stale_progress_block [of ?p sb] have run: "advance_progress dev ?p (int i) st = Some (
      if p_chunks_confirmed ?q = p_chunk_count ?q then stitch dev ?q (int i) sa
      else say [Str ''CHUNKOK '', Num (int i), Str ''\<newline>''] sa)"
    by (simp add: advance_progress_def inc_u32_def p)
  let ?st' = "if p_chunks_confirmed ?q = p_chunk_count ?q then stitch dev ?q (int i) sa
      else say [Str ''CHUNKOK '', Num (int i), Str ''\<newline>''] sa"
  have view: "view (sd ?st') = view (sd sa)" by (simp add: stitch_view [OF sound])
  have others: "x \<noteq> ?b \<Longrightarrow> view (sd ?st') x = view (sd st) x" for x using w(3) [of x] unfolding view by simp
  have away: "view (sd ?st') (slot_base_block t + of_nat k) = view (sd st) (slot_base_block t + of_nat k)" if "k < 2 ^ 60" for k
    using others card_block_apart [of ?b k t] that progress_block_cases(1) by fastforce
  have "chunk_len (length msg) cs cc i \<le> 12288 * 512" "cs * i \<le> 12288 * 512"
    using chunk_fits(2,3) [OF geo i] g by linarith+
  then have "int (chunk_len (length msg) cs cc i) \<le> kernelslot_size_bytes" "int (cs * i) \<le> kernelslot_size_bytes"
    by (simp_all add: kernelslot_size_bytes_def del: of_nat_mult)
  from size_blocks(2) [OF this(1)] size_blocks(1) [OF this(2)]
  have "block_count (chunk_len (length msg) cs cc i) \<le> 12288" "cs * i div 512 < 2 ^ 32" by simp_all
  then have small: "cs * i div 512 + k < 2 ^ 60" if "k < block_count (chunk_len (length msg) cs cc i)" for k using that by simp
  have img: "card_image (view (sd ?st')) (chunk_base t cs i) (chunk_len (length msg) cs cc i) = chunk_of msg cs i"
    unfolding chunk [symmetric]
    by (rule card_image_cong_blocks) (use away small in \<open>simp add: chunk_base_def add.assoc flip: of_nat_add\<close>)
  have at': "resume_at (view (sd ?st')) t msg cs cc (Suc i) (counted r) (\<not> sb)"
  proof (rule chunk_landed [OF at geo i gen _ _ _ _ img])
    show "\<forall>b. length (view (sd ?st') b) = 512" using sd_soundD(1) [OF sound] by blast
    show "view (sd ?st') ?b = progress_wire (counted r)" unfolding view using w(2) by (simp add: cr)
    show "view (sd ?st') (progress_block sb) = v (progress_block sb)"
      using others [of "progress_block sb"] before(1) progress_block_cases(2) [of sb] by simp
    show "view (sd ?st') (slot_base_block t + of_nat k) = v (slot_base_block t + of_nat k)" if "k < cs * i div 512" for k
      using away [of k] before(2) that \<open>cs * i div 512 < 2 ^ 32\<close> by simp
  qed
  have last: "p_chunks_confirmed ?q = p_chunk_count ?q \<longleftrightarrow> Suc i = cc"
  proof -
    have "unat (of_nat (Suc i) :: u32) = Suc i" "unat (of_nat cc :: u32) = cc"
      using i g by (simp_all add: unat_of_nat del: of_nat_Suc)
    then have "(of_nat (Suc i) :: u32) = of_nat cc \<longleftrightarrow> Suc i = cc" by metis
    then show ?thesis by (simp add: p confirmed add.commute)
  qed
  have "counted_answer view t msg cc i st ?st'"
  proof (cases "Suc i = cc")
    case False
    then show ?thesis using last i sa by (simp add: counted_answer_def)
  next
    case True
    have whole: "card_image (view (sd sa)) (slot_base_block t) (length msg) = msg"
      using at' True g unfolding view by (simp add: resume_at_def min_absorb2)
    have "up_wf sa" using wf sa by (simp add: up_wf_def)
    moreover have "p_target_slot ?q = t" "p_total_len ?q = of_nat (length msg)"
      using at by (simp_all add: p resume_at_def progress_for_def)
    moreover have "length msg < 2 ^ 32" using g by simp
    ultimately show ?thesis
      using stitch_whole [OF sound works(1), of sa msg ?q t "int i"] whole last True sa by (simp add: counted_answer_def)
  qed
  then show ?thesis using run at' others by blast
qed

lemma resumeverify_works:
  assumes sound: "sd_sound dev view" and works: "sd_reads_all dev" "sd_writes_all dev" and wf: "up_wf st"
    and at: "resume_at (view (sd st)) t msg cs cc i r sb" and geo: "geometry (length msg) cs cc" and i: "i < cc"
    and gen: "p_generation r \<noteq> - 1"
    and holds: "upload_holds view (chunk_of msg cs i) st" "upload_base st = chunk_base t cs i"
  defines "line \<equiv> verify_line i (sha256_digest (chunk_of msg cs i))"
  shows "\<exists>st'. kernelupload_resumeverify dev line 25 (length line) st = Some st' \<and> up_wf st'
    \<and> resume_at (view (sd st')) t msg cs cc (Suc i) (counted r) (\<not> sb) \<and> counted_answer view t msg cc i st st'
    \<and> (\<forall>x \<in> state_blocks. view (sd st') x = view (sd st) x)"
proof -
  let ?chunk = "chunk_of msg cs i" and ?n = "chunk_len (length msg) cs cc i" and ?base = "chunk_base t cs i"
  note f = chunk_fits [OF geo i] and g = geo [unfolded geometry_def] and q = resume_prog [OF at geo i]
  have n: "length ?chunk = ?n" using chunk_of_props(1) [OF geo i] .
  have small: "?n < 2 ^ 32" "i < 10 ^ 10" using f(2,3) g i by simp_all
  obtain p sa where get: "progress_get dev st = (p, sa)" by fastforce
  note pg = progress_get_all [OF sound works(1) wf get]
  obtain cbuf d where sa: "sa = st\<lparr>up_chunk_record_buf := cbuf, sd := d\<rparr>" "length cbuf = 512" using pg(3) by blast
  let ?dec = "sha256_digest ?chunk @ drop 32 (up_decode_buf st)"
  let ?sb = "sa\<lparr>up_decode_buf := ?dec\<rparr>" and ?sc = "sa\<lparr>up_decode_buf := ?dec, up_active := 0\<rparr>"
  have dec: "length (up_decode_buf st) = 48" using wf by (simp add: up_wf_def)
  have wfc: "up_wf ?sc" using wf sa dec by (simp add: up_wf_def length_sha256_digest)
  note words = verify_line_words [OF small(2) length_sha256_digest [of ?chunk] dec, folded line_def]
  have start: "kernelupload_resumeverify dev line 25 (length line) st = resumeverify_checked dev p (int i) ?sb"
    using words get q dec sa by (simp add: kernelupload_resumeverify_def Let_def pg(1))
  note ex = expected_len [OF q(6) geo i]
  have tot: "unat (up_total_len st) = ?n" using holds(1) small(1) n by (simp add: upload_holds_def unat_of_nat)
  then have tot': "uint (up_total_len st) = int ?n" by (metis uint_nat)
  have base: "slot_base_block t + word_of_int (int cs * int i div 512) = ?base"
    using zdiv_int [of "cs * i" 512] by (simp only: chunk_base_def of_nat_numeral of_nat_mult) (metis of_int_of_nat_eq)
  have part: "int ?n mod 512 \<noteq> 0 \<longleftrightarrow> ?n mod 512 \<noteq> 0" by (metis of_nat_0_eq_iff zmod_int of_nat_numeral)
  let ?tail = "if int i + 1 = int cc \<and> length ?chunk mod 512 \<noteq> 0 then write_tail dev ?base (length ?chunk) ?sc else (0, ?sc)"
  obtain ts sd1 where tail: "?tail = (ts, sd1)" by fastforce
  have taken: "taken_in view ?base ?chunk (kernelupload_ctx_load (up_sha_ctx st)) ?sc"
    using holds sa pg(2) by (simp add: upload_holds_def taken_in_def upload_base_def)
  have cond: "int i + 1 = int cc" if "length ?chunk mod 512 \<noteq> 0"
  proof (rule ccontr)
    assume "int i + 1 \<noteq> int cc"
    then have "Suc i < cc" using i by linarith
    then show False using f(5) n g that by simp
  qed
  have "length ?chunk < 2 ^ 32" using small(1) n by simp
  note t = tail_whole [OF sound works(2) this taken cond tail]
  have sd1: "y \<noteq> ?base + of_nat (?n div 512) \<Longrightarrow> view (sd sd1) y = view (sd st) y"
    "printed sd1 = printed st" "up_decode_buf sd1 = ?dec" "up_wf sd1" for y
    using tail write_tail_view [OF sound wfc, of ?base ?n ts sd1] wfc sa pg(2) n by (auto split: if_splits)
  obtain vs se where ver: "kernelupload_chunk_verify_range dev ?base ?n (up_decode_buf sd1) sd1 = (vs, se)" by fastforce
  have want: "32 \<le> length (up_decode_buf sd1)" "take 32 (up_decode_buf sd1) = sha256_digest ?chunk"
    by (simp_all add: sd1(3) length_sha256_digest)
  note v = verify_range [OF sound sd1(4) want(1) ver]
  have vs: "vs = 0" using v(6) works(1) t(2) n want(2) by simp
  have checked: "resumeverify_checked dev p (int i) ?sb = advance_progress dev p (int i) se"
    using tail t(1) ver vs sa
    by (simp add: resumeverify_checked_def ex tot' pg(1) q base part verify_chunk_def n Let_def cong: if_cong prod.case_cong)
  have "cs * i div 512 \<le> 12288" "?n div 512 \<le> 12288"
    using div_le_mono [of "cs * i" "12288 * 512" 512] div_le_mono [of ?n "12288 * 512" 512] f(2,3) g by simp_all
  then have lim: "cs * i div 512 + ?n div 512 < 2 ^ 32" by simp
  have away: "view (sd se) y = view (sd st) y" if "y \<in> state_blocks \<union> progress_blocks" for y
  proof -
    have "cs * i div 512 + ?n div 512 < 2 ^ 60" using lim by simp
    from card_block_apart [OF that this, of t] show ?thesis using v(1) sd1(1) by (simp add: chunk_base_def add.assoc)
  qed
  have before: "view (sd se) (slot_base_block t + of_nat k) = view (sd st) (slot_base_block t + of_nat k)"
    if "k < cs * i div 512" for k
  proof -
    have "slot_base_block t + of_nat k \<noteq> ?base + of_nat (?n div 512)"
      using block_number_inj [of k "cs * i div 512 + ?n div 512" "slot_base_block t"] that lim
      by (simp add: chunk_base_def add.assoc)
    then show ?thesis using v(1) sd1(1) by simp
  qed
  have img: "card_image (view (sd se)) ?base ?n = ?chunk" using t(2) n v(1) by simp
  have psb: "view (sd se) (progress_block sb) = view (sd st) (progress_block sb)"
    using away progress_block_cases(1) by simp
  from advance_works [OF sound works v(4) at geo i gen psb before img] obtain st' where
    st': "advance_progress dev p (int i) se = Some st'"
      "resume_at (view (sd st')) t msg cs cc (Suc i) (counted r) (\<not> sb)" "counted_answer view t msg cc i se st'"
    and others: "\<And>x. x \<noteq> progress_block (\<not> sb) \<Longrightarrow> view (sd st') x = view (sd se) x"
    by (auto simp: pg(1))
  have "counted_answer view t msg cc i st st'" using st'(3) v(2) sd1(2) by (simp add: counted_answer_def)
  moreover have "view (sd st') x = view (sd st) x" if "x \<in> state_blocks" for x
    using others [of x] away [of x] that stale_not_progress [OF that] progress_block_cases(1) by force
  moreover have "sd_lengths dev" using sound by (auto simp: sd_lengths_def sd_sound_def)
  then have "up_wf st'" using wf_sizes [OF resumeverify_sizes, of dev line 25 "length line" st st'] start checked st'(1) wf by simp
  ultimately show ?thesis using start checked st'(1,2) by simp
qed

end
