(* ===== verification/Resume_Session.thy ===== *)
theory Resume_Session
  imports Resume_Round
begin

text \<open>
  Resumable uploads as a whole: the chunks that remain are sent and the image is committed, from any
  state of the board that has the card, also after an upload that broke off inside a chunk.
\<close>

section \<open>Broken chunks\<close>

lemma accumulate_count:
  "accumulate_loop dev base bs ctx tot st = Some (True, ctx', tot', st') \<Longrightarrow> tot' = tot + length bs"
  by (induction bs arbitrary: ctx tot st) (fastforce simp: accumulate_step Let_def bind_eq_Some_conv split: if_splits)+

text \<open>Bytes that come in change no block before the one they start in, whatever the writes report.\<close>

lemma accumulate_above:
  assumes sound: "sd_sound dev view" and count: "count \<le> length src" "unat (up_total_len st) + count < 2 ^ 32"
    and run: "kernelupload_accumulate_bytes dev src count st = Some (s, st')"
    and x: "\<forall>k < 2 ^ 32. x \<noteq> upload_base st + of_nat k"
  shows "view (sd st') x = view (sd st) x" and "upload_base st' = upload_base st"
    and "s = 0 \<Longrightarrow> unat (up_total_len st') = unat (up_total_len st) + count"
proof -
  let ?tot = "unat (up_total_len st)" and ?ctx = "kernelupload_ctx_load (up_sha_ctx st)"
  let ?bs = "map (kbuf_read_byte src) [0..<count]"
  obtain ok ctx' tot' st1 where loop: "accumulate_loop dev (upload_base st) ?bs ?ctx ?tot st = Some (ok, ctx', tot', st1)"
      and st': "st' = (if ok then st1\<lparr>up_sha_ctx := kernelupload_ctx_store ctx' (up_sha_ctx st1), up_total_len := of_nat tot'\<rparr>
        else st1\<lparr>up_total_len := of_nat tot'\<rparr>)" "s = (if ok then 0 else - 1)"
    using run by (auto simp: kernelupload_accumulate_bytes_def upload_base_def Let_def bind_eq_Some_conv split: if_splits)
  have "x \<noteq> upload_base st + of_nat k" if "k < (?tot + length ?bs) div 512" for k
  proof -
    have "(?tot + length ?bs) div 512 \<le> ?tot + count" by simp
    then have "k < 2 ^ 32" using that count(2) by linarith
    then show ?thesis using x by blast
  qed
  then have "view (sd st1) x = view (sd st) x" using accumulate_others [OF sound loop, of x] by blast
  then show "view (sd st') x = view (sd st) x" by (simp add: st')
  show "upload_base st' = upload_base st" using touchedD [OF accumulate_frame [OF loop]] by (simp add: st' upload_base_def)
  show "unat (up_total_len st') = ?tot + count" if "s = 0"
  proof -
    have "unat (of_nat (?tot + count) :: u32) = ?tot + count" using count(2) by (simp add: unat_of_nat del: of_nat_add)
    then show ?thesis
      using that st' accumulate_count [of dev "upload_base st" ?bs ?ctx ?tot st ctx' tot' st1] loop
      by (simp split: if_splits)
  qed
qed

lemma feed_above:
  assumes sound: "sd_sound dev view"
    and "unat (up_total_len st) + length (concat pieces) < 2 ^ 32" and "feed dev pieces st = Some (s, st')"
    and "\<forall>k < 2 ^ 32. x \<noteq> upload_base st + of_nat k"
  shows "view (sd st') x = view (sd st) x"
  using assms(2-)
proof (induction pieces arbitrary: st)
  case (Cons piece pieces)
  from Cons.prems(2) obtain s1 st1 where one: "kernelupload_accumulate_bytes dev piece (length piece) st = Some (s1, st1)"
      and rest: "(if s1 \<noteq> 0 then Some (s1, st1) else feed dev pieces st1) = Some (s, st')"
    by (auto simp: bind_eq_Some_conv)
  have "unat (up_total_len st) + length piece < 2 ^ 32" using Cons.prems(1) by simp
  note a = accumulate_above [OF sound order_refl this one Cons.prems(3)]
  show ?case
  proof (cases "s1 = 0")
    case True
    have "view (sd st') x = view (sd st1) x"
      using Cons.IH [of st1] a(2,3) True rest Cons.prems(1,3) by simp
    then show ?thesis using a(1) by simp
  next
    case False
    then show ?thesis using rest a(1) by simp
  qed
qed simp

lemma broken_chunk:
  assumes sound: "sd_sound dev view" and at: "resume_at v t msg cs cc i r sb" and geo: "geometry (length msg) cs cc"
    and i: "i < cc" and card: "view (sd st) = v" "upload_base st = chunk_base t cs i" "up_total_len st = 0"
    and run: "feed dev pieces st = Some (s, st')" "length (concat pieces) < 2 ^ 32"
  shows "resume_at (view (sd st')) t msg cs cc i r sb"
    and "\<forall>x \<in> state_blocks. view (sd st') x = v x"
proof -
  have a: "cs * i div 512 \<le> 12288"
    using div_le_mono [of "cs * i" "12288 * 512" 512] chunk_fits(2) [OF geo i] geo by (simp add: geometry_def)
  have len: "unat (up_total_len st) + length (concat pieces) < 2 ^ 32" using run(2) card(3) by simp
  have keep: "view (sd st') x = v x" if "\<forall>k < 2 ^ 32. x \<noteq> chunk_base t cs i + of_nat k" for x
    using feed_above [OF sound len run(1), of x] card(1,2) that by simp
  have away: "view (sd st') x = v x" if "x \<in> state_blocks \<union> progress_blocks" for x
  proof (rule keep, intro allI impI)
    fix k :: nat assume "k < 2 ^ 32"
    then have "cs * i div 512 + k < 2 ^ 60" using a by simp
    from card_block_apart [OF that this, of t] show "x \<noteq> chunk_base t cs i + of_nat k"
      by (simp add: chunk_base_def add.assoc)
  qed
  then show "\<forall>x \<in> state_blocks. view (sd st') x = v x" by simp
  have before: "view (sd st') (slot_base_block t + of_nat k) = v (slot_base_block t + of_nat k)" if "k < cs * i div 512" for k
  proof (rule keep, intro allI impI)
    fix j :: nat assume j: "j < 2 ^ 32"
    have "unat (of_nat k :: u64) = k" "unat (of_nat (cs * i div 512 + j) :: u64) = cs * i div 512 + j"
      using that a j by (simp_all add: unat_of_nat del: of_nat_add)
    then have "(of_nat k :: u64) \<noteq> of_nat (cs * i div 512 + j)" using that by (metis not_add_less1)
    then show "slot_base_block t + of_nat k \<noteq> chunk_base t cs i + of_nat j" by (simp add: chunk_base_def add.assoc)
  qed
  show "resume_at (view (sd st')) t msg cs cc i r sb"
    using resume_at_cong [OF at geo i _ before] away by simp
qed

section \<open>The rounds\<close>

text \<open>What a host does that follows the answers: the chunks \<open>is\<close>, each in some pieces.\<close>

fun send_chunks ::
    "'d kernel_io \<Rightarrow> u8 list \<Rightarrow> nat \<Rightarrow> nat \<Rightarrow> (nat \<Rightarrow> u8 list list) \<Rightarrow> nat list \<Rightarrow> 'd upload \<Rightarrow> 'd upload option" where
  "send_chunks dev msg cs cc pieces [] st = Some st"
| "send_chunks dev msg cs cc pieces (i # is) st =
     (let opening = chunk_line i (chunk_len (length msg) cs cc i);
          closing = verify_line i (sha256_digest (chunk_of msg cs i)) in
      do {
        st \<leftarrow> kernelupload_resumechunk dev opening 24 (length opening) st;
        (s, st) \<leftarrow> feed dev (pieces i) st;
        if s \<noteq> 0 then None
        else do {
          st \<leftarrow> kernelupload_resumeverify dev closing 25 (length closing) st;
          send_chunks dev msg cs cc pieces is st } })"

lemma one_chunk:
  assumes sound: "sd_sound dev view" and works: "sd_reads_all dev" "sd_writes_all dev" "clock_forward dev"
    and wf: "up_wf st" and at: "resume_at (view (sd st)) t msg cs cc i r sb" and geo: "geometry (length msg) cs cc"
    and i: "i < cc" and gen: "p_generation r \<noteq> - 1" and pieces: "concat (pieces i) = chunk_of msg cs i"
  shows "\<exists>st'. send_chunks dev msg cs cc pieces [i] st = Some st' \<and> up_wf st'
    \<and> resume_at (view (sd st')) t msg cs cc (Suc i) (counted r) (\<not> sb)
    \<and> (\<forall>x \<in> state_blocks. view (sd st') x = view (sd st) x) \<and> (Suc i = cc \<longrightarrow> commit_ready view t msg st')"
proof -
  let ?n = "chunk_len (length msg) cs cc i"
  from resumechunk_opens [OF sound works(1) wf at geo i] obtain st1 where
    open1: "kernelupload_resumechunk dev (chunk_line i ?n) 24 (length (chunk_line i ?n)) st = Some st1"
      "chunk_opened view t cs i st st1" by blast
  note o = open1(2) [unfolded chunk_opened_def]
  have len: "length (concat (pieces i)) < 2 ^ 32"
    using chunk_of_props(1) [OF geo i] chunk_fits(3) [OF geo i] geo by (simp add: pieces geometry_def)
  have "upload_holds view [] st1" "length ([] :: u8 list) + length (concat (pieces i)) < 2 ^ 32" using o len by simp_all
  from feed_total [OF sound works(3,2) this] obtain st2 where
    feed: "feed dev (pieces i) st1 = Some (0, st2)" "upload_holds view (chunk_of msg cs i) st2" "upload_frame st1 st2"
    by (auto simp: pieces)
  have "up_total_len st1 = 0" using o by (simp add: upload_holds_def)
  then have b: "resume_at (view (sd st2)) t msg cs cc i r sb" "\<forall>x \<in> state_blocks. view (sd st2) x = view (sd st) x"
    using broken_chunk [OF sound at geo i _ _ _ feed(1) len] o by simp_all
  have f: "up_wf st2" "upload_base st2 = chunk_base t cs i"
    using feed(3) o unfolding upload_base_def by (auto simp: upload_frame_def)
  from resumeverify_works [OF sound works(1,2) f(1) b(1) geo i gen feed(2) f(2)] obtain st3 where
    ver: "kernelupload_resumeverify dev (verify_line i (sha256_digest (chunk_of msg cs i))) 25
        (length (verify_line i (sha256_digest (chunk_of msg cs i)))) st2 = Some st3" "up_wf st3"
      "resume_at (view (sd st3)) t msg cs cc (Suc i) (counted r) (\<not> sb)" "counted_answer view t msg cc i st2 st3"
      "\<forall>x \<in> state_blocks. view (sd st3) x = view (sd st2) x" by blast
  have "send_chunks dev msg cs cc pieces [i] st = Some st3" using open1(1) feed(1) ver(1) by (simp add: Let_def)
  then show ?thesis using ver(2-5) b(2) i by (auto simp: counted_answer_def)
qed

lemma send_append:
  "send_chunks dev msg cs cc pieces (i # is) st
    = do { st \<leftarrow> send_chunks dev msg cs cc pieces [i] st; send_chunks dev msg cs cc pieces is st }"
  by (auto simp: Let_def bind_eq_Some_conv split: bind_splits)

lemma all_chunks:
  assumes sound: "sd_sound dev view" and works: "sd_reads_all dev" "sd_writes_all dev" "clock_forward dev"
    and geo: "geometry (length msg) cs cc" and pieces: "\<forall>j < cc. concat (pieces j) = chunk_of msg cs j"
    and wf: "up_wf st" and at: "resume_at (view (sd st)) t msg cs cc i r sb" and i: "i < cc"
    and gen: "unat (p_generation r) + (cc - i) < 2 ^ 32"
  shows "\<exists>st' r' sb'. send_chunks dev msg cs cc pieces [i..<cc] st = Some st' \<and> up_wf st'
    \<and> resume_at (view (sd st')) t msg cs cc cc r' sb' \<and> unat (p_generation r') = unat (p_generation r) + (cc - i)
    \<and> (\<forall>x \<in> state_blocks. view (sd st') x = view (sd st) x) \<and> commit_ready view t msg st'"
  using wf at i gen
proof (induction "cc - i" arbitrary: st i r sb)
  case (Suc n)
  have g: "p_generation r \<noteq> - 1"
  proof
    assume "p_generation r = - 1"
    then have "unat (p_generation r) = 2 ^ 32 - 1" by (simp add: unsigned_minus_1_eq_mask mask_eq_exp_minus_1)
    then show False using Suc.prems(3,4) by simp
  qed
  have g1: "unat (p_generation (counted r)) = Suc (unat (p_generation r))"
  proof -
    have "1 + p_generation r \<noteq> 0" using g by (metis add.commute add_eq_0_iff)
    from unatSuc [OF this] show ?thesis by (simp add: counted_def add.commute)
  qed
  have piece: "concat (pieces i) = chunk_of msg cs i" using pieces Suc.prems(3) by simp
  from one_chunk [where pieces = pieces, OF sound works Suc.prems(1,2) geo Suc.prems(3) g piece] obtain st1 where
    one: "send_chunks dev msg cs cc pieces [i] st = Some st1" "up_wf st1"
      "resume_at (view (sd st1)) t msg cs cc (Suc i) (counted r) (\<not> sb)"
      "\<forall>x \<in> state_blocks. view (sd st1) x = view (sd st) x" "Suc i = cc \<longrightarrow> commit_ready view t msg st1" by blast
  have "[i..<cc] = i # [Suc i..<cc]" using Suc.prems(3) by (simp add: upt_conv_Cons)
  then have split: "send_chunks dev msg cs cc pieces [i..<cc] st = send_chunks dev msg cs cc pieces [Suc i..<cc] st1"
    using send_append [of dev msg cs cc pieces i "[Suc i..<cc]" st] by (simp only: one(1) Option.bind.simps)
  show ?case
  proof (cases "Suc i = cc")
    case True
    then have "[Suc i..<cc] = []" "cc - i = 1" by simp_all
    then show ?thesis unfolding split using one g1 True by auto
  next
    case False
    have "n = cc - Suc i" "Suc i < cc" "unat (p_generation (counted r)) + (cc - Suc i) < 2 ^ 32"
      using Suc.hyps(2) Suc.prems(3,4) False g1 by simp_all
    from Suc.hyps(1) [OF this(1) one(2,3) this(2,3)] obtain st' r' sb' where
      rest: "send_chunks dev msg cs cc pieces [Suc i..<cc] st1 = Some st'" "up_wf st'"
        "resume_at (view (sd st')) t msg cs cc cc r' sb'"
        "unat (p_generation r') = unat (p_generation (counted r)) + (cc - Suc i)"
        "\<forall>x \<in> state_blocks. view (sd st') x = view (sd st1) x" "commit_ready view t msg st'" by blast
    have "unat (p_generation r') = unat (p_generation r) + (cc - i)" using rest(4) g1 Suc.prems(3) by simp
    then show ?thesis unfolding split using one(4) rest by auto
  qed
qed simp

end
