(* ===== verification/Resume_Begin.thy ===== *)
theory Resume_Begin
  imports Resume_Session
begin

text \<open>
  \<open>resumebegin\<close>: on a card with no upload in progress it writes a progress record with no chunk
  counted; for an upload that broke off it counts one more attempt and leaves the chunks alone.
\<close>

section \<open>The command line\<close>

definition begin_line :: "nat \<Rightarrow> nat \<Rightarrow> u8 list \<Rightarrow> u8 list" where
  "begin_line len cc digest =
     ascii ''kernelupload resumebegin '' @ ascii (dec_string len) @ [32] @ ascii (dec_string cc) @ [32] @ hex_text digest"

lemma begin_line_words:
  fixes len cc digest
  defines "line \<equiv> begin_line len cc digest" and "e \<equiv> 25 + length (dec_string len)"
  defines "f \<equiv> Suc e + length (dec_string cc)"
  assumes "len < 10 ^ 10" and "cc < 10 ^ 10" and "length digest = 32" and "length buf = 48"
  shows "24 < length line" and "shell_find_space line 25 (length line) = e" and "e < length line"
    and "shell_parse_decimal line 25 e = int len"
    and "shell_find_space line (Suc e) (length line) = f" and "f < length line"
    and "shell_parse_decimal line (Suc e) f = int cc"
    and "shell_find_space line (Suc f) (length line) = Suc f + 64"
    and "shell_parse_hex_bytes line (Suc f) (Suc f + 64) buf 32 = (0, digest @ drop 32 buf)"
proof -
  let ?p = "ascii ''kernelupload resumebegin ''" and ?l = "ascii (dec_string len)" and ?c = "ascii (dec_string cc)"
  have p: "length ?p = 25" by simp
  have p2: "length (?p @ ?l @ [32]) = Suc e" by (simp add: e_def)
  have line1: "line = ?p @ ?l @ (32 # ?c @ [32] @ hex_text digest)" by (simp add: line_def begin_line_def)
  have line2: "line = (?p @ ?l @ [32]) @ ?c @ [32] @ hex_text digest" by (simp add: line1)
  show "24 < length line" "e < length line" "f < length line"
    using p by (simp_all add: line1 e_def f_def)
  show "shell_find_space line 25 (length line) = e"
    using find_space_stops [OF line1 decimal_no_space, unfolded p] by (simp add: e_def)
  show "shell_parse_decimal line 25 e = int len"
    using parse_decimal_text [OF line1 assms(4)] by (simp only: p e_def)
  note w = two_words [OF line2 p2 hex_no_space assms(5), folded f_def]
  show "shell_find_space line (Suc e) (length line) = f" "shell_parse_decimal line (Suc e) f = int cc"
    "shell_find_space line (Suc f) (length line) = Suc f + 64"
    using w by (simp_all add: assms(6))
  have line3: "line = ((?p @ ?l @ [32]) @ ?c @ [32]) @ hex_text digest @ []" by (simp add: line1)
  show "shell_parse_hex_bytes line (Suc f) (Suc f + 64) buf 32 = (0, digest @ drop 32 buf)"
    using parse_hex_text [OF line3, of buf] assms(6,7) by (simp only: w(5) length_hex_text) simp
qed

section \<open>A fresh upload\<close>

definition fresh_progress :: "u32 \<Rightarrow> u32 \<Rightarrow> nat \<Rightarrow> nat \<Rightarrow> nat \<Rightarrow> u8 list \<Rightarrow> KernelUploadChunkProgress" where
  "fresh_progress gen t len cs cc digest = \<lparr>p_valid = 1, p_chosen_block = 0, p_generation = gen, p_target_slot = t,
     p_total_len = of_nat len, p_chunk_size = of_nat cs, p_chunk_count = of_nat cc, p_chunks_confirmed = 0,
     p_attempt_count = 1, p_final_sha256 = digest\<rparr>"

text \<open>No valid record, or one that was cleared.\<close>

lemma fresh_current:
  assumes none: "p_valid (progress_select v) \<noteq> 1" and gen: "p_generation (progress_select v) \<noteq> - 1"
    and r: "r = fresh_progress (p_generation (progress_select v) + 1) t len cs cc digest" and sha: "length digest = 32"
    and b: "b = kernelupload_chunk_progress_stale_block (progress_select v)"
    and put: "v' b = progress_wire r" "\<And>x. x \<in> progress_blocks \<Longrightarrow> x \<noteq> b \<Longrightarrow> v' x = v x"
  shows "\<exists>sb. progress_store.current (progress_copies v') = Some (r, sb)" and "b \<in> progress_blocks"
proof -
  have ok: "progress_ok r" by (simp add: r fresh_progress_def progress_ok_def sha)
  have blocks: "progress_block a \<in> progress_blocks" for a by (rule progress_block_cases(1))
  have "(\<exists>sb. progress_store.current (progress_copies v') = Some (r, sb)) \<and> b \<in> progress_blocks"
  proof (cases "progress_store.current (progress_copies v)")
    case None
    note s = progress_select_current(2) [OF None]
    then have bb: "b = progress_block False"
      using stale_progress_block [of "progress_select v" True] by (simp add: b progress_block_def)
    have "v' (progress_block True) = v (progress_block True)"
      using put(2) [OF blocks [of True]] progress_block_cases(2) [of True] by (simp add: bb)
    then have "progress_copies v' = (v (progress_block True), progress_wire r)"
      using put(1) by (simp add: bb progress_copies_def progress_block_def)
    moreover have "progress_dec (v (progress_block True)) = None"
      using None by (cases "progress_dec (v (progress_block True))"; cases "progress_dec (v (progress_block False))")
        (simp_all add: progress_store.current_def progress_copies_def progress_block_def)
    ultimately have "progress_store.current (progress_copies v') = Some (r, False)"
      using progress_dec_wire [OF ok] by (simp add: progress_store.current_def)
    then show ?thesis using bb blocks by blast
  next
    case (Some q)
    obtain r0 sb0 where q: "q = (r0, sb0)" by fastforce
    note s = progress_select_current(1) [OF Some [unfolded q]]
    have bb: "b = progress_block (\<not> sb0)" using stale_progress_block [of "progress_select v" sb0] by (simp add: b s)
    have "progress_step r0 r" using ok by (simp add: progress_step_def r fresh_progress_def s)
    moreover have "p_generation r0 \<noteq> - 1" using gen by (simp add: s)
    moreover have "v' (progress_block (\<not> sb0)) = progress_wire r" using put(1) by (simp add: bb)
    moreover have "v' (progress_block sb0) = v (progress_block sb0)"
      using put(2) [OF blocks] progress_block_cases(2) [of sb0] by (simp add: bb)
    ultimately show ?thesis using progress_advanced [OF Some [unfolded q]] bb blocks by blast
  qed
  then show "\<exists>sb. progress_store.current (progress_copies v') = Some (r, sb)" and "b \<in> progress_blocks" by simp_all
qed

lemma resumebegin_starts:
  assumes sound: "sd_sound dev view" and works: "sd_reads_all dev" "sd_writes_all dev" and wf: "up_wf st"
    and sel: "card_select (slot_copies (view (sd st))) = Some (s, stale)"
    and none: "p_valid (progress_select (view (sd st))) \<noteq> 1" and gen: "p_generation (progress_select (view (sd st))) \<noteq> - 1"
    and len: "0 < length msg" "int (length msg) \<le> kernelslot_size_bytes" and cc: "0 < cc" "cc \<le> 1000"
    and last: "0 < int (length msg) - int (chunk_size_for (length msg) cc) * (int cc - 1)"
  defines "t \<equiv> if active_slot s = 0 then 1 else 0" and "cs \<equiv> chunk_size_for (length msg) cc"
    and "line \<equiv> begin_line (length msg) cc (sha256_digest msg)"
  shows "\<exists>st' r sb. kernelupload_resumebegin dev line 24 (length line) st = Some st' \<and> up_wf st'
    \<and> printed st' = printed st @ [Str ''FRESH 0\<newline>''] \<and> geometry (length msg) cs cc
    \<and> resume_at (view (sd st')) t msg cs cc 0 r sb
    \<and> r = fresh_progress (p_generation (progress_select (view (sd st))) + 1) t (length msg) cs cc (sha256_digest msg)
    \<and> (\<forall>x \<in> state_blocks. view (sd st') x = view (sd st) x)"
proof -
  let ?v = "view (sd st)" and ?digest = "sha256_digest msg"
  let ?dec = "?digest @ drop 32 (up_decode_buf st)"
  have dec: "length (up_decode_buf st) = 48" and rb: "length (up_record_buf st) = 512" using wf by (simp_all add: up_wf_def)
  have small: "length msg < 10 ^ 10" "cc < 10 ^ 10" using len cc by (simp_all add: kernelslot_size_bytes_def)
  note words = begin_line_words [OF small length_sha256_digest [of msg] dec, folded line_def]
  obtain q buf d where look: "kernelslot_lookup (io_read dev) (up_record_buf st, sd st) = (q, buf, d)" by (metis prod_cases3)
  note l = lookup_view [OF sound rb look]
  from l(4) [OF works(1)] sel have q: "valid q = 1" "active_slot q = active_slot s"
    using truncate_fields(2) [of q] by (auto split: if_splits)
  let ?sa = "st\<lparr>up_decode_buf := ?dec, up_record_buf := buf, sd := d\<rparr>"
  have wfa: "up_wf ?sa" using wf l(1) dec by (simp add: up_wf_def length_sha256_digest)
  obtain p sb where get: "progress_get dev ?sa = (p, sb)" by fastforce
  note g = progress_get_all [OF sound works(1) wfa get]
  obtain cbuf d' where sb: "sb = ?sa\<lparr>up_chunk_record_buf := cbuf, sd := d'\<rparr>" "length cbuf = 512" using g(3) by blast
  have p: "p = progress_select ?v" using g(1) l(2) by simp
  let ?b = "kernelupload_chunk_progress_stale_block p"
  let ?r = "fresh_progress (p_generation p + 1) t (length msg) cs cc ?digest"
  let ?f = "?r\<lparr>p_chosen_block := ?b\<rparr>"
  have wfb: "up_wf sb" using wfa sb by (simp add: up_wf_def)
  have sha: "length (p_final_sha256 ?f) = 32" by (simp add: fresh_progress_def length_sha256_digest)
  obtain ps sc where put: "progress_put dev ?f sb = (ps, sc)" by fastforce
  note w = progress_put_all [OF sound works(2) wfb sha put]
  have arr: "map (\<lambda>i. ucast (kbuf_read_byte ?dec i)) [0..<32] = ?digest"
    using map_nth_take [of 32 ?dec] dec by (simp add: kbuf_read_byte_def length_sha256_digest)
  have fresh: "\<lparr>p_valid = 1, p_chosen_block = ?b, p_generation = p_generation p + 1, p_target_slot = t,
      p_total_len = of_nat (length msg), p_chunk_size = of_nat cs, p_chunk_count = of_nat cc,
      p_chunks_confirmed = 0, p_attempt_count = 1, p_final_sha256 = ?digest\<rparr> = ?f" by (simp add: fresh_progress_def)
  have gen': "p_generation p \<noteq> - 1" using gen by (simp add: p)
  have "resumebegin_fresh dev t (length msg) cs cc p sb = Some (say [Str ''FRESH 0\<newline>''] sc)"
    using put w(1) gen' arr sb fresh by (simp add: resumebegin_fresh_def inc_u32_def)
  moreover have "resumebegin_checked dev (length msg) cc (st\<lparr>up_decode_buf := ?dec\<rparr>)
      = resumebegin_fresh dev t (length msg) cs cc p sb"
    using last look q get none p
    by (simp add: resumebegin_checked_def lookup_slots_def fresh_target_def t_def cs_def Let_def)
  moreover have "kernelupload_resumebegin dev line 24 (length line) st
      = resumebegin_checked dev (length msg) cc (st\<lparr>up_decode_buf := ?dec\<rparr>)"
    using words len cc by (simp add: kernelupload_resumebegin_def Let_def)
  ultimately have run: "kernelupload_resumebegin dev line 24 (length line) st = Some (say [Str ''FRESH 0\<newline>''] sc)" by simp
  have view: "view (sd sb) = ?v" using g(2) l(2) by simp
  have wire: "view (sd sc) ?b = progress_wire ?r" using w(2) by simp
  have others: "x \<noteq> ?b \<Longrightarrow> view (sd sc) x = ?v x" for x using w(3) [of x] view by simp
  have r: "?r = fresh_progress (p_generation (progress_select ?v) + 1) t (length msg) cs cc ?digest" by (simp add: p)
  have b: "?b = kernelupload_chunk_progress_stale_block (progress_select ?v)" by (simp add: p)
  obtain bit where cur: "progress_store.current (progress_copies (view (sd sc))) = Some (?r, bit)"
      and bin: "?b \<in> progress_blocks"
    using fresh_current [OF none gen r length_sha256_digest b wire others] by blast
  have geo: "geometry (length msg) cs cc"
    unfolding cs_def using chunk_size_geometry [OF len cc last] .
  have "resume_at (view (sd sc)) t msg cs cc 0 ?r bit"
    using cur by (simp add: resume_at_def progress_for_def fresh_progress_def card_image_def)
  moreover have "\<forall>x \<in> state_blocks. view (sd sc) x = ?v x" using others stale_not_progress bin by metis
  moreover have "up_wf sc" "printed sc = printed st" using w(4) wfb sb by (auto simp: up_wf_def)
  ultimately show ?thesis using run geo by (intro exI [of _ "say [Str ''FRESH 0\<newline>''] sc"] exI [of _ ?r] exI [of _ bit])
    (simp add: p)
qed

section \<open>The same upload again\<close>

definition retried :: "KernelUploadChunkProgress \<Rightarrow> KernelUploadChunkProgress" where
  "retried r = r\<lparr>p_generation := p_generation r + 1, p_attempt_count := p_attempt_count r + 1\<rparr>"

definition resume_answer :: "nat \<Rightarrow> KernelUploadChunkProgress \<Rightarrow> out list" where
  "resume_answer i r = [Str ''RESUME '', Num (int i), Str '' '', Num (uint (p_attempt_count r)), Str ''\<newline>'']"

text \<open>An update of the record that leaves the chunks and their number alone.\<close>

lemma resume_at_update:
  assumes at: "resume_at v t msg cs cc i r sb" and geo: "geometry (length msg) cs cc" and i: "i < cc"
    and step: "progress_step r r'" "progress_for t (length msg) cs cc i r'" and gen: "p_generation r \<noteq> - 1"
    and put: "v' (progress_block (\<not> sb)) = progress_wire r'" "\<And>x. x \<noteq> progress_block (\<not> sb) \<Longrightarrow> v' x = v x"
  shows "resume_at v' t msg cs cc i r' (\<not> sb)"
proof -
  note a = at [unfolded resume_at_def] and w = whole_chunks [OF geo i]
  have "v' (progress_block sb) = v (progress_block sb)" using put(2) progress_block_cases(2) [of sb] by simp
  note cur = progress_advanced [OF conjunct1 [OF a] gen step(1) put(1) this]
  have small: "cs * i div 512 < 2 ^ 60"
    using div_le_mono [of "cs * i" "12288 * 512" 512] chunk_fits(2) [OF geo i] geo by (simp add: geometry_def)
  have "v' (slot_base_block t + of_nat k) = v (slot_base_block t + of_nat k)" if "k < block_count (cs * i)" for k
    using card_block_apart [of "progress_block (\<not> sb)" k t] progress_block_cases(1) that small w(2)
    by (intro put(2)) force
  then have "card_image v' (slot_base_block t) (cs * i) = card_image v (slot_base_block t) (cs * i)"
    by (rule card_image_cong_blocks)
  then show ?thesis using cur a step(2) w(1) by (simp add: resume_at_def)
qed

text \<open>With the arguments of the upload on record, the command comes to its second half.\<close>

lemma begin_same_upload:
  assumes sound: "sd_sound dev view" and reads: "sd_reads_all dev" and wf: "up_wf st"
    and sel: "card_select (slot_copies (view (sd st))) = Some (s, stale)" and t: "t = (if active_slot s = 0 then 1 else 0)"
    and at: "resume_at (view (sd st)) t msg cs cc i r sb" and geo: "geometry (length msg) cs cc"
    and cs: "cs = chunk_size_for (length msg) cc" and sha: "p_final_sha256 r = sha256_digest msg"
  defines "line \<equiv> begin_line (length msg) cc (sha256_digest msg)" and "p \<equiv> progress_select (view (sd st))"
  obtains sa where "kernelupload_resumebegin dev line 24 (length line) st = resumebegin_again dev p sa"
    "view (sd sa) = view (sd st)" "up_wf sa" "printed sa = printed st" "up_active sa = up_active st"
proof -
  let ?v = "view (sd st)" and ?digest = "sha256_digest msg"
  let ?dec = "?digest @ drop 32 (up_decode_buf st)"
  note g = geo [unfolded geometry_def] and ps = resume_select [OF at geo, folded p_def]
  have dec: "length (up_decode_buf st) = 48" and rb: "length (up_record_buf st) = 512" using wf by (simp_all add: up_wf_def)
  have small: "length msg < 10 ^ 10" "cc < 10 ^ 10" using g by simp_all
  note words = begin_line_words [OF small length_sha256_digest [of msg] dec, folded line_def]
  obtain q buf d where look: "kernelslot_lookup (io_read dev) (up_record_buf st, sd st) = (q, buf, d)" by (metis prod_cases3)
  note l = lookup_view [OF sound rb look]
  from l(4) [OF reads] sel have q: "valid q = 1" "active_slot q = active_slot s"
    using truncate_fields(2) [of q] by (auto split: if_splits)
  let ?sa = "st\<lparr>up_decode_buf := ?dec, up_record_buf := buf, sd := d\<rparr>"
  have wfa: "up_wf ?sa" using wf l(1) dec by (simp add: up_wf_def length_sha256_digest)
  obtain pr sa where get: "progress_get dev ?sa = (pr, sa)" by fastforce
  note pg = progress_get_all [OF sound reads wfa get]
  obtain cbuf d' where sa: "sa = ?sa\<lparr>up_chunk_record_buf := cbuf, sd := d'\<rparr>" "length cbuf = 512" using pg(3) by blast
  have p: "pr = p" using pg(1) l(2) by (simp add: p_def)
  have same: "\<forall>j \<in> set [0..<32]. p_final_sha256 p ! j = ucast (kbuf_read_byte (up_decode_buf sa) j)"
    using sa by (simp add: ps sha kbuf_read_byte_def length_sha256_digest nth_append)
  have last: "0 < int (length msg) - int cs * (int cc - 1)"
  proof -
    have "0 < cc" using g by simp
    then have "int cs * (int cc - 1) = int (cs * (cc - 1))" by (simp add: of_nat_diff)
    then show ?thesis using g by linarith
  qed
  have fields: "p_valid p = 1" "p_target_slot p = t" "p_total_len p = of_nat (length msg)" "p_chunk_size p = of_nat cs"
      "p_chunk_count p = of_nat cc"
    using at by (simp_all add: ps resume_at_def progress_for_def)
  have "resumebegin_checked dev (length msg) cc (st\<lparr>up_decode_buf := ?dec\<rparr>) = resumebegin_again dev p sa"
    using last look q get same fields
    by (simp add: resumebegin_checked_def lookup_slots_def fresh_target_def t cs [symmetric] Let_def p)
  moreover have "kernelupload_resumebegin dev line 24 (length line) st
      = resumebegin_checked dev (length msg) cc (st\<lparr>up_decode_buf := ?dec\<rparr>)"
    using words g by (simp add: kernelupload_resumebegin_def kernelslot_size_bytes_def Let_def)
  ultimately show thesis
    using that [of sa] pg(2) l(2) wfa sa by (simp add: up_wf_def)
qed

lemma resumebegin_resumes:
  assumes sound: "sd_sound dev view" and works: "sd_reads_all dev" "sd_writes_all dev" and wf: "up_wf st"
    and sel: "card_select (slot_copies (view (sd st))) = Some (s, stale)" and t: "t = (if active_slot s = 0 then 1 else 0)"
    and at: "resume_at (view (sd st)) t msg cs cc i r sb" and geo: "geometry (length msg) cs cc" and i: "i < cc"
    and cs: "cs = chunk_size_for (length msg) cc" and sha: "p_final_sha256 r = sha256_digest msg"
    and gen: "p_generation r \<noteq> - 1" and attempts: "p_attempt_count r < 5"
  defines "line \<equiv> begin_line (length msg) cc (sha256_digest msg)"
  shows "\<exists>st'. kernelupload_resumebegin dev line 24 (length line) st = Some st' \<and> up_wf st'
    \<and> printed st' = printed st @ resume_answer i (retried r)
    \<and> resume_at (view (sd st')) t msg cs cc i (retried r) (\<not> sb)
    \<and> (\<forall>x \<in> state_blocks. view (sd st') x = view (sd st) x)"
proof -
  let ?v = "view (sd st)"
  obtain p where p: "p = progress_select ?v" by blast
  obtain sa where sa: "kernelupload_resumebegin dev line 24 (length line) st = resumebegin_again dev p sa"
      "view (sd sa) = ?v" "up_wf sa" "printed sa = printed st"
    using begin_same_upload [OF sound works(1) wf sel t at geo cs sha] by (metis line_def p)
  note pr = resume_prog [OF at geo i, folded p] and ps = resume_select [OF at geo, folded p]
  let ?b = "progress_block (\<not> sb)"
  let ?f = "p\<lparr>p_valid := 1, p_chosen_block := ?b, p_generation := p_generation r + 1, p_attempt_count := p_attempt_count r + 1\<rparr>"
  have f: "?f = (retried r)\<lparr>p_valid := 1, p_chosen_block := ?b\<rparr>" by (simp add: ps retried_def)
  have ok: "progress_ok r" using progress_store.current_wf at unfolding resume_at_def by blast
  have sha': "length (p_final_sha256 ?f) = 32" using ok by (simp add: f retried_def progress_ok_def)
  obtain w sc where put: "progress_put dev ?f sa = (w, sc)" by fastforce
  note wr = progress_put_all [OF sound works(2) sa(3) sha' put]
  have att: "p_attempt_count r \<noteq> - 1" "\<not> uint (p_attempt_count r) \<ge> 5"
    using attempts word_order.extremum [of "5 :: u32"] by (auto simp: word_less_def simp flip: not_less)
  have unfinished: "p_chunks_confirmed p \<noteq> p_chunk_count p" using pr(2) by auto
  have "resumebegin_again dev p sa = Some (say (resume_answer i (retried r)) sc)"
    using put wr(1) gen att unfinished stale_progress_block [of p sb] pr(3)
    by (simp add: resumebegin_again_def inc_u32_def ps resume_answer_def retried_def)
  with sa(1) have run: "kernelupload_resumebegin dev line 24 (length line) st = Some (say (resume_answer i (retried r)) sc)"
    by simp
  have wire: "view (sd sc) ?b = progress_wire (retried r)" using wr(2) unfolding f by simp
  have others: "x \<noteq> ?b \<Longrightarrow> view (sd sc) x = ?v x" for x using wr(3) [of x] sa(2) by simp
  have step: "progress_step r (retried r)" "progress_for t (length msg) cs cc i (retried r)"
    using ok at by (simp_all add: progress_step_def progress_ok_def retried_def resume_at_def progress_for_def)
  have "resume_at (view (sd sc)) t msg cs cc i (retried r) (\<not> sb)"
    using resume_at_update [OF at geo i step gen wire others] .
  moreover have "\<forall>x \<in> state_blocks. view (sd sc) x = ?v x"
    using others stale_not_progress progress_block_cases(1) by metis
  moreover have "up_wf sc" "printed sc = printed st" using wr(4) sa(3,4) by (auto simp: up_wf_def)
  ultimately show ?thesis using run by (intro exI [of _ "say (resume_answer i (retried r)) sc"]) simp
qed

section \<open>All chunks counted\<close>

lemma resumebegin_done:
  assumes sound: "sd_sound dev view" and reads: "sd_reads_all dev" and wf: "up_wf st"
    and sel: "card_select (slot_copies (view (sd st))) = Some (s, stale)" and t: "t = (if active_slot s = 0 then 1 else 0)"
    and at: "resume_at (view (sd st)) t msg cs cc cc r sb" and geo: "geometry (length msg) cs cc"
    and cs: "cs = chunk_size_for (length msg) cc" and sha: "p_final_sha256 r = sha256_digest msg"
  defines "line \<equiv> begin_line (length msg) cc (sha256_digest msg)"
  obtains st' where "kernelupload_resumebegin dev line 24 (length line) st = Some st'" "up_active st' = up_active st"
    "printed st' = printed st @ [Str ''ALLDONE '', Num (int cc), Str ''\<newline>'']" "view (sd st') = view (sd st)" "up_wf st'"
proof -
  obtain p where p: "p = progress_select (view (sd st))" by blast
  obtain sa where sa: "kernelupload_resumebegin dev line 24 (length line) st = resumebegin_again dev p sa"
      "view (sd sa) = view (sd st)" "up_wf sa" "printed sa = printed st" "up_active sa = up_active st"
    using begin_same_upload [OF sound reads wf sel t at geo cs sha] by (metis line_def p)
  note ps = resume_select [OF at geo, folded p]
  have "p_chunks_confirmed p = of_nat cc" "p_chunk_count p = of_nat cc"
    using at by (simp_all add: ps resume_at_def progress_for_def)
  moreover have "uint (of_nat cc :: u32) = int cc" using geo by (simp add: uint_nat unat_of_nat geometry_def)
  ultimately have "resumebegin_again dev p sa = Some (say [Str ''ALLDONE '', Num (int cc), Str ''\<newline>''] sa)"
    by (simp add: resumebegin_again_def)
  then show thesis using that sa by simp
qed

lemma resumechunk_done:
  assumes sound: "sd_sound dev view" and reads: "sd_reads_all dev" and wf: "up_wf st"
    and at: "resume_at (view (sd st)) t msg cs cc cc r sb" and geo: "geometry (length msg) cs cc" and line: "sub_end < n"
  obtains st' where "kernelupload_resumechunk dev line sub_end n st = Some st'" "printed st' = printed st
    @ [Str ''kernelupload: no resumable upload in progress -- send 'kernelupload resumebegin' first\<newline>'']"
proof -
  obtain p sa where get: "progress_get dev st = (p, sa)" by fastforce
  note pg = progress_get_all [OF sound reads wf get]
  have "p_chunks_confirmed p = p_chunk_count p"
    using at by (simp add: pg(1) resume_select [OF at geo] resume_at_def progress_for_def)
  then have "kernelupload_resumechunk dev line sub_end n st = Some (say
      [Str ''kernelupload: no resumable upload in progress -- send 'kernelupload resumebegin' first\<newline>''] sa)"
    using get line by (simp add: kernelupload_resumechunk_def)
  then show thesis using that pg(3) by auto
qed

end
