(* ===== verification/Resume_Properties.thy ===== *)
theory Resume_Properties
  imports Resume_Begin
begin

text \<open>The properties of resumable uploads.\<close>

section \<open>To the end\<close>

text \<open>A finished upload: the answer of \<open>commit\<close>, the record and the image.\<close>

definition upload_finished ::
    "('d \<Rightarrow> u64 \<Rightarrow> u8 list) \<Rightarrow> u32 \<Rightarrow> u8 list \<Rightarrow> slot_state \<Rightarrow> 'd upload \<Rightarrow> 'd upload \<Rightarrow> bool" where
  "upload_finished view t msg s st st' \<longleftrightarrow> printed st' = printed st @ commit_ok_msg t (length msg)
     \<and> (\<exists>s' stale'. record_upload t (of_nat (length msg)) (sha256_digest msg) s = Some s'
          \<and> card_select (slot_copies (view (sd st'))) = Some (s', stale'))
     \<and> card_image (view (sd st')) (slot_base_block t) (length msg) = msg"

definition send_commit :: "'d kernel_io \<Rightarrow> u8 list \<Rightarrow> 'd upload \<Rightarrow> 'd upload option" where
  "send_commit dev msg st =
     (let line = commit_line (length msg) (sha256_digest msg) in kernelupload_commit dev line 19 (length line) st)"

definition send_begin :: "'d kernel_io \<Rightarrow> u8 list \<Rightarrow> nat \<Rightarrow> 'd upload \<Rightarrow> 'd upload option" where
  "send_begin dev msg cc st =
     (let line = begin_line (length msg) cc (sha256_digest msg) in kernelupload_resumebegin dev line 24 (length line) st)"

definition send_open :: "'d kernel_io \<Rightarrow> u8 list \<Rightarrow> nat \<Rightarrow> nat \<Rightarrow> nat \<Rightarrow> 'd upload \<Rightarrow> 'd upload option" where
  "send_open dev msg cs cc i st =
     (let line = chunk_line i (chunk_len (length msg) cs cc i) in kernelupload_resumechunk dev line 24 (length line) st)"

lemma remaining_upload:
  assumes sound: "sd_sound dev view" and works: "sd_reads_all dev" "sd_writes_all dev" "clock_forward dev"
    and geo: "geometry (length msg) cs cc" and pieces: "\<forall>j < cc. concat (pieces j) = chunk_of msg cs j"
    and wf: "up_wf st" and at: "resume_at (view (sd st)) t msg cs cc i r sb" and i: "i < cc"
    and gen: "unat (p_generation r) + (cc - i) < 2 ^ 32 - 1"
    and sel: "card_select (slot_copies (view (sd st))) = Some (s, stale)" and gens: "generation s \<noteq> - 1"
  shows "\<exists>st2 st3. send_chunks dev msg cs cc pieces [i..<cc] st = Some st2 \<and> send_commit dev msg st2 = Some st3
    \<and> upload_finished view t msg s st2 st3"
proof -
  note g = geo [unfolded geometry_def]
  have "unat (p_generation r) + (cc - i) < 2 ^ 32" using gen by simp
  from all_chunks [OF sound works geo pieces wf at i this] obtain st2 r' sb' where
    sent: "send_chunks dev msg cs cc pieces [i..<cc] st = Some st2" "up_wf st2"
      "resume_at (view (sd st2)) t msg cs cc cc r' sb'" "unat (p_generation r') = unat (p_generation r) + (cc - i)"
      "\<forall>x \<in> state_blocks. view (sd st2) x = view (sd st) x" "commit_ready view t msg st2" by blast
  note ready = sent(6) [unfolded commit_ready_def]
  have len: "0 < length msg" "int (length msg) \<le> kernelslot_size_bytes" using g by (auto simp: kernelslot_size_bytes_def)
  have sel2: "card_select (slot_copies (view (sd st2))) = Some (s, stale)"
    using sel sent(5) by (simp add: slot_copies_def state_blocks_def)
  have "unat (p_generation r') \<noteq> 2 ^ 32 - 1" using sent(4) gen by simp
  then have "p_generation r' \<noteq> - 1" by (auto simp: unsigned_minus_1_eq_mask mask_eq_exp_minus_1)
  then have prog: "progress_counts (view (sd st2))"
    using resume_select [OF sent(3) geo] by (simp add: progress_counts_def)
  have taken: "up_active st2 \<noteq> 0" "up_total_len st2 = of_nat (length msg)"
      "taken_in view (slot_base_block (up_target_slot st2)) msg (kernelupload_ctx_load (up_sha_ctx st2)) st2"
    using ready by simp_all
  have t: "up_target_slot st2 = t" using ready by simp
  obtain st3 s' where "kernelupload_commit dev (commit_line (length msg) (sha256_digest msg)) 19
        (length (commit_line (length msg) (sha256_digest msg))) st2 = Some st3"
      "printed st3 = printed st2 @ commit_ok_msg t (length msg)"
      "record_upload t (of_nat (length msg)) (sha256_digest msg) s = Some s'"
      "\<exists>stale'. card_select (slot_copies (view (sd st3))) = Some (s', stale')"
      "card_image (view (sd st3)) (slot_base_block t) (length msg) = msg"
    using commit_accepts [OF sound works(1,2) sent(2) taken len sel2 gens prog] unfolding t by blast
  then show ?thesis using sent(1) by (auto simp: send_commit_def upload_finished_def Let_def)
qed

lemma whole_upload:
  assumes sound: "sd_sound dev view" and works: "sd_reads_all dev" "sd_writes_all dev" "clock_forward dev" and wf: "up_wf st"
    and sel: "card_select (slot_copies (view (sd st))) = Some (s, stale)" and gens: "generation s \<noteq> - 1"
    and none: "p_valid (progress_select (view (sd st))) \<noteq> 1"
    and gen: "unat (p_generation (progress_select (view (sd st)))) + cc + 2 < 2 ^ 32"
    and len: "0 < length msg" "int (length msg) \<le> kernelslot_size_bytes" and cc: "0 < cc" "cc \<le> 1000"
    and last: "0 < int (length msg) - int (chunk_size_for (length msg) cc) * (int cc - 1)"
    and pieces: "\<forall>j < cc. concat (pieces j) = chunk_of msg (chunk_size_for (length msg) cc) j"
  defines "t \<equiv> if active_slot s = 0 then 1 else 0" and "cs \<equiv> chunk_size_for (length msg) cc"
  shows "\<exists>st1 st2 st3. send_begin dev msg cc st = Some st1 \<and> printed st1 = printed st @ [Str ''FRESH 0\<newline>'']
    \<and> send_chunks dev msg cs cc pieces [0..<cc] st1 = Some st2 \<and> send_commit dev msg st2 = Some st3
    \<and> upload_finished view t msg s st2 st3"
proof -
  let ?g = "p_generation (progress_select (view (sd st)))"
  have g: "?g \<noteq> - 1"
  proof
    assume "?g = - 1"
    then have "unat ?g = 2 ^ 32 - 1" by (simp add: unsigned_minus_1_eq_mask mask_eq_exp_minus_1)
    then show False using gen by simp
  qed
  from resumebegin_starts [OF sound works(1,2) wf sel none g len cc last, folded t_def cs_def] obtain st1 r sb where
    b: "send_begin dev msg cc st = Some st1" "up_wf st1" "printed st1 = printed st @ [Str ''FRESH 0\<newline>'']"
      "geometry (length msg) cs cc" "resume_at (view (sd st1)) t msg cs cc 0 r sb" "r = fresh_progress (?g + 1) t (length msg) cs cc (sha256_digest msg)"
      "\<forall>x \<in> state_blocks. view (sd st1) x = view (sd st) x"
    by (auto simp: send_begin_def Let_def)
  have "1 + ?g \<noteq> 0" using g by (metis add.commute add_eq_0_iff)
  from unatSuc [OF this] have "unat (p_generation r) = Suc (unat ?g)" by (simp add: b(6) fresh_progress_def add.commute)
  then have gr: "unat (p_generation r) + (cc - 0) < 2 ^ 32 - 1" using gen by simp
  have sel1: "card_select (slot_copies (view (sd st1))) = Some (s, stale)"
    using sel b(7) by (simp add: slot_copies_def state_blocks_def)
  from remaining_upload [OF sound works b(4) pieces [folded cs_def] b(2,5) cc(1) gr sel1 gens] b(1,3) show ?thesis by blast
qed

lemma retry_upload:
  assumes sound: "sd_sound dev view" and works: "sd_reads_all dev" "sd_writes_all dev" "clock_forward dev" and wf: "up_wf st"
    and sel: "card_select (slot_copies (view (sd st))) = Some (s, stale)" and gens: "generation s \<noteq> - 1"
    and t: "t = (if active_slot s = 0 then 1 else 0)"
    and at: "resume_at (view (sd st)) t msg cs cc i r sb" and geo: "geometry (length msg) cs cc" and i: "i < cc"
    and cs: "cs = chunk_size_for (length msg) cc" and sha: "p_final_sha256 r = sha256_digest msg"
    and attempts: "p_attempt_count r < 5" and gen: "unat (p_generation r) + cc + 2 < 2 ^ 32"
    and pieces: "\<forall>j < cc. concat (pieces j) = chunk_of msg cs j"
    and broken: "send_open dev msg cs cc i st = Some st1" "feed dev junk st1 = Some (result, st2)"
      "length (concat junk) < 2 ^ 32"
    and reset: "sd st3 = sd st2" "up_wf st3"
  shows "\<exists>st4 st5 st6. send_begin dev msg cc st3 = Some st4
    \<and> printed st4 = printed st3 @ resume_answer i (retried r)
    \<and> send_chunks dev msg cs cc pieces [i..<cc] st4 = Some st5 \<and> send_commit dev msg st5 = Some st6
    \<and> upload_finished view t msg s st5 st6"
proof -
  from resumechunk_opens [OF sound works(1) wf at geo i] broken(1)
  have "chunk_opened view t cs i st st1" by (auto simp: send_open_def Let_def)
  note o = this [unfolded chunk_opened_def]
  have "view (sd st1) = view (sd st)" "upload_base st1 = chunk_base t cs i" "up_total_len st1 = 0"
    using o by (simp_all add: upload_holds_def)
  note b = broken_chunk [OF sound at geo i this broken(2,3), folded reset(1)]
  have g: "p_generation r \<noteq> - 1"
  proof
    assume "p_generation r = - 1"
    then have "unat (p_generation r) = 2 ^ 32 - 1" by (simp add: unsigned_minus_1_eq_mask mask_eq_exp_minus_1)
    then show False using gen by simp
  qed
  have sel3: "card_select (slot_copies (view (sd st3))) = Some (s, stale)"
    using sel b(2) by (simp add: slot_copies_def state_blocks_def)
  from resumebegin_resumes [OF sound works(1,2) reset(2) sel3 t b(1) geo i cs sha g attempts] obtain st4 where
    st4: "send_begin dev msg cc st3 = Some st4" "up_wf st4" "printed st4 = printed st3 @ resume_answer i (retried r)"
      "resume_at (view (sd st4)) t msg cs cc i (retried r) (\<not> sb)" "\<forall>x \<in> state_blocks. view (sd st4) x = view (sd st3) x"
    by (auto simp: send_begin_def Let_def)
  have "1 + p_generation r \<noteq> 0" using g by (metis add.commute add_eq_0_iff)
  from unatSuc [OF this] have "unat (p_generation (retried r)) = Suc (unat (p_generation r))"
    by (simp add: retried_def add.commute)
  then have gr: "unat (p_generation (retried r)) + (cc - i) < 2 ^ 32 - 1" using gen by simp
  have sel4: "card_select (slot_copies (view (sd st4))) = Some (s, stale)"
    using sel3 st4(5) by (simp add: slot_copies_def state_blocks_def)
  from remaining_upload [OF sound works geo pieces st4(2,4) i gr sel4 gens] st4(1,3) show ?thesis by blast
qed

section \<open>An example\<close>

lemma sample_progress:
  "p_valid (progress_select (ram_view ram_card)) = 0" "p_generation (progress_select (ram_view ram_card)) = 0"
proof -
  have "kernelupload_chunk_state_block_a \<noteq> kernelslot_state_block_a" "kernelupload_chunk_state_block_b \<noteq> kernelslot_state_block_a"
    by (simp_all add: kernelslot_state_block_a_def kernelupload_chunk_state_block_a_def kernelupload_chunk_state_block_b_def)
  then show "p_valid (progress_select (ram_view ram_card)) = 0" "p_generation (progress_select (ram_view ram_card)) = 0"
    by (simp_all add: progress_select_def kernelupload_chunk_progress_lookup_def ram_card_blocks blank_progress Let_def
        kernelupload_chunk_progress_parse_def buf_read_u32_le_def kbuf_read_byte_def)
qed

lemma sample_chunks:
  "chunk_size_for 3 1 = 512" "chunk_of [7, 8, 9] 512 0 = [7, 8, 9]"
  "0 < int (length [7, 8, 9 :: u8]) - int (chunk_size_for (length [7, 8, 9 :: u8]) 1) * (int 1 - 1)"
  by (simp_all add: chunk_size_for_def chunk_of_def)

lemma sample_size [simp]:
  "chunk_size_for 3 (Suc 0) = 512" "chunk_size_for (Suc (Suc (Suc 0))) (Suc 0) = 512"
  by (simp_all add: chunk_size_for_def)

lemma sample_begun:
  obtains st r sb where "up_wf st" "resume_at (ram_view (sd st)) 1 [7, 8, 9] 512 1 0 r sb"
    "card_select (slot_copies (ram_view (sd st))) = Some (sample_slot, SLOT_STATE_BLOCK_B)"
    "p_final_sha256 r = sha256_digest [7, 8, 9]" "p_attempt_count r < 5" "unat (p_generation r) = 1"
    "geometry (length [7, 8, 9 :: u8]) 512 1"
proof -
  let ?msg = "[7, 8, 9] :: u8 list"
  have none: "p_valid (progress_select (ram_view (sd sample_upload))) \<noteq> 1"
      "p_generation (progress_select (ram_view (sd sample_upload))) \<noteq> - 1"
    by (simp_all add: sample_progress sample_upload_ok(2))
  have sel: "card_select (slot_copies (ram_view (sd sample_upload))) = Some (sample_slot, SLOT_STATE_BLOCK_B)"
    by (simp add: sample_upload_ok)
  have g0: "p_generation (progress_select (ram_view (sd sample_upload))) = 0" by (simp add: sample_progress sample_upload_ok(2))
  have cc: "0 < (1 :: nat)" "1 \<le> (1000 :: nat)" by simp_all
  from resumebegin_starts [where view = ram_view and st = sample_upload and msg = ?msg and cc = 1,
      OF ram_works(1-3) sample_upload_ok(1) sel none sample_session(2,4) cc sample_chunks(3)]
  obtain st r sb where b: "up_wf st" "resume_at (ram_view (sd st)) 1 ?msg 512 1 0 r sb"
      "\<forall>x \<in> state_blocks. ram_view (sd st) x = ram_view (sd sample_upload) x"
      "geometry (length ?msg) 512 1" "r = fresh_progress 1 1 (length ?msg) 512 1 (sha256_digest ?msg)"
    by (auto simp: sample_session(6) g0)
  have sel1: "card_select (slot_copies (ram_view (sd st))) = Some (sample_slot, SLOT_STATE_BLOCK_B)"
    using b(3) sel by (simp add: slot_copies_def state_blocks_def)
  show thesis
    by (rule that [OF b(1,2) sel1 _ _ _ b(4)]) (simp_all add: b(5) fresh_progress_def)
qed

section \<open>Properties\<close>

text \<open>
  C6. The progress record counts only what was verified. Whatever command line \<open>kernelupload
  resumeverify\<close> gets, in whatever state of an upload, on a driver whose reads and writes may
  fail: if it changes a block of the progress record, then the other block holds a valid record
  with a chunk left to count, the bytes received are as many as that chunk has, and what lies in
  the chunk's place on the card afterwards has the SHA-256 that the line claims; what was written is
  that record with the chunk counted (or the write was reported as failed, and so did the
  command).
\<close>

theorem resume_counts_only_verified:
  assumes sound: "sd_sound dev view" and wf: "up_wf st"
    and run: "kernelupload_resumeverify dev line sub_end n st = Some st'"
    and x: "x \<in> progress_blocks" and changed: "view (sd st') x \<noteq> view (sd st) x"
  shows "\<exists>y p len. y \<in> progress_blocks \<and> y \<noteq> x \<and> progress_dec (view (sd st) y) = Some p
    \<and> p_chunks_confirmed p < p_chunk_count p
    \<and> len = unat (up_total_len st) \<and> expected_chunk_len p (uint (p_chunks_confirmed p)) = Some (int len)
    \<and> sha256_digest (card_image (view (sd st')) (range_base p) len) = line_digest line sub_end n
    \<and> (view (sd st') x = progress_wire (counted p) \<or> last (printed st') = last (not_persisted ''resumeverify''))"
  using resume_counts [OF assms] .

theorem resume_counts_only_verified_witness:
  "\<exists>st st' x p. x \<in> progress_blocks \<and> ram_view (sd st') x \<noteq> ram_view (sd st) x
    \<and> (let line = verify_line 0 (sha256_digest [7, 8, 9]) in
      kernelupload_resumeverify ram_io line 25 (length line) st = Some st'
      \<and> sha256_digest (card_image (ram_view (sd st')) (range_base p) (unat (up_total_len st))) = line_digest line 25 (length line))"
proof -
  let ?msg = "[7, 8, 9] :: u8 list" and ?line = "verify_line 0 (sha256_digest [7, 8, 9])"
  obtain st r sb where b: "up_wf st" "resume_at (ram_view (sd st)) 1 ?msg 512 1 0 r sb"
      "unat (p_generation r) = 1" "geometry (length ?msg) 512 1" by (rule sample_begun)
  from resumechunk_opens [where view = ram_view, OF ram_works(1,2) b(1,2,4) zero_less_one] obtain st1 where
    o: "chunk_opened ram_view 1 512 0 st st1" by blast
  have "upload_holds ram_view [] st1" "length ([] :: u8 list) + length (concat [?msg]) < 2 ^ 32"
    using o by (simp_all add: chunk_opened_def)
  from feed_total [where view = ram_view, OF ram_works(1,4,3) this] obtain st2 where
    f: "feed ram_io [?msg] st1 = Some (0, st2)" "upload_holds ram_view (chunk_of ?msg 512 0) st2" "upload_frame st1 st2"
    by (auto simp: sample_chunks(2))
  have f2: "up_wf st2" "upload_base st2 = chunk_base 1 512 0"
    using f(3) o unfolding upload_base_def chunk_opened_def by (auto simp: upload_frame_def)
  have "ram_view (sd st1) = ram_view (sd st)" "upload_base st1 = chunk_base 1 512 0" "up_total_len st1 = 0"
    using o by (simp_all add: chunk_opened_def upload_holds_def)
  note at2 = broken_chunk(1) [where view = ram_view, OF ram_works(1) b(2,4) zero_less_one this f(1)]
  have at: "resume_at (ram_view (sd st2)) 1 ?msg 512 1 0 r sb" by (rule at2) simp
  have gen: "p_generation r \<noteq> - 1" using b(3) by (auto simp: unsigned_minus_1_eq_mask mask_eq_exp_minus_1)
  from resumeverify_works [where view = ram_view, OF ram_works(1-3) f2(1) at b(4) zero_less_one gen f(2) f2(2)] obtain st3 where
    v: "kernelupload_resumeverify ram_io ?line 25 (length ?line) st2 = Some st3"
      "resume_at (ram_view (sd st3)) 1 ?msg 512 1 (Suc 0) (counted r) (\<not> sb)" by (auto simp: sample_chunks(2))
  have "progress_copies (ram_view (sd st3)) \<noteq> progress_copies (ram_view (sd st2))"
    using v(2) at by (auto simp: resume_at_def)
  then obtain x where x: "x \<in> progress_blocks" "ram_view (sd st3) x \<noteq> ram_view (sd st2) x"
    by (auto simp: progress_copies_def progress_blocks_def)
  from resume_counts_only_verified [where view = ram_view, OF ram_works(1) f2(1) v(1) x] x v(1) show ?thesis
    unfolding Let_def by blast
qed

text \<open>
  C20. A resumable upload succeeds. On a working card and clock with no resumable upload in
  progress: \<open>kernelupload resumebegin\<close> with the image's length, a number of chunks that divides
  it into none empty, and its SHA-256; each chunk with \<open>resumechunk\<close>, its bytes in any pieces
  and \<open>resumeverify\<close> with its own SHA-256; and \<open>commit\<close>: all commands accept, the image lies in
  the slot that is not active, byte for byte, and the record that the loader would select has that
  slot marked ready with this length and digest.
\<close>

theorem resumable_upload_succeeds:
  assumes sound: "sd_sound dev view" and works: "sd_reads_all dev" "sd_writes_all dev" "clock_forward dev" and wf: "up_wf st"
    and sel: "card_select (slot_copies (view (sd st))) = Some (s, stale)" and gens: "generation s \<noteq> - 1"
    and none: "p_valid (progress_select (view (sd st))) \<noteq> 1"
    and gen: "unat (p_generation (progress_select (view (sd st)))) + cc + 2 < 2 ^ 32"
    and len: "0 < length msg" "int (length msg) \<le> kernelslot_size_bytes" and cc: "0 < cc" "cc \<le> 1000"
    and last: "0 < int (length msg) - int (chunk_size_for (length msg) cc) * (int cc - 1)"
    and pieces: "\<forall>j < cc. concat (pieces j) = chunk_of msg (chunk_size_for (length msg) cc) j"
  defines "t \<equiv> if active_slot s = 0 then 1 else 0" and "cs \<equiv> chunk_size_for (length msg) cc"
  shows "\<exists>st1 st2 st3. send_begin dev msg cc st = Some st1 \<and> printed st1 = printed st @ [Str ''FRESH 0\<newline>'']
    \<and> send_chunks dev msg cs cc pieces [0..<cc] st1 = Some st2 \<and> send_commit dev msg st2 = Some st3
    \<and> upload_finished view t msg s st2 st3"
  unfolding t_def cs_def
  using whole_upload [OF sound works wf sel gens none gen len cc last pieces] .

theorem resumable_upload_succeeds_witness:
  "\<exists>st1 st2 st3. send_begin ram_io [7, 8, 9] 1 sample_upload = Some st1
    \<and> send_chunks ram_io [7, 8, 9] 512 1 (\<lambda>j. [[7], [8, 9]]) [0] st1 = Some st2
    \<and> send_commit ram_io [7, 8, 9] st2 = Some st3 \<and> upload_finished ram_view 1 [7, 8, 9] sample_slot st2 st3"
proof -
  let ?msg = "[7, 8, 9] :: u8 list"
  have sel: "card_select (slot_copies (ram_view (sd sample_upload))) = Some (sample_slot, SLOT_STATE_BLOCK_B)"
    and none: "p_valid (progress_select (ram_view (sd sample_upload))) \<noteq> 1"
    and gen: "unat (p_generation (progress_select (ram_view (sd sample_upload)))) + 1 + 2 < 2 ^ 32"
    and pieces: "\<forall>j < 1. concat ((\<lambda>j. [[7], [8, 9]]) j) = chunk_of ?msg (chunk_size_for (length ?msg) 1) j"
    and cc: "0 < (1 :: nat)" "1 \<le> (1000 :: nat)"
    using sample_chunks(2)
    by (simp_all add: sample_progress sample_upload_ok)
  from resumable_upload_succeeds [where view = ram_view and st = sample_upload, OF ram_works sample_upload_ok(1) sel sample_session(5) none gen sample_session(2,4) cc
      sample_chunks(3) pieces]
  show ?thesis by (auto simp: sample_session(6))
qed

text \<open>
  C7. An interrupted upload is completed, and nothing that was verified is sent again. A resumable
  upload has \<open>i\<close> chunks counted; chunk \<open>i\<close> is opened and any bytes come in, as many as may be, with
  whatever result; then the board starts anew, with any contents of memory. \<open>resumebegin\<close> with the
  same arguments answers \<open>RESUME i\<close> with one more attempt, and the chunks from \<open>i\<close> on and
  \<open>commit\<close> complete the upload.
\<close>

theorem interrupted_upload_completes:
  assumes sound: "sd_sound dev view" and works: "sd_reads_all dev" "sd_writes_all dev" "clock_forward dev" and wf: "up_wf st"
    and sel: "card_select (slot_copies (view (sd st))) = Some (s, stale)" and gens: "generation s \<noteq> - 1"
    and t: "t = (if active_slot s = 0 then 1 else 0)"
    and at: "resume_at (view (sd st)) t msg cs cc i r sb" and geo: "geometry (length msg) cs cc" and i: "i < cc"
    and cs: "cs = chunk_size_for (length msg) cc" and sha: "p_final_sha256 r = sha256_digest msg"
    and attempts: "p_attempt_count r < 5" and gen: "unat (p_generation r) + cc + 2 < 2 ^ 32"
    and pieces: "\<forall>j < cc. concat (pieces j) = chunk_of msg cs j"
    and broken: "send_open dev msg cs cc i st = Some st1" "feed dev junk st1 = Some (result, st2)"
      "length (concat junk) < 2 ^ 32"
    and reset: "sd st3 = sd st2" "up_wf st3"
  shows "\<exists>st4 st5 st6. send_begin dev msg cc st3 = Some st4
    \<and> printed st4 = printed st3 @ resume_answer i (retried r)
    \<and> send_chunks dev msg cs cc pieces [i..<cc] st4 = Some st5 \<and> send_commit dev msg st5 = Some st6
    \<and> upload_finished view t msg s st5 st6"
  using retry_upload [OF assms] .

theorem interrupted_upload_completes_witness:
  "\<exists>st st1 st2 st4 st5 st6 r. send_open ram_io [7, 8, 9] 512 1 0 st = Some st1
    \<and> feed ram_io [[1, 2]] st1 = Some (0, st2)
    \<and> send_begin ram_io [7, 8, 9] 1 (sample_upload\<lparr>sd := sd st2\<rparr>) = Some st4
    \<and> printed st4 = printed (sample_upload\<lparr>sd := sd st2\<rparr>) @ resume_answer 0 (retried r)
    \<and> send_chunks ram_io [7, 8, 9] 512 1 (\<lambda>j. [[7], [8, 9]]) [0] st4 = Some st5
    \<and> send_commit ram_io [7, 8, 9] st5 = Some st6 \<and> upload_finished ram_view 1 [7, 8, 9] sample_slot st5 st6"
proof -
  let ?msg = "[7, 8, 9] :: u8 list"
  obtain st r sb where b: "up_wf st" "resume_at (ram_view (sd st)) 1 ?msg 512 1 0 r sb"
      "card_select (slot_copies (ram_view (sd st))) = Some (sample_slot, SLOT_STATE_BLOCK_B)"
      "p_final_sha256 r = sha256_digest ?msg" "p_attempt_count r < 5" "unat (p_generation r) = 1"
      "geometry (length ?msg) 512 1" by (rule sample_begun)
  from resumechunk_opens [where view = ram_view, OF ram_works(1,2) b(1,2,7) zero_less_one] obtain st1 where
    o: "send_open ram_io ?msg 512 1 0 st = Some st1" "chunk_opened ram_view 1 512 0 st st1"
    by (auto simp: send_open_def Let_def)
  have "upload_holds ram_view [] st1" "length ([] :: u8 list) + length (concat [[1, 2 :: u8]]) < 2 ^ 32"
    using o(2) by (simp_all add: chunk_opened_def)
  from feed_total [where view = ram_view, OF ram_works(1,4,3) this] obtain st2 where f: "feed ram_io [[1, 2]] st1 = Some (0, st2)" by blast
  let ?st3 = "sample_upload\<lparr>sd := sd st2\<rparr>"
  have st3: "sd ?st3 = sd st2" "up_wf ?st3" using sample_upload_ok(1) by (simp_all add: up_wf_def)
  have p: "\<forall>j < 1. concat ((\<lambda>j. [[7], [8, 9]]) j) = chunk_of ?msg 512 j"
    and t: "1 = (if active_slot sample_slot = 0 then 1 else (0 :: u32))" and cs: "512 = chunk_size_for (length ?msg) 1"
    and gen: "unat (p_generation r) + 1 + 2 < 2 ^ 32" and junk: "length (concat [[1, 2 :: u8]]) < 2 ^ 32"
    using sample_chunks(1,2) sample_session(6) by (simp_all add: b(6))
  note run = interrupted_upload_completes [where view = ram_view, OF ram_works b(1,3) sample_session(5) t b(2,7) zero_less_one
    cs b(4,5) gen p o(1) f junk st3]
  have "[0..<1] = [0 :: nat]" by simp
  with run show ?thesis using o(1) f by metis
qed

text \<open>
  C27. A reset after the last chunk throws the whole upload back. All chunks are counted and on the card,
  the board has been reset before \<open>commit\<close> (no upload is active in memory). \<open>resumebegin\<close> with
  the same arguments answers \<open>ALLDONE\<close>, but \<open>commit\<close>, whatever its arguments, then answers that
  there is nothing to commit, and \<open>resumechunk\<close> that there is no upload to resume.
\<close>

theorem finished_chunks_not_committable:
  assumes sound: "sd_sound dev view" and reads: "sd_reads_all dev" and wf: "up_wf st"
    and sel: "card_select (slot_copies (view (sd st))) = Some (s, stale)" and t: "t = (if active_slot s = 0 then 1 else 0)"
    and at: "resume_at (view (sd st)) t msg cs cc cc r sb" and geo: "geometry (length msg) cs cc"
    and cs: "cs = chunk_size_for (length msg) cc" and sha: "p_final_sha256 r = sha256_digest msg"
    and reset: "up_active st = 0" and line: "sub_end < n"
  shows "\<exists>st1 st2 st3. send_begin dev msg cc st = Some st1
    \<and> printed st1 = printed st @ [Str ''ALLDONE '', Num (int cc), Str ''\<newline>'']
    \<and> kernelupload_commit dev line sub_end n st1 = Some st2
    \<and> printed st2 = printed st1 @ [Str ''kernelupload: nothing to commit (no chunks uploaded yet)\<newline>'']
    \<and> kernelupload_resumechunk dev line sub_end n st1 = Some st3
    \<and> printed st3 = printed st1 @
        [Str ''kernelupload: no resumable upload in progress -- send 'kernelupload resumebegin' first\<newline>'']"
proof -
  obtain st1 where st1: "send_begin dev msg cc st = Some st1" "up_active st1 = 0"
      "printed st1 = printed st @ [Str ''ALLDONE '', Num (int cc), Str ''\<newline>'']" "view (sd st1) = view (sd st)" "up_wf st1"
    using resumebegin_done [OF sound reads wf sel t at geo cs sha] reset by (metis send_begin_def)
  from resumechunk_done [OF sound reads st1(5) at [folded st1(4)] geo line] obtain st3 where
    "kernelupload_resumechunk dev line sub_end n st1 = Some st3" "printed st3 = printed st1 @
        [Str ''kernelupload: no resumable upload in progress -- send 'kernelupload resumebegin' first\<newline>'']" by blast
  moreover have "kernelupload_commit dev line sub_end n st1
      = Some (say [Str ''kernelupload: nothing to commit (no chunks uploaded yet)\<newline>''] st1)"
    using st1(2) by (simp add: kernelupload_commit_def)
  ultimately show ?thesis using st1(1,3) by auto
qed

theorem finished_chunks_not_committable_witness:
  "\<exists>st st1 st2. up_wf st \<and> send_begin ram_io [7, 8, 9] 1 st = Some st1
    \<and> kernelupload_commit ram_io (commit_line 3 (sha256_digest [7, 8, 9])) 19 100 st1 = Some st2
    \<and> printed st2 = printed st1 @ [Str ''kernelupload: nothing to commit (no chunks uploaded yet)\<newline>'']"
proof -
  let ?msg = "[7, 8, 9] :: u8 list"
  obtain st r sb where b: "up_wf st" "resume_at (ram_view (sd st)) 1 ?msg 512 1 0 r sb"
      "card_select (slot_copies (ram_view (sd st))) = Some (sample_slot, SLOT_STATE_BLOCK_B)"
      "p_final_sha256 r = sha256_digest ?msg" "p_attempt_count r < 5" "unat (p_generation r) = 1"
      "geometry (length ?msg) 512 1" by (rule sample_begun)
  have g: "p_generation r \<noteq> - 1" using b(6) by (auto simp: unsigned_minus_1_eq_mask mask_eq_exp_minus_1)
  have "concat [?msg] = chunk_of ?msg 512 0" using sample_chunks(2) by simp
  from one_chunk [where view = ram_view and pieces = "\<lambda>_. [?msg]", OF ram_works b(1,2,7) zero_less_one g this] obtain st2 where
    o: "up_wf st2" "resume_at (ram_view (sd st2)) 1 ?msg 512 1 1 (counted r) (\<not> sb)"
      "\<forall>x \<in> state_blocks. ram_view (sd st2) x = ram_view (sd st) x" by auto
  let ?st = "sample_upload\<lparr>sd := sd st2\<rparr>"
  have wf: "up_wf ?st" using sample_upload_ok(1) by (simp add: up_wf_def)
  have "card_select (slot_copies (ram_view (sd ?st))) = Some (sample_slot, SLOT_STATE_BLOCK_B)"
    and "resume_at (ram_view (sd ?st)) 1 ?msg 512 1 1 (counted r) (\<not> sb)"
    and "1 = (if active_slot sample_slot = 0 then 1 else (0 :: u32))" "512 = chunk_size_for (length ?msg) 1"
      "p_final_sha256 (counted r) = sha256_digest ?msg" "up_active ?st = 0" "19 < (100 :: nat)"
    using o(2,3) b(3,4) sample_session(6)
    by (simp_all add: slot_copies_def state_blocks_def counted_def sample_upload_def)
  from finished_chunks_not_committable [where view = ram_view and st = ?st and msg = ?msg and cc = 1
      and line = "commit_line 3 (sha256_digest ?msg)",
      OF ram_works(1,2) wf this(1,3,2) b(7) this(4-7)] wf show ?thesis by blast
qed

end
