(* ===== verification/Kernel_Stream.thy ===== *)
theory Kernel_Stream
  imports Kernel_Resume
begin

text \<open>
  How the bytes of a stream get from the UART to \<open>kernelupload_accumulate_bytes\<close>
  (\<open>kernel/kernel_main.vani\<close>): the interrupt handler pushes them into a ring buffer, the streaming
  branch of \<open>task_f\<close> pops them in batches, has them taken in, answers \<open>ACK\<close> and \<open>DONE\<close>, and gives up
  when no byte has come in for 20 ticks.
\<close>

section \<open>State\<close>

text \<open>
  Outside of this model: the registers of the UART and of the interrupt controller, the table of
  the scheduler that the task stamps, what of the scheduler is only printed (two counters, the
  running task with its ceiling and priority), and the line editor of the shell, which gets the bytes after the end of the stream.
\<close>

datatype uart_reg = UART_FR | UART_DR | UART_RIS | UART_IMSC | UART_ICR | UART_RSR_ECR | IC_ENABLE2

record ('d, 's) stream_io =
  sio_dev :: "'d kernel_io"
  sio_reg :: "uart_reg \<Rightarrow> 'd \<Rightarrow> u32 \<times> 'd"
  sio_put :: "uart_reg \<Rightarrow> u32 \<Rightarrow> 'd \<Rightarrow> 'd"
  sio_heartbeat :: "u32 \<Rightarrow> 'd \<Rightarrow> 'd"
  sio_irq_count :: "'d \<Rightarrow> int"
  sio_ctxsw :: "'d \<Rightarrow> int"
  sio_task :: "'d \<Rightarrow> u32 \<times> u32 \<times> u32"
  sio_char :: "u32 \<Rightarrow> 's \<Rightarrow> 's"

record ('d, 's) stream =
  upl :: "'d upload"
  rx_ring_buf :: "u8 list"
  stream_batch_buf :: "u8 list"
  shell :: 's

definition on_upl :: "('d upload \<Rightarrow> 'd upload) \<Rightarrow> ('d, 's) stream \<Rightarrow> ('d, 's) stream" where
  "on_upl f s = s\<lparr>upl := f (upl s)\<rparr>"

definition mmio_read :: "('d, 's) stream_io \<Rightarrow> uart_reg \<Rightarrow> ('d, 's) stream \<Rightarrow> u32 \<times> ('d, 's) stream" where
  "mmio_read env r s = (let (v, d) = sio_reg env r (sd (upl s)) in (v, on_upl (sd_update (\<lambda>_. d)) s))"

definition mmio_write :: "('d, 's) stream_io \<Rightarrow> uart_reg \<Rightarrow> u32 \<Rightarrow> ('d, 's) stream \<Rightarrow> ('d, 's) stream" where
  "mmio_write env r v s = on_upl (sd_update (sio_put env r v)) s"

text \<open>The tick count; a difference of two is a checked subtraction.\<close>

definition tick_count :: "('d, 's) stream_io \<Rightarrow> ('d, 's) stream \<Rightarrow> u32" where
  "tick_count env s = io_tick (sio_dev env) (sd (upl s))"

definition sub_u32 :: "u32 \<Rightarrow> u32 \<Rightarrow> u32 option" where
  "sub_u32 x y = (if x < y then None else Some (x - y))"

text \<open>
  What background tasks ask: is a transfer going on? A flag that was not renewed for 60 ticks is
  dropped.
\<close>

definition maintenance_mode_is_active :: "'d kernel_io \<Rightarrow> 'd upload \<Rightarrow> (u32 \<times> 'd upload) option" where
  "maintenance_mode_is_active dev u =
     (if maintenance_mode_active u = 0 then Some (0, u)
      else do {
        idle \<leftarrow> sub_u32 (io_tick dev (sd u)) (maintenance_mode_last_touch_tick u);
        if idle > 60 then Some (0, u\<lparr>maintenance_mode_active := 0\<rparr>) else Some (1, u) })"

section \<open>The ring\<close>

definition KERNELUPLOAD_RX_RING_MASK :: nat where "KERNELUPLOAD_RX_RING_MASK = 4095"

definition kernelupload_rx_ring_push :: "u32 \<Rightarrow> ('d, 's) stream \<Rightarrow> int \<times> ('d, 's) stream" where
  "kernelupload_rx_ring_push c s =
     (let head = unat (up_rx_ring_head (upl s));
          tail = unat (up_rx_ring_tail (upl s));
          next_head = (head + 1) AND KERNELUPLOAD_RX_RING_MASK in
      if next_head = tail then (- 1, s)
      else
        let s = s\<lparr>rx_ring_buf := kbuf_write_byte (rx_ring_buf s) head c\<rparr>
        in (0, on_upl (up_rx_ring_head_update (\<lambda>_. of_nat next_head)) s))"

text \<open>One pass of the loop of \<open>kernelupload_rx_ring_pop_batch\<close>; \<open>None\<close> where the ring is empty.\<close>

definition pop_byte :: "nat \<Rightarrow> ('d, 's) stream \<Rightarrow> ('d, 's) stream option" where
  "pop_byte n s =
     (let head = unat (up_rx_ring_head (upl s));
          tail = unat (up_rx_ring_tail (upl s)) in
      if head = tail then None
      else
        let c = kbuf_read_byte (rx_ring_buf s) tail;
            s = s\<lparr>stream_batch_buf := kbuf_write_byte (stream_batch_buf s) n c\<rparr>;
            next_tail = (tail + 1) AND KERNELUPLOAD_RX_RING_MASK
        in Some (on_upl (up_rx_ring_tail_update (\<lambda>_. of_nat next_tail)) s))"

function kernelupload_rx_ring_pop_batch :: "nat \<Rightarrow> nat \<Rightarrow> ('d, 's) stream \<Rightarrow> nat \<times> ('d, 's) stream" where
  "kernelupload_rx_ring_pop_batch n max_count s =
     (if n < max_count then
        case pop_byte n s of None \<Rightarrow> (n, s) | Some s \<Rightarrow> kernelupload_rx_ring_pop_batch (n + 1) max_count s
      else (n, s))"
  by pat_completeness auto
termination by (relation "measure (\<lambda>(n, max_count, s). max_count - n)") auto

declare kernelupload_rx_ring_pop_batch.simps [simp del]

section \<open>Receiving\<close>

text \<open>One byte of the UART's FIFO, if there is one (\<open>RXFE\<close> is bit 4 of \<open>UART_FR\<close>).\<close>

definition rx_byte :: "('d, 's) stream_io \<Rightarrow> ('d, 's) stream \<Rightarrow> bool \<times> ('d, 's) stream" where
  "rx_byte env s =
     (let (fr, s) = mmio_read env UART_FR s in
      if fr AND 0x10 = 0 then
        let (c, s) = mmio_read env UART_DR s;
            (_, s) = kernelupload_rx_ring_push (c AND 0xFF) s;
            (t, u) = timer_clo (sio_dev env) (upl s)
        in (True, s\<lparr>upl := u\<lparr>up_last_rx_byte_us := t\<rparr>\<rparr>)
      else (False, s))"

text \<open>The loop over the FIFO, which counts the bytes: 32 passes in the handler, 16 in the task.\<close>

fun rx_loop :: "('d, 's) stream_io \<Rightarrow> nat \<Rightarrow> int \<Rightarrow> ('d, 's) stream \<Rightarrow> int \<times> ('d, 's) stream" where
  "rx_loop env 0 k s = (k, s)"
| "rx_loop env (Suc i) k s =
     (let (got, s) = rx_byte env s in rx_loop env i (if got then k + 1 else k) s)"

text \<open>The streaming branch of \<open>irq_dispatch\<close>.\<close>

definition irq_stream :: "('d, 's) stream_io \<Rightarrow> ('d, 's) stream \<Rightarrow> ('d, 's) stream" where
  "irq_stream env s =
     (if up_stream_active (upl s) = 1 then
        let s = on_upl (\<lambda>u. u\<lparr>up_uart_irq_entry_count := up_uart_irq_entry_count u + 1\<rparr>) s;
            s = mmio_write env UART_ICR 0x50 s;
            (_, s) = rx_loop env 32 0 s;
            (fr, s) = mmio_read env UART_FR s;
            s = (if fr AND 0x10 = 0
                 then on_upl (\<lambda>u. u\<lparr>up_fifo_backlog_count := up_fifo_backlog_count u + 1\<rparr>) s else s);
            (ris, s) = mmio_read env UART_RIS s in
        if ris AND 0x400 \<noteq> 0 then
          let s = mmio_write env UART_RSR_ECR 0 s;
              s = mmio_write env UART_ICR 0x400 s
          in on_upl (\<lambda>u. u\<lparr>up_overrun_count := up_overrun_count u + 1\<rparr>) s
        else s
      else s)"

section \<open>Answers\<close>

definition hex_digit :: "nat \<Rightarrow> char" where
  "hex_digit n = char_of (if n < 10 then 48 + n else 55 + n)"

definition uart_put_hex32 :: "u32 \<Rightarrow> string" where
  "uart_put_hex32 v = map (\<lambda>i. hex_digit (unat (drop_bit (28 - 4 * i) v AND 0xF))) [0..<8]"

definition kernelupload_stream_report_ack :: "u32 \<Rightarrow> 'd upload \<Rightarrow> 'd upload" where
  "kernelupload_stream_report_ack len u =
     (let snapshot = kernelupload_ctx_load (up_sha_ctx u);
          digest = kernel_sha256_finalize snapshot;
          pfx = push_bit 24 (ucast (digest ! 0)) OR push_bit 16 (ucast (digest ! 1))
            OR push_bit 8 (ucast (digest ! 2)) OR ucast (digest ! 3)
      in say [Str ''ACK '', Str (uart_put_hex32 len), Str '' '', Str (uart_put_hex32 pfx),
           Str [char_of (13 :: nat), CHR ''\<newline>'']] u)"

definition kernelupload_stream_report_done :: "u32 \<Rightarrow> 'd upload \<Rightarrow> 'd upload" where
  "kernelupload_stream_report_done len u =
     say [Str ''DONE '', Str (uart_put_hex32 len), Str [char_of (13 :: nat), CHR ''\<newline>'']] u"

section \<open>The watchdog\<close>

text \<open>
  The part of \<open>timer_tick_dispatch\<close> that watches a stream: it reports one that has taken in nothing
  for 5 seconds, once. \<open>now\<close> is the timer as read at the tick.
\<close>

definition stream_watchdog :: "('d, 's) stream_io \<Rightarrow> u32 \<Rightarrow> ('d, 's) stream \<Rightarrow> ('d, 's) stream option" where
  "stream_watchdog env now s =
     (let u = upl s; wd_total_len = up_total_len u in
      if up_stream_active u \<noteq> 1 then Some s
      else if wd_total_len \<noteq> up_watchdog_last_total_len u then
        Some (s\<lparr>upl := u\<lparr>up_watchdog_last_total_len := wd_total_len, up_watchdog_last_progress_tick := now,
          up_watchdog_stall_reported := 0\<rparr>\<rparr>)
      else do {
        still \<leftarrow> sub_u32 now (up_watchdog_last_progress_tick u);
        if still > 5000000 \<and> up_watchdog_stall_reported u = 0 then do {
          rxgap \<leftarrow> sub_u32 now (up_last_rx_byte_us u);
          let (task, ceil, prio) = sio_task env (sd u);
          Some (s\<lparr>upl := say [Str ''\<newline>FIQWD STALL total='', Str (uart_put_hex32 wd_total_len), Str '' task='', Str (uart_put_hex32 task),
            Str '' ceil='', Str (uart_put_hex32 ceil), Str '' ep='', Str (uart_put_hex32 prio),
            Str '' irq='', Str (uart_put_hex32 (word_of_int (sio_irq_count env (sd u)))),
            Str '' rxgap='', Str (uart_put_hex32 rxgap), Str '' oerr='', Str (uart_put_hex32 (up_overrun_count u)),
            Str '' ctx='', Str (uart_put_hex32 (word_of_int (sio_ctxsw env (sd u)))),
            Str '' tick='', Str (uart_put_hex32 (tick_count env s)), Str [char_of (13 :: nat), CHR ''\<newline>'']]
            (u\<lparr>up_watchdog_stall_reported := 1\<rparr>)\<rparr>) }
        else Some s })"

section \<open>The streaming branch of the task\<close>

text \<open>No byte came in: after 20 ticks the FIFO is emptied by hand, and if nothing is there the stream is given up.\<close>

definition stall_report :: "('d, 's) stream_io \<Rightarrow> u32 \<Rightarrow> ('d, 's) stream \<Rightarrow> ('d, 's) stream" where
  "stall_report env diag_fr s =
     (let (diag_imsc, s) = mmio_read env UART_IMSC s;
          (diag_ris, s) = mmio_read env UART_RIS s;
          diag_head = up_rx_ring_head (upl s);
          diag_tail = up_rx_ring_tail (upl s);
          (diag_ic_enable2, s) = mmio_read env IC_ENABLE2 s
      in on_upl (say [Str ''\<newline>kernelupload: STALL DIAG fr='', Str (uart_put_hex32 diag_fr),
           Str '' imsc='', Str (uart_put_hex32 diag_imsc), Str '' ris='', Str (uart_put_hex32 diag_ris),
           Str '' ring_head='', Str (uart_put_hex32 diag_head), Str '' ring_tail='', Str (uart_put_hex32 diag_tail),
           Str '' ic_enable2='', Str (uart_put_hex32 diag_ic_enable2), Str '' (uart0 bit25 '',
           Str (if diag_ic_enable2 AND 0x02000000 \<noteq> 0 then ''SET -- controller still enabled''
                else ''CLEAR -- controller-level IRQ disabled, real smoking gun''),
           Str '') irq_count='', Num (sio_irq_count env (sd (upl s))), Str '' ctxsw='', Num (sio_ctxsw env (sd (upl s))),
           Str '' tick='', Str (uart_put_hex32 (tick_count env s)), Str ''\<newline>'']) s)"

definition stream_idle :: "('d, 's) stream_io \<Rightarrow> ('d, 's) stream \<Rightarrow> ('d, 's) stream option" where
  "stream_idle env s =
     do {
       quiet \<leftarrow> sub_u32 (tick_count env s) (up_stream_last_activity_tick (upl s));
       if quiet > 20 then
         (let (diag_fr, s) = mmio_read env UART_FR s;
              (recovered, s) = rx_loop env 16 0 s in
          if recovered > 0 then
            Some (on_upl (say [Str ''\<newline>kernelupload: force-drained '', Num recovered,
                Str '' byte(s) stuck in the FIFO with no pending interrupt -- stream continues\<newline>''])
              (on_upl (maintenance_mode_engage (sio_dev env))
                (on_upl (up_stream_last_activity_tick_update (\<lambda>_. tick_count env s)) s)))
          else
            Some (on_upl (\<lambda>u. say [Str ''\<newline>kernelupload: stream aborted -- no data received for 10s (host connection lost?)\<newline>'']
                (maintenance_mode_disengage (u\<lparr>up_stream_active := 0, up_active := 0\<rparr>)))
              (stall_report env diag_fr s)))
       else Some s }"

text \<open>The bytes after the declared end go to the shell.\<close>

fun shell_chars :: "('d, 's) stream_io \<Rightarrow> u8 list \<Rightarrow> int list \<Rightarrow> 's \<Rightarrow> 's" where
  "shell_chars env batch [] sh = sh"
| "shell_chars env batch (li # lis) sh =
     shell_chars env batch lis (sio_char env (kbuf_read_byte batch (unat (word_of_int li :: u32))) sh)"

text \<open>The answer after a batch: the end, an acknowledgement every 512 bytes, or none.\<close>

definition stream_answer :: "int \<Rightarrow> 'd upload \<Rightarrow> 'd upload option" where
  "stream_answer expected u =
     (if up_stream_active u = 1 then
        let total_now = up_total_len u in
        if uint total_now \<ge> expected then
          Some (kernelupload_stream_report_done total_now (maintenance_mode_disengage (u\<lparr>up_stream_active := 0\<rparr>)))
        else do {
          since \<leftarrow> sub_u32 total_now (up_stream_last_ack_len u);
          if since \<ge> 512 then
            Some (kernelupload_stream_report_ack total_now (u\<lparr>up_stream_last_ack_len := total_now\<rparr>))
          else Some u }
      else Some u)"

definition stream_batch :: "('d, 's) stream_io \<Rightarrow> nat \<Rightarrow> ('d, 's) stream \<Rightarrow> ('d, 's) stream option" where
  "stream_batch env popped s =
     (let s = on_upl (up_stream_last_activity_tick_update (\<lambda>_. tick_count env s)) s;
          s = on_upl (maintenance_mode_engage (sio_dev env)) s;
          total_before = uint (up_total_len (upl s));
          expected = uint (up_stream_expected_len (upl s));
          remaining = expected - total_before;
          consumed = (if int popped < remaining then int popped else remaining) in
      do {
        (accum_status, u) \<leftarrow>
          (if consumed > 0
           then kernelupload_accumulate_bytes (sio_dev env) (stream_batch_buf s) (nat consumed) (upl s)
           else Some (0, upl s));
        let sh = shell_chars env (stream_batch_buf s) [consumed..int popped - 1] (shell s);
        let u = (if accum_status \<noteq> 0
          then say [Str ''\<newline>kernelupload: SD write failed during stream, aborted\<newline>'']
            (maintenance_mode_disengage (u\<lparr>up_stream_active := 0, up_active := 0\<rparr>))
          else u);
        u \<leftarrow> stream_answer expected u;
        Some (s\<lparr>upl := u, shell := sh\<rparr>) })"

text \<open>What is done with a batch of \<open>popped\<close> bytes, and a whole pass of the task's loop.\<close>

definition stream_process :: "('d, 's) stream_io \<Rightarrow> nat \<Rightarrow> ('d, 's) stream \<Rightarrow> ('d, 's) stream option" where
  "stream_process env popped s = (if popped = 0 then stream_idle env s else stream_batch env popped s)"

definition stream_start :: "('d, 's) stream_io \<Rightarrow> ('d, 's) stream \<Rightarrow> ('d, 's) stream" where
  "stream_start env s = on_upl (sd_update (sio_heartbeat env (tick_count env s))) s"

definition stream_pass :: "('d, 's) stream_io \<Rightarrow> ('d, 's) stream \<Rightarrow> ('d, 's) stream option" where
  "stream_pass env s =
     (let (popped, s) = kernelupload_rx_ring_pop_batch 0 512 (stream_start env s) in stream_process env popped s)"

end
