(* ===== verification/Rx_Ring.thy ===== *)
theory Rx_Ring
  imports Kernel_Stream Upload_Proofs
begin

text \<open>
  The contract of a bounded queue with one producer and one consumer, and the ring buffer of the UART as
  a provider of it: whatever the order of pushes and pops, the bytes come out as they went in.
\<close>

section \<open>The contract\<close>

locale bounded_queue =
  fixes content :: "'q \<Rightarrow> 'a list" and ok :: "'q \<Rightarrow> bool"
    and push :: "'a \<Rightarrow> 'q \<Rightarrow> 'q option" and pop :: "'q \<Rightarrow> ('a \<times> 'q) option" and cap :: nat
  assumes push_full: "ok q \<Longrightarrow> push x q = None \<longleftrightarrow> length (content q) = cap"
    and push_content: "ok q \<Longrightarrow> push x q = Some q' \<Longrightarrow> content q' = content q @ [x] \<and> ok q'"
    and pop_empty: "ok q \<Longrightarrow> pop q = None \<longleftrightarrow> content q = []"
    and pop_content: "ok q \<Longrightarrow> pop q = Some (x, q') \<Longrightarrow> content q = x # content q' \<and> ok q'"
begin

text \<open>Any order of the two sides; \<open>ins\<close> are the elements that were accepted, \<open>outs\<close> those taken out.\<close>

inductive interleaved :: "'q \<Rightarrow> 'a list \<Rightarrow> 'a list \<Rightarrow> 'q \<Rightarrow> bool" where
  start: "interleaved q [] [] q"
| pushed: "interleaved q ins outs q1 \<Longrightarrow> push x q1 = Some q2 \<Longrightarrow> interleaved q (ins @ [x]) outs q2"
| popped: "interleaved q ins outs q1 \<Longrightarrow> pop q1 = Some (x, q2) \<Longrightarrow> interleaved q ins (outs @ [x]) q2"

lemma fifo: "interleaved q ins outs q' \<Longrightarrow> ok q \<Longrightarrow> ok q' \<and> content q @ ins = outs @ content q'"
proof (induction rule: interleaved.induct)
  case (pushed q ins outs q1 x q2)
  then have "ok q1" "content q @ ins = outs @ content q1" by simp_all
  with push_content [OF this(1) pushed.hyps(2)] show ?case by simp
next
  case (popped q ins outs q1 x q2)
  then have "ok q1" "content q @ ins = outs @ content q1" by simp_all
  with pop_content [OF this(1) popped.hyps(2)] show ?case by simp
qed simp

lemma all_delivered:
  assumes "interleaved q ins outs q'" and "ok q" and "content q = []" and "pop q' = None"
  shows "outs = ins"
  using fifo [OF assms(1,2)] assms(3,4) pop_empty by simp

end

section \<open>The ring\<close>

lemma ring_mask: "n AND KERNELUPLOAD_RX_RING_MASK = n mod 4096"
proof -
  have "KERNELUPLOAD_RX_RING_MASK = mask 12" by (simp add: KERNELUPLOAD_RX_RING_MASK_def mask_eq_exp_minus_1)
  then show ?thesis using take_bit_eq_mask [of 12 n] by (simp add: take_bit_eq_mod)
qed

definition ring_len :: "nat \<Rightarrow> nat \<Rightarrow> nat" where
  "ring_len head tail = (if tail \<le> head then head - tail else head + 4096 - tail)"

definition ring_bytes :: "('d, 's) stream \<Rightarrow> u8 list" where
  "ring_bytes s = (let head = unat (up_rx_ring_head (upl s)); tail = unat (up_rx_ring_tail (upl s)) in
     map (\<lambda>i. rx_ring_buf s ! ((tail + i) mod 4096)) [0..<ring_len head tail])"

definition ring_ok :: "('d, 's) stream \<Rightarrow> bool" where
  "ring_ok s \<longleftrightarrow> length (rx_ring_buf s) = 4096 \<and> length (stream_batch_buf s) = 512
     \<and> unat (up_rx_ring_head (upl s)) < 4096 \<and> unat (up_rx_ring_tail (upl s)) < 4096"

lemma next_unat: "unat (of_nat ((n + 1) mod 4096) :: u32) = (n + 1) mod 4096"
proof -
  have "(n + 1) mod 4096 < 4096" by simp
  also have "(4096 :: nat) < 2 ^ 32" by simp
  finally show ?thesis by (simp add: unat_of_nat)
qed

lemmas next_unat' [simp] = next_unat [unfolded Suc_eq_plus1 [symmetric]]

lemma ring_next:
  assumes "h < 4096" and "t < 4096"
  shows "(h + 1) mod 4096 = t \<longleftrightarrow> ring_len h t = 4095"
    and "(h + 1) mod 4096 \<noteq> t \<Longrightarrow> ring_len ((h + 1) mod 4096) t = Suc (ring_len h t)"
    and "h \<noteq> t \<Longrightarrow> ring_len h t = Suc (ring_len h ((t + 1) mod 4096))"
    and "ring_len h t = 0 \<longleftrightarrow> h = t" and "(t + ring_len h t) mod 4096 = h" and "ring_len h t < 4096"
proof -
  consider "h = 4095" | "h < 4095" using assms(1) by linarith
  then show "(h + 1) mod 4096 = t \<longleftrightarrow> ring_len h t = 4095"
    "(h + 1) mod 4096 \<noteq> t \<Longrightarrow> ring_len ((h + 1) mod 4096) t = Suc (ring_len h t)"
    using assms(2) by (cases; auto simp: ring_len_def)+
  consider "t = 4095" | "t < 4095" using assms(2) by linarith
  then show "h \<noteq> t \<Longrightarrow> ring_len h t = Suc (ring_len h ((t + 1) mod 4096))"
    using assms(1) by cases (auto simp: ring_len_def)
  show "ring_len h t = 0 \<longleftrightarrow> h = t" "ring_len h t < 4096" using assms by (auto simp: ring_len_def)
  show "(t + ring_len h t) mod 4096 = h" using assms by (auto simp: ring_len_def)
qed

lemma on_upl_simps [simp]:
  "upl (on_upl f s) = f (upl s)" "rx_ring_buf (on_upl f s) = rx_ring_buf s"
  "stream_batch_buf (on_upl f s) = stream_batch_buf s" "shell (on_upl f s) = shell s"
  by (simp_all add: on_upl_def)

lemma push_spec:
  assumes ok: "ring_ok s" and push: "kernelupload_rx_ring_push c s = (r, s')"
  shows "r = 0 \<or> r = - 1" and "r = - 1 \<longleftrightarrow> length (ring_bytes s) = 4095" and "r = - 1 \<Longrightarrow> s' = s"
    and "r = 0 \<Longrightarrow> ring_bytes s' = ring_bytes s @ [ucast c]" and "ring_ok s'"
    and "\<exists>buf head. s' = s\<lparr>rx_ring_buf := buf, upl := (upl s)\<lparr>up_rx_ring_head := head\<rparr>\<rparr>"
proof -
  let ?h = "unat (up_rx_ring_head (upl s))" and ?t = "unat (up_rx_ring_tail (upl s))"
  let ?s = "on_upl (up_rx_ring_head_update (\<lambda>_. of_nat ((?h + 1) mod 4096))) (s\<lparr>rx_ring_buf := (rx_ring_buf s)[?h := ucast c]\<rparr>)"
  have b: "?h < 4096" "?t < 4096" "length (rx_ring_buf s) = 4096" using ok by (simp_all add: ring_ok_def)
  note n = ring_next [OF b(1,2)]
  have run: "(r, s') = (if (?h + 1) mod 4096 = ?t then (- 1, s) else (0, ?s))"
    using push unfolding kernelupload_rx_ring_push_def ring_mask Let_def kbuf_write_byte_def by simp
  show "r = 0 \<or> r = - 1" "r = - 1 \<Longrightarrow> s' = s" using run by (auto split: if_splits)
  have len: "length (ring_bytes s) = ring_len ?h ?t" by (simp add: ring_bytes_def Let_def)
  show "r = - 1 \<longleftrightarrow> length (ring_bytes s) = 4095" using run n(1) len by (auto split: if_splits)
  show "ring_bytes s' = ring_bytes s @ [ucast c]" if "r = 0"
  proof -
    have ne: "(?h + 1) mod 4096 \<noteq> ?t" and s': "s' = ?s" using run that by (auto split: if_splits)
    have neq: "?h \<noteq> (?t + i) mod 4096" if "i < ring_len ?h ?t" for i
    proof -
      have "(?t + i) mod 4096 = (if ?t + i < 4096 then ?t + i else ?t + i - 4096)"
        using that n(6) b(2) by (auto simp: le_mod_geq)
      then show ?thesis using that b(1,2) by (auto simp: ring_len_def split: if_splits)
    qed
    have "map (\<lambda>i. (rx_ring_buf s)[?h := ucast c] ! ((?t + i) mod 4096)) [0..<ring_len ?h ?t] = ring_bytes s"
      using neq by (simp add: ring_bytes_def Let_def)
    then show ?thesis using n(2) [OF ne] n(5) b by (simp add: s' ring_bytes_def next_unat Let_def)
  qed
  show "ring_ok s'" using run ok by (auto simp: ring_ok_def next_unat split: if_splits)
  show "\<exists>buf head. s' = s\<lparr>rx_ring_buf := buf, upl := (upl s)\<lparr>up_rx_ring_head := head\<rparr>\<rparr>"
    using run by (cases s; cases "upl s") (auto simp: on_upl_def split: if_splits)
qed

lemma pop_spec:
  assumes ok: "ring_ok s"
  shows "pop_byte n s = None \<longleftrightarrow> ring_bytes s = []"
    and "pop_byte n s = Some s' \<Longrightarrow> n < 512 \<Longrightarrow> ring_bytes s = stream_batch_buf s' ! n # ring_bytes s'"
    and "pop_byte n s = Some s' \<Longrightarrow> ring_ok s'"
    and "pop_byte n s = Some s' \<Longrightarrow> take n (stream_batch_buf s') = take n (stream_batch_buf s)"
    and "pop_byte n s = Some s' \<Longrightarrow> \<exists>buf tail. s' = s\<lparr>stream_batch_buf := buf, upl := (upl s)\<lparr>up_rx_ring_tail := tail\<rparr>\<rparr>"
proof -
  let ?h = "unat (up_rx_ring_head (upl s))" and ?t = "unat (up_rx_ring_tail (upl s))"
  let ?c = "rx_ring_buf s ! ?t"
  let ?s = "on_upl (up_rx_ring_tail_update (\<lambda>_. of_nat ((?t + 1) mod 4096))) (s\<lparr>stream_batch_buf := (stream_batch_buf s)[n := ?c]\<rparr>)"
  have b: "?h < 4096" "?t < 4096" "length (rx_ring_buf s) = 4096" "length (stream_batch_buf s) = 512"
    using ok by (simp_all add: ring_ok_def)
  note l = ring_next [OF b(1,2)]
  have run: "pop_byte n s = (if ?h = ?t then None else Some ?s)"
    unfolding pop_byte_def ring_mask Let_def kbuf_write_byte_def kbuf_read_byte_def by simp
  show "pop_byte n s = None \<longleftrightarrow> ring_bytes s = []" using run l(4) by (auto simp: ring_bytes_def Let_def)
  show "ring_ok s'" if "pop_byte n s = Some s'"
    using that run ok by (auto simp: ring_ok_def next_unat split: if_splits)
  show "take n (stream_batch_buf s') = take n (stream_batch_buf s)" if "pop_byte n s = Some s'"
    using that run by (auto split: if_splits)
  show "\<exists>buf tail. s' = s\<lparr>stream_batch_buf := buf, upl := (upl s)\<lparr>up_rx_ring_tail := tail\<rparr>\<rparr>" if "pop_byte n s = Some s'"
    using that run by (cases s; cases "upl s") (auto simp: on_upl_def split: if_splits)
  show "ring_bytes s = stream_batch_buf s' ! n # ring_bytes s'" if "pop_byte n s = Some s'" "n < 512"
  proof -
    have ne: "?h \<noteq> ?t" and s': "s' = ?s" using run that(1) by (auto split: if_splits)
    let ?l = "ring_len ?h ((?t + 1) mod 4096)"
    have shift: "(Suc ?t mod 4096 + i) mod 4096 = Suc (?t + i) mod 4096" for i
      using mod_add_left_eq [of "Suc ?t" 4096 i] by simp
    have "ring_bytes s = map (\<lambda>i. rx_ring_buf s ! ((?t + i) mod 4096)) [0..<Suc ?l]" by (simp add: ring_bytes_def l(3) [OF ne] Let_def)
    also have "[0..<Suc ?l] = 0 # map Suc [0..<?l]" by (simp add: map_Suc_upt upt_conv_Cons del: upt_Suc)
    finally have "ring_bytes s = ?c # map (\<lambda>i. rx_ring_buf s ! ((?t + Suc i) mod 4096)) [0..<?l]" using b(2) by (simp add: o_def)
    then show ?thesis using that(2) b(4) by (simp add: s' ring_bytes_def next_unat shift Let_def)
  qed
qed

text \<open>The two operations as those of the contract; the consumer takes the byte from the batch buffer.\<close>

definition ring_push :: "u8 \<Rightarrow> ('d, 's) stream \<Rightarrow> ('d, 's) stream option" where
  "ring_push x s = (let (r, s') = kernelupload_rx_ring_push (ucast x) s in if r = 0 then Some s' else None)"

definition ring_pop :: "('d, 's) stream \<Rightarrow> (u8 \<times> ('d, 's) stream) option" where
  "ring_pop s = map_option (\<lambda>s'. (stream_batch_buf s' ! 0, s')) (pop_byte 0 s)"

interpretation rx_queue: bounded_queue ring_bytes ring_ok ring_push ring_pop 4095
proof
  fix q q' :: "('d, 's) stream" and x :: u8
  assume ok: "ring_ok q"
  obtain r s' where push: "kernelupload_rx_ring_push (ucast x) q = (r, s')" by fastforce
  note p = push_spec [OF ok push]
  show "ring_push x q = None \<longleftrightarrow> length (ring_bytes q) = 4095" using push p(1,2) by (auto simp: ring_push_def)
  show "ring_push x q = Some q' \<Longrightarrow> ring_bytes q' = ring_bytes q @ [x] \<and> ring_ok q'"
    using push p(4,5) by (auto simp: ring_push_def byte_ucast split: if_splits)
  show "ring_pop q = None \<longleftrightarrow> ring_bytes q = []" using pop_spec(1) [OF ok] by (simp add: ring_pop_def)
  show "ring_pop q = Some (x, q') \<Longrightarrow> ring_bytes q = x # ring_bytes q' \<and> ring_ok q'"
    using pop_spec(2,3) [OF ok, of 0] by (auto simp: ring_pop_def)
qed

end
