(* ===== verification/Stream_Proofs.thy ===== *)
theory Stream_Proofs
  imports Rx_Ring Upload_Types "HOL-Library.Sublist"
begin

text \<open>
  The stream as two processes, the interrupt handler and the task, that share the ring: in every order
  of their steps each byte that the ring accepted is taken in once, in its place.
\<close>

section \<open>What the steps leave alone\<close>

text \<open>
  \<open>wire d\<close> are the bytes that the UART hands out from the state \<open>d\<close> on: the flag says that one is there, a read of the
  data register takes it.
\<close>

definition uart_sound :: "('d, 's) stream_io \<Rightarrow> ('d \<Rightarrow> u8 list) \<Rightarrow> bool" where
  "uart_sound env wire \<longleftrightarrow> (\<forall>d v d'. sio_reg env UART_FR d = (v, d') \<longrightarrow> v AND 0x10 = 0 \<longrightarrow> wire d \<noteq> [])
     \<and> (\<forall>d v d'. sio_reg env UART_DR d = (v, d') \<longrightarrow> wire d \<noteq> [] \<longrightarrow> wire d = ucast v # wire d')
     \<and> (\<forall>r d. r \<noteq> UART_DR \<longrightarrow> wire (snd (sio_reg env r d)) = wire d) \<and> (\<forall>r v d. wire (sio_put env r v d) = wire d)
     \<and> (\<forall>t d. wire (sio_heartbeat env t d) = wire d) \<and> (\<forall>d. wire (snd (io_clo (sio_dev env) d)) = wire d)
     \<and> (\<forall>b out d. wire (snd (io_write (sio_dev env) b out d)) = wire d)"

definition stream_sound :: "('d, 's) stream_io \<Rightarrow> ('d \<Rightarrow> u64 \<Rightarrow> u8 list) \<Rightarrow> ('d \<Rightarrow> u8 list) \<Rightarrow> bool" where
  "stream_sound env view wire \<longleftrightarrow> sd_sound (sio_dev env) view \<and> (\<forall>r d. view (snd (sio_reg env r d)) = view d)
     \<and> (\<forall>r v d. view (sio_put env r v d) = view d) \<and> (\<forall>t d. view (sio_heartbeat env t d) = view d) \<and> uart_sound env wire"

text \<open>The tick count does not go back (its 32 bits of half seconds last for 68 years).\<close>

definition ticks_forward :: "('d, 's) stream_io \<Rightarrow> bool" where
  "ticks_forward env \<longleftrightarrow> (let later = \<lambda>d d'. io_tick (sio_dev env) d \<le> io_tick (sio_dev env) d' in
     (\<forall>r d. later d (snd (sio_reg env r d))) \<and> (\<forall>r v d. later d (sio_put env r v d))
     \<and> (\<forall>t d. later d (sio_heartbeat env t d)) \<and> (\<forall>d. later d (snd (io_clo (sio_dev env) d)))
     \<and> (\<forall>b out d. later d (snd (io_write (sio_dev env) b out d))))"

text \<open>Time goes on and the card stays as it is.\<close>

definition device_on :: "('d, 's) stream_io \<Rightarrow> ('d \<Rightarrow> u64 \<Rightarrow> u8 list) \<Rightarrow> ('d \<Rightarrow> u8 list) \<Rightarrow> 'd \<Rightarrow> 'd \<Rightarrow> bool" where
  "device_on env view wire d d' \<longleftrightarrow> view d' = view d \<and> wire d' = wire d
     \<and> (ticks_forward env \<longrightarrow> io_tick (sio_dev env) d \<le> io_tick (sio_dev env) d')"

definition active_lately :: "('d, 's) stream_io \<Rightarrow> 'd upload \<Rightarrow> bool" where
  "active_lately env u \<longleftrightarrow> up_stream_last_activity_tick u \<le> io_tick (sio_dev env) (sd u)"

definition kept :: "('d, 's) stream_io \<Rightarrow> ('d \<Rightarrow> u64 \<Rightarrow> u8 list) \<Rightarrow> 'd upload \<Rightarrow> 'd upload \<Rightarrow> bool" where
  "kept env view u u' \<longleftrightarrow> view (sd u') = view (sd u) \<and> up_block_buf u' = up_block_buf u \<and> up_sha_ctx u' = up_sha_ctx u
     \<and> up_total_len u' = up_total_len u \<and> up_target_slot u' = up_target_slot u
     \<and> up_chunk_base_block_offset u' = up_chunk_base_block_offset u \<and> up_active u' = up_active u
     \<and> up_stream_active u' = up_stream_active u \<and> up_stream_expected_len u' = up_stream_expected_len u
     \<and> up_stream_last_ack_len u' = up_stream_last_ack_len u \<and> sizes u' = sizes u
     \<and> (ticks_forward env \<longrightarrow> active_lately env u \<longrightarrow> active_lately env u')"

lemma kept_refl [simp]: "kept env view u u"
  by (simp add: kept_def)

lemma kept_trans: "kept env view u v \<Longrightarrow> kept env view v w \<Longrightarrow> kept env view u w"
  by (simp add: kept_def)

lemma kept_holds: "kept env view u u' \<Longrightarrow> upload_holds view msg u' = upload_holds view msg u"
  by (simp add: kept_def upload_holds_def taken_in_def)

lemma kept_fields [simp]:
  "kept env view u (u'\<lparr>up_rx_ring_head := w\<rparr>) = kept env view u u'" "kept env view u (u'\<lparr>up_rx_ring_tail := w\<rparr>) = kept env view u u'"
  "kept env view u (u'\<lparr>up_last_rx_byte_us := w\<rparr>) = kept env view u u'" "kept env view u (u'\<lparr>up_overrun_count := w\<rparr>) = kept env view u u'"
  "kept env view u (u'\<lparr>up_fifo_backlog_count := w\<rparr>) = kept env view u u'"
  "kept env view u (u'\<lparr>up_uart_irq_entry_count := w\<rparr>) = kept env view u u'"
  "kept env view u (maintenance_mode_engage dev u') = kept env view u u'"
  "kept env view u (maintenance_mode_disengage u') = kept env view u u'" "kept env view u (say os u') = kept env view u u'"
  by (simp_all add: kept_def active_lately_def sizes_def maintenance_mode_engage_def maintenance_mode_disengage_def say_def)

lemma mode_sd [simp]: "sd (maintenance_mode_engage dev u) = sd u" "sd (maintenance_mode_disengage u) = sd u"
  by (simp_all add: maintenance_mode_engage_def maintenance_mode_disengage_def)

lemma ring_fields [simp]:
  "up_rx_ring_head (say os u) = up_rx_ring_head u" "up_rx_ring_tail (say os u) = up_rx_ring_tail u"
  "up_rx_ring_head (maintenance_mode_engage dev u) = up_rx_ring_head u" "up_rx_ring_tail (maintenance_mode_engage dev u) = up_rx_ring_tail u"
  "up_rx_ring_head (maintenance_mode_disengage u) = up_rx_ring_head u" "up_rx_ring_tail (maintenance_mode_disengage u) = up_rx_ring_tail u"
  by (simp_all add: say_def maintenance_mode_engage_def maintenance_mode_disengage_def)

text \<open>\<open>gained\<close>: the bytes that the ring has more of.\<close>

definition gained :: "('d, 's) stream \<Rightarrow> ('d, 's) stream \<Rightarrow> u8 list" where
  "gained s s' = drop (length (ring_bytes s)) (ring_bytes s')"

text \<open>
  Steps that put bytes into the ring and do nothing else that counts; a byte is lost only if the ring ends up full.
\<close>

definition only_receives :: "('d, 's) stream_io \<Rightarrow> ('d \<Rightarrow> u64 \<Rightarrow> u8 list) \<Rightarrow> ('d \<Rightarrow> u8 list) \<Rightarrow> ('d, 's) stream \<Rightarrow> ('d, 's) stream \<Rightarrow> bool" where
  "only_receives env view wire s s' \<longleftrightarrow> kept env view (upl s) (upl s') \<and> stream_batch_buf s' = stream_batch_buf s \<and> ring_ok s'
     \<and> up_rx_ring_tail (upl s') = up_rx_ring_tail (upl s)
     \<and> (\<exists>bs. ring_bytes s' = ring_bytes s @ bs \<and> subseq (bs @ wire (sd (upl s'))) (wire (sd (upl s)))
         \<and> (length (ring_bytes s') < 4095 \<longrightarrow> bs @ wire (sd (upl s')) = wire (sd (upl s))))"

lemma receives_refl: "ring_ok s \<Longrightarrow> only_receives env view wire s s"
  by (simp add: only_receives_def)

lemma receives_trans:
  assumes "only_receives env view wire s s1" and "only_receives env view wire s1 s2"
  shows "only_receives env view wire s s2"
proof -
  obtain bs cs where b: "ring_bytes s1 = ring_bytes s @ bs" "subseq (bs @ wire (sd (upl s1))) (wire (sd (upl s)))"
      "length (ring_bytes s1) < 4095 \<Longrightarrow> bs @ wire (sd (upl s1)) = wire (sd (upl s))"
      and c: "ring_bytes s2 = ring_bytes s1 @ cs" "subseq (cs @ wire (sd (upl s2))) (wire (sd (upl s1)))"
      "length (ring_bytes s2) < 4095 \<Longrightarrow> cs @ wire (sd (upl s2)) = wire (sd (upl s1))"
    using assms by (auto simp: only_receives_def)
  have "subseq (bs @ cs @ wire (sd (upl s2))) (wire (sd (upl s)))" using b(2) c(2) by (meson subseq_append' subseq_order.trans)
  moreover have "bs @ cs @ wire (sd (upl s2)) = wire (sd (upl s))" if "length (ring_bytes s2) < 4095"
    using that b(3) c(1,3) by simp
  ultimately show ?thesis using assms b(1) c(1) kept_trans [of env view "upl s" "upl s1" "upl s2"] by (auto simp: only_receives_def)
qed

lemma receives_gained: "only_receives env view wire s s' \<Longrightarrow> ring_bytes s' = ring_bytes s @ gained s s'"
  by (auto simp: only_receives_def gained_def)

lemma receives_lossless:
  "only_receives env view wire s s' \<Longrightarrow> length (ring_bytes s') < 4095 \<Longrightarrow> gained s s' @ wire (sd (upl s')) = wire (sd (upl s))"
  by (auto simp: only_receives_def gained_def)

lemma receives_wire: "only_receives env view wire s s' \<Longrightarrow> subseq (gained s s' @ wire (sd (upl s'))) (wire (sd (upl s)))"
  by (auto simp: only_receives_def gained_def)

lemma stream_soundD:
  assumes "stream_sound env view wire"
  shows "sd_sound (sio_dev env) view" "r \<noteq> UART_DR \<Longrightarrow> device_on env view wire d (snd (sio_reg env r d))" "device_on env view wire d (sio_put env r v d)"
    "device_on env view wire d (sio_heartbeat env t d)" "device_on env view wire d (snd (io_clo (sio_dev env) d))"
  using assms sd_soundD(2) by (auto simp: stream_sound_def uart_sound_def device_on_def ticks_forward_def Let_def)

lemma kept_sd:
  assumes "kept env view u u'" and "device_on env view wire (sd u') d"
  shows "kept env view u (u'\<lparr>sd := d\<rparr>)"
  using assms by (auto simp: kept_def device_on_def active_lately_def sizes_def intro: order_trans)

text \<open>A change of the variables outside of the ring.\<close>

lemma receives_upl:
  assumes "ring_ok s" and "kept env view (upl s) u" and "up_rx_ring_head u = up_rx_ring_head (upl s)"
    and "up_rx_ring_tail u = up_rx_ring_tail (upl s)" and "wire (sd u) = wire (sd (upl s))"
  shows "only_receives env view wire s (s\<lparr>upl := u\<rparr>)"
  using assms by (simp add: only_receives_def ring_ok_def ring_bytes_def Let_def)

lemma receives_sd:
  assumes "ring_ok s" and "device_on env view wire (sd (upl s)) d"
  shows "only_receives env view wire s (on_upl (sd_update (\<lambda>_. d)) s)"
  using receives_upl [OF assms(1) kept_sd [OF kept_refl assms(2)]] assms(2) by (simp add: on_upl_def device_on_def)

lemma not_data: "UART_FR \<noteq> UART_DR" "UART_RIS \<noteq> UART_DR" "UART_IMSC \<noteq> UART_DR" "IC_ENABLE2 \<noteq> UART_DR"
  by simp_all

lemma read_receives:
  assumes "stream_sound env view wire" and "ring_ok s" and "mmio_read env r s = (v, s')" and "r \<noteq> UART_DR"
  shows "only_receives env view wire s s'"
proof -
  obtain d where "sio_reg env r (sd (upl s)) = (v, d)" "s' = on_upl (sd_update (\<lambda>_. d)) s"
    using assms(3) by (auto simp: mmio_read_def split: prod.splits)
  then show ?thesis using receives_sd [OF assms(2)] stream_soundD(2) [OF assms(1,4)] by (metis snd_conv)
qed

lemma write_receives:
  assumes "stream_sound env view wire" and "ring_ok s"
  shows "only_receives env view wire s (mmio_write env r v s)"
proof -
  have "mmio_write env r v s = on_upl (sd_update (\<lambda>_. sio_put env r v (sd (upl s)))) s"
    by (cases "upl s") (simp add: mmio_write_def on_upl_def)
  then show ?thesis using receives_sd [OF assms(2)] stream_soundD(3) [OF assms(1)] by simp
qed

lemma receives_okD: "only_receives env view wire s s' \<Longrightarrow> ring_ok s'"
  by (simp add: only_receives_def)

text \<open>A byte read off the wire is pushed, or dropped if the ring is full.\<close>

lemma take_receives:
  assumes sound: "stream_sound env view wire" and ok: "ring_ok s" and some: "wire (sd (upl s)) \<noteq> []"
    and read: "mmio_read env UART_DR s = (c, s1)" and push: "kernelupload_rx_ring_push (c AND 0xFF) s1 = (x, s2)"
  shows "only_receives env view wire s s2"
proof -
  obtain d where d: "sio_reg env UART_DR (sd (upl s)) = (c, d)" "s1 = on_upl (sd_update (\<lambda>_. d)) s"
    using read by (auto simp: mmio_read_def split: prod.splits)
  have wire: "wire (sd (upl s)) = ucast c # wire d" and view: "view d = view (sd (upl s))"
    and tick: "ticks_forward env \<longrightarrow> io_tick (sio_dev env) (sd (upl s)) \<le> io_tick (sio_dev env) d"
    using sound d(1) some by (auto simp: stream_sound_def uart_sound_def ticks_forward_def Let_def) (metis snd_conv)+
  have ok1: "ring_ok s1" and rb: "ring_bytes s1 = ring_bytes s" using ok by (simp_all add: d(2) ring_ok_def ring_bytes_def)
  note p = push_spec [OF ok1 push]
  have "kept env view (upl s) (upl s1)" using view tick by (auto simp: d(2) kept_def active_lately_def sizes_def intro: order_trans)
  moreover obtain buf head where "s2 = s1\<lparr>rx_ring_buf := buf, upl := (upl s1)\<lparr>up_rx_ring_head := head\<rparr>\<rparr>" using p(6) by blast
  ultimately have k: "kept env view (upl s) (upl s2)" "stream_batch_buf s2 = stream_batch_buf s" "sd (upl s2) = d"
      "up_rx_ring_tail (upl s2) = up_rx_ring_tail (upl s)"
    by (simp_all add: d(2))
  show ?thesis using p(1,2,3,4,5) k rb wire ucast_low_byte [of c] by (cases "x = 0") (auto simp: only_receives_def)
qed

lemma rx_byte_receives:
  assumes sound: "stream_sound env view wire" and ok: "ring_ok s" and run: "rx_byte env s = (got, s')"
  shows "only_receives env view wire s s'"
proof -
  obtain fr s1 where fr: "mmio_read env UART_FR s = (fr, s1)" by fastforce
  have r1: "only_receives env view wire s s1" by (rule read_receives [OF sound ok fr not_data(1)])
  obtain c s2 where c: "mmio_read env UART_DR s1 = (c, s2)" by fastforce
  obtain x s3 where push: "kernelupload_rx_ring_push (c AND 0xFF) s2 = (x, s3)" by fastforce
  obtain t d where clo: "io_clo (sio_dev env) (sd (upl s3)) = (t, d)" by fastforce
  let ?u = "upl s3\<lparr>sd := d, up_last_rx_byte_us := t\<rparr>"
  show ?thesis
  proof (cases "fr AND 0x10 = 0")
    case True
    have "wire (sd (upl s)) \<noteq> [] \<and> wire (sd (upl s1)) = wire (sd (upl s))"
      using True sound fr by (auto simp: mmio_read_def stream_sound_def uart_sound_def split: prod.splits) (metis snd_conv uart_reg.distinct)
    then have r3: "only_receives env view wire s1 s3" using take_receives [OF sound receives_okD [OF r1] _ c push] by simp
    have on: "device_on env view wire (sd (upl s3)) d" using stream_soundD(5) [OF sound] clo by (metis snd_conv)
    then have "only_receives env view wire s3 (s3\<lparr>upl := ?u\<rparr>)"
      using receives_upl [OF receives_okD [OF r3], of env view ?u] kept_sd [OF kept_refl, of env view wire "upl s3" d]
      by (simp add: device_on_def)
    moreover have "s' = s3\<lparr>upl := ?u\<rparr>" using True run fr c push clo by (simp add: rx_byte_def timer_clo_def)
    ultimately show ?thesis using receives_trans [OF receives_trans [OF r1 r3]] by simp
  next
    case False
    then show ?thesis using run fr r1 by (simp add: rx_byte_def)
  qed
qed

lemma rx_loop_receives:
  "stream_sound env view wire \<Longrightarrow> ring_ok s \<Longrightarrow> rx_loop env i k s = (k', s') \<Longrightarrow> only_receives env view wire s s'"
proof (induction i arbitrary: k s)
  case (Suc i)
  obtain got s1 where one: "rx_byte env s = (got, s1)" by fastforce
  note r = rx_byte_receives [OF Suc.prems(1,2) one]
  from Suc.IH [OF Suc.prems(1) receives_okD [OF r]] Suc.prems(3) one show ?case
    by (auto intro: receives_trans [OF r])
qed (auto intro: receives_refl)

lemma counter_receives:
  assumes "ring_ok s" and "\<And>u. kept env view u (f u) \<and> sd (f u) = sd u \<and> up_rx_ring_head (f u) = up_rx_ring_head u \<and> up_rx_ring_tail (f u) = up_rx_ring_tail u"
  shows "only_receives env view wire s (on_upl f s)"
  using receives_upl [OF assms(1), of env view "f (upl s)"] assms(2) by (simp add: on_upl_def)

lemma irq_receives:
  assumes sound: "stream_sound env view wire" and ok: "ring_ok s"
  shows "only_receives env view wire s (irq_stream env s)"
proof (cases "up_stream_active (upl s) = 1")
  case True
  let ?s1 = "on_upl (\<lambda>u. u\<lparr>up_uart_irq_entry_count := up_uart_irq_entry_count u + 1\<rparr>) s"
  let ?s2 = "mmio_write env UART_ICR 0x50 ?s1"
  have r1: "only_receives env view wire s ?s1" by (rule counter_receives [OF ok]) simp
  have r2: "only_receives env view wire s ?s2" by (rule receives_trans [OF r1 write_receives [OF sound receives_okD [OF r1]]])
  obtain k s3 where loop: "rx_loop env 32 0 ?s2 = (k, s3)" by fastforce
  have r3: "only_receives env view wire s s3" by (rule receives_trans [OF r2 rx_loop_receives [OF sound receives_okD [OF r2] loop]])
  obtain fr s4 where fr: "mmio_read env UART_FR s3 = (fr, s4)" by fastforce
  have r4: "only_receives env view wire s s4" by (rule receives_trans [OF r3 read_receives [OF sound receives_okD [OF r3] fr not_data(1)]])
  let ?s5 = "if fr AND 0x10 = 0 then on_upl (\<lambda>u. u\<lparr>up_fifo_backlog_count := up_fifo_backlog_count u + 1\<rparr>) s4 else s4"
  have "only_receives env view wire s4 (on_upl (\<lambda>u. u\<lparr>up_fifo_backlog_count := up_fifo_backlog_count u + 1\<rparr>) s4)"
    by (rule counter_receives [OF receives_okD [OF r4]]) simp
  then have r5: "only_receives env view wire s ?s5" using r4 receives_trans [OF r4] by simp
  obtain ris s6 where ris: "mmio_read env UART_RIS ?s5 = (ris, s6)" by fastforce
  have r6: "only_receives env view wire s s6" by (rule receives_trans [OF r5 read_receives [OF sound receives_okD [OF r5] ris not_data(2)]])
  let ?s7 = "mmio_write env UART_RSR_ECR 0 s6" and ?s8 = "mmio_write env UART_ICR 0x400 (mmio_write env UART_RSR_ECR 0 s6)"
  have r7: "only_receives env view wire s ?s7" by (rule receives_trans [OF r6 write_receives [OF sound receives_okD [OF r6]]])
  have r8: "only_receives env view wire s ?s8" by (rule receives_trans [OF r7 write_receives [OF sound receives_okD [OF r7]]])
  have "only_receives env view wire ?s8 (on_upl (\<lambda>u. u\<lparr>up_overrun_count := up_overrun_count u + 1\<rparr>) ?s8)"
    by (rule counter_receives [OF receives_okD [OF r8]]) simp
  then show ?thesis
    using True loop fr ris r6 receives_trans [OF r8] by (simp add: irq_stream_def Let_def)
next
  case False
  then show ?thesis using receives_refl [OF ok] by (simp add: irq_stream_def)
qed

lemma watchdog_receives:
  assumes ok: "ring_ok s" and run: "stream_watchdog env now s = Some s'"
  shows "only_receives env view wire s s'" and "ring_bytes s' = ring_bytes s"
proof -
  obtain task ceil prio where t: "sio_task env (sd (upl s)) = (task, ceil, prio)" by (metis prod_cases3)
  obtain u where s': "s' = s\<lparr>upl := u\<rparr>" and u: "kept env view (upl s) u" "up_rx_ring_head u = up_rx_ring_head (upl s)"
      "up_rx_ring_tail u = up_rx_ring_tail (upl s)" "sd u = sd (upl s)"
  proof
    show "s' = s\<lparr>upl := upl s'\<rparr>"
      using run by (auto simp: stream_watchdog_def Let_def bind_eq_Some_conv t split: if_splits)
    show "kept env view (upl s) (upl s')" "up_rx_ring_head (upl s') = up_rx_ring_head (upl s)"
      "up_rx_ring_tail (upl s') = up_rx_ring_tail (upl s)" "sd (upl s') = sd (upl s)"
      using run by (auto simp: stream_watchdog_def Let_def bind_eq_Some_conv t say_def kept_def active_lately_def sizes_def split: if_splits)
  qed
  show "only_receives env view wire s s'" unfolding s' using receives_upl [OF ok u(1-3)] u(4) by simp
  show "ring_bytes s' = ring_bytes s" using u by (simp add: s' ring_bytes_def)
qed

text \<open>
  The task loads head, tail and the byte, then stores the new tail; interrupts in between change
  nothing: its stores are those of a pop after them.
\<close>

lemma pop_atomic:
  assumes ok: "ring_ok s" and rec: "only_receives env view wire s s'" and some: "pop_byte n s \<noteq> None"
  defines "tail \<equiv> unat (up_rx_ring_tail (upl s))"
  shows "pop_byte n s' = Some (on_upl (up_rx_ring_tail_update (\<lambda>_. of_nat ((tail + 1) AND KERNELUPLOAD_RX_RING_MASK)))
    (s'\<lparr>stream_batch_buf := kbuf_write_byte (stream_batch_buf s') n (kbuf_read_byte (rx_ring_buf s) tail)\<rparr>))"
proof -
  have ok': "ring_ok s'" and tail: "up_rx_ring_tail (upl s') = up_rx_ring_tail (upl s)" using rec by (simp_all add: only_receives_def)
  have first: "\<exists>bs. ring_bytes q = rx_ring_buf q ! unat (up_rx_ring_tail (upl q)) # bs" if "ring_ok q" "ring_bytes q \<noteq> []" for q :: "('a, 'b) stream"
  proof -
    let ?h = "unat (up_rx_ring_head (upl q))" and ?t = "unat (up_rx_ring_tail (upl q))"
    have "ring_len ?h ?t \<noteq> 0" "?t < 4096" using that by (auto simp: ring_bytes_def ring_ok_def Let_def)
    then show ?thesis by (cases "ring_len ?h ?t") (simp_all add: ring_bytes_def Let_def upt_conv_Cons del: upt_Suc)
  qed
  have ne: "ring_bytes s \<noteq> []" using some pop_spec(1) [OF ok, of n] by simp
  moreover obtain bs where "ring_bytes s' = ring_bytes s @ bs" using rec by (auto simp: only_receives_def)
  ultimately have "rx_ring_buf s' ! tail = rx_ring_buf s ! tail" and "ring_bytes s' \<noteq> []"
    using first [OF ok] first [OF ok'] tail by (auto simp: tail_def)
  then show ?thesis using pop_spec(1) [OF ok', of n]
    by (auto simp: pop_byte_def Let_def kbuf_read_byte_def tail tail_def [symmetric] split: if_splits)
qed

end
