(* ===== verification/Stream_Run.thy ===== *)
theory Stream_Run
  imports Stream_Proofs
begin

text \<open>
  The steps of the task, each of which the interrupt handler may precede, and what they keep between
  them: the bytes taken in, the batch and the ring are together what the ring accepted.
\<close>

section \<open>Taking in a batch\<close>

lemma touched_stream:
  assumes "touched u u'"
  shows "up_stream_active u' = up_stream_active u" "up_stream_expected_len u' = up_stream_expected_len u"
    "up_stream_last_ack_len u' = up_stream_last_ack_len u" "up_stream_last_activity_tick u' = up_stream_last_activity_tick u"
    "up_rx_ring_head u' = up_rx_ring_head u" "up_rx_ring_tail u' = up_rx_ring_tail u"
  using assms by (cases u; cases u'; simp add: touched_def)+

text \<open>What taking in bytes does not change, whether the card fails or not.\<close>

definition fed_from :: "'d upload \<Rightarrow> 'd upload \<Rightarrow> bool" where
  "fed_from u u' \<longleftrightarrow> up_target_slot u' = up_target_slot u \<and> up_chunk_base_block_offset u' = up_chunk_base_block_offset u
     \<and> up_active u' = up_active u \<and> up_stream_active u' = up_stream_active u
     \<and> up_stream_expected_len u' = up_stream_expected_len u \<and> up_stream_last_ack_len u' = up_stream_last_ack_len u
     \<and> up_stream_last_activity_tick u' = up_stream_last_activity_tick u
     \<and> up_rx_ring_head u' = up_rx_ring_head u \<and> up_rx_ring_tail u' = up_rx_ring_tail u \<and> sizes u' = sizes u"

lemma accumulate_fed:
  assumes "kernelupload_accumulate_bytes dev src count u = Some (st, u')"
  shows "fed_from u u'"
proof -
  obtain ok ctx tot u1 where loop: "accumulate_loop dev (slot_base_block (up_target_slot u) + ucast (up_chunk_base_block_offset u))
      (map (kbuf_read_byte src) [0..<count]) (kernelupload_ctx_load (up_sha_ctx u)) (unat (up_total_len u)) u = Some (ok, ctx, tot, u1)"
    and u': "u' = u1\<lparr>up_total_len := of_nat tot\<rparr>
      \<or> u' = u1\<lparr>up_sha_ctx := kernelupload_ctx_store ctx (up_sha_ctx u1), up_total_len := of_nat tot\<rparr>"
    using assms by (auto simp: kernelupload_accumulate_bytes_def Let_def bind_eq_Some_conv split: if_splits)
  note f = touchedD [OF accumulate_frame [OF loop]] touched_stream [OF accumulate_frame [OF loop]]
  from u' f show ?thesis using accumulate_sizes [OF assms] by (auto simp: fed_from_def)
qed

lemma accumulate_elsewhere:
  assumes "sd_sound dev view" and "upload_holds view msg u" and "kernelupload_accumulate_bytes dev src count u = Some (st, u')"
    and "\<forall>k < (length msg + count) div 512. x \<noteq> upload_base u + of_nat k"
  shows "view (sd u') x = view (sd u) x"
proof -
  obtain ok ctx tot u1 where loop: "accumulate_loop dev (upload_base u)
      (map (kbuf_read_byte src) [0..<count]) (kernelupload_ctx_load (up_sha_ctx u)) (unat (up_total_len u)) u = Some (ok, ctx, tot, u1)"
    and u': "sd u' = sd u1"
    using assms(3) by (auto simp: kernelupload_accumulate_bytes_def upload_base_def Let_def bind_eq_Some_conv split: if_splits)
  have "unat (up_total_len u) = length msg" using assms(2) by (simp add: upload_holds_def unat_of_nat)
  with accumulate_others [OF assms(1) loop, of x] assms(4) show ?thesis by (simp add: u')
qed

lemma accumulate_status:
  assumes "kernelupload_accumulate_bytes dev src count u = Some (st, u')"
  shows "st = 0 \<or> st = - 1"
  using assms by (auto simp: kernelupload_accumulate_bytes_def Let_def bind_eq_Some_conv split: if_splits)

text \<open>A relation of the states of the device that clock and card respect.\<close>

definition steps_on :: "'d kernel_io \<Rightarrow> ('d \<Rightarrow> 'd \<Rightarrow> bool) \<Rightarrow> bool" where
  "steps_on dev R \<longleftrightarrow> reflp R \<and> transp R \<and> (\<forall>d. R d (snd (io_clo dev d))) \<and> (\<forall>b out d. R d (snd (io_write dev b out d)))"

lemma timed_write_steps:
  assumes on: "steps_on dev R" and run: "timed_write dev b u = Some (s, u')"
  shows "R (sd u) (sd u')"
proof -
  obtain d0 d1 w where d: "d0 = snd (io_clo dev (sd u))" "io_write dev b (up_block_buf u) d0 = (s, d1)"
      "u' = u\<lparr>sd := snd (io_clo dev d1), up_sd_write_worst_us := w\<rparr>"
    using timed_writeE [OF run] by metis
  have "R (sd u) d0" "R d0 d1" "R d1 (sd u')" using on d by (auto simp: steps_on_def) (metis snd_conv)
  with on show ?thesis unfolding steps_on_def transp_def by blast
qed

lemma accumulate_steps:
  assumes on: "steps_on dev R" and "accumulate_loop dev base bs ctx tot u = Some (ok, ctx', tot', u')"
  shows "R (sd u) (sd u')"
  using assms(2)
proof (induction bs arbitrary: ctx tot u)
  case Nil
  then show ?case using on by (simp add: steps_on_def reflp_def)
next
  case (Cons b bs)
  let ?u1 = "u\<lparr>up_block_buf := kbuf_write_byte (up_block_buf u) (tot mod 512) b\<rparr>"
  show ?case
  proof (cases "Suc tot mod 512 = 0")
    case True
    with Cons.prems obtain s u2 where w: "timed_write dev (base + of_nat (tot div 512)) ?u1 = Some (s, u2)"
        and rest: "u2 = u' \<or> accumulate_loop dev base bs (hash_block ctx (up_block_buf u2) 512) (Suc tot) u2
          = Some (ok, ctx', tot', u')"
      unfolding accumulate_step by (auto simp: Let_def bind_eq_Some_conv split: if_splits)
    have "R (sd u) (sd u2)" using timed_write_steps [OF on w] by simp
    with rest Cons.IH [of _ _ u2] on show ?thesis unfolding steps_on_def transp_def by blast
  next
    case False
    then have "accumulate_loop dev base bs ctx (Suc tot) ?u1 = Some (ok, ctx', tot', u')"
      using Cons.prems unfolding accumulate_step by (simp add: Let_def)
    from Cons.IH [OF this] show ?thesis by simp
  qed
qed

lemma accumulate_bytes_steps:
  assumes "steps_on dev R" and "kernelupload_accumulate_bytes dev src count u = Some (st, u')"
  shows "R (sd u) (sd u')"
proof -
  obtain base bs ctx tot ok ctx' tot' u1 where "accumulate_loop dev base bs ctx tot u = Some (ok, ctx', tot', u1)" "sd u' = sd u1"
    using assms(2) by (auto simp: kernelupload_accumulate_bytes_def Let_def bind_eq_Some_conv split: if_splits)
  then show ?thesis using accumulate_steps [OF assms(1)] by metis
qed

section \<open>The processes\<close>

text \<open>
  \<open>acc\<close> is what the ring accepted so far; the last argument is \<open>Some n\<close> while the task is in
  \<open>kernelupload_rx_ring_pop_batch\<close> with \<open>n\<close> bytes popped. An interrupt of the UART or a tick of the timer can come between
  any two steps (within a pop: \<open>pop_atomic\<close>); the work on a batch is one step, which does not touch the ring.
\<close>

inductive stream_run :: "('d, 's) stream_io \<Rightarrow> ('d, 's) stream \<Rightarrow> u8 list \<Rightarrow> ('d, 's) stream \<Rightarrow> nat option \<Rightarrow> bool"
  for env s0 where
  start: "stream_run env s0 [] s0 None"
| interrupt: "stream_run env s0 acc s ph \<Longrightarrow> irq_stream env s = s' \<Longrightarrow> stream_run env s0 (acc @ gained s s') s' ph"
| tick: "stream_run env s0 acc s ph \<Longrightarrow> stream_watchdog env now s = Some s' \<Longrightarrow> stream_run env s0 acc s' ph"
| enter: "stream_run env s0 acc s None \<Longrightarrow> up_stream_active (upl s) = 1 \<Longrightarrow> stream_start env s = s'
    \<Longrightarrow> stream_run env s0 acc s' (Some 0)"
| pop: "stream_run env s0 acc s (Some n) \<Longrightarrow> n < 512 \<Longrightarrow> pop_byte n s = Some s' \<Longrightarrow> stream_run env s0 acc s' (Some (n + 1))"
| process: "stream_run env s0 acc s (Some n) \<Longrightarrow> n = 512 \<or> pop_byte n s = None \<Longrightarrow> stream_process env n s = Some s'
    \<Longrightarrow> stream_run env s0 (acc @ gained s s') s' None"

text \<open>Without interrupts the steps are a pass of the task's loop.\<close>

lemma pop_batch_run:
  assumes "stream_run env s0 acc s (Some n)" and "n \<le> 512" and "kernelupload_rx_ring_pop_batch n 512 s = (popped, s')"
  shows "stream_run env s0 acc s' (Some popped) \<and> popped \<le> 512 \<and> (popped = 512 \<or> pop_byte popped s' = None)"
  using assms
proof (induction n "512 :: nat" s rule: kernelupload_rx_ring_pop_batch.induct)
  case (1 n s)
  show ?case
  proof (cases "n < 512")
    case True
    show ?thesis
    proof (cases "pop_byte n s")
      case None
      then show ?thesis using 1 True by (simp add: kernelupload_rx_ring_pop_batch.simps [of n])
    next
      case (Some s1)
      then have "kernelupload_rx_ring_pop_batch (n + 1) 512 s1 = (popped, s')"
        using 1(4) True by (simp add: kernelupload_rx_ring_pop_batch.simps [of n])
      from 1(1) [OF True Some stream_run.pop [OF 1(2) True Some] _ this] True show ?thesis by simp
    qed
  next
    case False
    then have "n = 512" "popped = 512" "s' = s" using 1(3,4) by (simp_all add: kernelupload_rx_ring_pop_batch.simps [of 512])
    then show ?thesis using 1(2) by simp
  qed
qed

lemma pass_is_run:
  assumes "stream_run env s0 acc s None" and "up_stream_active (upl s) = 1" and "stream_pass env s = Some s'"
  shows "\<exists>acc'. stream_run env s0 acc' s' None"
proof -
  obtain popped s1 where pop: "kernelupload_rx_ring_pop_batch 0 512 (stream_start env s) = (popped, s1)" by fastforce
  have proc: "stream_process env popped s1 = Some s'" using assms(3) pop by (simp add: stream_pass_def)
  note run = pop_batch_run [OF stream_run.enter [OF assms(1,2) refl] _ pop]
  from stream_run.process [OF _ _ proc] run show ?thesis by blast
qed

section \<open>The invariant\<close>

definition expected :: "('d, 's) stream \<Rightarrow> nat" where
  "expected s = unat (up_stream_expected_len (upl s))"

definition stream_frame :: "('d \<Rightarrow> u64 \<Rightarrow> u8 list) \<Rightarrow> ('d, 's) stream \<Rightarrow> ('d, 's) stream \<Rightarrow> bool" where
  "stream_frame view s0 s \<longleftrightarrow> ring_ok s \<and> sizes (upl s) = sizes (upl s0) \<and> up_target_slot (upl s) = up_target_slot (upl s0)
     \<and> up_chunk_base_block_offset (upl s) = up_chunk_base_block_offset (upl s0) \<and> expected s = expected s0
     \<and> (\<forall>x. (\<forall>k < expected s0 div 512. x \<noteq> upload_base (upl s0) + of_nat k) \<longrightarrow> view (sd (upl s)) x = view (sd (upl s0)) x)"

definition popped :: "nat option \<Rightarrow> nat" where
  "popped ph = (case ph of None \<Rightarrow> 0 | Some n \<Rightarrow> n)"

lemma popped_simps [simp]: "popped None = 0" "popped (Some n) = n"
  by (simp_all add: popped_def)

text \<open>
  What was accepted, with what is still on the wire, is the wire of the start but for bytes that were dropped; and no clock reading
  lies in the future.
\<close>

definition stream_side :: "('d, 's) stream_io \<Rightarrow> ('d \<Rightarrow> u8 list) \<Rightarrow> ('d, 's) stream \<Rightarrow> u8 list \<Rightarrow> ('d, 's) stream \<Rightarrow> bool" where
  "stream_side env wire s0 acc s \<longleftrightarrow> subseq (acc @ wire (sd (upl s))) (wire (sd (upl s0)))
     \<and> (ticks_forward env \<longrightarrow> active_lately env (upl s))"

definition stream_inv :: "('d, 's) stream_io \<Rightarrow> ('d \<Rightarrow> u64 \<Rightarrow> u8 list) \<Rightarrow> ('d \<Rightarrow> u8 list) \<Rightarrow> ('d, 's) stream
    \<Rightarrow> u8 list \<Rightarrow> ('d, 's) stream \<Rightarrow> nat option \<Rightarrow> bool" where
  "stream_inv env view wire s0 acc s ph \<longleftrightarrow> stream_frame view s0 s \<and> stream_side env wire s0 acc s \<and> popped ph \<le> 512
     \<and> (if up_stream_active (upl s) = 1 then up_active (upl s) = 1 \<and> up_stream_last_ack_len (upl s) \<le> up_total_len (upl s)
          \<and> (\<exists>fed. upload_holds view fed (upl s) \<and> length fed < expected s0
            \<and> acc = fed @ take (popped ph) (stream_batch_buf s) @ ring_bytes s)
        else ph = None \<and> (up_active (upl s) = 1 \<longrightarrow> expected s0 \<le> length acc \<and> upload_holds view (take (expected s0) acc) (upl s)))"

lemma receives_side:
  assumes "stream_side env wire s0 acc s" and "only_receives env view wire s s'"
  shows "stream_side env wire s0 (acc @ gained s s') s'"
proof -
  have "subseq (acc @ gained s s' @ wire (sd (upl s'))) (wire (sd (upl s0)))"
    using assms(1) receives_wire [OF assms(2)] by (meson stream_side_def subseq_append' subseq_order.trans)
  then show ?thesis using assms by (auto simp: stream_side_def only_receives_def kept_def)
qed

lemma expected_bound: "expected s < 2 ^ 32"
proof -
  have "expected s < 2 ^ LENGTH(32)" unfolding expected_def by (rule unsigned_less)
  then show ?thesis by simp
qed

lemma receives_frame:
  assumes "stream_frame view s0 s" and "only_receives env view wire s s'"
  shows "stream_frame view s0 s'"
  using assms by (simp add: stream_frame_def only_receives_def kept_def expected_def)

lemma receives_inv:
  assumes inv: "stream_inv env view wire s0 acc s ph" and rec: "only_receives env view wire s s'"
    and act: "up_stream_active (upl s) = 1"
  shows "stream_inv env view wire s0 (acc @ gained s s') s' ph"
proof -
  note i = inv [unfolded stream_inv_def]
  have k: "kept env view (upl s) (upl s')" "stream_batch_buf s' = stream_batch_buf s" using rec by (simp_all add: only_receives_def)
  obtain fed where fed: "upload_holds view fed (upl s)" "length fed < expected s0"
      "acc = fed @ take (popped ph) (stream_batch_buf s) @ ring_bytes s" using i act by auto
  have frame: "stream_frame view s0 s'" and side: "stream_side env wire s0 (acc @ gained s s') s'"
    and ack: "up_stream_last_ack_len (upl s') \<le> up_total_len (upl s')"
    using i act receives_frame [OF _ rec] receives_side [OF _ rec] k(1) by (simp_all add: kept_def)
  have "acc @ gained s s' = fed @ take (popped ph) (stream_batch_buf s') @ ring_bytes s'"
    using fed(3) k(2) receives_gained [OF rec] by simp
  moreover have "upload_holds view fed (upl s')" using fed(1) kept_holds [OF k(1)] by simp
  moreover have "up_stream_active (upl s') = 1" "up_active (upl s') = 1" using k(1) i act by (simp_all add: kept_def)
  ultimately show ?thesis
    using i fed(2) frame side ack by (simp add: stream_inv_def)
qed

lemma pop_inv:
  assumes inv: "stream_inv env view wire s0 acc s (Some n)" and n: "n < 512" and pop: "pop_byte n s = Some s'"
  shows "stream_inv env view wire s0 acc s' (Some (n + 1))"
proof -
  note i = inv [unfolded stream_inv_def]
  have ok: "ring_ok s" using i by (simp add: stream_frame_def)
  note p = pop_spec [OF ok, of n]
  obtain buf tail where s': "s' = s\<lparr>stream_batch_buf := buf, upl := (upl s)\<lparr>up_rx_ring_tail := tail\<rparr>\<rparr>"
    using p(5) [OF pop] by blast
  have act: "up_stream_active (upl s) = 1" using i by (auto split: if_splits)
  obtain fed where fed: "upload_holds view fed (upl s)" "length fed < expected s0"
      "acc = fed @ take n (stream_batch_buf s) @ ring_bytes s" using i act by auto
  have "length (stream_batch_buf s') = 512" using p(3) [OF pop] by (simp add: ring_ok_def)
  then have "take (n + 1) (stream_batch_buf s') = take n (stream_batch_buf s) @ [stream_batch_buf s' ! n]"
    using p(4) [OF pop] n by (simp add: take_Suc_conv_app_nth)
  then have "acc = fed @ take (n + 1) (stream_batch_buf s') @ ring_bytes s'" using fed(3) p(2) [OF pop n] by simp
  moreover have "stream_frame view s0 s'" using i p(3) [OF pop] by (simp add: s' stream_frame_def expected_def sizes_def)
  moreover have "upload_holds view fed (upl s')" using fed(1) by (simp add: s' upload_holds_def taken_in_def)
  moreover have "stream_side env wire s0 acc s'" using i by (simp add: s' stream_side_def active_lately_def)
  ultimately show ?thesis using i n fed(2) act unfolding stream_inv_def by (auto simp: s')
qed

text \<open>Giving up: both flags are cleared.\<close>

lemma given_up:
  assumes "stream_frame view s0 s" and "stream_side env wire s0 acc s" and "up_stream_active (upl s) = 0" and "up_active (upl s) = 0"
  shows "stream_inv env view wire s0 acc s None"
  using assms by (simp add: stream_inv_def)

lemma gained_none: "ring_bytes s' = ring_bytes s \<Longrightarrow> gained s s' = []"
  by (simp add: gained_def)

section \<open>No bytes\<close>

lemma kept_active_now: "kept env view u (u\<lparr>up_stream_last_activity_tick := io_tick (sio_dev env) (sd u)\<rparr>)"
  by (simp add: kept_def active_lately_def sizes_def)

lemma stall_receives:
  assumes sound: "stream_sound env view wire" and ok: "ring_ok s"
  shows "only_receives env view wire s (stall_report env fr s)"
proof -
  obtain a s1 where a: "mmio_read env UART_IMSC s = (a, s1)" by fastforce
  obtain b s2 where b: "mmio_read env UART_RIS s1 = (b, s2)" by fastforce
  obtain c s3 where c: "mmio_read env IC_ENABLE2 s2 = (c, s3)" by fastforce
  note r1 = read_receives [OF sound ok a not_data(3)]
  note r2 = receives_trans [OF r1 read_receives [OF sound receives_okD [OF r1] b not_data(2)]]
  note r3 = receives_trans [OF r2 read_receives [OF sound receives_okD [OF r2] c not_data(4)]]
  have "only_receives env view wire s3 (on_upl (say os) s3)" for os
    by (rule counter_receives [OF receives_okD [OF r3]]) simp
  then show ?thesis using a b c receives_trans [OF r3] by (simp add: stall_report_def)
qed

lemma idle_cases:
  assumes sound: "stream_sound env view wire" and ok: "ring_ok s" and run: "stream_idle env s = Some s'"
  shows "only_receives env view wire s s'
    \<or> (\<exists>s1. only_receives env view wire s s1 \<and> stream_frame view s1 s' \<and> up_stream_active (upl s') = 0 \<and> up_active (upl s') = 0
        \<and> gained s s' = gained s s1 \<and> sd (upl s') = sd (upl s1)
        \<and> up_stream_last_activity_tick (upl s') = up_stream_last_activity_tick (upl s1))"
proof -
  obtain quiet where q: "sub_u32 (tick_count env s) (up_stream_last_activity_tick (upl s)) = Some quiet"
    using run by (auto simp: stream_idle_def bind_eq_Some_conv)
  obtain fr s1 where fr: "mmio_read env UART_FR s = (fr, s1)" by fastforce
  obtain k s2 where loop: "rx_loop env 16 0 s1 = (k, s2)" by fastforce
  note r1 = read_receives [OF sound ok fr not_data(1)]
  note r2 = receives_trans [OF r1 rx_loop_receives [OF sound receives_okD [OF r1] loop]]
  consider "\<not> quiet > 20" | "quiet > 20" "k > 0" | "quiet > 20" "\<not> k > 0" by blast
  then show ?thesis
  proof cases
    case 1
    then show ?thesis using run q receives_refl [OF ok] by (simp add: stream_idle_def)
  next
    case 2
    obtain os where s': "s' = on_upl (\<lambda>u. say os (maintenance_mode_engage (sio_dev env)
        (u\<lparr>up_stream_last_activity_tick := io_tick (sio_dev env) (sd u)\<rparr>))) s2"
      using run q fr loop 2 by (auto simp: stream_idle_def on_upl_def tick_count_def)
    have "only_receives env view wire s2 s'"
      unfolding s' by (rule counter_receives [OF receives_okD [OF r2]]) (simp add: kept_active_now)
    then show ?thesis using receives_trans [OF r2] by blast
  next
    case 3
    let ?s3 = "stall_report env fr s2"
    have r3: "only_receives env view wire s ?s3" by (rule receives_trans [OF r2 stall_receives [OF sound receives_okD [OF r2]]])
    obtain os where s': "s' = on_upl (\<lambda>u. say os (maintenance_mode_disengage (u\<lparr>up_stream_active := 0, up_active := 0\<rparr>))) ?s3"
      using run q fr loop 3 by (auto simp: stream_idle_def)
    have "stream_frame view ?s3 s'" "up_stream_active (upl s') = 0" "up_active (upl s') = 0" "gained s s' = gained s ?s3"
        "sd (upl s') = sd (upl ?s3)" "up_stream_last_activity_tick (upl s') = up_stream_last_activity_tick (upl ?s3)"
      using receives_okD [OF r3] by (simp_all add: s' stream_frame_def ring_ok_def expected_def maintenance_mode_disengage_def say_def
          sizes_def gained_def ring_bytes_def)
    then show ?thesis using r3 by blast
  qed
qed

lemma frame_trans: "stream_frame view s0 s1 \<Longrightarrow> stream_frame view s1 s2 \<Longrightarrow> stream_frame view s0 s2"
  by (simp add: stream_frame_def upload_base_def)

lemma idle_inv:
  assumes sound: "stream_sound env view wire" and inv: "stream_inv env view wire s0 acc s (Some 0)" and run: "stream_idle env s = Some s'"
  shows "stream_inv env view wire s0 (acc @ gained s s') s' None"
proof -
  note i = inv [unfolded stream_inv_def]
  have f: "stream_frame view s0 s" and act: "up_stream_active (upl s) = 1" using i by (auto split: if_splits)
  then have ok: "ring_ok s" by (simp add: stream_frame_def)
  have none: "stream_inv env view wire s0 acc s None" using i act by (simp add: stream_inv_def)
  have side: "stream_side env wire s0 acc s" using i by simp
  from idle_cases [OF sound ok run] show ?thesis
  proof
    assume "only_receives env view wire s s'"
    then show ?thesis using receives_inv [OF none _ act] by blast
  next
    assume "\<exists>s1. only_receives env view wire s s1 \<and> stream_frame view s1 s' \<and> up_stream_active (upl s') = 0 \<and> up_active (upl s') = 0
        \<and> gained s s' = gained s s1 \<and> sd (upl s') = sd (upl s1)
        \<and> up_stream_last_activity_tick (upl s') = up_stream_last_activity_tick (upl s1)"
    then obtain s1 where s1: "only_receives env view wire s s1" "stream_frame view s1 s'" "up_stream_active (upl s') = 0"
        "up_active (upl s') = 0" "gained s s' = gained s s1" "sd (upl s') = sd (upl s1)"
        "up_stream_last_activity_tick (upl s') = up_stream_last_activity_tick (upl s1)" by blast
    have "stream_side env wire s0 (acc @ gained s s') s'"
      using receives_side [OF side s1(1)] s1(5,6,7) by (simp add: stream_side_def active_lately_def)
    then show ?thesis using given_up [OF frame_trans [OF receives_frame [OF f s1(1)] s1(2)]] s1(3,4) by blast
  qed
qed

section \<open>A batch\<close>

lemma wire_steps: "stream_sound env view wire \<Longrightarrow> steps_on (sio_dev env) (\<lambda>d d'. wire d = wire d')"
  by (simp add: steps_on_def stream_sound_def uart_sound_def reflp_def transp_def)

lemma tick_steps: "ticks_forward env \<Longrightarrow> steps_on (sio_dev env) (\<lambda>d d'. io_tick (sio_dev env) d \<le> io_tick (sio_dev env) d')"
  by (auto simp: steps_on_def ticks_forward_def reflp_def transp_def Let_def)

text \<open>What an answer leaves alone.\<close>

definition answered :: "'d upload \<Rightarrow> 'd upload \<Rightarrow> bool" where
  "answered u u' \<longleftrightarrow> sd u' = sd u \<and> up_block_buf u' = up_block_buf u \<and> up_sha_ctx u' = up_sha_ctx u
     \<and> up_total_len u' = up_total_len u \<and> up_target_slot u' = up_target_slot u
     \<and> up_chunk_base_block_offset u' = up_chunk_base_block_offset u \<and> up_active u' = up_active u
     \<and> up_stream_expected_len u' = up_stream_expected_len u
     \<and> up_stream_last_activity_tick u' = up_stream_last_activity_tick u
     \<and> up_rx_ring_head u' = up_rx_ring_head u \<and> up_rx_ring_tail u' = up_rx_ring_tail u \<and> sizes u' = sizes u"

lemma answered_holds: "answered u u' \<Longrightarrow> upload_holds view msg u' = upload_holds view msg u"
  by (simp add: answered_def upload_holds_def taken_in_def)

lemma answer_cases:
  assumes "stream_answer e u = Some u'"
  shows "answered u u'"
    and "up_stream_active u' = (if up_stream_active u = 1 \<and> e \<le> uint (up_total_len u) then 0 else up_stream_active u)"
    and "up_stream_last_ack_len u' \<in> {up_stream_last_ack_len u, up_total_len u}"
  using assms by (auto simp: stream_answer_def answered_def Let_def bind_eq_Some_conv sizes_def say_def
      kernelupload_stream_report_done_def kernelupload_stream_report_ack_def maintenance_mode_disengage_def split: if_splits)

definition after_write :: "int \<Rightarrow> 'd upload \<Rightarrow> 'd upload" where
  "after_write st u = (if st \<noteq> 0 then say [Str ''\<newline>kernelupload: SD write failed during stream, aborted\<newline>'']
     (maintenance_mode_disengage (u\<lparr>up_stream_active := 0, up_active := 0\<rparr>)) else u)"

definition touched_now :: "('d, 's) stream_io \<Rightarrow> 'd upload \<Rightarrow> 'd upload" where
  "touched_now env u = maintenance_mode_engage (sio_dev env) (u\<lparr>up_stream_last_activity_tick := io_tick (sio_dev env) (sd u)\<rparr>)"

lemma batch_eq:
  assumes tot: "unat (up_total_len (upl s)) + c \<le> expected s" "c \<le> n" "0 < c"
    and full: "c < n \<longrightarrow> unat (up_total_len (upl s)) + c = expected s"
  shows "stream_batch env n s = do {
      (st, u) \<leftarrow> kernelupload_accumulate_bytes (sio_dev env) (stream_batch_buf s) c (touched_now env (upl s));
      u3 \<leftarrow> stream_answer (int (expected s)) (after_write st u);
      Some (s\<lparr>upl := u3, shell := shell_chars env (stream_batch_buf s) [int c..int n - 1] (shell s)\<rparr>) }"
proof -
  have e: "uint (up_stream_expected_len (upl s)) = int (expected s)" by (simp add: expected_def)
  let ?t = "up_total_len (upl s)"
  have le: "uint ?t + int c \<le> int (expected s)" using tot(1) unfolding uint_nat by linarith
  have eq: "c < n \<Longrightarrow> uint ?t + int c = int (expected s)" using full unfolding uint_nat by linarith
  have c: "(if int n < int (expected s) - uint ?t then int n else int (expected s) - uint ?t) = int c"
    using tot(2) le eq by (cases "c < n") auto
  show ?thesis
    using tot(3) by (simp add: stream_batch_def touched_now_def after_write_def on_upl_def Let_def e c
        maintenance_mode_engage_def tick_count_def cong: if_cong)
qed

lemma batch_run:
  assumes run: "stream_batch env n s = Some s'" and tot: "unat (up_total_len (upl s)) + c \<le> expected s" "c \<le> n" "0 < c"
    and full: "c < n \<longrightarrow> unat (up_total_len (upl s)) + c = expected s"
  obtains st u u3 sh where
    "kernelupload_accumulate_bytes (sio_dev env) (stream_batch_buf s) c (touched_now env (upl s)) = Some (st, u)"
    "stream_answer (int (expected s)) (after_write st u) = Some u3" "s' = s\<lparr>upl := u3, shell := sh\<rparr>"
  using run that unfolding batch_eq [OF tot full] by (auto simp: bind_eq_Some_conv)

lemma accumulated_total:
  assumes "sd_sound dev view" and "upload_holds view msg u" and "count \<le> length src" and "length msg + count < 2 ^ 32"
    and "kernelupload_accumulate_bytes dev src count u = Some (0, u')"
  shows "unat (up_total_len u') = length msg + count"
proof -
  have lb: "length (msg @ take count src) = length msg + count" using assms(3) by simp
  show ?thesis using accumulate_holds(1) [OF assms] unfolding upload_holds_def lb by (simp only: unat_of_nat) simp
qed

lemma touched_fields:
  "up_rx_ring_head (touched_now env u) = up_rx_ring_head u" "up_rx_ring_tail (touched_now env u) = up_rx_ring_tail u"
  "up_target_slot (touched_now env u) = up_target_slot u"
  "up_chunk_base_block_offset (touched_now env u) = up_chunk_base_block_offset u"
  "up_stream_expected_len (touched_now env u) = up_stream_expected_len u" "sd (touched_now env u) = sd u"
  "sizes (touched_now env u) = sizes u" "up_active (touched_now env u) = up_active u"
  "up_stream_active (touched_now env u) = up_stream_active u" "upload_base (touched_now env u) = upload_base u"
  "up_stream_last_ack_len (touched_now env u) = up_stream_last_ack_len u"
  "up_stream_last_activity_tick (touched_now env u) = io_tick (sio_dev env) (sd u)"
  "upload_holds view msg (touched_now env u) = upload_holds view msg u"
  by (simp_all add: touched_now_def maintenance_mode_engage_def upload_base_def sizes_def upload_holds_def taken_in_def)

lemma after_fields:
  "up_rx_ring_head (after_write st u) = up_rx_ring_head u" "up_rx_ring_tail (after_write st u) = up_rx_ring_tail u"
  "sd (after_write st u) = sd u" "sizes (after_write st u) = sizes u" "up_target_slot (after_write st u) = up_target_slot u"
  "up_chunk_base_block_offset (after_write st u) = up_chunk_base_block_offset u" "up_total_len (after_write st u) = up_total_len u"
  "up_stream_expected_len (after_write st u) = up_stream_expected_len u"
  "up_stream_last_activity_tick (after_write st u) = up_stream_last_activity_tick u"
  "after_write 0 u = u"
  "st \<noteq> 0 \<Longrightarrow> up_stream_active (after_write st u) = 0 \<and> up_active (after_write st u) = 0"
  by (simp_all add: after_write_def maintenance_mode_disengage_def say_def sizes_def)

lemma batch_taken:
  assumes sound: "stream_sound env view wire" and ok: "ring_ok s" and holds: "upload_holds view fed (upl s)"
    and act: "up_stream_active (upl s) = 1" "up_active (upl s) = 1" and less: "length fed < expected s"
    and n: "0 < n" "n \<le> 512" and run: "stream_batch env n s = Some s'"
  defines "c \<equiv> min n (expected s - length fed)"
  shows "ring_bytes s' = ring_bytes s" and "stream_frame view s s'"
    and "up_stream_active (upl s') = 0 \<and> up_active (upl s') = 0 \<or> up_active (upl s') = 1
      \<and> upload_holds view (fed @ take c (stream_batch_buf s)) (upl s')
      \<and> up_stream_active (upl s') = (if expected s \<le> length fed + c then 0 else 1)
      \<and> (up_stream_last_ack_len (upl s) \<le> up_total_len (upl s) \<longrightarrow> up_stream_last_ack_len (upl s') \<le> up_total_len (upl s'))"
    and "wire (sd (upl s')) = wire (sd (upl s))" and "ticks_forward env \<Longrightarrow> active_lately env (upl s')"
proof -
  have tot: "unat (up_total_len (upl s)) = length fed" using holds by (simp add: upload_holds_def unat_of_nat)
  have c: "length fed + c \<le> expected s" "c \<le> n" "0 < c" "c < n \<longrightarrow> length fed + c = expected s"
    using less n by (auto simp: c_def)
  let ?u1 = "touched_now env (upl s)"
  obtain st u u3 sh where
    u: "kernelupload_accumulate_bytes (sio_dev env) (stream_batch_buf s) c ?u1 = Some (st, u)"
    and u3: "stream_answer (int (expected s)) (after_write st u) = Some u3" and s': "s' = s\<lparr>upl := u3, shell := sh\<rparr>"
    by (rule batch_run [OF run, unfolded tot, OF c])
  have one: "upload_holds view fed ?u1" using holds by (simp add: touched_fields)
  note g = accumulate_fed [OF u, unfolded fed_from_def touched_fields] and a = answer_cases [OF u3]
  note a1 = a(1) [unfolded answered_def after_fields]
  have rok: "ring_ok s'" and rb: "ring_bytes s' = ring_bytes s" using ok a1 g by (simp_all add: s' ring_bytes_def ring_ok_def)
  show "ring_bytes s' = ring_bytes s" by (rule rb)
  have "view (sd u3) x = view (sd (upl s)) x" if x: "\<forall>k < expected s div 512. x \<noteq> upload_base (upl s) + of_nat k" for x
  proof -
    have "(length fed + c) div 512 \<le> expected s div 512" using c(1) by (rule div_le_mono)
    then have "\<forall>k < (length fed + c) div 512. x \<noteq> upload_base ?u1 + of_nat k" using x by (auto simp: touched_fields)
    from accumulate_elsewhere [OF stream_soundD(1) [OF sound] one u this] show ?thesis using a1 by (simp add: touched_fields)
  qed
  then show "stream_frame view s s'" using rok a1 g by (simp add: stream_frame_def s' expected_def)
  have "wire (sd u) = wire (sd ?u1)" by (rule sym, rule accumulate_bytes_steps [OF wire_steps [OF sound] u])
  then show "wire (sd (upl s')) = wire (sd (upl s))" using a1 by (simp add: s' touched_fields)
  show "active_lately env (upl s')" if "ticks_forward env"
    using accumulate_bytes_steps [OF tick_steps [OF that] u] a1 g by (simp add: s' active_lately_def touched_fields)
  show "up_stream_active (upl s') = 0 \<and> up_active (upl s') = 0 \<or> up_active (upl s') = 1
      \<and> upload_holds view (fed @ take c (stream_batch_buf s)) (upl s')
      \<and> up_stream_active (upl s') = (if expected s \<le> length fed + c then 0 else 1)
      \<and> (up_stream_last_ack_len (upl s) \<le> up_total_len (upl s) \<longrightarrow> up_stream_last_ack_len (upl s') \<le> up_total_len (upl s'))"
  proof (cases "st = 0")
    case False
    then have "up_stream_active (after_write st u) = 0" "up_active (after_write st u) = 0" using after_fields(11) by blast+
    then show ?thesis using a1 a(2) by (simp add: s')
  next
    case True
    have cs: "c \<le> length (stream_batch_buf s)" using c(2) n ok by (simp add: ring_ok_def)
    have "length fed + c < 2 ^ 32" using c(1) expected_bound [of s] by simp
    note t = one cs this u [unfolded True]
    note two = accumulate_holds(1) [OF stream_soundD(1) [OF sound] t]
      and total = accumulated_total [OF stream_soundD(1) [OF sound] t]
    have "uint (up_total_len u) = int (length fed + c)" using total by (simp only: uint_nat)
    then have "up_stream_active u3 = (if expected s \<le> length fed + c then 0 else 1)" using a(2) g act True by (simp add: after_fields)
    moreover have "up_stream_last_ack_len u3 \<le> up_total_len u3" if "up_stream_last_ack_len (upl s) \<le> up_total_len (upl s)"
    proof -
      have "up_total_len (upl s) \<le> up_total_len u" using total tot by (simp add: word_le_nat_alt)
      then show ?thesis using a1 a(3) g True that by (auto simp: after_fields)
    qed
    ultimately show ?thesis using two answered_holds [OF a(1)] a1 g act True by (simp add: s' after_fields(10) touched_fields)
  qed
qed

lemma batch_inv:
  assumes sound: "stream_sound env view wire" and inv: "stream_inv env view wire s0 acc s (Some n)" and n: "0 < n"
    and run: "stream_batch env n s = Some s'"
  shows "stream_inv env view wire s0 (acc @ gained s s') s' None"
proof -
  note i = inv [unfolded stream_inv_def]
  have f: "stream_frame view s0 s" and act: "up_stream_active (upl s) = 1" "up_active (upl s) = 1" and n512: "n \<le> 512"
    using i by (auto split: if_splits)
  have ok: "ring_ok s" and ex: "expected s = expected s0" using f by (simp_all add: stream_frame_def)
  obtain fed where fed: "upload_holds view fed (upl s)" "length fed < expected s0"
      "acc = fed @ take n (stream_batch_buf s) @ ring_bytes s" using i act by auto
  define c where "c = min n (expected s0 - length fed)"
  let ?bytes = "take c (stream_batch_buf s)"
  note b = batch_taken [OF sound ok fed(1) act, unfolded ex, OF fed(2) n n512 run, folded c_def]
  have frame: "stream_frame view s0 s'" by (rule frame_trans [OF f b(2)])
  have all: "acc @ gained s s' = fed @ take n (stream_batch_buf s) @ ring_bytes s'" using fed(3) b(1) gained_none [OF b(1)] by simp
  have lb: "length (fed @ ?bytes) = length fed + c" using ok n512 by (simp add: ring_ok_def c_def)
  have "take (expected s0) (acc @ gained s s') = fed @ ?bytes" "expected s0 \<le> length (acc @ gained s s')"
    if "expected s0 \<le> length fed + c"
  proof -
    obtain rest where rest: "take n (stream_batch_buf s) = ?bytes @ rest"
      unfolding c_def by (metis append_take_drop_id min.cobounded1 min.absorb1 take_take)
    have "length fed + c = expected s0" using that fed(2) by (simp add: c_def)
    then have "expected s0 = length (fed @ ?bytes)" by (simp only: lb)
    moreover have "take (length xs) (xs @ ys) = xs" for xs ys :: "u8 list" by simp
    ultimately have "take (expected s0) ((fed @ ?bytes) @ r) = fed @ ?bytes" for r by (simp only:)
    then show "take (expected s0) (acc @ gained s s') = fed @ ?bytes" "expected s0 \<le> length (acc @ gained s s')"
      unfolding all rest append_assoc [symmetric] using that lb by simp_all
  qed
  moreover have "acc @ gained s s' = (fed @ ?bytes) @ ring_bytes s'" "length (fed @ ?bytes) < expected s0"
    if "\<not> expected s0 \<le> length fed + c"
    using that unfolding lb by (auto simp: all c_def min_def)
  moreover have side: "stream_side env wire s0 (acc @ gained s s') s'"
    using i b(4,5) gained_none [OF b(1)] by (simp add: stream_side_def)
  ultimately show ?thesis using i act b(3) frame given_up [OF frame side] by (auto simp: stream_inv_def split: if_splits)
qed

lemma process_inv:
  assumes "stream_sound env view wire" and "stream_inv env view wire s0 acc s (Some n)" and "stream_process env n s = Some s'"
  shows "stream_inv env view wire s0 (acc @ gained s s') s' None"
  using assms idle_inv batch_inv by (cases "n = 0") (auto simp: stream_process_def)

section \<open>Every interleaving\<close>

lemma start_receives:
  assumes "stream_sound env view wire" and "ring_ok s"
  shows "only_receives env view wire s (stream_start env s)"
proof -
  have "stream_start env s = on_upl (sd_update (\<lambda>_. sio_heartbeat env (tick_count env s) (sd (upl s)))) s"
    by (cases "upl s") (simp add: stream_start_def on_upl_def)
  then show ?thesis using receives_sd [OF assms(2)] stream_soundD(4) [OF assms(1)] by simp
qed

lemma irq_inv:
  assumes sound: "stream_sound env view wire" and inv: "stream_inv env view wire s0 acc s ph"
  shows "stream_inv env view wire s0 (acc @ gained s (irq_stream env s)) (irq_stream env s) ph"
proof (cases "up_stream_active (upl s) = 1")
  case True
  have "ring_ok s" using inv by (simp add: stream_inv_def stream_frame_def)
  from receives_inv [OF inv irq_receives [OF sound this] True] show ?thesis .
next
  case False
  then have "irq_stream env s = s" by (simp add: irq_stream_def)
  then show ?thesis using inv by (simp add: gained_none)
qed

lemma tick_inv:
  assumes inv: "stream_inv env view wire s0 acc s ph" and run: "stream_watchdog env now s = Some s'"
  shows "stream_inv env view wire s0 acc s' ph"
proof (cases "up_stream_active (upl s) = 1")
  case True
  have "ring_ok s" using inv by (simp add: stream_inv_def stream_frame_def)
  note w = watchdog_receives [OF this run]
  show ?thesis using receives_inv [OF inv w(1) True] gained_none [OF w(2)] by simp
next
  case False
  then have "s' = s" using run by (simp add: stream_watchdog_def Let_def)
  then show ?thesis using inv by simp
qed

lemma enter_inv:
  assumes sound: "stream_sound env view wire" and inv: "stream_inv env view wire s0 acc s None" and act: "up_stream_active (upl s) = 1"
  shows "stream_inv env view wire s0 acc (stream_start env s) (Some 0)"
proof -
  have "ring_ok s" using inv by (simp add: stream_inv_def stream_frame_def)
  note rec = start_receives [OF sound this]
  have "ring_bytes (stream_start env s) = ring_bytes s"
    by (simp add: stream_start_def on_upl_def ring_bytes_def Let_def)
  with receives_inv [OF inv rec act] have "stream_inv env view wire s0 acc (stream_start env s) None" by (simp add: gained_none)
  moreover have "up_stream_active (upl (stream_start env s)) = 1" using rec act by (simp add: only_receives_def kept_def)
  ultimately show ?thesis by (simp add: stream_inv_def)
qed

text \<open>The state that \<open>stream\<close> and \<open>resumechunk\<close> leave: an empty ring and an upload without bytes.\<close>

definition stream_opened :: "('d, 's) stream_io \<Rightarrow> ('d \<Rightarrow> u64 \<Rightarrow> u8 list) \<Rightarrow> ('d, 's) stream \<Rightarrow> bool" where
  "stream_opened env view s \<longleftrightarrow> ring_ok s \<and> ring_bytes s = [] \<and> upload_holds view [] (upl s) \<and> up_stream_active (upl s) = 1
     \<and> up_active (upl s) = 1 \<and> 0 < expected s \<and> up_stream_last_ack_len (upl s) = 0
     \<and> (ticks_forward env \<longrightarrow> active_lately env (upl s))"

lemma stream_run_inv:
  assumes "stream_sound env view wire" and "stream_opened env view s0" and "stream_run env s0 acc s ph"
  shows "stream_inv env view wire s0 acc s ph"
  using assms(3)
proof (induction rule: stream_run.induct)
  case start
  then show ?case using assms(2) by (auto simp: stream_inv_def stream_opened_def stream_frame_def stream_side_def)
next
  case (interrupt acc s ph s')
  show ?case using irq_inv [OF assms(1) interrupt.IH] unfolding interrupt.hyps(2) .
next
  case (tick acc s ph now s')
  show ?case by (rule tick_inv [OF tick.IH tick.hyps(2)])
next
  case (enter acc s s')
  show ?case using enter_inv [OF assms(1) enter.IH enter.hyps(2)] unfolding enter.hyps(3) .
next
  case (pop acc s n s')
  then show ?case using pop_inv by blast
next
  case (process acc s n s')
  then show ?case using process_inv [OF assms(1)] by blast
qed

section \<open>Progress\<close>

lemma timed_write_clock:
  assumes "clock_forward dev"
  shows "\<exists>s u'. timed_write dev b u = Some (s, u')"
proof -
  obtain t0 d0 where c0: "io_clo dev (sd u) = (t0, d0)" by fastforce
  obtain s d1 where w: "io_write dev b (up_block_buf u) d0 = (s, d1)" by fastforce
  obtain t1 d2 where c1: "io_clo dev d1 = (t1, d2)" by fastforce
  have "t0 \<le> t1" using assms c0 w c1 by (metis clock_forward_def fst_conv snd_conv)
  then show ?thesis using c0 w c1 by (simp add: timed_write_def timer_clo_def Let_def not_less)
qed

lemma accumulate_clock:
  assumes "clock_forward dev"
  shows "accumulate_loop dev base bs ctx tot u \<noteq> None"
proof (induction bs arbitrary: ctx tot u)
  case (Cons b bs)
  let ?u1 = "u\<lparr>up_block_buf := kbuf_write_byte (up_block_buf u) (tot mod 512) b\<rparr>"
  obtain s u2 where "timed_write dev (base + of_nat (tot div 512)) ?u1 = Some (s, u2)"
    using timed_write_clock [OF assms] by blast
  then show ?case using Cons unfolding accumulate_step
    by (cases "Suc tot mod 512 = 0"; cases "s = 0") (simp_all add: Let_def)
qed simp

lemma accumulate_bytes_clock:
  assumes "clock_forward dev"
  shows "\<exists>st u'. kernelupload_accumulate_bytes dev src count u = Some (st, u')"
    and "sd_writes_all dev \<Longrightarrow> \<exists>u'. kernelupload_accumulate_bytes dev src count u = Some (0, u')"
proof -
  let ?base = "slot_base_block (up_target_slot u) + ucast (up_chunk_base_block_offset u)"
  let ?loop = "accumulate_loop dev ?base (map (kbuf_read_byte src) [0..<count]) (kernelupload_ctx_load (up_sha_ctx u)) (unat (up_total_len u)) u"
  obtain ok ctx tot u1 where "?loop = Some (ok, ctx, tot, u1)" using accumulate_clock [OF assms] by (metis not_Some_eq prod_cases4)
  then show "\<exists>st u'. kernelupload_accumulate_bytes dev src count u = Some (st, u')"
    by (cases ok) (auto simp: kernelupload_accumulate_bytes_def Let_def)
  show "\<exists>u'. kernelupload_accumulate_bytes dev src count u = Some (0, u')" if works: "sd_writes_all dev"
  proof -
    obtain ctx tot u1 where "?loop = Some (True, ctx, tot, u1)" using accumulate_total [OF assms works] by blast
    then show ?thesis by (simp add: kernelupload_accumulate_bytes_def Let_def)
  qed
qed

lemma answer_total:
  assumes "up_stream_active u = 1 \<Longrightarrow> up_stream_last_ack_len u \<le> up_total_len u"
  shows "\<exists>u'. stream_answer e u = Some u'"
  using assms by (auto simp: stream_answer_def sub_u32_def Let_def not_less)

text \<open>The work on a batch does not trap; on a working card it goes on with the upload.\<close>

lemma batch_total:
  assumes sound: "stream_sound env view wire" and ok: "ring_ok s" and holds: "upload_holds view fed (upl s)"
    and ack: "up_stream_last_ack_len (upl s) \<le> up_total_len (upl s)" and act: "up_active (upl s) = 1"
    and less: "length fed < expected s" and n: "0 < n" "n \<le> 512" and clock: "clock_forward (sio_dev env)"
  shows "\<exists>s'. stream_batch env n s = Some s' \<and> (sd_writes_all (sio_dev env) \<longrightarrow> up_active (upl s') = 1)"
proof -
  define c where "c = min n (expected s - length fed)"
  have tot: "unat (up_total_len (upl s)) = length fed" using holds by (simp add: upload_holds_def unat_of_nat)
  have c: "length fed + c \<le> expected s" "c \<le> n" "0 < c" "c < n \<longrightarrow> length fed + c = expected s"
    using less n by (auto simp: c_def)
  have cs: "c \<le> length (stream_batch_buf s)" "length fed + c < 2 ^ 32" using c(1,2) n ok expected_bound [of s] by (simp_all add: ring_ok_def)
  let ?acc = "kernelupload_accumulate_bytes (sio_dev env) (stream_batch_buf s) c (touched_now env (upl s))"
  obtain st u where u: "?acc = Some (st, u)" "sd_writes_all (sio_dev env) \<longrightarrow> st = 0"
    using accumulate_bytes_clock [OF clock] by (metis option.inject prod.inject)
  note g = accumulate_fed [OF u(1), unfolded fed_from_def touched_fields]
  have "up_stream_last_ack_len u \<le> up_total_len u" if "st = 0"
  proof -
    have "unat (up_total_len u) = length fed + c"
      using accumulated_total [where u = "touched_now env (upl s)" and u' = u, OF stream_soundD(1) [OF sound] _ cs] holds u(1) that
      by (simp add: touched_fields)
    then have "up_total_len (upl s) \<le> up_total_len u" using tot by (simp add: word_le_nat_alt)
    then show ?thesis using ack g by simp
  qed
  then have "up_stream_active (after_write st u) = 1 \<Longrightarrow>
      up_stream_last_ack_len (after_write st u) \<le> up_total_len (after_write st u)"
    by (cases "st = 0") (auto simp: after_fields)
  then obtain u3 where u3: "stream_answer (int (expected s)) (after_write st u) = Some u3" using answer_total by blast
  moreover have "up_active u3 = 1" if "st = 0" using answer_cases(1) [OF u3] g act that by (simp add: answered_def after_fields)
  ultimately show ?thesis using u unfolding batch_eq [OF c [folded tot]] by simp
qed

lemma process_total:
  assumes sound: "stream_sound env view wire" and inv: "stream_inv env view wire s0 acc s (Some n)"
    and clock: "clock_forward (sio_dev env)" "ticks_forward env"
  shows "\<exists>s'. stream_process env n s = Some s'"
proof (cases "n = 0")
  case True
  have "up_stream_last_activity_tick (upl s) \<le> tick_count env s"
    using inv clock(2) by (simp add: stream_inv_def stream_side_def active_lately_def tick_count_def)
  then show ?thesis using True
    by (auto simp: stream_process_def stream_idle_def sub_u32_def not_less Let_def split: prod.splits)
next
  case False
  have "ring_ok s" "up_active (upl s) = 1" "up_stream_last_ack_len (upl s) \<le> up_total_len (upl s)" "n \<le> 512" "expected s = expected s0"
    using inv by (auto simp: stream_inv_def stream_frame_def split: if_splits)
  moreover obtain fed where "upload_holds view fed (upl s)" "length fed < expected s0"
    using inv by (auto simp: stream_inv_def split: if_splits)
  ultimately show ?thesis using batch_total [where s = s and fed = fed and n = n, OF sound _ _ _ _ _ _ _ clock(1)] False by (auto simp: stream_process_def)
qed

text \<open>Once the ring has accepted all the declared bytes, the task finishes the stream.\<close>

definition to_do :: "nat \<Rightarrow> ('d, 's) stream \<Rightarrow> nat option \<Rightarrow> nat" where
  "to_do whole s ph = (whole - unat (up_total_len (upl s))) * 1000 + (case ph of None \<Rightarrow> 600 | Some n \<Rightarrow> 512 - n)"

lemma inv_total:
  assumes "stream_inv env view wire s0 acc s ph" and "up_stream_active (upl s) = 1"
  shows "length acc = unat (up_total_len (upl s)) + popped ph + length (ring_bytes s)"
    and "unat (up_total_len (upl s)) < expected s0"
proof -
  note i = assms(1) [unfolded stream_inv_def]
  obtain fed where fed: "upload_holds view fed (upl s)" "length fed < expected s0"
      "acc = fed @ take (popped ph) (stream_batch_buf s) @ ring_bytes s" using i assms(2) by auto
  have "unat (up_total_len (upl s)) = length fed" using fed(1) by (simp add: upload_holds_def unat_of_nat)
  moreover have "length (stream_batch_buf s) = 512" "popped ph \<le> 512" using i by (simp_all add: stream_frame_def ring_ok_def)
  ultimately show "length acc = unat (up_total_len (upl s)) + popped ph + length (ring_bytes s)"
    and "unat (up_total_len (upl s)) < expected s0" using fed by simp_all
qed

lemma task_finishes:
  assumes sound: "stream_sound env view wire" and works: "clock_forward (sio_dev env)" "sd_writes_all (sio_dev env)"
    and opened: "stream_opened env view s0"
    and "stream_run env s0 acc s ph" and "up_active (upl s) = 1" and enough: "expected s0 \<le> length acc"
  shows "\<exists>s'. stream_run env s0 acc s' None \<and> up_stream_active (upl s') \<noteq> 1 \<and> up_active (upl s') = 1"
  using assms(5,6)
proof (induction "to_do (expected s0) s ph" arbitrary: s ph rule: less_induct)
  case less
  note run = less.prems(1)
  note inv = stream_run_inv [OF sound opened run]
  note i = inv [unfolded stream_inv_def]
  show ?case
  proof (cases "up_stream_active (upl s) = 1")
    case False
    then show ?thesis using less.prems i by auto
  next
    case act: True
    note t = inv_total [OF inv act]
    have ok: "ring_ok s" using i by (simp add: stream_frame_def)
    show ?thesis
    proof (cases ph)
      case None
      let ?s = "stream_start env s"
      have "up_total_len (upl ?s) = up_total_len (upl s)" "up_active (upl ?s) = 1"
        using less.prems(2) by (simp_all add: stream_start_def on_upl_def)
      with less.hyps [OF _ stream_run.enter [OF run [unfolded None] act refl]] None show ?thesis by (simp add: to_do_def)
    next
      case (Some n)
      have n: "n \<le> 512" using i by (simp add: Some)
      show ?thesis
      proof (cases "n = 512 \<or> pop_byte n s = None")
        case False
        then obtain s1 where pop: "pop_byte n s = Some s1" and n': "n < 512" using n by auto
        obtain buf tail where "s1 = s\<lparr>stream_batch_buf := buf, upl := (upl s)\<lparr>up_rx_ring_tail := tail\<rparr>\<rparr>"
          using pop_spec(5) [OF ok pop] by blast
        then have "up_total_len (upl s1) = up_total_len (upl s)" "up_active (upl s1) = 1" using less.prems(2) by simp_all
        with less.hyps [OF _ stream_run.pop [OF run [unfolded Some] n' pop]] n' Some show ?thesis by (simp add: to_do_def)
      next
        case full: True
        have n0: "0 < n"
          using full pop_spec(1) [OF ok, of n] t enough by (cases "n = 0") (auto simp: Some)
        obtain fed where fed: "upload_holds view fed (upl s)" "length fed < expected s0" using i act by auto
        have f: "up_active (upl s) = 1" "up_stream_last_ack_len (upl s) \<le> up_total_len (upl s)" "expected s = expected s0"
          using i act by (simp_all add: stream_frame_def)
        note fed' = fed(1) fed(2) [folded f(3)]
        from batch_total [OF sound ok fed'(1) f(2,1) fed'(2) n0 n works(1)] works(2) obtain s1 where
          s1: "stream_batch env n s = Some s1" "up_active (upl s1) = 1" by blast
        note rb = batch_taken(1) [OF sound ok fed'(1) act f(1) fed'(2) n0 n s1(1)]
        have "stream_process env n s = Some s1" using s1(1) n0 by (simp add: stream_process_def)
        from stream_run.process [OF run [unfolded Some] full this] have run1: "stream_run env s0 acc s1 None"
          using gained_none [OF rb] by simp
        show ?thesis
        proof (cases "up_stream_active (upl s1) = 1")
          case True
          note t1 = inv_total [OF stream_run_inv [OF sound opened run1] True]
          have "unat (up_total_len (upl s1)) = unat (up_total_len (upl s)) + n" using t(1) t1(1) rb by (simp add: Some)
          then have "to_do (expected s0) s1 None < to_do (expected s0) s ph" using t1(2) n0 n by (simp add: to_do_def Some)
          from less.hyps [OF this run1 s1(2)] show ?thesis .
        next
          case False
          then show ?thesis using run1 s1(2) by blast
        qed
      qed
    qed
  qed
qed

end
