(* ===== verification/Stream_Properties.thy ===== *)
theory Stream_Properties
  imports Stream_Run
begin

text \<open>
  What streaming promises: the ring loses no byte while the host waits for its acknowledgements, every
  order of the steps of handler and task takes the bytes in as they came, no step traps, and an image that
  was streamed in can be committed.
\<close>

section \<open>The start\<close>

lemma reset_fields:
  "up_stream_active (stream_reset dev e st) = 1" "up_stream_expected_len (stream_reset dev e st) = e"
  "up_stream_last_ack_len (stream_reset dev e st) = 0" "up_rx_ring_head (stream_reset dev e st) = 0"
  "up_rx_ring_tail (stream_reset dev e st) = 0" "up_stream_last_activity_tick (stream_reset dev e st) = io_tick dev (sd st)"
  "sd (stream_reset dev e st) = snd (io_clo dev (snd (io_clo dev (sd st))))"
  by (simp_all add: stream_reset_def timer_clo_def maintenance_mode_engage_def Let_def split_def)

text \<open>The command on the state of the stream.\<close>

definition stream_command :: "('d, 's) stream_io \<Rightarrow> nat \<Rightarrow> ('d, 's) stream \<Rightarrow> ('d, 's) stream" where
  "stream_command env n = on_upl (kernelupload_stream (sio_dev env) (stream_line n) 19 (length (stream_line n)))"

definition buffers_ok :: "('d, 's) stream \<Rightarrow> bool" where
  "buffers_ok s \<longleftrightarrow> up_wf (upl s) \<and> length (rx_ring_buf s) = 4096 \<and> length (stream_batch_buf s) = 512"

lemma command_opens:
  assumes sound: "stream_sound env view wire" and reads: "sd_reads_all (sio_dev env)" and bufs: "buffers_ok s"
    and sel: "card_select (slot_copies (view (sd (upl s)))) = Some (r, stale)"
    and n: "0 < n" "int n \<le> kernelslot_size_bytes"
  shows "stream_opened env view (stream_command env n s)" and "expected (stream_command env n s) = n"
    and "upload_opened view (if active_slot r = 0 then 1 else 0) (upl s) (upl (stream_command env n s))"
proof -
  let ?dev = "sio_dev env" and ?s = "stream_command env n s"
  have wf: "up_wf (upl s)" using bufs by (simp add: buffers_ok_def)
  note sd = stream_soundD(1) [OF sound]
  show o: "upload_opened view (if active_slot r = 0 then 1 else 0) (upl s) (upl ?s)"
    using stream_opens(1) [OF sd reads wf sel n] by (simp add: stream_command_def)
  obtain x where x: "upl ?s = say [Str ''GO '', Num (int n), Str ''\<newline>''] (stream_reset ?dev (of_nat n) x)"
    by (rule stream_eq [OF sd reads wf sel n]) (simp add: stream_command_def)
  have "n < 2 ^ 32" using n(2) by (simp add: kernelslot_size_bytes_def)
  then show e: "expected ?s = n" by (simp add: expected_def x say_def reset_fields unat_of_nat)
  have "rx_ring_buf ?s = rx_ring_buf s" "stream_batch_buf ?s = stream_batch_buf s" by (simp_all add: stream_command_def)
  then have "ring_ok ?s" "ring_bytes ?s = []"
    using bufs by (simp_all add: ring_ok_def ring_bytes_def ring_len_def x say_def reset_fields buffers_ok_def)
  moreover have "active_lately env (upl ?s)" if ticks: "ticks_forward env"
  proof -
    have "io_tick ?dev d \<le> io_tick ?dev (snd (io_clo ?dev (snd (io_clo ?dev d))))" for d
      using ticks by (auto simp: ticks_forward_def Let_def intro: order_trans)
    then show ?thesis by (simp add: active_lately_def x say_def reset_fields)
  qed
  ultimately show "stream_opened env view ?s"
    using o n(1) e by (simp add: stream_opened_def upload_opened_def x say_def reset_fields)
qed

section \<open>From the stream to the commit\<close>

text \<open>What the task has taken in at the end, if the ring dropped nothing.\<close>

lemma streamed_holds:
  assumes sound: "stream_sound env view wire" and opened: "stream_opened env view s0" and exp: "expected s0 = length msg"
    and works: "clock_forward (sio_dev env)" "sd_writes_all (sio_dev env)" and wire: "wire (sd (upl s0)) = msg @ rest"
    and run: "stream_run env s0 acc s ph" and alive: "up_active (upl s) = 1"
    and lossless: "length acc + length (wire (sd (upl s))) = length (wire (sd (upl s0)))" and enough: "length msg \<le> length acc"
  shows "\<exists>s'. stream_run env s0 acc s' None \<and> up_stream_active (upl s') \<noteq> 1 \<and> up_active (upl s') = 1
    \<and> upload_holds view msg (upl s') \<and> stream_frame view s0 s'"
proof -
  obtain s' where s': "stream_run env s0 acc s' None" "up_stream_active (upl s') \<noteq> 1" "up_active (upl s') = 1"
    using task_finishes [OF sound works opened run alive] enough exp by auto
  have "subseq (acc @ wire (sd (upl s))) (wire (sd (upl s0)))"
    using stream_run_inv [OF sound opened run] by (simp add: stream_inv_def stream_side_def)
  then have "acc @ wire (sd (upl s)) = msg @ rest" using lossless wire subseq_same_length by fastforce
  then have "take (length msg) (acc @ wire (sd (upl s))) = msg" by simp
  then have "take (length msg) acc = msg" using enough by simp
  then show ?thesis using s' stream_run_inv [OF sound opened s'(1)] by (auto simp: stream_inv_def exp)
qed

lemma streamed_commits:
  assumes sound: "stream_sound env view wire" and works: "sd_reads_all (sio_dev env)" "sd_writes_all (sio_dev env)" "clock_forward (sio_dev env)"
    and bufs: "buffers_ok s" and sel: "card_select (slot_copies (view (sd (upl s)))) = Some (r, stale)"
    and gen: "generation r \<noteq> - 1" and prog: "progress_counts (view (sd (upl s)))"
    and msg: "0 < length msg" "int (length msg) \<le> kernelslot_size_bytes"
    and wire: "wire (sd (upl (stream_command env (length msg) s))) = msg @ rest"
    and run: "stream_run env (stream_command env (length msg) s) acc s1 ph" and alive: "up_active (upl s1) = 1"
    and lossless: "length acc + length (wire (sd (upl s1))) = length (msg @ rest)" and enough: "length msg \<le> length acc"
  defines "t \<equiv> if active_slot r = 0 then 1 else 0" and "line \<equiv> commit_line (length msg) (sha256_digest msg)"
  shows "\<exists>s2 u r'. stream_run env (stream_command env (length msg) s) acc s2 None \<and> up_wf (upl s2)
    \<and> kernelupload_commit (sio_dev env) line 19 (length line) (upl s2) = Some u
    \<and> printed u = printed (upl s2) @ commit_ok_msg t (length msg)
    \<and> record_upload t (of_nat (length msg)) (sha256_digest msg) r = Some r'
    \<and> (\<exists>stale'. card_select (slot_copies (view (sd u))) = Some (r', stale'))
    \<and> card_image (view (sd u)) (slot_base_block t) (length msg) = msg"
proof -
  let ?s0 = "stream_command env (length msg) s"
  note sd = stream_soundD(1) [OF sound]
  note o = command_opens [OF sound works(1) bufs sel msg, folded t_def]
  note op = o(3) [unfolded upload_opened_def]
  obtain s2 where s2: "stream_run env ?s0 acc s2 None" "up_stream_active (upl s2) \<noteq> 1" "up_active (upl s2) = 1"
      "upload_holds view msg (upl s2)" "stream_frame view ?s0 s2"
    using streamed_holds [OF sound o(1,2) works(3,2) wire run alive lossless [folded wire] enough] by blast
  note f = s2(5) [unfolded stream_frame_def]
  have base: "upload_base (upl ?s0) = slot_base_block t" using op by (simp add: upload_base_def)
  have same: "view (sd (upl s2)) x = view (sd (upl s)) x" if "x \<in> state_blocks \<union> progress_blocks" for x
    using f slot_block_apart [OF that] size_blocks(1) [OF msg(2)] op by (simp add: base o(2))
  have wf2: "up_wf (upl s2)" using f op wf_sizes by blast
  from commit_ends [OF sd works(1,2) sel gen prog msg wf2 _ _ _ s2(4) same] s2(1,3) wf2 f op show ?thesis
    by (auto simp: line_def)
qed

section \<open>An example\<close>

text \<open>The card in memory with a UART behind which the bytes wait.\<close>

type_synonym board = "(u64 \<Rightarrow> u8 list) \<times> u8 list"

definition line_io :: "(board, unit) stream_io" where
  "line_io = \<lparr>sio_dev = \<lparr>io_read = (\<lambda>b buf d. let (s, buf, c) = io_read ram_io b buf (fst d) in (s, buf, (c, snd d))),
       io_write = (\<lambda>b out d. let (s, c) = io_write ram_io b out (fst d) in (s, (c, snd d))),
       io_clo = (\<lambda>d. (0, d)), io_tick = (\<lambda>d. 0)\<rparr>,
     sio_reg = (\<lambda>r d. if r = UART_FR then (if snd d = [] then 0x10 else 0, d)
       else if r = UART_DR then (ucast (hd (snd d)), (fst d, tl (snd d))) else (0, d)),
     sio_put = (\<lambda>r v d. d), sio_heartbeat = (\<lambda>t d. d), sio_irq_count = (\<lambda>d. 0), sio_ctxsw = (\<lambda>d. 0), sio_task = (\<lambda>d. (0, 0, 0)),
     sio_char = (\<lambda>c sh. sh)\<rparr>"

definition board_view :: "board \<Rightarrow> u64 \<Rightarrow> u8 list" where
  "board_view d = ram_view (fst d)"

lemma line_works:
  "stream_sound line_io board_view snd" "sd_reads_all (sio_dev line_io)" "sd_writes_all (sio_dev line_io)"
  "clock_forward (sio_dev line_io)" "ticks_forward line_io"
  by (auto simp: stream_sound_def uart_sound_def ticks_forward_def sd_sound_def sd_reads_all_def sd_writes_all_def clock_forward_def
      line_io_def ram_io_def board_view_def ram_view_def split: if_splits)

definition sample_line :: "u8 list \<Rightarrow> (board, unit) stream" where
  "sample_line w = \<lparr>upl = \<lparr>sd = (ram_card, w), printed = [], up_block_buf = replicate 512 0, up_sha_ctx = replicate 112 0,
     up_decode_buf = replicate 48 0, up_record_buf = replicate 512 0, up_chunk_record_buf = replicate 512 0,
     up_sd_scratch = replicate 512 0, up_total_len = 0, up_target_slot = 0, up_active = 0,
     up_chunk_base_block_offset = 0, up_sd_write_worst_us = 0, up_stream_active = 0, up_stream_expected_len = 0,
     up_stream_last_ack_len = 0, up_stream_last_activity_tick = 0, up_rx_ring_head = 0, up_rx_ring_tail = 0,
     up_watchdog_last_total_len = 0, up_watchdog_last_progress_tick = 0, up_watchdog_stall_reported = 0,
     up_last_rx_byte_us = 0, up_overrun_count = 0, up_uart_irq_entry_count = 0, up_fifo_backlog_count = 0,
     maintenance_mode_active = 0, maintenance_mode_last_touch_tick = 0\<rparr>,
     rx_ring_buf = replicate 4096 0, stream_batch_buf = replicate 512 0, shell = ()\<rparr>"

lemma sample_line_ok:
  "buffers_ok (sample_line w)"
  "card_select (slot_copies (board_view (sd (upl (sample_line w))))) = Some (sample_slot, SLOT_STATE_BLOCK_B)"
  "progress_counts (board_view (sd (upl (sample_line w))))"
  using sample_upload_ok(4,5) by (simp_all add: buffers_ok_def up_wf_def sample_line_def board_view_def)

lemma line_reads:
  "snd (sd (upl (snd (rx_byte line_io s)))) = tl (snd (sd (upl s)))"
proof -
  have "sd (upl (snd (kernelupload_rx_ring_push c s))) = sd (upl s)" for c and s :: "(board, unit) stream"
    by (simp add: kernelupload_rx_ring_push_def Let_def on_upl_def)
  then show ?thesis
    by (cases "snd (sd (upl s))") (simp_all add: rx_byte_def mmio_read_def line_io_def timer_clo_def on_upl_def Let_def split_def)
qed

lemma line_loop: "length (snd (sd (upl s))) \<le> i \<Longrightarrow> snd (sd (upl (snd (rx_loop line_io i k s)))) = []"
proof (induction i arbitrary: k s)
  case (Suc i)
  have "length (snd (sd (upl (snd (rx_byte line_io s))))) \<le> i" using Suc.prems by (simp add: line_reads)
  from Suc.IH [OF this] show ?case by (simp add: split_def Let_def)
qed simp

lemma line_interrupt:
  assumes "up_stream_active (upl s) = 1" and "length (snd (sd (upl s))) \<le> 32"
  shows "snd (sd (upl (irq_stream line_io s))) = []"
proof -
  have keep: "snd (sd (upl (snd (mmio_read line_io r s)))) = snd (sd (upl s))" if "r \<noteq> UART_DR" for r and s :: "(board, unit) stream"
    using that by (simp add: mmio_read_def line_io_def on_upl_def)
  have put: "sd (upl (mmio_write line_io r v s)) = sd (upl s)" for r v and s :: "(board, unit) stream"
    by (simp add: mmio_write_def line_io_def on_upl_def)
  show ?thesis
    using assms line_loop [where i = 32] by (simp add: irq_stream_def split_def Let_def keep put on_upl_def)
qed

lemma line_lookup: "kernelslot_lookup (io_read (sio_dev line_io)) (buf, d) = (r, buf', d') \<Longrightarrow> snd d' = snd d"
  by (auto simp: kernelslot_lookup_def line_io_def Let_def split: prod.splits if_splits)

lemma line_command: "snd (sd (upl (stream_command line_io n (sample_line w)))) = w"
proof -
  have clo: "io_clo (sio_dev line_io) d = (0, d)" for d by (simp add: line_io_def)
  have "snd (sd (kernelupload_stream (sio_dev line_io) l a b u)) = snd (sd u)" for l a b u
    by (auto simp: kernelupload_stream_def lookup_slots_def reset_fields clo Let_def dest!: line_lookup split: prod.splits)
  then show ?thesis by (simp add: stream_command_def sample_line_def)
qed

text \<open>One interrupt receives the whole image.\<close>

lemma sample_stream:
  defines "s0 \<equiv> stream_command line_io 3 (sample_line [7, 8, 9])"
  shows "stream_run line_io s0 [7, 8, 9] (irq_stream line_io s0) None" and "up_active (upl (irq_stream line_io s0)) = 1"
    and "snd (sd (upl (irq_stream line_io s0))) = []" and "snd (sd (upl s0)) = [7, 8, 9]"
    and "stream_opened line_io board_view s0" and "up_stream_active (upl (irq_stream line_io s0)) = 1"
    and "gained s0 (irq_stream line_io s0) = [7, 8, 9]"
proof -
  let ?s1 = "irq_stream line_io s0"
  have n: "0 < (3 :: nat)" "int 3 \<le> kernelslot_size_bytes" by (simp_all add: kernelslot_size_bytes_def)
  note o = command_opens [OF line_works(1,2) sample_line_ok(1,2) n, of "[7, 8, 9]", folded s0_def]
  show "stream_opened line_io board_view s0" by (rule o)
  have act: "up_stream_active (upl s0) = 1" "ring_ok s0" "ring_bytes s0 = []" "up_active (upl s0) = 1"
    using o(1) by (simp_all add: stream_opened_def)
  show wire: "snd (sd (upl s0)) = [7, 8, 9]" by (simp add: s0_def line_command)
  show none: "snd (sd (upl ?s1)) = []" using line_interrupt [OF act(1)] wire by simp
  note rec = irq_receives [OF line_works(1) act(2)]
  show "up_active (upl ?s1) = 1" "up_stream_active (upl ?s1) = 1"
    using rec act(1,4) by (simp_all add: only_receives_def kept_def)
  have "length (gained s0 ?s1) \<le> 3"
    using receives_wire [OF rec] by (auto simp: wire none dest!: list_emb_length)
  then have "length (ring_bytes ?s1) < 4095" using receives_gained [OF rec] act(3) by simp
  from receives_lossless [OF rec this] show got: "gained s0 ?s1 = [7, 8, 9]" by (simp add: wire none)
  from stream_run.interrupt [OF stream_run.start refl, of line_io s0] show "stream_run line_io s0 [7, 8, 9] ?s1 None" by (simp add: got)
qed

lemma sample_wire:
  "snd (sd (upl (stream_command line_io (length [7, 8, 9 :: u8]) (sample_line [7, 8, 9])))) = [7, 8, 9] @ []"
  by (simp only: line_command append_Nil2)

lemma sample_lossless:
  "length [7, 8, 9 :: u8] + length (snd (sd (upl (irq_stream line_io (stream_command line_io 3 (sample_line [7, 8, 9]))))))
    = length ([7, 8, 9 :: u8] @ [])" "3 \<le> length [7, 8, 9 :: u8]"
  using sample_stream(3) by simp_all

section \<open>Properties\<close>

text \<open>
  C8. Every interleaving of handler and task takes in the bytes of a stream as they came. After any sequence of
  interrupts and steps of the task: what the ring accepted, followed by what is still on the wire, is the
  wire of the start but for bytes that were dropped. While the stream is on, the accepted bytes are
  those that are taken in (full blocks on the card and in the hash, the rest in the block buffer),
  those popped into the batch and those in the ring, in this order, with none twice. When the
  stream has ended and the upload was not given up, exactly the declared number of bytes is taken in, the first
  ones that were accepted.
\<close>

theorem stream_interleavings_deliver:
  assumes sound: "stream_sound env view wire" and opened: "stream_opened env view s0" and run: "stream_run env s0 acc s ph"
  shows "subseq (acc @ wire (sd (upl s))) (wire (sd (upl s0)))
    \<and> (if up_stream_active (upl s) = 1
        then \<exists>fed. upload_holds view fed (upl s) \<and> length fed < expected s0
          \<and> acc = fed @ take (popped ph) (stream_batch_buf s) @ ring_bytes s
        else up_active (upl s) = 1 \<longrightarrow> expected s0 \<le> length acc \<and> upload_holds view (take (expected s0) acc) (upl s))"
  using stream_run_inv [OF assms] by (auto simp: stream_inv_def stream_side_def split: if_splits)

theorem stream_interleavings_deliver_witness:
  "let s0 = stream_command line_io 3 (sample_line [7, 8, 9]); s = irq_stream line_io s0 in
     up_stream_active (upl s) = 1 \<and> (\<exists>fed. upload_holds board_view fed (upl s) \<and> [7, 8, 9] = fed @ ring_bytes s)"
proof -
  let ?s0 = "stream_command line_io 3 (sample_line [7, 8, 9])"
  let ?s = "irq_stream line_io ?s0"
  from stream_interleavings_deliver [OF line_works(1) sample_stream(5,1)] sample_stream(6) show ?thesis by (auto simp: Let_def)
qed

text \<open>
  A streamed image gets committed. Start \<open>kernelupload stream\<close> on a working card and clock with a selectable record, and let
  the wire carry the image and then anything. Whatever the order of interrupts and steps of the task so far,
  if the upload was not given up, the ring has accepted as many bytes as were declared and none was
  dropped, then the task finishes the stream, and \<open>kernelupload commit\<close> with the length and the SHA-256 of the image
  prints \<open>ok\<close>: the image lies in the slot that is not active, and the record that the loader
  would select has this slot marked ready with this length and digest.
\<close>

theorem streamed_image_commits:
  assumes sound: "stream_sound env view wire" and works: "sd_reads_all (sio_dev env)" "sd_writes_all (sio_dev env)" "clock_forward (sio_dev env)"
    and bufs: "buffers_ok s" and sel: "card_select (slot_copies (view (sd (upl s)))) = Some (r, stale)"
    and gen: "generation r \<noteq> - 1" and prog: "progress_counts (view (sd (upl s)))"
    and msg: "0 < length msg" "int (length msg) \<le> kernelslot_size_bytes"
    and wire: "wire (sd (upl (stream_command env (length msg) s))) = msg @ rest"
    and run: "stream_run env (stream_command env (length msg) s) acc s1 ph" and alive: "up_active (upl s1) = 1"
    and lossless: "length acc + length (wire (sd (upl s1))) = length (msg @ rest)" and enough: "length msg \<le> length acc"
  defines "t \<equiv> if active_slot r = 0 then 1 else 0" and "line \<equiv> commit_line (length msg) (sha256_digest msg)"
  shows "\<exists>s2 u r'. stream_run env (stream_command env (length msg) s) acc s2 None
    \<and> kernelupload_commit (sio_dev env) line 19 (length line) (upl s2) = Some u
    \<and> printed u = printed (upl s2) @ commit_ok_msg t (length msg)
    \<and> record_upload t (of_nat (length msg)) (sha256_digest msg) r = Some r'
    \<and> (\<exists>stale'. card_select (slot_copies (view (sd u))) = Some (r', stale'))
    \<and> card_image (view (sd u)) (slot_base_block t) (length msg) = msg"
  unfolding t_def line_def using streamed_commits [OF assms(1-15)] by blast

theorem streamed_image_commits_witness:
  "\<exists>s2 u. stream_run line_io (stream_command line_io 3 (sample_line [7, 8, 9])) [7, 8, 9] s2 None
    \<and> (let line = commit_line 3 (sha256_digest [7, 8, 9]) in kernelupload_commit (sio_dev line_io) line 19 (length line) (upl s2) = Some u)
    \<and> card_image (board_view (sd u)) kernelslot_b_base_block 3 = [7, 8, 9]"
proof -
  have "length [7, 8, 9 :: u8] = 3" by simp
  from streamed_image_commits [OF line_works(1-4) sample_line_ok(1,2) sample_session(5) sample_line_ok(3) sample_session(2,4) sample_wire,
      unfolded this, OF sample_stream(1,2) sample_lossless]
  show ?thesis unfolding sample_session(6,7) Let_def by auto
qed

text \<open>
  C21. Streaming does not trap. In every state that handler and task can reach, with a clock and a tick count that
  do not go back, whatever the card answers, the task's work on a batch, or on an empty ring, ends: none of
  the checked subtractions underflows (ticks since the last byte, bytes since the last
  acknowledgement, the time of a write).
\<close>

theorem stream_never_traps:
  assumes sound: "stream_sound env view wire" and opened: "stream_opened env view s0" and run: "stream_run env s0 acc s (Some n)"
    and clocks: "clock_forward (sio_dev env)" "ticks_forward env"
  shows "\<exists>s'. stream_process env n s = Some s'"
  by (rule process_total [OF sound stream_run_inv [OF sound opened run] clocks])

theorem stream_never_traps_witness:
  "let s0 = stream_command line_io 3 (sample_line [7, 8, 9]) in
     \<exists>s'. stream_process line_io 0 (stream_start line_io (irq_stream line_io s0)) = Some s'"
proof -
  from stream_never_traps [OF line_works(1) sample_stream(5) stream_run.enter [OF sample_stream(1,6) refl] line_works(4,5)]
  show ?thesis by (simp add: Let_def)
qed

text \<open>
  C22. The window of the acknowledgements fits into the ring. In every state that handler and task can reach: if the
  bytes accepted, with those of the next interrupt, are fewer than 4095 more than the last acknowledged
  length, then this interrupt drops no byte of the wire. (The host sends at most 512 bytes ahead.)
\<close>

theorem acked_window_fits:
  assumes sound: "stream_sound env view wire" and opened: "stream_opened env view s0" and run: "stream_run env s0 acc s ph"
  defines "s' \<equiv> irq_stream env s"
  assumes window: "length (acc @ gained s s') < unat (up_stream_last_ack_len (upl s')) + 4095"
  shows "gained s s' @ wire (sd (upl s')) = wire (sd (upl s))"
proof (cases "up_stream_active (upl s) = 1")
  case True
  have "ring_ok s" using stream_run_inv [OF sound opened run] by (simp add: stream_inv_def stream_frame_def)
  note rec = irq_receives [OF sound this, folded s'_def]
  have act: "up_stream_active (upl s') = 1" using rec True by (simp add: only_receives_def kept_def)
  have "stream_inv env view wire s0 (acc @ gained s s') s' ph"
    using stream_run_inv [OF sound opened stream_run.interrupt [OF run refl]] by (simp add: s'_def)
  note t = inv_total(1) [OF this act]
  have "unat (up_stream_last_ack_len (upl s')) \<le> unat (up_total_len (upl s'))"
    using \<open>stream_inv env view wire s0 (acc @ gained s s') s' ph\<close> act by (simp add: stream_inv_def word_le_nat_alt)
  then have "length (ring_bytes s') < 4095" using t window by linarith
  then show ?thesis by (rule receives_lossless [OF rec])
next
  case False
  then show ?thesis by (simp add: s'_def irq_stream_def gained_def)
qed

theorem acked_window_fits_witness:
  "let s0 = stream_command line_io 3 (sample_line [7, 8, 9]); s = irq_stream line_io s0 in
     gained s0 s @ snd (sd (upl s)) = snd (sd (upl s0)) \<and> gained s0 s = [7, 8, 9]"
proof -
  let ?s0 = "stream_command line_io 3 (sample_line [7, 8, 9])"
  have "length ([] @ gained ?s0 (irq_stream line_io ?s0)) < unat (up_stream_last_ack_len (upl (irq_stream line_io ?s0))) + 4095"
    by (simp add: sample_stream(7))
  from acked_window_fits [OF line_works(1) sample_stream(5) stream_run.start this] show ?thesis
    by (simp add: Let_def sample_stream(7))
qed

text \<open>
  C23. The ring of the UART is a queue. Whatever the order of the producer's pushes and the consumer's pops from an empty
  ring, the bytes taken out are the first ones of those accepted, in their order, and all of them when
  the ring is empty again; a push is refused exactly when 4095 accepted bytes have not been taken out.
\<close>

theorem ring_delivers_in_order:
  assumes "rx_queue.interleaved q ins outs q'" and "ring_ok q" and "ring_bytes q = []"
  shows "(\<exists>waiting. ins = outs @ waiting) \<and> (pop_byte 0 q' = None \<longleftrightarrow> outs = ins)
    \<and> (fst (kernelupload_rx_ring_push (ucast (x :: u8)) q') = - 1 \<longleftrightarrow> length ins = length outs + 4095)"
proof -
  have f: "ring_ok q'" "ins = outs @ ring_bytes q'" using rx_queue.fifo [OF assms(1,2)] assms(3) by simp_all
  obtain st q2 where push: "kernelupload_rx_ring_push (ucast x) q' = (st, q2)" by fastforce
  show ?thesis using f(2) pop_spec(1) [OF f(1)] push_spec(2) [OF f(1) push] by (auto simp: push)
qed

theorem ring_delivers_in_order_witness:
  "\<exists>q2 x. rx_queue.interleaved (sample_line []) [7, 8] [x] q2 \<and> (\<exists>waiting. [7, 8] = [x] @ waiting)"
proof -
  let ?q = "sample_line []"
  have q: "ring_ok ?q" "ring_bytes ?q = []" by (simp_all add: ring_ok_def ring_bytes_def ring_len_def sample_line_def)
  obtain q1 where one: "ring_push 7 ?q = Some q1" "ring_bytes q1 = [7]" "ring_ok q1"
    using rx_queue.push_full [OF q(1), of 7] rx_queue.push_content [OF q(1), of 7] q(2) by (cases "ring_push 7 ?q") auto
  obtain q2 where two: "ring_push 8 q1 = Some q2" "ring_bytes q2 = [7, 8]" "ring_ok q2"
    using rx_queue.push_full [OF one(3), of 8] rx_queue.push_content [OF one(3), of 8] one(2) by (cases "ring_push 8 q1") auto
  obtain x q3 where three: "ring_pop q2 = Some (x, q3)"
    using rx_queue.pop_empty [OF two(3)] two(2) by (cases "ring_pop q2") auto
  have run: "rx_queue.interleaved ?q ([] @ [7] @ [8]) ([] @ [x]) q3"
    using rx_queue.interleaved.popped [OF rx_queue.interleaved.pushed [OF rx_queue.interleaved.pushed [OF rx_queue.interleaved.start one(1)] two(1)] three]
    by simp
  from ring_delivers_in_order [OF this q] run show ?thesis by auto
qed

end
