(* ===== verification/Sd_Properties.thy ===== *)
theory Sd_Properties
  imports Ideal_Card
begin

text \<open>
  The properties of the SD driver. Those on the bus log hold for every device; the examples run
  the driver on the ideal card.
\<close>

section \<open>A card for the examples\<close>

definition card_start :: "card stage0" where
  "card_start = \<lparr>hw = \<lparr>ticks = 0, card_arg = 0, rx = [], tx = None, disk = (\<lambda>n. replicate 128 n)\<rparr>,
     bus = [], s_rca = 0, s_is_sdhc = True, block_buf = replicate 512 0, ram = (\<lambda>a. 0)\<rparr>"

lemma card_start_simps [simp]:
  "rx (hw card_start) = []" "tx (hw card_start) = None" "disk (hw card_start) n = replicate 128 n"
  "bus card_start = []" "s_is_sdhc card_start" "block_buf card_start = replicate 512 0"
  by (simp_all add: card_start_def)

lemma card_start_read:
  "\<exists>m'. stage0_sd_read_block ideal_card 5 (replicate 128 0) card_start = Some (0, replicate 128 5, m')"
  using card_read_block [of card_start 5 "replicate 128 0"] by auto

lemma card_start_write:
  "\<exists>m'. stage0_sd_write_block ideal_card 5 (replicate 128 7) card_start = Some (0, m')"
  using card_write_block [of card_start "replicate 128 7" 5] by auto

section \<open>Reading\<close>

text \<open>
  C31. A block read that reports success has issued exactly one read command, for the address of the
  requested block (byte or block address, as the card needs it), and the buffer holds exactly
  the 128 words that the data register delivered, in order. It changes no variable of the
  program and issues no write command, whether or not it succeeds.
\<close>

theorem sd_read_block_delivers:
  assumes "stage0_sd_read_block D n buf m = Some (rc, buf', m')" and "length buf = 128"
  shows "(rc = 0 \<longrightarrow> reads SDDATA_ADDR (bus m') = reads SDDATA_ADDR (bus m) @ buf'
      \<and> read_targets (bus m') = read_targets (bus m) @ [card_addr m n])
    \<and> length buf' = 128 \<and> write_targets (bus m') = write_targets (bus m)
    \<and> mach.more m' = mach.more m \<and> rc \<in> {0, - 9}"
  using read_block_spec [OF assms] read_block_targets [of D n buf m buf' m'] assms by auto

theorem sd_read_block_delivers_witness:
  "\<exists>m'. stage0_sd_read_block ideal_card 5 (replicate 128 0) card_start = Some (0, replicate 128 5, m')
     \<and> reads SDDATA_ADDR (bus m') = replicate 128 5 \<and> read_targets (bus m') = [5]"
proof -
  obtain m' where m': "stage0_sd_read_block ideal_card 5 (replicate 128 0) card_start = Some (0, replicate 128 5, m')"
    using card_start_read by blast
  from sd_read_block_delivers [OF this] m' show ?thesis
    by (simp add: card_addr_def read_targets_def)
qed

section \<open>Writing\<close>

text \<open>
  C32. A block write that reports success has pushed exactly the 128 words of the buffer into the
  data register, in order, after one write command for the requested block. When it fails, it
  has pushed a prefix of them, and the only block the card may have been told to write is
  still the requested one: no other block of the card can be damaged.
\<close>

theorem sd_write_block_stores:
  assumes "stage0_sd_write_block D n wbuf m = Some (rc, m')" and "length wbuf = 128"
  shows "(rc = 0 \<longrightarrow> written SDDATA_ADDR (bus m') = written SDDATA_ADDR (bus m) @ wbuf
      \<and> write_targets (bus m') = write_targets (bus m) @ [card_addr m n])
    \<and> (\<exists>k \<le> 128. written SDDATA_ADDR (bus m') = written SDDATA_ADDR (bus m) @ take k wbuf)
    \<and> (\<exists>ts. write_targets (bus m') = write_targets (bus m) @ ts \<and> (ts = [] \<or> ts = [card_addr m n]))
    \<and> mach.more m' = mach.more m \<and> rc \<in> {0, - 9}"
  using write_block_spec(1,2,5,6,7) [OF assms] by auto

theorem sd_write_block_stores_witness:
  "\<exists>m'. stage0_sd_write_block ideal_card 5 (replicate 128 7) card_start = Some (0, m')
     \<and> written SDDATA_ADDR (bus m') = replicate 128 7 \<and> write_targets (bus m') = [5]"
proof -
  obtain m' where m': "stage0_sd_write_block ideal_card 5 (replicate 128 7) card_start = Some (0, m')"
    using card_start_write by blast
  from sd_write_block_stores [OF this] m' show ?thesis
    by (simp add: card_addr_def write_targets_def)
qed



text \<open>
  Neither transfer leaves the controller with its state machine forced: if the last value
  written to \<open>SDEDM\<close> before it did not have the force bit set, the last one after it has not,
  on every path, timeouts and errors included.
\<close>

theorem sd_force_bit_released:
  assumes "stage0_sd_read_block D n buf m = Some (rc, buf', m1)" and "length buf = 128"
    and "stage0_sd_write_block D k wbuf m1 = Some (rc', m2)" and "length wbuf = 128"
    and "\<not> force_left (bus m)"
  shows "\<not> force_left (bus m1) \<and> \<not> force_left (bus m2)"
  using read_block_spec(4) [OF assms(1,2,5)] write_block_spec(3) [OF assms(3,4)] by blast

theorem sd_force_bit_released_witness:
  "\<exists>m1 rc' m2. stage0_sd_read_block ideal_card 5 (replicate 128 0) card_start = Some (0, replicate 128 5, m1)
     \<and> stage0_sd_write_block ideal_card 6 (replicate 128 5) m1 = Some (rc', m2)
     \<and> \<not> force_left (bus m2)"
proof -
  obtain m1 where m1: "stage0_sd_read_block ideal_card 5 (replicate 128 0) card_start = Some (0, replicate 128 5, m1)"
    using card_start_read by blast
  obtain rc' m2 where m2: "stage0_sd_write_block ideal_card 6 (replicate 128 5) m1 = Some (rc', m2)"
    using write_block_live [OF ideal_card_live] by (fastforce simp: returns_def)
  from sd_force_bit_released [OF m1 _ m2] m1 m2 show ?thesis by auto
qed

text \<open>
  On a working card the driver is a faithful block store: what was written to a block is what
  a later read of the same block returns, and a read of any other block returns what it held
  before the write.
\<close>

theorem sd_write_then_read:
  assumes "s_is_sdhc m" and "rx (hw m) = []" and "\<forall>n. length (disk (hw m) n) = 128"
    and "length wbuf = 128" and "length buf = 128"
  shows "\<exists>m1 m2. stage0_sd_write_block ideal_card n wbuf m = Some (0, m1)
    \<and> stage0_sd_read_block ideal_card k buf m1 = Some (0, if k = n then wbuf else disk (hw m) k, m2)"
proof -
  obtain m1 where m1: "stage0_sd_write_block ideal_card n wbuf m = Some (0, m1)" "rx (hw m1) = []"
      "disk (hw m1) = (disk (hw m))(n := wbuf)" "mach.more m1 = mach.more m"
    using card_write_block [OF assms(1,2,4)] by blast
  have "s_is_sdhc m1" using assms(1) m1(4) by (cases m, cases m1) simp
  moreover have "length (disk (hw m1) k) = 128" using m1(3) assms(3,4) by simp
  ultimately obtain m2 where "stage0_sd_read_block ideal_card k buf m1 = Some (0, disk (hw m1) k, m2)"
    using card_read_block [OF _ m1(2) _ assms(5)] by blast
  with m1(1,3) show ?thesis by auto
qed

theorem sd_write_then_read_witness:
  "\<exists>m1 m2. stage0_sd_write_block ideal_card 5 (replicate 128 7) card_start = Some (0, m1)
     \<and> stage0_sd_read_block ideal_card 5 (replicate 128 0) m1 = Some (0, replicate 128 7, m2)"
  using sd_write_then_read [of card_start "replicate 128 7" "replicate 128 0" 5 5] by simp

section \<open>Bring-up and waiting\<close>

lemma acmd41_code: "acmd41_loop D n m = Some (rc, r, m') \<Longrightarrow> rc \<in> {0, - 3}"
proof (induction n arbitrary: m)
  case 0
  then show ?case
    by (subst (asm) acmd41_loop.simps) (auto split: if_splits elim!: bind_SomeE)
next
  case (Suc n)
  from Suc.prems show ?case
    by (subst (asm) acmd41_loop.simps) (auto split: if_splits elim!: bind_SomeE dest!: Suc.IH)
qed

lemma sd_init_code:
  assumes "stage0_sd_init D m = Some (rc, m')"
  shows "rc \<in> {0, - 1, - 2, - 3, - 4, - 5, - 6, - 7}"
  using assms acmd41_code
  by (fastforce simp: stage0_sd_init_def Let_def split: if_splits prod.splits elim!: bind_SomeE)

text \<open>
  C34. The driver never hangs on live hardware (the timer runs, the UART drains), whatever the card
  and the controller do: bring-up, block read and block write all return, with one of the
  documented return codes, even if every wait for the controller times out.
\<close>

theorem sd_driver_returns:
  assumes "live D" and "length buf = 128"
  shows "(\<exists>rc m'. stage0_sd_init D m = Some (rc, m') \<and> rc \<in> {0, - 1, - 2, - 3, - 4, - 5, - 6, - 7})
    \<and> (\<exists>rc buf' m'. stage0_sd_read_block D n buf m = Some (rc, buf', m') \<and> rc \<in> {0, - 9})
    \<and> (\<exists>rc m'. stage0_sd_write_block D n buf m = Some (rc, m') \<and> rc \<in> {0, - 9})"
proof (intro conjI)
  obtain rc m' where i: "stage0_sd_init D m = Some (rc, m')"
    using sd_init_live [OF assms(1)] by (fastforce simp: returns_def)
  with sd_init_code [OF i]
  show "\<exists>rc m'. stage0_sd_init D m = Some (rc, m') \<and> rc \<in> {0, - 1, - 2, - 3, - 4, - 5, - 6, - 7}"
    by blast
  obtain rc buf' m' where r: "stage0_sd_read_block D n buf m = Some (rc, buf', m')"
    using read_block_live [OF assms(1)] by (fastforce simp: returns_def)
  with read_block_spec(6) [OF r assms(2)]
  show "\<exists>rc buf' m'. stage0_sd_read_block D n buf m = Some (rc, buf', m') \<and> rc \<in> {0, - 9}" by blast
  obtain rc m' where w: "stage0_sd_write_block D n buf m = Some (rc, m')"
    using write_block_live [OF assms(1)] by (fastforce simp: returns_def)
  with write_block_spec(6) [OF w assms(2)]
  show "\<exists>rc m'. stage0_sd_write_block D n buf m = Some (rc, m') \<and> rc \<in> {0, - 9}" by blast
qed

theorem sd_driver_returns_witness:
  "live ideal_card \<and> (\<exists>rc m'. stage0_sd_init ideal_card card_start = Some (rc, m'))
     \<and> (\<exists>rc buf' m'. stage0_sd_read_block ideal_card 9 (replicate 128 0) card_start = Some (rc, buf', m'))"
  using sd_driver_returns [OF ideal_card_live, of "replicate 128 0" card_start 9] ideal_card_live by fastforce

text \<open>
  Bring-up cannot damage the card: on every path, failures included, it issues no write
  command, and it leaves the block buffer and RAM alone.
\<close>

lemma sd_init_writes_nothing:
  assumes "stage0_sd_init D m = Some (rc, m')"
  shows "write_targets (bus m') = write_targets (bus m) \<and> block_buf m' = block_buf m \<and> ram m' = ram m"
  using sd_init_keeps [OF assms] logs_no_write_targets by (auto simp: init_keeps_def)

text \<open>
  The divisor computed for the data-transfer clock fits its 11-bit field and keeps the card's
  clock at or below the target of 1 MHz, for every core clock up to 2.049 GHz; the divider
  never divides by zero.
\<close>

theorem sd_clock_bounded:
  assumes "core_clock_hz \<le> 2049000000"
  shows "unat (achieved_clock_hz core_clock_hz) \<le> 1000000
    \<and> unat (clock_divisor core_clock_hz) \<le> 0x7FF \<and> clock_divisor core_clock_hz + 2 \<noteq> 0"
proof -
  have hz: "unat core_clock_hz \<le> 2049000000" using assms by (simp add: word_le_nat_alt)
  have "unat (clock_divisor core_clock_hz + 2) = unat (clock_divisor core_clock_hz) + 2"
    using achieved_clock_le(2) [OF assms] by (simp add: unat_word_ariths)
  then have "clock_divisor core_clock_hz + 2 \<noteq> 0" by (metis add_is_0 unat_0 zero_neq_numeral)
  then show ?thesis using achieved_clock_le [OF assms] by simp
qed

theorem sd_clock_bounded_witness:
  "clock_divisor 250000000 = 248 \<and> unat (achieved_clock_hz 250000000) \<le> 1000000"
proof
  show "clock_divisor 250000000 = 248" by (simp add: clock_divisor_def Let_def)
  show "unat (achieved_clock_hz 250000000) \<le> 1000000"
    using sd_clock_bounded [of 250000000] by simp
qed

end
