(* ===== verification/Heap_Rpi1.thy ===== *)
theory Heap_Rpi1
  imports Runtime_Libc Interfaces
begin

text \<open>
  The allocators of \<open>boot/rpi1/runtime_stubs.c\<close>: the bump allocator \<open>dhruva_alloc_bytes\<close> with its
  fault injection, the guarded stacks carved out of the same heap, and the per-task stack
  regions. \<open>unsigned long\<close> is 32 bits. The static variables are fields of the state, with the
  IRQ mask of the CPSR; \<open>heap_base\<close> is the address the linker gave \<open>dhruva_heap\<close>, \<open>guards\<close> the
  calls of \<open>mmu_guard_page_install\<close> and \<open>mmu_guard_page_install_domain\<close> (assembly), newest
  first, with the task index of the latter. \<open>Exhausted\<close> is a call that ended in
  \<open>dhruva_oom_fatal\<close>, which never comes back.
\<close>

section \<open>State\<close>

record 's heap = "'s mach" +
  heap_base :: u32
  dhruva_heap_used :: u32
  dhruva_alloc_count :: u32
  dhruva_fault_inject_alloc_countdown :: u32
  irq_masked :: bool
  mem :: "u32 \<Rightarrow> u8"
  guards :: "(u32 \<times> u32 option) list"

datatype 'p alloc_result = Ptr 'p | Exhausted

definition DHRUVA_HEAP_BYTES :: u32 where "DHRUVA_HEAP_BYTES = 768 * 1024"

text \<open>\<open>while (i < need) { p[i] = 0; i = i + 1; }\<close>\<close>

definition zero_fill :: "'a::len word \<Rightarrow> nat \<Rightarrow> ('a word \<Rightarrow> u8) \<Rightarrow> 'a word \<Rightarrow> u8" where
  "zero_fill p need ram = fold (\<lambda>i ram. ram(p + of_nat i := 0)) [0..<need] ram"

section \<open>Exhaustion\<close>

definition dhruva_oom_fatal ::
    "'s device \<Rightarrow> u32 \<Rightarrow> u32 \<Rightarrow> bool \<Rightarrow> ('s, 'z) heap_scheme
      \<Rightarrow> ('p alloc_result \<times> ('s, 'z) heap_scheme) option" where
  "dhruva_oom_fatal D requested used injected m =
     (let m = m\<lparr>irq_masked := True\<rparr> in do {
        m \<leftarrow> dhruva_oom_puts D ''\<newline>FATAL: dhruva_alloc_bytes out of memory -- requested '' m;
        m \<leftarrow> dhruva_oom_put_u64 D (ucast requested) m;
        m \<leftarrow> dhruva_oom_puts D '' bytes, '' m;
        m \<leftarrow> dhruva_oom_put_u64 D (ucast used) m;
        m \<leftarrow> dhruva_oom_puts D '' of '' m;
        m \<leftarrow> dhruva_oom_put_u64 D (ucast DHRUVA_HEAP_BYTES) m;
        m \<leftarrow> (if injected then dhruva_oom_puts D
            '' already used. This is a DELIBERATELY INJECTED fault (dhruva_fault_inject_alloc_arm), not genuine exhaustion -- real heap space may still remain. Halting anyway, exactly as a real exhaustion would, to exercise this path's actual behavior.\<newline>'' m
          else dhruva_oom_puts D
            '' already used. Halting -- heap_usage_self_test's own boot-time headroom check should have caught this before it ever reached here; if it fires here instead, some runtime code path is allocating far more than boot-time self-tests account for.\<newline>'' m);
        Some (Exhausted, m) })"

section \<open>The bump allocator\<close>

text \<open>\<open>after_n\<close> is a 64-bit value, the countdown a 32-bit one.\<close>

definition dhruva_fault_inject_alloc_arm :: "u64 \<Rightarrow> ('s, 'z) heap_scheme \<Rightarrow> u64 \<times> ('s, 'z) heap_scheme" where
  "dhruva_fault_inject_alloc_arm after_n m =
     (0, m\<lparr>dhruva_fault_inject_alloc_countdown := (if sint after_n > 0 then ucast after_n else 0)\<rparr>)"

definition dhruva_alloc_count_get :: "('s, 'z) heap_scheme \<Rightarrow> u64" where
  "dhruva_alloc_count_get m = ucast (dhruva_alloc_count m)"

definition dhruva_heap_used_bytes :: "('s, 'z) heap_scheme \<Rightarrow> u64" where
  "dhruva_heap_used_bytes m = ucast (dhruva_heap_used m)"

definition dhruva_alloc_bytes ::
    "'s device \<Rightarrow> u32 \<Rightarrow> ('s, 'z) heap_scheme \<Rightarrow> (u32 alloc_result \<times> ('s, 'z) heap_scheme) option" where
  "dhruva_alloc_bytes D n m =
     (let need = n;
          saved_cpsr = irq_masked m;
          m = m\<lparr>irq_masked := True\<rparr>;
          (injected_fault, m) =
            (if dhruva_fault_inject_alloc_countdown m > 0 then
               (let m = m\<lparr>dhruva_fault_inject_alloc_countdown := dhruva_fault_inject_alloc_countdown m - 1\<rparr>
                in (dhruva_fault_inject_alloc_countdown m = 0, m))
             else (False, m))
      in if injected_fault then dhruva_oom_fatal D need (dhruva_heap_used m) True m
         else
           let aligned_used = (dhruva_heap_used m + 7) AND NOT 7 in
           if aligned_used + need > DHRUVA_HEAP_BYTES then
             dhruva_oom_fatal D need (dhruva_heap_used m) False m
           else
             let p = heap_base m + aligned_used;
                 m = m\<lparr>dhruva_heap_used := aligned_used + need\<rparr>;
                 m = m\<lparr>dhruva_alloc_count := dhruva_alloc_count m + 1\<rparr>;
                 m = m\<lparr>irq_masked := saved_cpsr\<rparr>;
                 m = m\<lparr>mem := zero_fill p (unat need) (mem m)\<rparr>
             in Some (Ptr p, m))"

section \<open>Guarded stacks\<close>

definition mmu_guard_page_install :: "u32 \<Rightarrow> ('s, 'z) heap_scheme \<Rightarrow> ('s, 'z) heap_scheme" where
  "mmu_guard_page_install a m = m\<lparr>guards := (a, None) # guards m\<rparr>"

definition mmu_guard_page_install_domain :: "u32 \<Rightarrow> u32 \<Rightarrow> ('s, 'z) heap_scheme \<Rightarrow> ('s, 'z) heap_scheme" where
  "mmu_guard_page_install_domain a task_index m = m\<lparr>guards := (a, Some task_index) # guards m\<rparr>"

definition dhruva_alloc_stack_guarded ::
    "'s device \<Rightarrow> u32 \<Rightarrow> ('s, 'z) heap_scheme \<Rightarrow> (u32 alloc_result \<times> ('s, 'z) heap_scheme) option" where
  "dhruva_alloc_stack_guarded D n m =
     (let need = n;
          saved_cpsr = irq_masked m;
          m = m\<lparr>irq_masked := True\<rparr>;
          base = heap_base m;
          cur_abs = base + dhruva_heap_used m;
          aligned_abs = (cur_abs + 4095) AND NOT 4095;
          guard_offset = aligned_abs - base;
          usable_offset = guard_offset + 4096
      in if usable_offset + need > DHRUVA_HEAP_BYTES then
           dhruva_oom_fatal D need (dhruva_heap_used m) False m
         else
           let guard_ptr = heap_base m + guard_offset;
               usable_ptr = heap_base m + usable_offset;
               m = m\<lparr>dhruva_heap_used := usable_offset + need\<rparr>;
               m = m\<lparr>dhruva_alloc_count := dhruva_alloc_count m + 1\<rparr>;
               m = m\<lparr>irq_masked := saved_cpsr\<rparr>;
               m = mmu_guard_page_install guard_ptr m;
               m = m\<lparr>mem := zero_fill usable_ptr (unat need) (mem m)\<rparr>
           in Some (Ptr usable_ptr, m))"

section \<open>Stacks in a task's own region\<close>

definition domain_base :: "u32 \<Rightarrow> u32" where
  "domain_base task_index = 0x00A00000 + task_index * 0x00100000"

definition dhruva_alloc_stack_domain ::
    "'s device \<Rightarrow> u32 \<Rightarrow> u32 \<Rightarrow> ('s, 'z) heap_scheme \<Rightarrow> (u32 alloc_result \<times> ('s, 'z) heap_scheme) option" where
  "dhruva_alloc_stack_domain D n task_index m =
     (let need = n in
      if task_index > 14 then dhruva_alloc_stack_guarded D n m
      else
        let guard_addr = domain_base task_index;
            usable_ptr = domain_base task_index + 4096
        in if need + 4096 > 0x00100000 then dhruva_oom_fatal D need 0 False m
           else
             let m = mmu_guard_page_install_domain guard_addr task_index m;
                 m = m\<lparr>mem := zero_fill usable_ptr (unat need) (mem m)\<rparr>
             in Some (Ptr usable_ptr, m))"

definition dhruva_alloc_usrstack_domain ::
    "'s device \<Rightarrow> u32 \<Rightarrow> u32 \<Rightarrow> ('s, 'z) heap_scheme \<Rightarrow> (u32 alloc_result \<times> ('s, 'z) heap_scheme) option" where
  "dhruva_alloc_usrstack_domain D n task_index m =
     (let need = n in
      if task_index > 14 then dhruva_alloc_stack_guarded D n m
      else
        let guard_addr = domain_base task_index + 0x00080000;
            usable_ptr = guard_addr + 4096
        in if need + 0x00081000 > 0x00100000 then dhruva_oom_fatal D need 0 False m
           else
             let m = mmu_guard_page_install_domain guard_addr task_index m;
                 m = m\<lparr>mem := zero_fill usable_ptr (unat need) (mem m)\<rparr>
             in Some (Ptr usable_ptr, m))"

text \<open>The block device of the host harness, which the board does not have.\<close>

definition host_virtual_disk_read :: "u64 \<Rightarrow> u64" where "host_virtual_disk_read block_num = - 1"
definition host_virtual_disk_write :: "u64 \<Rightarrow> u64" where "host_virtual_disk_write block_num = - 1"

end
