(* ===== verification/Heap_Rpi4.thy ===== *)
theory Heap_Rpi4
  imports Heap_Rpi1
begin

text \<open>
  The allocators of \<open>boot/rpi4/runtime_stubs_rpi4.c\<close>, the AArch64 twins of those of the Pi 1:
  \<open>unsigned long\<close> is 64 bits, the interrupt mask is that of DAIF, and there is no fault
  injection. Addresses are 64-bit.
\<close>

record 's heap4 = "'s mach" +
  heap_base4 :: u64
  dhruva_heap_used_rpi4 :: u64
  dhruva_alloc_count_rpi4 :: u64
  daif_masked :: bool
  mem4 :: "u64 \<Rightarrow> u8"
  guards4 :: "u64 list"

definition DHRUVA_HEAP_BYTES_RPI4 :: u64 where "DHRUVA_HEAP_BYTES_RPI4 = 768 * 1024"

definition dhruva_oom_fatal_rpi4 ::
    "'s device \<Rightarrow> u64 \<Rightarrow> u64 \<Rightarrow> ('s, 'z) heap4_scheme
      \<Rightarrow> ('p alloc_result \<times> ('s, 'z) heap4_scheme) option" where
  "dhruva_oom_fatal_rpi4 D requested used m =
     (let m = m\<lparr>daif_masked := True\<rparr> in do {
        m \<leftarrow> dhruva_dprintf_puts_rpi4 D ''\<newline>FATAL: dhruva_alloc_bytes out of memory -- requested '' m;
        m \<leftarrow> dhruva_dprintf_put_i64_rpi4 D requested m;
        m \<leftarrow> dhruva_dprintf_puts_rpi4 D '' bytes, '' m;
        m \<leftarrow> dhruva_dprintf_put_i64_rpi4 D used m;
        m \<leftarrow> dhruva_dprintf_puts_rpi4 D '' of '' m;
        m \<leftarrow> dhruva_dprintf_put_i64_rpi4 D DHRUVA_HEAP_BYTES_RPI4 m;
        m \<leftarrow> dhruva_dprintf_puts_rpi4 D
          '' already used. Halting -- heap_usage_self_test_rpi4's own boot-time headroom check should have caught this before it ever reached here.\<newline>'' m;
        Some (Exhausted, m) })"

definition dhruva_alloc_count_get_rpi4 :: "('s, 'z) heap4_scheme \<Rightarrow> u64" where
  "dhruva_alloc_count_get_rpi4 m = dhruva_alloc_count_rpi4 m"

definition dhruva_heap_used_bytes_rpi4 :: "('s, 'z) heap4_scheme \<Rightarrow> u64" where
  "dhruva_heap_used_bytes_rpi4 m = dhruva_heap_used_rpi4 m"

text \<open>Byte access through a heap pointer; the offset is a 32-bit unsigned value.\<close>

definition buf_write_byte :: "u64 \<Rightarrow> u32 \<Rightarrow> u32 \<Rightarrow> ('s, 'z) heap4_scheme \<Rightarrow> u32 \<times> ('s, 'z) heap4_scheme" where
  "buf_write_byte buf offset value m = (0, m\<lparr>mem4 := (mem4 m)(buf + ucast offset := ucast value)\<rparr>)"

definition buf_read_byte :: "u64 \<Rightarrow> u32 \<Rightarrow> ('s, 'z) heap4_scheme \<Rightarrow> u32" where
  "buf_read_byte buf offset m = ucast (mem4 m (buf + ucast offset))"

definition dhruva_alloc_bytes_rpi4 ::
    "'s device \<Rightarrow> u64 \<Rightarrow> ('s, 'z) heap4_scheme \<Rightarrow> (u64 alloc_result \<times> ('s, 'z) heap4_scheme) option" where
  "dhruva_alloc_bytes_rpi4 D n m =
     (let need = n;
          saved_daif = daif_masked m;
          m = m\<lparr>daif_masked := True\<rparr>;
          aligned_used = (dhruva_heap_used_rpi4 m + 7) AND NOT 7
      in if aligned_used + need > DHRUVA_HEAP_BYTES_RPI4 then
           dhruva_oom_fatal_rpi4 D need (dhruva_heap_used_rpi4 m) m
         else
           let p = heap_base4 m + aligned_used;
               m = m\<lparr>dhruva_heap_used_rpi4 := aligned_used + need\<rparr>;
               m = m\<lparr>dhruva_alloc_count_rpi4 := dhruva_alloc_count_rpi4 m + 1\<rparr>;
               m = m\<lparr>daif_masked := saved_daif\<rparr>;
               m = m\<lparr>mem4 := zero_fill p (unat need) (mem4 m)\<rparr>
           in Some (Ptr p, m))"

definition mmu_guard_page_install_rpi4 :: "u64 \<Rightarrow> ('s, 'z) heap4_scheme \<Rightarrow> ('s, 'z) heap4_scheme" where
  "mmu_guard_page_install_rpi4 a m = m\<lparr>guards4 := a # guards4 m\<rparr>"

definition dhruva_alloc_stack_guarded_rpi4 ::
    "'s device \<Rightarrow> u64 \<Rightarrow> ('s, 'z) heap4_scheme \<Rightarrow> (u64 alloc_result \<times> ('s, 'z) heap4_scheme) option" where
  "dhruva_alloc_stack_guarded_rpi4 D n m =
     (let need = n;
          saved_daif = daif_masked m;
          m = m\<lparr>daif_masked := True\<rparr>;
          base = heap_base4 m;
          cur_abs = base + dhruva_heap_used_rpi4 m;
          aligned_abs = (cur_abs + 4095) AND NOT 4095;
          guard_offset = aligned_abs - base;
          usable_offset = guard_offset + 4096
      in if usable_offset + need > DHRUVA_HEAP_BYTES_RPI4 then
           dhruva_oom_fatal_rpi4 D need (dhruva_heap_used_rpi4 m) m
         else
           let guard_ptr = heap_base4 m + guard_offset;
               usable_ptr = heap_base4 m + usable_offset;
               m = m\<lparr>dhruva_heap_used_rpi4 := usable_offset + need\<rparr>;
               m = m\<lparr>dhruva_alloc_count_rpi4 := dhruva_alloc_count_rpi4 m + 1\<rparr>;
               m = m\<lparr>daif_masked := saved_daif\<rparr>;
               m = mmu_guard_page_install_rpi4 guard_ptr m;
               m = m\<lparr>mem4 := zero_fill usable_ptr (unat need) (mem4 m)\<rparr>
           in Some (Ptr usable_ptr, m))"

end
