(* ===== verification/Heap_Proofs.thy ===== *)
theory Heap_Proofs
  imports Heap_Rpi4 Libc_Proofs
begin

text \<open>
  The lemmas of the allocators of both boards: the offsets they hand out, that a region is
  zeroed and everything else kept, that no two regions overlap, when a call does not come back,
  and that the per-task regions are separate.
\<close>

section \<open>The arithmetic of a bump\<close>

definition CAP :: nat where "CAP = 786432"

lemma bump_bytes:
  fixes used need cap :: "'a::len word"
  assumes "unat used \<le> CAP" and "unat need + CAP + 8 \<le> 2 ^ LENGTH('a)" and "unat cap = CAP"
  defines "off \<equiv> (used + 7) AND NOT 7"
  shows "unat off = round_up 8 (unat used)"
    and "unat (off + need) = round_up 8 (unat used) + unat need"
    and "off + need > cap \<longleftrightarrow> round_up 8 (unat used) + unat need > CAP"
proof -
  show off: "unat off = round_up 8 (unat used)"
    unfolding off_def by (rule unat_round_8) (use assms in simp)
  have "round_up 8 (unat used) + unat need < 2 ^ LENGTH('a)"
    using round_up_bounds(2) [of 8 "unat used"] assms by simp
  then show sum: "unat (off + need) = round_up 8 (unat used) + unat need"
    using off by (subst unat_add_lem [THEN iffD1]) simp_all
  show "off + need > cap \<longleftrightarrow> round_up 8 (unat used) + unat need > CAP"
    by (simp only: word_less_nat_alt sum assms(3))
qed

text \<open>The offset of the guard page: the next page boundary of the absolute address.\<close>

definition guard_off :: "nat \<Rightarrow> nat \<Rightarrow> nat" where
  "guard_off base used = round_up 4096 (base + used) - base"

lemma guard_off_bounds: "used \<le> guard_off base used" "guard_off base used < used + 4096"
  using round_up_bounds [of 4096 "base + used"] by (simp_all add: guard_off_def)

lemma bump_stack:
  fixes base used need cap :: "'a::len word"
  assumes "unat used \<le> CAP" and "unat base + CAP + 8192 \<le> 2 ^ LENGTH('a)"
    and "unat need + CAP + 8192 \<le> 2 ^ LENGTH('a)" and "unat cap = CAP"
  defines "g \<equiv> ((base + used + 4095) AND NOT 4095) - base"
  shows "unat g = guard_off (unat base) (unat used)"
    and "unat (g + 4096) = guard_off (unat base) (unat used) + 4096"
    and "unat (g + 4096 + need) = guard_off (unat base) (unat used) + 4096 + unat need"
    and "g + 4096 + need > cap \<longleftrightarrow> guard_off (unat base) (unat used) + 4096 + unat need > CAP"
proof -
  let ?g = "guard_off (unat base) (unat used)"
  have bu: "unat (base + used) = unat base + unat used"
    using assms(1,2) by (subst unat_add_lem [THEN iffD1]) simp_all
  have "unat (base + used) + 4095 < 2 ^ LENGTH('a)" using assms(1,2) bu by simp
  from unat_round_4096 [OF this]
  have ru: "unat ((base + used + 4095) AND NOT 4095) = round_up 4096 (unat base + unat used)"
    by (simp only: bu)
  have "base \<le> (base + used + 4095) AND NOT 4095"
    unfolding word_le_nat_alt ru using round_up_bounds(1) [of 4096 "unat base + unat used"] by simp
  then show g: "unat g = ?g"
    unfolding g_def guard_off_def ru [symmetric] by (rule unat_sub)
  have "(4096 :: nat) < 2 ^ LENGTH('a)" using assms(2) by simp
  then have k: "unat (4096 :: 'a word) = 4096" by (simp add: take_bit_nat_eq_self)
  have lt: "?g < unat used + 4096" by (rule guard_off_bounds)
  then have "?g + 4096 < 2 ^ LENGTH('a)" using assms(1,2) by simp
  then show g4: "unat (g + 4096) = ?g + 4096"
    using g k by (subst unat_add_lem [THEN iffD1]) simp_all
  have "?g + 4096 + unat need < 2 ^ LENGTH('a)" using lt assms(1,3) by simp
  then show sum: "unat (g + 4096 + need) = ?g + 4096 + unat need"
    using g4 by (subst unat_add_lem [THEN iffD1]) simp_all
  show "g + 4096 + need > cap \<longleftrightarrow> ?g + 4096 + unat need > CAP"
    by (simp only: word_less_nat_alt sum assms(4))
qed

lemma zero_fill_at:
  fixes p :: "'a::len word"
  shows "unat p + n \<le> 2 ^ LENGTH('a) \<Longrightarrow>
    zero_fill p n ram a = (if unat p \<le> unat a \<and> unat a < unat p + n then 0 else ram a)"
proof (induction n)
  case (Suc n)
  then have "unat (p + of_nat n) = unat p + n"
    by (simp add: unat_word_ariths unat_of_nat)
  then have eq: "a = p + of_nat n \<longleftrightarrow> unat a = unat p + n"
    by (metis word_unat_eq_iff)
  have step: "zero_fill p (Suc n) ram = (zero_fill p n ram)(p + of_nat n := 0)"
    by (simp add: zero_fill_def)
  show ?case using Suc eq by (auto simp: step)
qed (auto simp: zero_fill_def)

lemma zero_fill_wraps:
  fixes p :: "'a::len word"
  shows "n \<le> 2 ^ LENGTH('a) \<Longrightarrow> zero_fill p n ram a = (if unat (a - p) < n then 0 else ram a)"
proof (induction n)
  case (Suc n)
  then have "unat (of_nat n :: 'a word) = n" by (simp add: unat_of_nat take_bit_nat_eq_self)
  then have "unat (a - p) = n \<longleftrightarrow> a - p = of_nat n" by (metis word_unat_eq_iff)
  then have eq: "a = p + of_nat n \<longleftrightarrow> unat (a - p) = n" by (auto simp: diff_eq_eq add.commute)
  have step: "zero_fill p (Suc n) ram = (zero_fill p n ram)(p + of_nat n := 0)"
    by (simp add: zero_fill_def)
  show ?case using Suc eq by (auto simp: step)
qed (simp add: zero_fill_def)

section \<open>The Pi 1 heap\<close>

text \<open>
  The linker places the heap with two pages to spare below the top of the address space; a
  request is a byte count that is not negative as a \<open>long\<close>.
\<close>

definition heap_wf :: "('s, 'z) heap_scheme \<Rightarrow> bool" where
  "heap_wf m \<longleftrightarrow> unat (dhruva_heap_used m) \<le> CAP \<and> unat (heap_base m) + CAP + 8192 \<le> 2 ^ 32"

definition count_ok :: "u32 \<Rightarrow> bool" where
  "count_ok n \<longleftrightarrow> unat n < 2 ^ 31"

lemma heap_bytes_cap: "unat DHRUVA_HEAP_BYTES = CAP"
  by (simp add: DHRUVA_HEAP_BYTES_def CAP_def)

lemma oom_result: "dhruva_oom_fatal D r u i m = Some (res, m') \<Longrightarrow> res = Exhausted"
  by (auto simp: dhruva_oom_fatal_def Let_def elim!: bind_SomeE)

text \<open>Whether this call is the one the fault injection stops.\<close>

definition injects :: "('s, 'z) heap_scheme \<Rightarrow> bool" where
  "injects m \<longleftrightarrow> dhruva_fault_inject_alloc_countdown m = 1"

lemma heap_update_swap:
  "m\<lparr>irq_masked := b, dhruva_fault_inject_alloc_countdown := c\<rparr>
     = m\<lparr>dhruva_fault_inject_alloc_countdown := c, irq_masked := b\<rparr>"
  by (cases m) simp

text \<open>The call in one step: the two ways to fail, and the new state of a success.\<close>

definition bumped :: "u32 \<Rightarrow> u32 \<Rightarrow> ('s, 'z) heap_scheme \<Rightarrow> ('s, 'z) heap_scheme" where
  "bumped off n m = m\<lparr>dhruva_heap_used := off + n, dhruva_alloc_count := dhruva_alloc_count m + 1,
     mem := zero_fill (heap_base m + off) (unat n) (mem m)\<rparr>"

definition ticked :: "('s, 'z) heap_scheme \<Rightarrow> ('s, 'z) heap_scheme" where
  "ticked m = m\<lparr>dhruva_fault_inject_alloc_countdown :=
     (let c = dhruva_fault_inject_alloc_countdown m in if 0 < c then c - 1 else c)\<rparr>"

lemma alloc_bytes_cases:
  "dhruva_alloc_bytes D n m =
     (let off = (dhruva_heap_used m + 7) AND NOT 7; m1 = (ticked m)\<lparr>irq_masked := True\<rparr> in
      if injects m then dhruva_oom_fatal D n (dhruva_heap_used m) True m1
      else if off + n > DHRUVA_HEAP_BYTES then dhruva_oom_fatal D n (dhruva_heap_used m) False m1
      else Some (Ptr (heap_base m + off), bumped off n (ticked m)))"
proof (cases "dhruva_fault_inject_alloc_countdown m = 0")
  case True
  then have "ticked m = m" by (cases m) (simp add: ticked_def)
  with True show ?thesis
    by (simp add: dhruva_alloc_bytes_def Let_def injects_def bumped_def)
next
  case False
  then have pos: "0 < dhruva_fault_inject_alloc_countdown m" by (simp add: word_gt_0)
  show ?thesis
    using pos by (simp add: dhruva_alloc_bytes_def Let_def injects_def ticked_def bumped_def heap_update_swap)
qed

lemma alloc_bytes_Ptr:
  assumes "dhruva_alloc_bytes D n m = Some (Ptr p, m')"
  shows "m' = bumped ((dhruva_heap_used m + 7) AND NOT 7) n (ticked m)"
    and "p = heap_base m + ((dhruva_heap_used m + 7) AND NOT 7)"
    and "\<not> injects m" and "\<not> ((dhruva_heap_used m + 7) AND NOT 7) + n > DHRUVA_HEAP_BYTES"
  using assms by (auto simp: alloc_bytes_cases Let_def dest: oom_result split: if_splits)

lemma alloc_stack_cases:
  "dhruva_alloc_stack_guarded D n m =
     (let g = ((heap_base m + dhruva_heap_used m + 4095) AND NOT 4095) - heap_base m in
      if g + 4096 + n > DHRUVA_HEAP_BYTES
      then dhruva_oom_fatal D n (dhruva_heap_used m) False (m\<lparr>irq_masked := True\<rparr>)
      else Some (Ptr (heap_base m + (g + 4096)),
        mmu_guard_page_install (heap_base m + g) (bumped (g + 4096) n m)))"
  by (simp add: dhruva_alloc_stack_guarded_def Let_def bumped_def mmu_guard_page_install_def)

lemma alloc_stack_Ptr:
  assumes "dhruva_alloc_stack_guarded D n m = Some (Ptr p, m')"
  defines "g \<equiv> ((heap_base m + dhruva_heap_used m + 4095) AND NOT 4095) - heap_base m"
  shows "m' = mmu_guard_page_install (heap_base m + g) (bumped (g + 4096) n m)"
    and "p = heap_base m + (g + 4096)" and "\<not> g + 4096 + n > DHRUVA_HEAP_BYTES"
  using assms by (auto simp: alloc_stack_cases Let_def dest: oom_result split: if_splits)

text \<open>A successful call in natural numbers.\<close>

lemma base_offset:
  fixes base off :: u32
  assumes "unat base + CAP + 8192 \<le> 2 ^ 32" and "unat off \<le> CAP"
  shows "unat (base + off) = unat base + unat off"
  using assms by (subst unat_add_lem [THEN iffD1]) simp_all

lemma bytes_success:
  assumes "heap_wf m" and "count_ok n" and "dhruva_alloc_bytes D n m = Some (Ptr p, m')"
  defines "off \<equiv> round_up 8 (unat (dhruva_heap_used m))"
  shows "unat p = unat (heap_base m) + off" and "off + unat n \<le> CAP"
    and "unat (dhruva_heap_used m') = off + unat n" and "heap_base m' = heap_base m"
    and "heap_wf m'" and "irq_masked m' = irq_masked m"
    and "dhruva_alloc_count m' = dhruva_alloc_count m + 1"
    and "mem m' a = (if unat p \<le> unat a \<and> unat a < unat p + unat n then 0 else mem m a)"
proof -
  let ?off = "(dhruva_heap_used m + 7) AND NOT 7"
  note r = alloc_bytes_Ptr [OF assms(3)]
  have wf: "unat (dhruva_heap_used m) \<le> CAP" "unat (heap_base m) + CAP + 8192 \<le> 2 ^ 32"
    using assms(1) by (simp_all add: heap_wf_def)
  have n: "unat n + CAP + 8 \<le> 2 ^ LENGTH(32)" using assms(2) by (simp add: count_ok_def CAP_def)
  note b = bump_bytes [OF wf(1) n heap_bytes_cap, folded off_def]
  show cap: "off + unat n \<le> CAP" using r(4) b(3) by simp
  then show p: "unat p = unat (heap_base m) + off"
    unfolding r(2) using base_offset [OF wf(2), of ?off] b(1) by simp
  show used: "unat (dhruva_heap_used m') = off + unat n"
    unfolding r(1) using b(2) by (simp add: bumped_def)
  show "heap_base m' = heap_base m" "irq_masked m' = irq_masked m"
    "dhruva_alloc_count m' = dhruva_alloc_count m + 1"
    unfolding r(1) by (simp_all add: bumped_def ticked_def)
  then show "heap_wf m'" using wf used cap by (simp add: heap_wf_def)
  show "mem m' a = (if unat p \<le> unat a \<and> unat a < unat p + unat n then 0 else mem m a)"
  proof -
    have "mem m' = zero_fill p (unat n) (mem m)" by (simp add: r(1,2) bumped_def ticked_def)
    moreover have "unat p + unat n \<le> 2 ^ LENGTH(32)" using p cap wf by simp
    ultimately show ?thesis by (simp only: zero_fill_at)
  qed
qed

lemma stack_success:
  assumes "heap_wf m" and "count_ok n" and "dhruva_alloc_stack_guarded D n m = Some (Ptr p, m')"
  defines "g \<equiv> guard_off (unat (heap_base m)) (unat (dhruva_heap_used m))"
  shows "unat p = unat (heap_base m) + g + 4096" and "g + 4096 + unat n \<le> CAP"
    and "unat (dhruva_heap_used m') = g + 4096 + unat n" and "heap_base m' = heap_base m"
    and "heap_wf m'" and "irq_masked m' = irq_masked m"
    and "\<exists>a. guards m' = (a, None) # guards m \<and> unat a = unat (heap_base m) + g"
    and "mem m' a = (if unat p \<le> unat a \<and> unat a < unat p + unat n then 0 else mem m a)"
proof -
  let ?g = "((heap_base m + dhruva_heap_used m + 4095) AND NOT 4095) - heap_base m"
  note r = alloc_stack_Ptr [OF assms(3)]
  have wf: "unat (dhruva_heap_used m) \<le> CAP" "unat (heap_base m) + CAP + 8192 \<le> 2 ^ LENGTH(32)"
    using assms(1) by (simp_all add: heap_wf_def)
  have n: "unat n + CAP + 8192 \<le> 2 ^ LENGTH(32)" using assms(2) by (simp add: count_ok_def CAP_def)
  note b = bump_stack [OF wf n heap_bytes_cap, folded g_def]
  show cap: "g + 4096 + unat n \<le> CAP" using r(3) b(4) by simp
  then show p: "unat p = unat (heap_base m) + g + 4096"
    unfolding r(2) using base_offset [of "heap_base m" "?g + 4096"] wf(2) b(2) by simp
  have ga: "unat (heap_base m + ?g) = unat (heap_base m) + g"
    using base_offset [of "heap_base m" ?g] wf(2) b(1) cap by simp
  show used: "unat (dhruva_heap_used m') = g + 4096 + unat n"
    unfolding r(1) using b(3) by (simp add: bumped_def mmu_guard_page_install_def)
  show "heap_base m' = heap_base m" "irq_masked m' = irq_masked m"
    unfolding r(1) by (simp_all add: bumped_def mmu_guard_page_install_def)
  then show "heap_wf m'" using wf used cap by (simp add: heap_wf_def)
  show "\<exists>a. guards m' = (a, None) # guards m \<and> unat a = unat (heap_base m) + g"
    unfolding r(1) using ga by (simp add: bumped_def mmu_guard_page_install_def)
  show "mem m' a = (if unat p \<le> unat a \<and> unat a < unat p + unat n then 0 else mem m a)"
  proof -
    have "mem m' = zero_fill p (unat n) (mem m)" by (simp add: r(1,2) bumped_def mmu_guard_page_install_def)
    moreover have "unat p + unat n \<le> 2 ^ LENGTH(32)" using p cap wf by simp
    ultimately show ?thesis by (simp only: zero_fill_at)
  qed
qed

section \<open>Sequences of requests\<close>

datatype heap_req = Bytes u32 | Stack u32

primrec req_size :: "heap_req \<Rightarrow> nat" where
  "req_size (Bytes n) = unat n"
| "req_size (Stack n) = unat n"

primrec req_count_ok :: "heap_req \<Rightarrow> bool" where
  "req_count_ok (Bytes n) \<longleftrightarrow> count_ok n"
| "req_count_ok (Stack n) \<longleftrightarrow> count_ok n"

primrec heap_call ::
    "'s device \<Rightarrow> heap_req \<Rightarrow> ('s, 'z) heap_scheme \<Rightarrow> (u32 alloc_result \<times> ('s, 'z) heap_scheme) option" where
  "heap_call D (Bytes n) m = dhruva_alloc_bytes D n m"
| "heap_call D (Stack n) m = dhruva_alloc_stack_guarded D n m"

text \<open>The offset in the heap of a call that came back.\<close>

definition heap_alloc ::
    "'s device \<Rightarrow> heap_req \<Rightarrow> ('s, 'z) heap_scheme \<Rightarrow> (nat \<times> ('s, 'z) heap_scheme) option" where
  "heap_alloc D r m =
     (case heap_call D r m of
        Some (Ptr p, m') \<Rightarrow> Some (unat p - unat (heap_base m), m')
      | _ \<Rightarrow> None)"

lemma heap_alloc_success:
  assumes "heap_wf m" and "req_count_ok r" and "heap_alloc D r m = Some (off, m')"
  shows "heap_wf m'" and "unat (dhruva_heap_used m) \<le> off"
    and "off + req_size r \<le> unat (dhruva_heap_used m')" and "heap_base m' = heap_base m"
proof -
  obtain p where call: "heap_call D r m = Some (Ptr p, m')" and off: "off = unat p - unat (heap_base m)"
    using assms(3) by (auto simp: heap_alloc_def split: option.splits alloc_result.splits)
  have "heap_wf m' \<and> unat (dhruva_heap_used m) \<le> off
    \<and> off + req_size r \<le> unat (dhruva_heap_used m') \<and> heap_base m' = heap_base m"
  proof (cases r)
    case (Bytes n)
    with assms(2) call have "count_ok n" "dhruva_alloc_bytes D n m = Some (Ptr p, m')" by simp_all
    note b = bytes_success [OF assms(1) this]
    show ?thesis
      using b(1,3-5) round_up_bounds(1) [of 8 "unat (dhruva_heap_used m)"] Bytes off by simp
  next
    case (Stack n)
    with assms(2) call have "count_ok n" "dhruva_alloc_stack_guarded D n m = Some (Ptr p, m')" by simp_all
    note b = stack_success [OF assms(1) this]
    show ?thesis
      using b(1,3-5) guard_off_bounds(1) [of "unat (dhruva_heap_used m)" "unat (heap_base m)"] Stack off
      by simp
  qed
  then show "heap_wf m'" and "unat (dhruva_heap_used m) \<le> off"
    and "off + req_size r \<le> unat (dhruva_heap_used m')" and "heap_base m' = heap_base m"
    by blast+
qed

interpretation heap_rpi1: bump_allocator "heap_alloc D" req_size "\<lambda>m. unat (dhruva_heap_used m)" CAP
    req_count_ok heap_wf for D
  by unfold_locales (erule (2) heap_alloc_success, erule (2) heap_alloc_success,
      erule (2) heap_alloc_success, simp add: heap_wf_def)

section \<open>Exhaustion\<close>

lemma puts_with_keeps:
  "(\<And>c m m'. putc c m = Some m' \<Longrightarrow> f m' = f m) \<Longrightarrow> puts_with putc s m = Some m' \<Longrightarrow> f m' = f m"
proof (induction s arbitrary: m)
  case (Cons c s)
  then obtain m1 where "putc c m = Some m1" "puts_with putc s m1 = Some m'"
    by (auto elim!: bind_SomeE)
  with Cons show ?case by metis
qed simp

lemma putc_at_more: "putc_at D fr dr c m = Some m' \<Longrightarrow> mach.more m' = mach.more m"
  by (auto simp: putc_at_def mmio_w_def elim!: bind_SomeE
      dest!: io_more [OF uart_wait_io [where P = "\<lambda>e. True"]])

lemma oom_keeps:
  "dhruva_oom_puts D s m = Some m' \<Longrightarrow> mach.more m' = mach.more m"
  "dhruva_oom_put_u64 D v m = Some m' \<Longrightarrow> mach.more m' = mach.more m"
  by (auto simp: dhruva_oom_puts_def dhruva_oom_put_u64_def put_u64_puts dhruva_oom_putc_def
      elim: puts_with_keeps [where f = mach.more, rotated] dest: putc_at_more)

lemma heap_more:
  assumes "mach.more m' = mach.more (m :: ('s, 'z) heap_scheme)"
  shows "irq_masked m' = irq_masked m" "dhruva_heap_used m' = dhruva_heap_used m"
    "mem m' = mem m" "guards m' = guards m" "dhruva_alloc_count m' = dhruva_alloc_count m"
  using assms by (cases m; cases m'; simp)+

lemma oom_print_live [live_intros]:
  "uart_live D UART_FR_RPI1 \<Longrightarrow> returns (dhruva_oom_puts D s m)"
  "uart_live D UART_FR_RPI1 \<Longrightarrow> returns (dhruva_oom_put_u64 D v m)"
  by (simp_all add: returns_def dhruva_oom_puts_def dhruva_oom_put_u64_def put_u64_puts
      oom_rpi1.puts_live)

lemma oom_live: "uart_live D UART_FR_RPI1 \<Longrightarrow> returns (dhruva_oom_fatal D r u i m)"
  unfolding dhruva_oom_fatal_def by (intro live_intros)

lemma oom_ends: "uart_live D UART_FR_RPI1 \<Longrightarrow> \<exists>m'. dhruva_oom_fatal D r u i m = Some (Exhausted, m')"
  using oom_live [of D r u i m] oom_result by (fastforce simp: returns_def)

text \<open>Where a call does not come back, nothing of the heap has changed and interrupts are off.\<close>

lemma oom_state:
  assumes "dhruva_oom_fatal D r u i m = Some (res, m')"
  shows "irq_masked m'" and "dhruva_heap_used m' = dhruva_heap_used m" and "mem m' = mem m"
proof -
  let ?m = "m\<lparr>irq_masked := True\<rparr>"
  have "mach.more m' = mach.more ?m"
    using assms by (auto simp: dhruva_oom_fatal_def Let_def split: if_splits elim!: bind_SomeE dest!: oom_keeps)
  from heap_more [OF this] show "irq_masked m'" and "dhruva_heap_used m' = dhruva_heap_used m"
    and "mem m' = mem m" by simp_all
qed

lemma alloc_bytes_total:
  assumes "uart_live D UART_FR_RPI1" and "heap_wf m" and "count_ok n"
  shows "\<exists>r m'. dhruva_alloc_bytes D n m = Some (r, m')
    \<and> (r = Exhausted \<longleftrightarrow> injects m \<or> CAP < round_up 8 (unat (dhruva_heap_used m)) + unat n)"
proof -
  let ?off = "(dhruva_heap_used m + 7) AND NOT 7"
  have wf: "unat (dhruva_heap_used m) \<le> CAP" using assms(2) by (simp add: heap_wf_def)
  have n: "unat n + CAP + 8 \<le> 2 ^ LENGTH(32)" using assms(3) by (simp add: count_ok_def CAP_def)
  note b = bump_bytes(3) [OF wf n heap_bytes_cap]
  show ?thesis
  proof (cases "injects m \<or> ?off + n > DHRUVA_HEAP_BYTES")
    case True
    then have "\<exists>i. dhruva_alloc_bytes D n m = dhruva_oom_fatal D n (dhruva_heap_used m) i
        ((ticked m)\<lparr>irq_masked := True\<rparr>)"
      by (auto simp: alloc_bytes_cases Let_def)
    with True b oom_ends [OF assms(1)] show ?thesis by metis
  next
    case False
    then have "dhruva_alloc_bytes D n m = Some (Ptr (heap_base m + ?off), bumped ?off n (ticked m))"
      by (simp add: alloc_bytes_cases Let_def)
    with False b show ?thesis by simp
  qed
qed

section \<open>Fault injection\<close>

lemma arm_countdown:
  "sint v > 0 \<Longrightarrow> dhruva_fault_inject_alloc_countdown (snd (dhruva_fault_inject_alloc_arm v m)) = ucast v"
  by (simp add: dhruva_fault_inject_alloc_arm_def)

lemma bytes_countdown:
  assumes "dhruva_alloc_bytes D n m = Some (Ptr p, m')"
  shows "dhruva_fault_inject_alloc_countdown m' =
    (let c = dhruva_fault_inject_alloc_countdown m in if 0 < c then c - 1 else c)"
  unfolding alloc_bytes_Ptr(1) [OF assms] by (simp add: bumped_def ticked_def)

section \<open>The regions of the tasks\<close>

lemma domain_base_nat: "t \<le> 14 \<Longrightarrow> unat (domain_base t) = 0xA00000 + unat t * 0x100000"
proof -
  assume "t \<le> 14"
  then have "unat t \<le> 14" by (simp add: word_le_nat_alt)
  then show ?thesis by (simp add: domain_base_def unat_word_ariths)
qed

text \<open>
  Which bytes a successful call hands out: at \<open>lo\<close> above the region's base, and no byte outside
  its own region of 1 MiB.
\<close>

lemma stack_domain_success:
  assumes "t \<le> 14" and "count_ok n" and "dhruva_alloc_stack_domain D n t m = Some (Ptr p, m')"
  shows "unat p = unat (domain_base t) + 0x1000" and "unat n \<le> 0xFF000"
    and "guards m' = (domain_base t, Some t) # guards m" and "dhruva_heap_used m' = dhruva_heap_used m"
    and "mem m' a = (if unat p \<le> unat a \<and> unat a < unat p + unat n then 0 else mem m a)"
proof -
  have t: "\<not> t > 14" "unat t \<le> 14" using assms(1) by (simp_all add: word_le_nat_alt not_less)
  have cond: "\<not> n + 4096 > 0x00100000" and p: "p = domain_base t + 4096"
    and m': "m' = (mmu_guard_page_install_domain (domain_base t) t m)
      \<lparr>mem := zero_fill (domain_base t + 4096) (unat n) (mem m)\<rparr>"
    using assms(3) t
    by (auto dest: oom_result simp: dhruva_alloc_stack_domain_def Let_def mmu_guard_page_install_domain_def split: if_splits)
  have "unat (n + 4096) = unat n + 4096"
    using assms(2) by (simp add: count_ok_def unat_word_ariths)
  then show n: "unat n \<le> 0xFF000" using cond by (simp add: word_less_nat_alt)
  show up: "unat p = unat (domain_base t) + 0x1000"
    unfolding p using domain_base_nat [OF assms(1)] t by (simp add: unat_word_ariths)
  show "guards m' = (domain_base t, Some t) # guards m" "dhruva_heap_used m' = dhruva_heap_used m"
    by (simp_all add: m' mmu_guard_page_install_domain_def)
  have "unat p + unat n \<le> 2 ^ LENGTH(32)"
    using up n domain_base_nat [OF assms(1)] t by simp
  then show "mem m' a = (if unat p \<le> unat a \<and> unat a < unat p + unat n then 0 else mem m a)"
    by (simp add: m' zero_fill_at flip: p)
qed

lemma usrstack_domain_success:
  assumes "t \<le> 14" and "count_ok n" and "dhruva_alloc_usrstack_domain D n t m = Some (Ptr p, m')"
  shows "unat p = unat (domain_base t) + 0x81000" and "unat n \<le> 0x7F000"
    and "\<exists>g. guards m' = (g, Some t) # guards m \<and> unat g = unat (domain_base t) + 0x80000"
    and "dhruva_heap_used m' = dhruva_heap_used m"
    and "mem m' a = (if unat p \<le> unat a \<and> unat a < unat p + unat n then 0 else mem m a)"
proof -
  have t: "\<not> t > 14" "unat t \<le> 14" using assms(1) by (simp_all add: word_le_nat_alt not_less)
  have cond: "\<not> n + 0x81000 > 0x00100000" and p: "p = domain_base t + 0x80000 + 4096"
    and m': "m' = (mmu_guard_page_install_domain (domain_base t + 0x80000) t m)
      \<lparr>mem := zero_fill (domain_base t + 0x80000 + 4096) (unat n) (mem m)\<rparr>"
    using assms(3) t
    by (auto dest: oom_result simp: dhruva_alloc_usrstack_domain_def Let_def mmu_guard_page_install_domain_def split: if_splits)
  have "unat (n + 0x81000) = unat n + 0x81000"
    using assms(2) by (simp add: count_ok_def unat_word_ariths)
  then show n: "unat n \<le> 0x7F000" using cond by (simp add: word_less_nat_alt)
  show up: "unat p = unat (domain_base t) + 0x81000"
    unfolding p using domain_base_nat [OF assms(1)] t by (simp add: unat_word_ariths)
  have "unat (domain_base t + 0x80000) = unat (domain_base t) + 0x80000"
    using domain_base_nat [OF assms(1)] t by (simp add: unat_word_ariths)
  then show "\<exists>g. guards m' = (g, Some t) # guards m \<and> unat g = unat (domain_base t) + 0x80000"
    and "dhruva_heap_used m' = dhruva_heap_used m"
    by (simp_all add: m' mmu_guard_page_install_domain_def)
  have "unat p + unat n \<le> 2 ^ LENGTH(32)"
    using up n domain_base_nat [OF assms(1)] t by simp
  then show "mem m' a = (if unat p \<le> unat a \<and> unat a < unat p + unat n then 0 else mem m a)"
    by (simp add: m' zero_fill_at flip: p)
qed

section \<open>The Pi 4 heap\<close>

definition heap4_wf :: "('s, 'z) heap4_scheme \<Rightarrow> bool" where
  "heap4_wf m \<longleftrightarrow> unat (dhruva_heap_used_rpi4 m) \<le> CAP \<and> unat (heap_base4 m) + CAP + 8192 \<le> 2 ^ 64"

definition count4_ok :: "u64 \<Rightarrow> bool" where
  "count4_ok n \<longleftrightarrow> unat n < 2 ^ 63"

lemma heap4_bytes_cap: "unat DHRUVA_HEAP_BYTES_RPI4 = CAP"
  by (simp add: DHRUVA_HEAP_BYTES_RPI4_def CAP_def)

lemma oom4_result: "dhruva_oom_fatal_rpi4 D r u m = Some (res, m') \<Longrightarrow> res = Exhausted"
  by (auto simp: dhruva_oom_fatal_rpi4_def Let_def elim!: bind_SomeE)

lemma base_offset4:
  fixes base off :: u64
  assumes "unat base + CAP + 8192 \<le> 2 ^ 64" and "unat off \<le> CAP"
  shows "unat (base + off) = unat base + unat off"
  using assms by (subst unat_add_lem [THEN iffD1]) simp_all

lemma bytes4_success:
  assumes "heap4_wf m" and "count4_ok n" and "dhruva_alloc_bytes_rpi4 D n m = Some (Ptr p, m')"
  defines "off \<equiv> round_up 8 (unat (dhruva_heap_used_rpi4 m))"
  shows "unat p = unat (heap_base4 m) + off" and "off + unat n \<le> CAP"
    and "unat (dhruva_heap_used_rpi4 m') = off + unat n" and "heap_base4 m' = heap_base4 m"
    and "heap4_wf m'" and "daif_masked m' = daif_masked m"
    and "mem4 m' a = (if unat p \<le> unat a \<and> unat a < unat p + unat n then 0 else mem4 m a)"
proof -
  let ?off = "(dhruva_heap_used_rpi4 m + 7) AND NOT 7"
  have wf: "unat (dhruva_heap_used_rpi4 m) \<le> CAP" "unat (heap_base4 m) + CAP + 8192 \<le> 2 ^ 64"
    using assms(1) by (simp_all add: heap4_wf_def)
  have n: "unat n + CAP + 8 \<le> 2 ^ LENGTH(64)" using assms(2) by (simp add: count4_ok_def CAP_def)
  note b = bump_bytes [OF wf(1) n heap4_bytes_cap, folded off_def]
  have ok: "\<not> ?off + n > DHRUVA_HEAP_BYTES_RPI4" and r: "p = heap_base4 m + ?off"
    and m': "m' = m\<lparr>dhruva_heap_used_rpi4 := ?off + n,
      dhruva_alloc_count_rpi4 := dhruva_alloc_count_rpi4 m + 1, mem4 := zero_fill p (unat n) (mem4 m)\<rparr>"
    using assms(3) by (auto dest: oom4_result simp: dhruva_alloc_bytes_rpi4_def Let_def split: if_splits)
  show cap: "off + unat n \<le> CAP" using ok b(3) by simp
  then show p: "unat p = unat (heap_base4 m) + off"
    unfolding r using base_offset4 [OF wf(2), of ?off] b(1) by simp
  show used: "unat (dhruva_heap_used_rpi4 m') = off + unat n" unfolding m' using b(2) by simp
  show "heap_base4 m' = heap_base4 m" "daif_masked m' = daif_masked m" by (simp_all add: m')
  then show "heap4_wf m'" using wf used cap by (simp add: heap4_wf_def)
  have "unat p + unat n \<le> 2 ^ LENGTH(64)" using p cap wf by simp
  then show "mem4 m' a = (if unat p \<le> unat a \<and> unat a < unat p + unat n then 0 else mem4 m a)"
    by (simp add: m' zero_fill_at)
qed

lemma stack4_success:
  assumes "heap4_wf m" and "count4_ok n" and "dhruva_alloc_stack_guarded_rpi4 D n m = Some (Ptr p, m')"
  defines "g \<equiv> guard_off (unat (heap_base4 m)) (unat (dhruva_heap_used_rpi4 m))"
  shows "unat p = unat (heap_base4 m) + g + 4096" and "g + 4096 + unat n \<le> CAP"
    and "unat (dhruva_heap_used_rpi4 m') = g + 4096 + unat n" and "heap_base4 m' = heap_base4 m"
    and "heap4_wf m'" and "\<exists>a. guards4 m' = a # guards4 m \<and> unat a = unat (heap_base4 m) + g"
    and "mem4 m' a = (if unat p \<le> unat a \<and> unat a < unat p + unat n then 0 else mem4 m a)"
proof -
  let ?g = "((heap_base4 m + dhruva_heap_used_rpi4 m + 4095) AND NOT 4095) - heap_base4 m"
  have wf: "unat (dhruva_heap_used_rpi4 m) \<le> CAP" "unat (heap_base4 m) + CAP + 8192 \<le> 2 ^ LENGTH(64)"
    using assms(1) by (simp_all add: heap4_wf_def)
  have n: "unat n + CAP + 8192 \<le> 2 ^ LENGTH(64)" using assms(2) by (simp add: count4_ok_def CAP_def)
  note b = bump_stack [OF wf n heap4_bytes_cap, folded g_def]
  have ok: "\<not> ?g + 4096 + n > DHRUVA_HEAP_BYTES_RPI4" and r: "p = heap_base4 m + (?g + 4096)"
    and m': "m' = m\<lparr>dhruva_heap_used_rpi4 := ?g + 4096 + n,
      dhruva_alloc_count_rpi4 := dhruva_alloc_count_rpi4 m + 1,
      guards4 := (heap_base4 m + ?g) # guards4 m, mem4 := zero_fill p (unat n) (mem4 m)\<rparr>"
    using assms(3)
    by (auto dest: oom4_result simp: dhruva_alloc_stack_guarded_rpi4_def
        mmu_guard_page_install_rpi4_def Let_def split: if_splits)
  show cap: "g + 4096 + unat n \<le> CAP" using ok b(4) by simp
  then show p: "unat p = unat (heap_base4 m) + g + 4096"
    unfolding r using base_offset4 [of "heap_base4 m" "?g + 4096"] wf(2) b(2) by simp
  have ga: "unat (heap_base4 m + ?g) = unat (heap_base4 m) + g"
    using base_offset4 [of "heap_base4 m" ?g] wf(2) b(1) cap by simp
  show used: "unat (dhruva_heap_used_rpi4 m') = g + 4096 + unat n" unfolding m' using b(3) by simp
  show "heap_base4 m' = heap_base4 m" by (simp add: m')
  then show "heap4_wf m'" using wf used cap by (simp add: heap4_wf_def)
  show "\<exists>a. guards4 m' = a # guards4 m \<and> unat a = unat (heap_base4 m) + g"
    using ga by (simp add: m')
  have "unat p + unat n \<le> 2 ^ LENGTH(64)" using p cap wf by simp
  then show "mem4 m' a = (if unat p \<le> unat a \<and> unat a < unat p + unat n then 0 else mem4 m a)"
    by (simp add: m' zero_fill_at)
qed

datatype heap4_req = Bytes4 u64 | Stack4 u64

primrec req4_size :: "heap4_req \<Rightarrow> nat" where
  "req4_size (Bytes4 n) = unat n"
| "req4_size (Stack4 n) = unat n"

primrec req4_count_ok :: "heap4_req \<Rightarrow> bool" where
  "req4_count_ok (Bytes4 n) \<longleftrightarrow> count4_ok n"
| "req4_count_ok (Stack4 n) \<longleftrightarrow> count4_ok n"

primrec heap4_call ::
    "'s device \<Rightarrow> heap4_req \<Rightarrow> ('s, 'z) heap4_scheme \<Rightarrow> (u64 alloc_result \<times> ('s, 'z) heap4_scheme) option" where
  "heap4_call D (Bytes4 n) m = dhruva_alloc_bytes_rpi4 D n m"
| "heap4_call D (Stack4 n) m = dhruva_alloc_stack_guarded_rpi4 D n m"

definition heap4_alloc ::
    "'s device \<Rightarrow> heap4_req \<Rightarrow> ('s, 'z) heap4_scheme \<Rightarrow> (nat \<times> ('s, 'z) heap4_scheme) option" where
  "heap4_alloc D r m =
     (case heap4_call D r m of
        Some (Ptr p, m') \<Rightarrow> Some (unat p - unat (heap_base4 m), m')
      | _ \<Rightarrow> None)"

lemma heap4_alloc_success:
  assumes "heap4_wf m" and "req4_count_ok r" and "heap4_alloc D r m = Some (off, m')"
  shows "heap4_wf m'" and "unat (dhruva_heap_used_rpi4 m) \<le> off"
    and "off + req4_size r \<le> unat (dhruva_heap_used_rpi4 m')"
proof -
  obtain p where call: "heap4_call D r m = Some (Ptr p, m')" and off: "off = unat p - unat (heap_base4 m)"
    using assms(3) by (auto simp: heap4_alloc_def split: option.splits alloc_result.splits)
  have "heap4_wf m' \<and> unat (dhruva_heap_used_rpi4 m) \<le> off
    \<and> off + req4_size r \<le> unat (dhruva_heap_used_rpi4 m')"
  proof (cases r)
    case (Bytes4 n)
    with assms(2) call have "count4_ok n" "dhruva_alloc_bytes_rpi4 D n m = Some (Ptr p, m')" by simp_all
    note b = bytes4_success [OF assms(1) this]
    show ?thesis
      using b(1,3,5) round_up_bounds(1) [of 8 "unat (dhruva_heap_used_rpi4 m)"] Bytes4 off by simp
  next
    case (Stack4 n)
    with assms(2) call have "count4_ok n" "dhruva_alloc_stack_guarded_rpi4 D n m = Some (Ptr p, m')"
      by simp_all
    note b = stack4_success [OF assms(1) this]
    show ?thesis
      using b(1,3,5) guard_off_bounds(1) [of "unat (dhruva_heap_used_rpi4 m)" "unat (heap_base4 m)"]
        Stack4 off by simp
  qed
  then show "heap4_wf m'" and "unat (dhruva_heap_used_rpi4 m) \<le> off"
    and "off + req4_size r \<le> unat (dhruva_heap_used_rpi4 m')" by blast+
qed

interpretation heap_rpi4: bump_allocator "heap4_alloc D" req4_size
    "\<lambda>m. unat (dhruva_heap_used_rpi4 m)" CAP req4_count_ok heap4_wf for D
  by unfold_locales (erule (2) heap4_alloc_success, erule (2) heap4_alloc_success,
      erule (2) heap4_alloc_success, simp add: heap4_wf_def)

end
