(* ===== verification/Libc_Properties.thy ===== *)
theory Libc_Properties
  imports Libc_Proofs
begin

text \<open>
  The properties of the C runtime of both boards: string and memory routines, number printing,
  \<open>dprintf\<close> and \<open>exit\<close>.
\<close>

section \<open>A device for the examples\<close>

text \<open>A UART that is always ready.\<close>

definition open_uart :: "unit device" where
  "open_uart = \<lparr>dev_read = (\<lambda>a s. (0, s)), dev_write = (\<lambda>a v s. s), mbox_at = 0,
     mbox_load = (\<lambda>i s. 0), mbox_store = (\<lambda>i v s. s)\<rparr>"

lemma open_uart_live: "uart_live open_uart fr"
  by (auto simp: uart_live_def uart_ok_def open_uart_def)

definition silent_mach :: "unit mach" where
  "silent_mach = \<lparr>hw = (), bus = []\<rparr>"

lemma silent_mach_bus [simp]: "bus silent_mach = []"
  by (simp add: silent_mach_def)

section \<open>Strings and memory\<close>

text \<open>
  \<open>strlen\<close> returns the position of the first NUL byte, and reads past the object exactly when
  there is none: it never returns a wrong length and never stops early.
\<close>

lemma strlen_first_nul:
  "(strlen s = Some k \<longleftrightarrow> k < length s \<and> s ! k = 0 \<and> 0 \<notin> set (take k s))
    \<and> (strlen s = None \<longleftrightarrow> 0 \<notin> set s) \<and> strlen_rpi4 s = strlen s"
proof -
  have some: "strlen s = Some k \<longleftrightarrow> k < length s \<and> s ! k = 0 \<and> 0 \<notin> set (take k s)" for k
    by (auto simp: strlen_iff in_set_conv_nth)
  have "strlen s \<noteq> None" if z: "0 \<in> set s"
  proof -
    have "\<exists>i. i < length s \<and> s ! i = 0" using z by (auto simp: in_set_conv_nth)
    then obtain i where "i < length s" "s ! i = 0" "\<forall>j < i. \<not> (j < length s \<and> s ! j = 0)"
      using exists_least_iff [of "\<lambda>i. i < length s \<and> s ! i = 0"] by blast
    then have "strlen s = Some i" by (simp add: strlen_iff)
    then show ?thesis by simp
  qed
  moreover have "0 \<in> set s" if ne: "strlen s \<noteq> None"
  proof -
    obtain i where "strlen s = Some i" using ne by auto
    then show ?thesis using nth_mem [of i s] by (auto simp: strlen_iff)
  qed
  ultimately have "strlen s = None \<longleftrightarrow> 0 \<notin> set s" by metis
  with some [of k] show ?thesis by (simp only: strlen_rpi4_def)
qed

text \<open>
  \<open>memcpy\<close> copies forward byte by byte: when the destination does not start inside the source
  (it may overlap it from below), every destination byte gets the byte the source held before
  the call, no other byte of memory changes, and the destination is returned. The routine of
  the boot loader is the same one.
\<close>

theorem memcpy_copies:
  assumes "unat dst + unat n \<le> 2 ^ 32" and "unat src + unat n \<le> 2 ^ 32"
    and "unat dst \<le> unat src \<or> unat src + unat n \<le> unat dst"
  shows "fst (memcpy dst src n mem) = dst
    \<and> snd (memcpy dst src n mem) a =
      (if unat dst \<le> unat a \<and> unat a < unat dst + unat n then mem (src + (a - dst)) else mem a)
    \<and> memcpy_stage0 dst src n mem = memcpy dst src n mem"
  using memcpy_loop_at [of dst "unat n" src] assms by (simp add: memcpy_def memcpy_stage0_def)

theorem memcpy_copies_witness:
  "snd (memcpy 100 102 4 (\<lambda>x. ucast x)) 101 = (103 :: u8)"
  using memcpy_copies [of 100 4 102 "\<lambda>x. ucast x" 101] by simp

section \<open>Numbers\<close>

text \<open>
  Printing a 64-bit integer puts out its decimal representation, for every value including the
  most negative one: a minus sign when it is negative, then the digits of the magnitude with
  no leading zero; reading the digits back gives the magnitude. The 24-byte digit buffer is
  never overrun, and the unsigned variant prints at most 20 digits.
\<close>

theorem put_i64_prints_decimal:
  "put_i64_with putc v m = puts_with putc (int_string (sint v)) m
    \<and> put_u64_with putc v m = puts_with putc (dec_string (unat v)) m
    \<and> dec_value (dec_string (unat v)) = unat v
    \<and> length (dec_string (unat v)) \<le> 20 \<and> length (dec_string (unat v)) < length digit_buf"
proof -
  have "length (dec_string (unat v)) \<le> 20"
    using rev_dec_u64 [of v] by (simp add: dec_string_def)
  then show ?thesis
    by (simp add: put_i64_puts put_u64_puts dec_value_string digit_buf_def)
qed

section \<open>Formatted output\<close>

lemma written_puts:
  assumes "uart_live D UART_FR_RPI1"
  shows "\<exists>m'. puts_with (dhruva_dprintf_putc D) s m = Some m'
    \<and> written UART_DR_RPI1 (bus m') = written UART_DR_RPI1 (bus m) @ map of_char s"
  using panic_rpi1.puts_live [OF assms] panic_rpi1.puts_out by blast

lemma written_puts_rpi4:
  assumes "uart_live D UART_FR_RPI4"
  shows "\<exists>m'. puts_with (dhruva_dprintf_putc_rpi4 D) s m = Some m'
    \<and> written UART_DR_RPI4 (bus m') = written UART_DR_RPI4 (bus m) @ map of_char s"
  using panic_rpi4.puts_live [OF assms] panic_rpi4.puts_out by blast

text \<open>
  C40. \<open>dprintf\<close> of both boards, for every format built from literal text, \<open>%s\<close> and \<open>%d\<close> with any
  number of \<open>l\<close> modifiers, with matching arguments: it returns on a UART that drains, consumes
  the whole format, and the bytes that reach the board's UART are the literal text with each
  conversion replaced by its argument.
\<close>

theorem dprintf_formats:
  assumes "\<forall>p \<in> set ps. piece_ok p" and "uart_live D UART_FR_RPI1" and "uart_live D UART_FR_RPI4"
  shows "(\<exists>m'. dprintf D (concat (map piece_fmt ps)) (concat (map piece_args ps)) m = Some (Done, m')
      \<and> written UART_DR_RPI1 (bus m') = written UART_DR_RPI1 (bus m) @ map of_char (concat (map piece_text ps)))
    \<and> (\<exists>m'. dprintf_rpi4 D (concat (map piece_fmt ps)) (concat (map piece_args ps)) m = Some (Done, m')
      \<and> written UART_DR_RPI4 (bus m') = written UART_DR_RPI4 (bus m) @ map of_char (concat (map piece_text ps)))"
  using dprintf_pieces [OF assms(1), of "dhruva_dprintf_putc D" m]
    dprintf_pieces [OF assms(1), of "dhruva_dprintf_putc_rpi4 D" m]
    written_puts [OF assms(2), of "concat (map piece_text ps)" m]
    written_puts_rpi4 [OF assms(3), of "concat (map piece_text ps)" m]
  by (auto simp: dprintf_def dprintf_rpi4_def)

theorem dprintf_formats_witness:
  "\<exists>m'. dprintf open_uart ''n=%ld %s'' [AInt (- 12), AStr ''ok''] silent_mach = Some (Done, m')
     \<and> written UART_DR_RPI1 (bus m') = map of_char ''n=-12 ok''"
proof -
  have "int_string (- 12) = ''-12''" by code_simp
  then show ?thesis
    using dprintf_formats [of "[Lit ''n='', PInt 1 (- 12), Lit '' '', PStr ''ok'']" open_uart silent_mach]
      open_uart_live [of UART_FR_RPI1] open_uart_live [of UART_FR_RPI4] by simp
qed

text \<open>
  A format that ends inside a conversion (\<open>%l\<close>, \<open>%ll\<close> and so on, with an argument) makes
  \<open>dprintf\<close> step over the terminating NUL: after printing the argument it goes on reading
  beyond the end of the string.
\<close>

theorem dprintf_dangling_l:
  assumes "CHR ''%'' \<notin> set s" and "uart_live D UART_FR_RPI1" and "0 < n"
  shows "\<exists>m'. dprintf D (s @ ''%'' @ replicate n (CHR ''l'')) [AInt v] m = Some (Undefined, m')"
proof -
  have drop: "dropWhile (\<lambda>c. c = CHR ''l'') (replicate n (CHR ''l'')) = []"
    by (simp add: dropWhile_eq_Nil_conv)
  have hd: "hd (replicate n (CHR ''l'')) = CHR ''l''" "replicate n (CHR ''l'') \<noteq> []"
    using assms(3) by (cases n, simp_all)+
  obtain m1 where m1: "puts_with (dhruva_dprintf_putc D) s m = Some m1"
    using panic_rpi1.puts_live [OF assms(2)] by blast
  obtain m2 where m2: "put_i64_with (dhruva_dprintf_putc D) v m1 = Some m2"
    using panic_rpi1.puts_live [OF assms(2)] by (auto simp: put_i64_puts)
  show ?thesis
    unfolding dprintf_def dprintf_literal [OF assms(1)] using m1 m2 hd drop by simp
qed

theorem dprintf_dangling_l_witness:
  "\<exists>m'. dprintf open_uart ''x=%l'' [AInt 5] silent_mach = Some (Undefined, m')"
  using dprintf_dangling_l [where s = "''x=''" and D = open_uart and n = 1 and v = 5 and m = silent_mach] open_uart_live [of UART_FR_RPI1] by simp

text \<open>
  \<open>exit\<close> of the Pi 1 reports the caller: on a UART that drains it comes to its halt, and what it
  has put out is the text, the eight hexadecimal digits of the return address, most
  significant first, and a newline.
\<close>

lemma exit_reports_caller:
  assumes "uart_live D UART_FR_RPI1"
  shows "\<exists>m'. exit_rpi1 D lr m = Some m'
    \<and> written UART_DR_RPI1 (bus m') = written UART_DR_RPI1 (bus m)
        @ map of_char (''panic caller LR=0x'' @ hex_digits lr @ [CHR 0x0A])"
  unfolding exit_rpi1_puts by (rule written_puts [OF assms])

end
