(* ===== verification/Heap_Properties.thy ===== *)
theory Heap_Properties
  imports Heap_Proofs Libc_Properties
begin

text \<open>
  The properties of the allocators of both boards: separation, contents, exhaustion, fault
  injection, guard pages and per-task regions, and where a request that is too large in the
  unsigned sense gets past the check.
\<close>

section \<open>Sequences of requests\<close>

text \<open>The offsets that a sequence of successful calls hands out, in order.\<close>

fun heap_calls ::
    "'s device \<Rightarrow> heap_req list \<Rightarrow> ('s, 'z) heap_scheme \<Rightarrow> (nat list \<times> ('s, 'z) heap_scheme) option" where
  "heap_calls D [] m = Some ([], m)"
| "heap_calls D (r # rs) m = do {
     (off, m) \<leftarrow> heap_alloc D r m;
     (offs, m) \<leftarrow> heap_calls D rs m;
     Some (off # offs, m) }"

lemma heap_calls_run: "heap_calls D rs m = heap_rpi1.run D rs m"
  by (induction rs arbitrary: m) simp_all

fun heap4_calls ::
    "'s device \<Rightarrow> heap4_req list \<Rightarrow> ('s, 'z) heap4_scheme \<Rightarrow> (nat list \<times> ('s, 'z) heap4_scheme) option" where
  "heap4_calls D [] m = Some ([], m)"
| "heap4_calls D (r # rs) m = do {
     (off, m) \<leftarrow> heap4_alloc D r m;
     (offs, m) \<leftarrow> heap4_calls D rs m;
     Some (off # offs, m) }"

lemma heap4_calls_run: "heap4_calls D rs m = heap_rpi4.run D rs m"
  by (induction rs arbitrary: m) simp_all

text \<open>The heaps the examples start from.\<close>

definition heap_start :: "unit heap" where
  "heap_start = \<lparr>hw = (), bus = [], heap_base = 0x00300000, dhruva_heap_used = 0, dhruva_alloc_count = 0,
     dhruva_fault_inject_alloc_countdown = 0, irq_masked = False, mem = (\<lambda>a. 0xAA), guards = []\<rparr>"

definition heap4_start :: "unit heap4" where
  "heap4_start = \<lparr>hw = (), bus = [], heap_base4 = 0x00300000, dhruva_heap_used_rpi4 = 0,
     dhruva_alloc_count_rpi4 = 0, daif_masked = False, mem4 = (\<lambda>a. 0xAA), guards4 = []\<rparr>"

lemma heap_start_wf: "heap_wf heap_start" "heap4_wf heap4_start"
  by (simp_all add: heap_wf_def heap_start_def heap4_wf_def heap4_start_def CAP_def)

section \<open>The Pi 1 heap\<close>

text \<open>
  C35. No two blocks of the Pi 1 heap overlap. In any sequence of successful requests, plain blocks
  and guarded stacks mixed, each block ends at or before the start of every later one, and
  all of them lie within the 768 KiB of the heap.
\<close>

theorem heap_blocks_disjoint:
  assumes "heap_wf m" and "\<forall>r \<in> set rs. req_count_ok r" and "heap_calls D rs m = Some (offs, m')"
    and "i < j" and "j < length rs"
  shows "offs ! i + req_size (rs ! i) \<le> offs ! j \<and> offs ! j + req_size (rs ! j) \<le> 786432"
  using heap_rpi1.run_disjoint [OF assms(1,2) assms(3) [unfolded heap_calls_run] assms(4,5)]
  by (simp add: CAP_def)

theorem heap_blocks_disjoint_witness:
  "\<exists>m'. heap_calls open_uart [Bytes 13, Bytes 4, Stack 8] heap_start = Some ([0, 16, 8192], m')
     \<and> (16 :: nat) + 4 \<le> 8192"
proof -
  have "\<exists>m'. heap_calls open_uart [Bytes 13, Bytes 4, Stack 8] heap_start = Some ([0, 16, 8192], m')"
    by (simp add: heap_alloc_def alloc_bytes_cases alloc_stack_cases injects_def heap_start_def Let_def
        DHRUVA_HEAP_BYTES_def bumped_def ticked_def)
  then obtain m' where run: "heap_calls open_uart [Bytes 13, Bytes 4, Stack 8] heap_start = Some ([0, 16, 8192], m')"
    by blast
  from heap_blocks_disjoint [OF heap_start_wf(1) _ run, of 1 2] run show ?thesis
    by (simp add: count_ok_def)
qed

text \<open>
  C36. What a successful \<open>dhruva_alloc_bytes\<close> does: the block starts at a multiple of 8 from the
  heap base, at or after everything handed out so far; its bytes are zero; every other byte of
  memory, the interrupt mask and the heap base are unchanged; the high-water mark is the end
  of the block and the allocation count one higher.
\<close>

theorem alloc_bytes_fresh_zeroed:
  assumes "heap_wf m" and "count_ok n" and "dhruva_alloc_bytes D n m = Some (Ptr p, m')"
  shows "unat p = unat (heap_base m) + round_up 8 (unat (dhruva_heap_used m))
    \<and> unat (dhruva_heap_used m) \<le> round_up 8 (unat (dhruva_heap_used m))
    \<and> mem m' a = (if unat p \<le> unat a \<and> unat a < unat p + unat n then 0 else mem m a)
    \<and> irq_masked m' = irq_masked m \<and> heap_base m' = heap_base m \<and> heap_wf m'
    \<and> unat (dhruva_heap_used m') = round_up 8 (unat (dhruva_heap_used m)) + unat n
    \<and> dhruva_alloc_count m' = dhruva_alloc_count m + 1"
  using bytes_success [OF assms] round_up_bounds(1) [of 8] by simp

theorem alloc_bytes_fresh_zeroed_witness:
  "\<exists>m'. dhruva_alloc_bytes open_uart 4 (heap_start\<lparr>dhruva_heap_used := 13\<rparr>) = Some (Ptr 0x00300010, m')
     \<and> mem m' 0x00300011 = 0 \<and> mem m' 0x00300014 = 0xAA \<and> unat (dhruva_heap_used m') = 20"
proof -
  let ?m = "heap_start\<lparr>dhruva_heap_used := 13\<rparr>"
  have "\<exists>m'. dhruva_alloc_bytes open_uart 4 ?m = Some (Ptr 0x00300010, m')"
    by (simp add: alloc_bytes_cases injects_def heap_start_def Let_def DHRUVA_HEAP_BYTES_def)
  then obtain m' where r: "dhruva_alloc_bytes open_uart 4 ?m = Some (Ptr 0x00300010, m')" by blast
  have wf: "heap_wf ?m" "count_ok 4"
    using heap_start_wf(1) by (simp_all add: heap_wf_def count_ok_def CAP_def)
  from alloc_bytes_fresh_zeroed [OF wf r, of "0x00300011"] alloc_bytes_fresh_zeroed [OF wf r, of "0x00300014"]
    r show ?thesis by (simp add: heap_start_def round_up_def)
qed

lemma oom_keeps_heap:
  assumes "dhruva_alloc_bytes D n m = Some (Exhausted, m')"
  shows "irq_masked m' \<and> dhruva_heap_used m' = dhruva_heap_used m \<and> mem m' = mem m"
proof -
  have oom: "irq_masked m2 \<and> dhruva_heap_used m2 = dhruva_heap_used m1 \<and> mem m2 = mem m1"
    if "dhruva_oom_fatal D r u i m1 = Some (Exhausted, m2)" for r u i m1 m2
    using oom_state [OF that] by blast
  show ?thesis
    using assms by (auto simp: alloc_bytes_cases Let_def ticked_def split: if_splits dest!: oom)
qed

text \<open>
  \<open>dhruva_alloc_bytes\<close> is total on a UART that drains: for every non-negative request it either
  hands out a block or halts in the out-of-memory report, and it halts exactly when the
  armed fault is due or the block, after rounding up, does not fit the heap. In that case
  interrupts stay masked, and neither the heap's high-water mark nor memory has changed.
\<close>

theorem alloc_bytes_exhausted_iff:
  assumes "uart_live D UART_FR_RPI1" and "heap_wf m" and "count_ok n"
  shows "\<exists>r m'. dhruva_alloc_bytes D n m = Some (r, m')
    \<and> (r = Exhausted \<longleftrightarrow> injects m \<or> 786432 < round_up 8 (unat (dhruva_heap_used m)) + unat n)
    \<and> (r = Exhausted \<longrightarrow> irq_masked m' \<and> dhruva_heap_used m' = dhruva_heap_used m \<and> mem m' = mem m)"
proof -
  obtain r m' where call: "dhruva_alloc_bytes D n m = Some (r, m')"
      "r = Exhausted \<longleftrightarrow> injects m \<or> 786432 < round_up 8 (unat (dhruva_heap_used m)) + unat n"
    using alloc_bytes_total [OF assms] by (auto simp: CAP_def)
  moreover have "r = Exhausted \<longrightarrow> irq_masked m' \<and> dhruva_heap_used m' = dhruva_heap_used m \<and> mem m' = mem m"
    using call(1) oom_keeps_heap by blast
  ultimately show ?thesis by blast
qed

theorem alloc_bytes_exhausted_iff_witness:
  "\<exists>m'. dhruva_alloc_bytes open_uart 786433 heap_start = Some (Exhausted, m') \<and> irq_masked m'"
proof -
  have "\<not> injects heap_start" by (simp add: injects_def heap_start_def)
  moreover have "count_ok 786433" by (simp add: count_ok_def)
  ultimately show ?thesis
    using alloc_bytes_exhausted_iff [OF open_uart_live heap_start_wf(1), of 786433]
    by (auto simp: heap_start_def round_up_def)
qed

section \<open>Fault injection\<close>

lemma countdown_calls:
  assumes "heap_calls D (map Bytes ns) m = Some (offs, m')"
    and "length ns < unat (dhruva_fault_inject_alloc_countdown m)"
  shows "unat (dhruva_fault_inject_alloc_countdown m') = unat (dhruva_fault_inject_alloc_countdown m) - length ns"
  using assms
proof (induction ns arbitrary: m offs)
  case (Cons n ns)
  let ?c = "dhruva_fault_inject_alloc_countdown"
  obtain p m1 offs1 where a: "dhruva_alloc_bytes D n m = Some (Ptr p, m1)"
      and rest: "heap_calls D (map Bytes ns) m1 = Some (offs1, m')"
    using Cons.prems(1)
    by (auto simp: heap_alloc_def split: option.splits alloc_result.splits elim!: bind_SomeE)
  have pos: "0 < ?c m" using Cons.prems(2) by (simp add: word_less_nat_alt)
  have "unat (?c m - 1) = unat (?c m) - 1" using pos by (simp add: unat_minus_one word_gt_0)
  then have c1: "unat (?c m1) = unat (?c m) - 1"
    using bytes_countdown [OF a] pos by (simp add: Let_def)
  then show ?case using Cons.IH [OF rest] Cons.prems(2) by simp
qed simp

lemma injected_call_fails:
  assumes "heap_calls D (map Bytes ns) m = Some (offs, m')"
    and "0 < unat (dhruva_fault_inject_alloc_countdown m)"
  shows "length ns < unat (dhruva_fault_inject_alloc_countdown m)"
  using assms
proof (induction ns arbitrary: m offs)
  case (Cons n ns)
  let ?c = "dhruva_fault_inject_alloc_countdown"
  obtain p m1 offs1 where a: "dhruva_alloc_bytes D n m = Some (Ptr p, m1)"
      and rest: "heap_calls D (map Bytes ns) m1 = Some (offs1, m')"
    using Cons.prems(1)
    by (auto simp: heap_alloc_def split: option.splits alloc_result.splits elim!: bind_SomeE)
  have pos: "0 < ?c m" using Cons.prems(2) by (simp add: word_less_nat_alt)
  have "unat (?c m - 1) = unat (?c m) - 1" using pos by (simp add: unat_minus_one word_gt_0)
  then have c1: "unat (?c m1) = unat (?c m) - 1"
    using bytes_countdown [OF a] pos by (simp add: Let_def)
  have "?c m \<noteq> 1" using alloc_bytes_Ptr(3) [OF a] by (simp add: injects_def)
  then have "unat (?c m) \<noteq> 1" by (metis unat_1 word_unat_eq_iff)
  then show ?case using Cons.IH [OF rest] Cons.prems(2) c1 by simp
qed simp



section \<open>Stacks\<close>

text \<open>
  A guarded stack has its guard page directly below it: the page installed is the 4096 bytes
  before the block, lies at or after everything handed out so far (so no live block is inside
  it), and starts on a page boundary of the address space. The block itself is zeroed and the
  rest of memory unchanged.
\<close>

theorem stack_guard_page_below:
  assumes "heap_wf m" and "count_ok n" and "dhruva_alloc_stack_guarded D n m = Some (Ptr p, m')"
  shows "(\<exists>g. guards m' = (g, None) # guards m \<and> unat g + 4096 = unat p \<and> 4096 dvd unat g
      \<and> unat (heap_base m) + unat (dhruva_heap_used m) \<le> unat g)
    \<and> mem m' a = (if unat p \<le> unat a \<and> unat a < unat p + unat n then 0 else mem m a)
    \<and> irq_masked m' = irq_masked m"
proof -
  let ?b = "unat (heap_base m)" and ?u = "unat (dhruva_heap_used m)"
  note s = stack_success [OF assms]
  obtain g where g: "guards m' = (g, None) # guards m" "unat g = ?b + guard_off ?b ?u"
    using s(7) by blast
  have "?b \<le> round_up 4096 (?b + ?u)" using round_up_bounds(1) [of 4096 "?b + ?u"] by simp
  then have "unat g = round_up 4096 (?b + ?u)" using g(2) by (simp add: guard_off_def)
  then have "4096 dvd unat g" by (simp add: round_up_dvd)
  then show ?thesis
    using g s(1,6,8) guard_off_bounds(1) [of ?u ?b] by auto
qed

theorem stack_guard_page_below_witness:
  "\<exists>m' g. dhruva_alloc_stack_guarded open_uart 64 (heap_start\<lparr>dhruva_heap_used := 20\<rparr>) = Some (Ptr 0x00302000, m')
     \<and> guards m' = [(g, None)] \<and> unat g + 4096 = 0x00302000"
proof -
  let ?m = "heap_start\<lparr>dhruva_heap_used := 20\<rparr>"
  have "\<exists>m'. dhruva_alloc_stack_guarded open_uart 64 ?m = Some (Ptr 0x00302000, m')"
    by (simp add: alloc_stack_cases heap_start_def Let_def DHRUVA_HEAP_BYTES_def)
  then obtain m' where r: "dhruva_alloc_stack_guarded open_uart 64 ?m = Some (Ptr 0x00302000, m')" by blast
  have "heap_wf ?m" "count_ok 64"
    using heap_start_wf(1) by (simp_all add: heap_wf_def count_ok_def CAP_def)
  from stack_guard_page_below [OF this r] r show ?thesis by (auto simp: heap_start_def)
qed

text \<open>
  C38. Tasks are isolated: the memory of a task's own stacks (guard page and block, supervisor and
  user stack, for tasks 0 to 14) lies within the task's 1 MiB region, so the regions of two
  different tasks never share an address, and neither touches the shared heap's bookkeeping.
\<close>

theorem task_stacks_in_own_region:
  assumes "t \<le> 14" and "count_ok n" and "count_ok k"
    and "dhruva_alloc_stack_domain D n t m = Some (Ptr p, m1)"
    and "dhruva_alloc_usrstack_domain D k t m1 = Some (Ptr q, m2)"
  shows "unat (domain_base t) = 0xA00000 + unat t * 0x100000
    \<and> unat (domain_base t) < unat p \<and> unat p + unat n \<le> unat (domain_base t) + 0x100000
    \<and> unat (domain_base t) < unat q \<and> unat q + unat k \<le> unat (domain_base t) + 0x100000
    \<and> dhruva_heap_used m2 = dhruva_heap_used m"
  using stack_domain_success [OF assms(1,2,4)] usrstack_domain_success [OF assms(1,3,5)]
    domain_base_nat [OF assms(1)] by simp

lemma domain_calls:
  "dhruva_alloc_stack_domain D n t m = (if t > 14 then dhruva_alloc_stack_guarded D n m
     else if n + 4096 > 0x00100000 then dhruva_oom_fatal D n 0 False m
     else Some (Ptr (domain_base t + 4096),
       (mmu_guard_page_install_domain (domain_base t) t m)
         \<lparr>mem := zero_fill (domain_base t + 4096) (unat n) (mem m)\<rparr>))"
  "dhruva_alloc_usrstack_domain D n t m = (if t > 14 then dhruva_alloc_stack_guarded D n m
     else if n + 0x81000 > 0x00100000 then dhruva_oom_fatal D n 0 False m
     else Some (Ptr (domain_base t + 0x00080000 + 4096),
       (mmu_guard_page_install_domain (domain_base t + 0x00080000) t m)
         \<lparr>mem := zero_fill (domain_base t + 0x00080000 + 4096) (unat n) (mem m)\<rparr>))"
  by (simp_all add: dhruva_alloc_stack_domain_def dhruva_alloc_usrstack_domain_def Let_def
      mmu_guard_page_install_domain_def)

theorem task_stacks_in_own_region_witness:
  "\<exists>m1 m2 p q. dhruva_alloc_stack_domain open_uart 0x4000 3 heap_start = Some (Ptr p, m1)
     \<and> dhruva_alloc_usrstack_domain open_uart 0x4000 3 m1 = Some (Ptr q, m2)
     \<and> unat q + 0x4000 \<le> 0xD00000 + 0x100000"
proof -
  obtain p m1 where a: "dhruva_alloc_stack_domain open_uart 0x4000 3 heap_start = Some (Ptr p, m1)"
    by (simp add: domain_calls)
  obtain q m2 where b: "dhruva_alloc_usrstack_domain open_uart 0x4000 3 m1 = Some (Ptr q, m2)"
    by (simp add: domain_calls)
  from task_stacks_in_own_region [OF _ _ _ a b] a b show ?thesis by (auto simp: count_ok_def)
qed

text \<open>
  Within a task's region the supervisor stack stays below the user stack's guard page exactly
  when it is at most 0x7F000 bytes; the allocator accepts supervisor stacks of up to 0xFF000
  bytes, and a larger one overlaps the user stack's guard page.
\<close>

theorem svc_stack_below_usr_guard_iff:
  assumes "t \<le> 14" and "count_ok n"
    and "dhruva_alloc_stack_domain D n t m = Some (Ptr p, m1)"
    and "dhruva_alloc_usrstack_domain D k t m1 = Some (Ptr q, m2)" and "count_ok k"
  shows "\<exists>g. hd (guards m2) = (g, Some t) \<and> unat g + 4096 = unat q
    \<and> (unat p + unat n \<le> unat g \<longleftrightarrow> unat n \<le> 0x7F000)"
  using stack_domain_success(1) [OF assms(1-3)] usrstack_domain_success(1,3) [OF assms(1,5,4)] by auto

theorem svc_stack_below_usr_guard_iff_witness:
  "\<exists>p m1 q m2 g. dhruva_alloc_stack_domain open_uart 0x80000 3 heap_start = Some (Ptr p, m1)
     \<and> dhruva_alloc_usrstack_domain open_uart 0x1000 3 m1 = Some (Ptr q, m2)
     \<and> unat (g :: u32) + 4096 = unat q \<and> unat g < unat p + 0x80000"
proof -
  obtain p m1 where a: "dhruva_alloc_stack_domain open_uart 0x80000 3 heap_start = Some (Ptr p, m1)"
    by (simp add: domain_calls)
  obtain q m2 where b: "dhruva_alloc_usrstack_domain open_uart 0x1000 3 m1 = Some (Ptr q, m2)"
    by (simp add: domain_calls)
  have "(3 :: u32) \<le> 14" "count_ok 0x80000" "count_ok 0x1000" by (simp_all add: count_ok_def)
  from svc_stack_below_usr_guard_iff [OF this(1,2) a b this(3)] obtain g :: u32 where
    g: "unat g + 4096 = unat q" "unat p + unat (0x80000 :: u32) \<le> unat g \<longleftrightarrow> unat (0x80000 :: u32) \<le> 0x7F000"
    by blast
  have "unat g < unat p + 0x80000" using g(2) by simp
  with a b g(1) show ?thesis by (intro exI conjI)
qed

section \<open>Negative requests\<close>

text \<open>
  The room check is unsigned and its sum can wrap: a negative request \<open>-k\<close> with \<open>k\<close> no larger
  than the rounded high-water mark passes it and moves the high-water mark down by \<open>k\<close>, below
  blocks that were handed out before. The zeroing loop then runs over all of the address space
  but the last \<open>k\<close> bytes before the block (here over a flat memory; the board has none that
  would let it finish).
\<close>

theorem negative_request_rewinds_heap:
  assumes "heap_wf m" and "\<not> injects m" and "0 < k" and "k \<le> round_up 8 (unat (dhruva_heap_used m))"
  shows "\<exists>p m'. dhruva_alloc_bytes D (- of_nat k) m = Some (Ptr p, m')
    \<and> unat (dhruva_heap_used m') = round_up 8 (unat (dhruva_heap_used m)) - k
    \<and> mem m' a = (if unat (a - p) < 2 ^ 32 - k then 0 else mem m a)"
proof -
  let ?u = "unat (dhruva_heap_used m)"
  let ?off = "(dhruva_heap_used m + 7) AND NOT 7"
  have u: "?u \<le> CAP" using assms(1) by (simp add: heap_wf_def)
  have "?u + 7 < 2 ^ LENGTH(32)" using u by (simp add: CAP_def)
  then have off: "unat ?off = round_up 8 ?u" by (rule unat_round_8)
  have le: "of_nat k \<le> ?off"
    using assms(4) off u round_up_bounds(2) [of 8 ?u]
    by (simp add: word_le_nat_alt unat_of_nat CAP_def take_bit_nat_eq_self)
  have k: "unat (of_nat k :: u32) = k"
    using assms(4) u round_up_bounds(2) [of 8 ?u] by (simp add: unat_of_nat CAP_def)
  have sub: "unat (?off + - of_nat k) = round_up 8 ?u - k"
    by (simp only: add_uminus_conv_diff unat_sub [OF le] off k)
  have "round_up 8 ?u - k \<le> CAP"
    using div_le_mono [of "?u + 7" 786439 8] u by (simp add: round_up_def CAP_def)
  then have "\<not> ?off + - of_nat k > DHRUVA_HEAP_BYTES"
    by (simp only: word_less_nat_alt sub heap_bytes_cap not_less)
  moreover have "unat (- of_nat k :: u32) = 2 ^ 32 - k"
    using unat_sub_if' [of 0 "of_nat k :: u32"] assms(3) k by simp
  ultimately show ?thesis
    using assms(2) sub by (simp add: alloc_bytes_cases Let_def bumped_def zero_fill_wraps ticked_def)
qed

theorem negative_request_rewinds_heap_witness:
  "\<exists>p m'. dhruva_alloc_bytes open_uart (- 8) (heap_start\<lparr>dhruva_heap_used := 16\<rparr>) = Some (Ptr p, m')
     \<and> unat (dhruva_heap_used m') = 8"
proof -
  let ?m = "heap_start\<lparr>dhruva_heap_used := 16\<rparr>"
  have "heap_wf ?m" "\<not> injects ?m" "round_up 8 (unat (dhruva_heap_used ?m)) = 16"
    by (simp_all add: heap_wf_def heap_start_def CAP_def injects_def round_up_def)
  from negative_request_rewinds_heap [OF this(1,2), where k = 8 and D = open_uart and a = 0] this(3)
  show ?thesis by auto
qed

section \<open>The Pi 4 heap\<close>

text \<open>C39. No two blocks of the Pi 4 heap overlap, and all lie within its 768 KiB.\<close>

theorem heap4_blocks_disjoint:
  assumes "heap4_wf m" and "\<forall>r \<in> set rs. req4_count_ok r" and "heap4_calls D rs m = Some (offs, m')"
    and "i < j" and "j < length rs"
  shows "offs ! i + req4_size (rs ! i) \<le> offs ! j \<and> offs ! j + req4_size (rs ! j) \<le> 786432"
  using heap_rpi4.run_disjoint [OF assms(1,2) assms(3) [unfolded heap4_calls_run] assms(4,5)]
  by (simp add: CAP_def)

theorem heap4_blocks_disjoint_witness:
  "\<exists>m'. heap4_calls open_uart [Bytes4 13, Stack4 8] heap4_start = Some ([0, 8192], m')
     \<and> (0 :: nat) + 13 \<le> 8192"
proof -
  have "\<exists>m'. heap4_calls open_uart [Bytes4 13, Stack4 8] heap4_start = Some ([0, 8192], m')"
    by (simp add: heap4_alloc_def dhruva_alloc_bytes_rpi4_def dhruva_alloc_stack_guarded_rpi4_def
        mmu_guard_page_install_rpi4_def heap4_start_def Let_def DHRUVA_HEAP_BYTES_RPI4_def)
  then obtain m' where run: "heap4_calls open_uart [Bytes4 13, Stack4 8] heap4_start = Some ([0, 8192], m')"
    by blast
  from heap4_blocks_disjoint [OF heap_start_wf(2) _ run, of 0 1] run show ?thesis
    by (simp add: count4_ok_def)
qed

text \<open>
  A successful \<open>dhruva_alloc_bytes\<close> of the Pi 4 hands out zeroed fresh memory: at a multiple
  of 8 from the heap base, not below the high-water mark, all other bytes and the interrupt
  mask unchanged. A byte written through the pointer is read back, and does not show at
  another offset.
\<close>

theorem heap4_bytes_read_back:
  assumes "heap4_wf m" and "count4_ok n" and "dhruva_alloc_bytes_rpi4 D n m = Some (Ptr p, m')"
  shows "unat p = unat (heap_base4 m) + round_up 8 (unat (dhruva_heap_used_rpi4 m))
    \<and> mem4 m' a = (if unat p \<le> unat a \<and> unat a < unat p + unat n then 0 else mem4 m a)
    \<and> daif_masked m' = daif_masked m
    \<and> buf_read_byte p i (snd (buf_write_byte p j v m')) = (if i = j then v AND 0xFF else buf_read_byte p i m')"
proof -
  have "unat (ucast x :: u64) = unat x" for x :: u32
    by (simp add: unsigned_ucast_eq take_bit_nat_eq_self_iff less_trans [OF unat_lt_2p32])
  then have "ucast i = (ucast j :: u64) \<longleftrightarrow> i = j"
    by (metis word_unat_eq_iff)
  moreover have "ucast (ucast v :: u8) = v AND 0xFF"
  proof -
    have msk: "(0xFF :: u32) = mask 8" by (simp add: mask_eq_exp_minus_1)
    show ?thesis unfolding msk by (rule bit_word_eqI) (auto simp: bit_simps)
  qed
  ultimately have "buf_read_byte p i (snd (buf_write_byte p j v m'))
      = (if i = j then v AND 0xFF else buf_read_byte p i m')"
    by (simp add: buf_read_byte_def buf_write_byte_def)
  then show ?thesis using bytes4_success [OF assms] by simp
qed

theorem heap4_bytes_read_back_witness:
  "\<exists>m'. dhruva_alloc_bytes_rpi4 open_uart 4 heap4_start = Some (Ptr 0x00300000, m')
     \<and> buf_read_byte 0x00300000 2 (snd (buf_write_byte 0x00300000 2 0x1FF m')) = 0xFF"
proof -
  have "\<exists>m'. dhruva_alloc_bytes_rpi4 open_uart 4 heap4_start = Some (Ptr 0x00300000, m')"
    by (simp add: dhruva_alloc_bytes_rpi4_def heap4_start_def Let_def DHRUVA_HEAP_BYTES_RPI4_def)
  then obtain m' where r: "dhruva_alloc_bytes_rpi4 open_uart 4 heap4_start = Some (Ptr 0x00300000, m')" by blast
  have "count4_ok 4" by (simp add: count4_ok_def)
  from heap4_bytes_read_back [OF heap_start_wf(2) this r] r show ?thesis by simp
qed

end
