(* ===== verification/Spec2Isabelle.thy ===== *)
theory Spec2Isabelle
  imports Ideal_Boot Kernel_Protocol Upload_Boot Resume_Properties Stream_Properties Sd_Properties Heap_Properties
begin

text \<open>
  DhruvaOS is an operating system for the Raspberry Pi. What of it is C is the code that has to
  work before and below everything else: the first-stage boot loader, and the runtime that the
  compiled kernel links against. This development models that code, operation by operation, and
  proves what it promises, together with the part of the kernel that shares data with the loader.

  \<^bold>\<open>The program and how its parts interact.\<close>
  \<^item> \<open>boot/stage0/stage0_main.c\<close> starts the Pi 1: it reads the two copies of the slot-state record
    from the SD card, uses the newer valid one, counts the start as an attempt (or falls back
    to the other kernel slot where the attempts are used up), writes the record over the stale
    copy, loads the payload of the active slot, verifies its SHA-256 and jumps.
  \<^item> \<open>boot/stage0/sdread.c\<close> is the driver of the SD host that it uses, \<open>boot/stage0/sha256.c\<close> its hash.
  \<^item> \<open>kernel/kernel_main.vani\<close> confirms a start and changes the record by the commands \<open>reboot\<close>,
    \<open>kernelslot activate\<close> and \<open>kernelupload commit\<close>, with its own implementation of the format.
    \<open>kernelupload\<close> writes a new image into the slot that is not active, as one stream or in
    chunks that survive a reset, and checks it with the SHA-256 of \<open>vendor/crypto_hash/src/core.vani\<close>.
  \<^item> \<open>boot/rpi1/runtime_stubs.c\<close> and \<open>boot/rpi4/runtime_stubs_rpi4.c\<close> hold the C runtime of the
    kernel (\<open>strlen\<close>, \<open>memcpy\<close>, \<open>dprintf\<close>, \<open>exit\<close>) and its allocators.

  \<^bold>\<open>Theories.\<close> In the order of their imports:
  \<^item> \<open>Prelude\<close>: machine integers, byte views of words, the collections \<open>bus_intros\<close> (what an
    operation adds to the bus log) and \<open>live_intros\<close> (when it returns), which every operation extends.
  \<^item> \<open>Interfaces\<close>: the contracts between the parts as locales: \<open>stream_hash\<close>, \<open>record_codec\<close>,
    \<open>versioned_store\<close>, \<open>console\<close>, \<open>live_console\<close> and \<open>bump_allocator\<close>; each is interpreted on the
    definitions of the component that provides it.
  \<^item> \<open>Mmio\<close>: the machine. A \<open>device\<close> answers register reads and takes register writes; \<open>mach\<close> is its
    state with the log of all accesses, newest first. The timer and UART loops of the sources, and
    \<open>live\<close>, what is assumed of a device where an operation is shown to return.
  \<^item> \<open>Sha256\<close>: \<open>sha256.c\<close>, FIPS 180-4 on whole messages, and their equality.
  \<^item> \<open>Crc32\<close>, \<open>Slot_State\<close>: the checksum and the record of \<open>stage0_main.c\<close>, with its 512-byte form.
  \<^item> \<open>Sd_Driver\<close>: \<open>sdread.c\<close>. \<open>Sd_Proofs\<close>, \<open>Sd_Transfer\<close> and \<open>Sd_Init\<close> hold its lemmas: commands, block
    transfers, bring-up. \<open>Sd_Properties\<close> states its properties.
  \<^item> \<open>Stage0_Main\<close>: the rest of \<open>stage0_main.c\<close>. \<open>Stage0_Load\<close> and \<open>Stage0_Proofs\<close> hold its lemmas.
  \<^item> \<open>Kernel_Slots\<close>: the \<open>kernelslot\<close> operations of the kernel, and their agreement with the loader's.
  \<^item> \<open>Boot_Protocol\<close>: the record over many starts: \<open>slot_update\<close> is one update by the loader or the
    kernel, \<open>power_cycles\<close> a history of updates and of power losses on the two copies.
    \<open>Kernel_Protocol\<close>: the kernel's commands are steps of it.
  \<^item> \<open>Kernel_Sha256\<close>: the kernel's SHA-256, a second provider of \<open>stream_hash\<close>. \<open>Kernel_Progress\<close>: the
    progress record of a resumable upload. \<open>Kernel_Upload\<close>, \<open>Kernel_Resume\<close>: the command
    \<open>kernelupload\<close>; its state is the record \<open>upload\<close>, the variables of \<open>boot/kernelupload_state.S\<close>.
  \<^item> \<open>Upload_Proofs\<close> (taking in bytes, reading back), \<open>Upload_Commit\<close> and \<open>Upload_Record\<close> (what a commit
    can change), \<open>Upload_Line\<close> (decimal and hexadecimal arguments), \<open>Upload_Properties\<close> (only a
    verified image is marked), \<open>Upload_Complete\<close> and \<open>Upload_Session\<close> (a whole upload succeeds),
    \<open>Upload_Types\<close> (buffer sizes), \<open>Upload_Boot\<close> (the start after it).
  \<^item> \<open>Progress_Proofs\<close> (the progress record is a \<open>versioned_store\<close> too), \<open>Resume_Proofs\<close> (\<open>resume_at\<close>: the
    card between two chunks), \<open>Resume_Chunk\<close> (opening a chunk), \<open>Resume_Verify\<close> (only a verified chunk is
    counted), \<open>Resume_Round\<close> (a round counts its chunk, the last one makes the image ready for
    commit), \<open>Resume_Session\<close> (all rounds, broken ones included), \<open>Resume_Begin\<close>, \<open>Resume_Properties\<close>.
  \<^item> \<open>Kernel_Stream\<close>: how a streamed byte gets from the UART to \<open>kernelupload_accumulate_bytes\<close>: the streaming
    branches of \<open>irq_dispatch\<close>, \<open>timer_tick_dispatch\<close> and \<open>task_f\<close>, and the ring buffer between handler and
    task (the record \<open>stream\<close>: the \<open>upload\<close> with ring, batch and shell). \<open>Rx_Ring\<close> (the ring is a
    \<open>bounded_queue\<close>), \<open>Stream_Proofs\<close> (what the handler changes), \<open>Stream_Run\<close> (\<open>stream_run\<close>: all
    interleavings of handler, tick and task, with their invariant), \<open>Stream_Properties\<close>.
  \<^item> \<open>Ideal_Card\<close>: a device that is a working card with a UART and a timer, and the driver on it.
    \<open>Ideal_Boot\<close>: the specification \<open>boot_spec\<close> of a start as a function of the card's contents, and
    the proof that \<open>stage0_main\<close> computes it on that device.
  \<^item> \<open>Runtime_Libc\<close>, \<open>Libc_Proofs\<close>, \<open>Libc_Properties\<close>: the C runtime of both boards.
  \<^item> \<open>Heap_Rpi1\<close>, \<open>Heap_Rpi4\<close>, \<open>Heap_Proofs\<close>, \<open>Heap_Properties\<close>: the allocators of both boards.

  \<^bold>\<open>Conventions.\<close> A C function is a definition of the same name. It takes the device \<open>D\<close> and the
  machine, and returns its result with the new machine; where it can wait for the hardware for
  ever the result is an option and \<open>None\<close> is the endless wait. C integers are words of their
  width. A halt, a panic and the jump are outcomes. The records extend each other as the
  objects are linked: \<open>mach\<close>, then \<open>stage0\<close> (the static variables of driver and loader, and RAM),
  \<open>heap\<close> and \<open>heap4\<close> (those of the runtimes). The stack variables that the loader leaves uninitialised
  are the argument \<open>junk\<close>, of which only the lengths of its arrays are assumed. A function of the
  kernel takes its environment \<open>dev\<close> (SD driver, microsecond timer, tick count) and the state
  \<open>upload\<close>; what it prints is the list \<open>printed\<close>. The arithmetic of its language is checked, so a
  panic is \<open>None\<close> where values can be out of range; its 64-bit offsets and lengths are \<open>nat\<close> or \<open>int\<close>.

  \<^bold>\<open>What is shown.\<close> For every device: a jump only goes to a payload that was verified; a run writes
  at most one of the two state blocks; a block transfer moves its 128 words in order, never beyond
  the room of the FIFO, and never reports success for less; the forced FSM bit is released on
  every path. On live devices every operation returns. On a working card the run equals its
  specification for every contents. Over any history of starts, kernel commands and power
  losses, no committed update is lost (up to the generation's last value, where one is); starts that are never confirmed fall back after the limit. The record format
  is read back, damage within four bytes is rejected, and the kernel's implementation is the
  same format. On any driver \<open>commit\<close> marks a slot only after the bytes on the card had the claimed
  digest; on a working one a whole upload is marked, and the start after its activation runs it. The
  progress record counts only chunks that were verified on the card; a resumable upload that
  breaks off inside a chunk is resumed at that chunk and completed, but one that is reset after
  its last chunk cannot be committed. In every interleaving of the UART's interrupts with the steps of
  the task a stream is taken in as it came, without a trap, and without a loss while the host waits for
  the acknowledgements; what was streamed in can be committed, activated and started.
  Both hashes are SHA-256, the checksum the CRC-32 of IEEE 802.3. The allocators hand out disjoint
  zeroed blocks and say when they are exhausted; guard pages and regions are where they are
  promised; the two comments and the overflow that are not true of the code are shown as such. The
  printers print the decimal and the formatted text.

  \<^bold>\<open>Loops and bounds.\<close> Loops with a counter in the source are recursions on it with the source's
  bound: 1000 attempts of ACMD41, the mailbox and FIFO waits, \<open>ROOM_WAIT_MAX\<close> = 20000000 polls for
  the FIFO's level (of which the transfer loops terminate by a measure on the words left and the
  polls left). A run of a stream has no bound; that it ends is a measure on the bytes still to come and
  the bytes still to pop. Waits on the timer or the UART have no bound in the source and are
  \<open>partial_function (option)\<close>; \<open>live\<close> (a clock that each bus access advances, by less than
  about a second; a UART that drains) makes them return, with no fuel.

  \<^bold>\<open>Not modelled.\<close> The barriers, cache and TLB maintenance are assembly without effect on
  the values of the model. How a real SD card and host respond is the device parameter; the
  working card is one instance. The MMU calls of the allocators are recorded with their
  arguments; page tables, entry code and vectors are assembly. Of the kernel, written in the
  project's own language Vani, only the A/B update is modelled, over its SD driver and the UART's
  registers as parameters; the scheduler, the file system, the network and the rest of the shell (its line
  editor too, which gets the bytes after the end of a stream) are not. Interrupts come between
  the steps of the task (a pop, the work on a batch), not within the forced draining of the FIFO, where the
  task itself pushes into the ring. The replacements of the runtime for tests on a
  development host, the tools and the scripts are not part of the product.
\<close>

section \<open>A run on any hardware\<close>

text \<open>
  C1. The loader jumps only to a verified kernel. Whatever the card, the controller and the UART
  do, a run of \<open>stage0_main\<close> that ends has either halted with one of the documented fault
  codes, or jumped after: reading a slot-state record from one of the two state blocks whose
  magic and checksum were right; updating it by the boot decision; loading the blocks of the
  slot that the updated record makes active, in order and to the load address; and finding the
  SHA-256 of the recorded number of bytes in RAM equal to the recorded digest. The jump hands
  over the reset reason and the slot.
\<close>

theorem jumps_only_to_verified_kernel:
  assumes "stage0_main D wd junk m = Some (res, m')"
    and "sha_fresh junk" and "length (block_buf m) = 512"
  shows "(\<exists>c \<in> fault_codes. res = Halted c) \<or> (\<exists>s. res = Jumped (jump_value s) \<and> booted m m' s)"
  using main_spec(1) [OF assms] .

theorem jumps_only_to_verified_kernel_witness:
  "\<exists>m' s. stage0_main ideal_card True example_ctx (example_start (example_disk zero_digest))
      = Some (Jumped (jump_value s), m')
    \<and> booted (example_start (example_disk zero_digest)) m' s"
proof -
  let ?m = "example_start (example_disk zero_digest)"
  have "length zero_digest = 32" by (simp add: zero_digest_def)
  then obtain m' where run: "stage0_main ideal_card True example_ctx ?m = Some (Jumped 0, m')"
    using card_main [of ?m example_ctx True] example_ctx_fresh example_length example_jump by auto
  from jumps_only_to_verified_kernel [OF run example_ctx_fresh] obtain s where
    "Jumped 0 = Jumped (jump_value s)" "booted ?m m' s" by auto
  with run show ?thesis by metis
qed

text \<open>
  C12. A run writes at most one block of the card, and only one of the two state blocks: no kernel
  slot, file system or partition table is ever written by the loader. The argument of the write
  command addresses the block the way this card takes it: \<open>block_addr\<close> reads off the bus what the
  card answered to the last command 41, and gives the block number for a card that reported block
  addressing (bit 30 of that answer) and the byte address for every other card.
\<close>

theorem writes_only_one_state_block:
  assumes "stage0_main D wd junk m = Some (res, m')"
    and "sha_fresh junk" and "length (block_buf m) = 512"
  shows "\<exists>ts. write_targets (bus m') = write_targets (bus m) @ ts \<and> length ts \<le> 1
    \<and> set ts \<subseteq> {block_addr (bus m') SLOT_STATE_BLOCK_A, block_addr (bus m') SLOT_STATE_BLOCK_B}"
  using main_spec(2) [OF assms] .

theorem writes_only_one_state_block_witness:
  "\<exists>res m'. stage0_main ideal_card False example_ctx (example_start (example_disk zero_digest)) = Some (res, m')
     \<and> set (write_targets (bus m')) \<subseteq> {block_addr (bus m') SLOT_STATE_BLOCK_A, block_addr (bus m') SLOT_STATE_BLOCK_B}"
proof -
  let ?m = "example_start (example_disk zero_digest)"
  obtain res m' where run: "stage0_main ideal_card False example_ctx ?m = Some (res, m')"
    using main_live [OF ideal_card_live example_ctx_fresh] by (fastforce simp: returns_def)
  from writes_only_one_state_block [OF run example_ctx_fresh] run show ?thesis
    by (auto simp: write_targets_def)
qed

text \<open>
  C11. The loader always comes to an end on live hardware (the timer runs, the UART drains): it
  halts with a documented code or jumps, however the card and the controller misbehave.
\<close>

theorem boot_always_ends:
  assumes "live D" and "sha_fresh junk" and "length (block_buf m) = 512"
  shows "\<exists>res m'. stage0_main D wd junk m = Some (res, m')
    \<and> ((\<exists>c \<in> fault_codes. res = Halted c) \<or> (\<exists>v. res = Jumped v))"
proof -
  obtain res m' where run: "stage0_main D wd junk m = Some (res, m')"
    using main_live [OF assms(1,2)] by (fastforce simp: returns_def)
  from main_spec(1) [OF this assms(2,3)] run show ?thesis by blast
qed

theorem boot_always_ends_witness:
  "\<exists>res m'. stage0_main ideal_card True example_ctx (example_start (\<lambda>n. [])) = Some (res, m')"
  using boot_always_ends [OF ideal_card_live example_ctx_fresh, of "example_start (\<lambda>n. [])" True] by auto

section \<open>A run on a working card\<close>

text \<open>
  C2. On a working card the loader computes its specification exactly: for every contents of the
  card, valid or not, the outcome of \<open>stage0_main\<close> and the contents it leaves are those of
  \<open>boot_spec\<close>. In particular it does jump when the selected record's slot verifies.
\<close>

theorem boot_refines_spec:
  assumes "rx (hw m) = []" and "\<forall>n. length (disk (hw m) n) = 128"
    and "length (block_buf m) = 512" and "sha_fresh junk"
  shows "\<exists>m'. stage0_main ideal_card wd junk m = Some (fst (boot_spec (disk (hw m))), m')
    \<and> disk (hw m') = snd (boot_spec (disk (hw m)))"
  using card_main [OF assms] .

theorem boot_refines_spec_witness:
  "\<exists>m'. stage0_main ideal_card False example_ctx (example_start (example_disk zero_digest)) = Some (Jumped 0, m')
     \<and> card_select (disk_records (disk (hw m')))
       = Some (boot_decide (example_slot zero_digest), SLOT_STATE_BLOCK_A)"
proof -
  let ?d = "example_disk zero_digest" and ?s = "boot_decide (example_slot zero_digest)"
  have d: "length zero_digest = 32" by (simp add: zero_digest_def)
  note ok = example_slot_ok [OF d]
  obtain m' where m': "stage0_main ideal_card False example_ctx (example_start ?d) = Some (Jumped 0, m')"
      "disk (hw m') = snd (boot_spec ?d)"
    using boot_refines_spec [of "example_start ?d" example_ctx False] example_length [OF d]
      example_ctx_fresh example_jump by auto
  have rec: "fst (disk_records ?d) = slot_wire (example_slot zero_digest)"
    using bytes_of_words_of [of "slot_wire (example_slot zero_digest)"] length_slot_wire [OF ok]
    by (simp add: disk_records_def block_bytes_def example_disk_def)
  have "card_select (disk_records (snd (boot_spec ?d))) = Some (?s, SLOT_STATE_BLOCK_A)"
    unfolding boot_put_block [OF example_select [OF d]]
    using rec parse_slot_wire [OF ok] parse_slot_wire [OF decide_ok [OF ok]]
    by (simp add: card_select_def put_block_def select_record_def stage0_const_defs
        decide_generation) (simp add: example_slot_def)
  with m' show ?thesis by auto
qed

text \<open>
  C13. A run on a working card is one step of the two-copy protocol: a card that has come out of
  any history of updates and power losses is still in such a history after a boot, with one
  more update done.
\<close>

theorem boot_is_protocol_step:
  assumes "power_cycles p n (disk_records (disk (hw m)))"
    and "card_select (disk_records (disk (hw m))) = Some (r, stale)"
    and "rx (hw m) = []" and "\<forall>n. length (disk (hw m) n) = 128"
    and "length (block_buf m) = 512" and "sha_fresh junk"
  shows "\<exists>res m'. stage0_main ideal_card wd junk m = Some (res, m')
    \<and> power_cycles p (Suc n) (disk_records (disk (hw m')))
    \<and> disk_records (disk (hw m')) = put_block stale (slot_wire (boot_decide r)) (disk_records (disk (hw m)))"
proof -
  obtain m' where run: "stage0_main ideal_card wd junk m = Some (fst (boot_spec (disk (hw m))), m')"
      and d: "disk (hw m') = snd (boot_spec (disk (hw m)))"
    using card_main [OF assms(3-6)] by blast
  show ?thesis
    by (intro exI conjI, rule run, unfold d)
      (rule boot_power_cycle [OF assms(1,2)], rule boot_put_block [OF assms(2)])
qed

theorem boot_is_protocol_step_witness:
  "\<exists>res m'. stage0_main ideal_card False example_ctx (example_start (example_disk zero_digest)) = Some (res, m')
     \<and> power_cycles (disk_records (example_disk zero_digest)) 1 (disk_records (disk (hw m')))"
proof -
  let ?m = "example_start (example_disk zero_digest)"
  have d: "length zero_digest = 32" by (simp add: zero_digest_def)
  have "power_cycles (disk_records (disk (hw ?m))) 0 (disk_records (disk (hw ?m)))"
    by (rule power_cycles.start)
  from boot_is_protocol_step [OF this _ _ _ _ example_ctx_fresh, of "example_slot zero_digest" SLOT_STATE_BLOCK_B False]
  show ?thesis using example_select [OF d] example_length [OF d] by auto
qed

text \<open>
  C10. A bad kernel does not brick the board. Let the selected record be a confirmed one whose other
  slot is ready and holds a payload with the recorded digest. Whatever the active slot holds (a
  payload that fails to verify, or one that is verified, runs and dies), if no kernel confirms,
  start number \<open>L + 1\<close> jumps to the other slot, with the fallback reason in \<open>r0\<close>.
\<close>

theorem unconfirmed_slot_falls_back:
  assumes sel: "card_select (disk_records d) = Some (r, stale)"
    and limit: "attempt_count r = 0" "effective_limit r \<noteq> - 1" "other_ready r \<noteq> 0"
    and gen: "unat (generation r) + unat (effective_limit r) < 2 ^ 32 - 1"
    and s: "s = attempts (Suc (unat (effective_limit r))) r"
    and payload: "slot_len s \<noteq> 0" "slot_len s \<le> SLOT_SIZE_BYTES"
      "sha256_digest (disk_payload d s) = slot_sha s"
    and m: "disk (hw m) = boots (unat (effective_limit r)) d" "\<forall>n. length (d n) = 128"
      "rx (hw m) = []" "length (block_buf m) = 512" "sha_fresh junk"
  shows "\<exists>m'. stage0_main ideal_card wd junk m = Some (Jumped (jump_value s), m')
    \<and> active_slot s = (if active_slot r = 0 then 1 else 0) \<and> last_reset_reason s = REASON_AUTO_FALLBACK"
proof -
  let ?L = "unat (effective_limit r)"
  obtain st where "card_select (disk_records (boots ?L d)) = Some (attempts ?L r, st)"
    using boots_select [OF sel, of ?L] gen by auto
  moreover have "boot_decide (attempts ?L r) = s" by (simp add: s attempts_def)
  ultimately have "fst (boot_spec (boots ?L d)) = Jumped (jump_value s)"
    using payload disk_payload_boots [OF payload(2)] by (simp add: boot_spec_def Let_def not_less)
  then show ?thesis
    using card_main [of m junk wd] m boots_length [OF m(2)] fallback_after_limit [OF limit]
    by (auto simp: s)
qed

theorem unconfirmed_slot_falls_back_witness:
  "\<exists>m'. stage0_main ideal_card False example_ctx (example_start (boots 2 (example_disk (replicate 32 0))))
     = Some (Jumped 0x301, m')"
proof -
  let ?d = "example_disk (replicate 32 0)" and ?r = "example_slot (replicate 32 0)"
  let ?s = "attempts 3 ?r"
  have L: "effective_limit ?r = 2" by (simp add: effective_limit_def example_slot_def)
  have len: "length (replicate 32 (0 :: u8)) = 32" by simp
  have three: "?s = boot_decide (boot_decide (boot_decide ?r))"
    by (simp add: attempts_def numeral_3_eq_3)
  have s: "slot_len ?s = 512" "slot_sha ?s = zero_digest" "jump_value ?s = 0x301"
    unfolding three
    by (simp_all add: decide_defs example_slot_def slot_len_def slot_sha_def
        effective_limit_def other_ready_def reset_reason_def jump_value_def REASON_CLEAN_REBOOT_def
        REASON_POWER_ON_def REASON_AUTO_FALLBACK_def REASON_WATCHDOG_OR_HANG_def)
  have digest: "sha256_digest (disk_payload ?d ?s) = slot_sha ?s"
    by (simp only: example_payload [OF s(1)] s(2) zero_digest_def)
  show ?thesis
    using unconfirmed_slot_falls_back [OF example_select [OF len], of ?s "example_start (boots 2 ?d)" example_ctx False]
      s digest example_length [OF len] example_ctx_fresh
    by (simp add: L SLOT_SIZE_BYTES_def) (simp add: example_slot_def other_ready_def)
qed

section \<open>From an upload to its start\<close>

lemma shown_words:
  assumes "\<And>b. length (v b) = 512"
  shows "card_shows (\<lambda>n. words_of (v (ucast n))) v" and "length (words_of (v b)) = 128"
  using bytes_of_words_of length_words_of [of "v b"] assms by (simp_all add: card_shows_def block_bytes_def)

text \<open>
  C3. An uploaded kernel starts. Take a working card and clock, and a selectable record with two
  generations left. After \<open>kernelupload stream\<close>, the bytes of an image in any pieces,
  \<open>kernelupload commit\<close> with its length and SHA-256, and \<open>kernelslot activate\<close> for the slot that
  was not active, a start of the loader on the card that these commands left, seen as 128
  words a block, verifies exactly the uploaded bytes and jumps, with that slot
  as the active one.
\<close>

theorem uploaded_kernel_boots:
  assumes sound: "sd_sound dev view" and works: "sd_reads_all dev" "sd_writes_all dev" "clock_forward dev"
    and wf: "up_wf st" and sel: "card_select (slot_copies (view (sd st))) = Some (r, stale)"
    and gen: "unat (generation r) + 2 < 2 ^ 32" and prog: "progress_counts (view (sd st))"
    and msg: "concat pieces = msg" "0 < length msg" "int (length msg) \<le> kernelslot_size_bytes"
    and junk: "sha_fresh junk"
  defines "t \<equiv> if active_slot r = 0 then 1 else 0 :: u32"
    and "st1 \<equiv> kernelupload_stream dev (stream_line (length msg)) 19 (length (stream_line (length msg))) st"
    and "line \<equiv> commit_line (length msg) (sha256_digest msg)"
  shows "\<exists>st2 st3 buf d ack. feed dev pieces st1 = Some (0, st2)
    \<and> kernelupload_commit dev line 19 (length line) st2 = Some st3
    \<and> kernelslot_activate (io_read dev) (io_write dev) 0 (t = 0) (t \<noteq> 0) (up_record_buf st3, sd st3) = Some (ack, buf, d)
    \<and> (\<forall>m :: (card, 'z) stage0_scheme. card_shows (disk (hw m)) (view d) \<and> rx (hw m) = [] \<and> (\<forall>n. length (disk (hw m) n) = 128)
          \<and> length (block_buf m) = 512 \<longrightarrow>
        (\<exists>m' s. stage0_main ideal_card wd junk m = Some (Jumped (jump_value s), m')
          \<and> active_slot s = ucast t \<and> disk_payload (disk (hw m)) s = msg))"
proof -
  have "generation r \<noteq> - 1" using gen by (auto simp: unat_max)
  from upload_run [OF sound works wf sel this prog msg, folded t_def st1_def line_def] obtain st2 st3 r' where
    feed: "feed dev pieces st1 = Some (0, st2)" and wf2: "up_wf st2"
    and commit: "kernelupload_commit dev line 19 (length line) st2 = Some st3"
    and r': "record_upload t (of_nat (length msg)) (sha256_digest msg) r = Some r'"
    and sel3: "\<exists>stale'. card_select (slot_copies (view (sd st3))) = Some (r', stale')"
    and img: "card_image (view (sd st3)) (slot_base_block t) (length msg) = msg"
    by blast
  have t: "t = 0 \<or> t = 1" by (simp add: t_def)
  show ?thesis
    using committed_boots [OF sound works(1,2) gen msg(2,3) junk t wf2 commit r' sel3 img, where wd = wd and 'z = 'z] feed commit by blast
qed

theorem uploaded_kernel_boots_witness:
  "\<exists>st2 st3 buf d ack m' s. feed ram_io [[7], [8, 9]]
        (kernelupload_stream ram_io (stream_line 3) 19 (length (stream_line 3)) sample_upload) = Some (0, st2)
    \<and> kernelupload_commit ram_io (commit_line 3 (sha256_digest [7, 8, 9])) 19
        (length (commit_line 3 (sha256_digest [7, 8, 9]))) st2 = Some st3
    \<and> kernelslot_activate (io_read ram_io) (io_write ram_io) 0 False True (up_record_buf st3, sd st3) = Some (ack, buf, d)
    \<and> stage0_main ideal_card True example_ctx (example_start (\<lambda>n. words_of (ram_view d (ucast n)))) = Some (Jumped (jump_value s), m')
    \<and> active_slot s = 1"
proof -
  have gen: "unat (generation sample_slot) + 2 < 2 ^ 32" by (simp add: sample_slot_def)
  from uploaded_kernel_boots [where wd = True and 'z = unit, OF ram_works sample_upload_ok(1), unfolded sample_upload_ok(2), OF sample_upload_ok(4)
      gen sample_upload_ok(5) sample_session(1,2,4) example_ctx_fresh, unfolded sample_session(3,6)]
  obtain st2 st3 buf d ack where
    feed: "feed ram_io [[7], [8, 9]]
      (kernelupload_stream ram_io (stream_line 3) 19 (length (stream_line 3)) sample_upload) = Some (0, st2)"
    and commit: "kernelupload_commit ram_io (commit_line 3 (sha256_digest [7, 8, 9])) 19
        (length (commit_line 3 (sha256_digest [7, 8, 9]))) st2 = Some st3"
    and act: "kernelslot_activate (io_read ram_io) (io_write ram_io) 0 ((1 :: u32) = 0) ((1 :: u32) \<noteq> 0) (up_record_buf st3, sd st3)
      = Some (ack, buf, d)"
    and boot: "\<forall>m :: card stage0. card_shows (disk (hw m)) (ram_view d) \<and> rx (hw m) = [] \<and> (\<forall>n. length (disk (hw m) n) = 128)
          \<and> length (block_buf m) = 512 \<longrightarrow>
        (\<exists>m' s. stage0_main ideal_card True example_ctx m = Some (Jumped (jump_value s), m')
          \<and> active_slot s = ucast (1 :: u32) \<and> disk_payload (disk (hw m)) s = [7, 8, 9])"
    by (elim exE conjE) (rule that)
  have len: "length (ram_view d b) = 512" for b by (simp add: ram_view_def)
  obtain m' s where "stage0_main ideal_card True example_ctx (example_start (\<lambda>n. words_of (ram_view d (ucast n)))) = Some (Jumped (jump_value s), m')"
      "active_slot s = 1"
    using spec [OF boot, of "example_start (\<lambda>n. words_of (ram_view d (ucast n)))"] shown_words [OF len] by auto
  then show ?thesis using feed commit act by auto
qed

text \<open>
  C4. A kernel that comes in over the wire starts. Take a working card and clock, and a selectable record with
  two generations left; let the wire carry an image after \<open>kernelupload stream\<close>. In any interleaving of
  the UART's interrupts, the ticks of the timer and the steps of the task that drops no byte, once all
  are accepted and if the upload was not given up: the task finishes the stream; \<open>kernelupload commit\<close> with
  length and SHA-256 of the image and \<open>kernelslot activate\<close> for the slot that was not active are accepted;
  and a start of the loader on the card that these left verifies exactly the image and jumps, with that
  slot as the active one.
\<close>

theorem streamed_kernel_boots:
  assumes sound: "stream_sound env view wire" and works: "sd_reads_all (sio_dev env)" "sd_writes_all (sio_dev env)" "clock_forward (sio_dev env)"
    and bufs: "buffers_ok s" and sel: "card_select (slot_copies (view (sd (upl s)))) = Some (r, stale)"
    and gen: "unat (generation r) + 2 < 2 ^ 32" and prog: "progress_counts (view (sd (upl s)))"
    and msg: "0 < length msg" "int (length msg) \<le> kernelslot_size_bytes"
    and wire: "wire (sd (upl (stream_command env (length msg) s))) = msg @ rest"
    and run: "stream_run env (stream_command env (length msg) s) acc s1 ph" and alive: "up_active (upl s1) = 1"
    and lossless: "length acc + length (wire (sd (upl s1))) = length (msg @ rest)" and enough: "length msg \<le> length acc"
    and junk: "sha_fresh junk"
  defines "t \<equiv> if active_slot r = 0 then 1 else 0 :: u32" and "line \<equiv> commit_line (length msg) (sha256_digest msg)"
  shows "\<exists>s2 u buf d ack. stream_run env (stream_command env (length msg) s) acc s2 None
    \<and> kernelupload_commit (sio_dev env) line 19 (length line) (upl s2) = Some u
    \<and> kernelslot_activate (io_read (sio_dev env)) (io_write (sio_dev env)) 0 (t = 0) (t \<noteq> 0) (up_record_buf u, sd u) = Some (ack, buf, d)
    \<and> (\<forall>m :: (card, 'z) stage0_scheme. card_shows (disk (hw m)) (view d) \<and> rx (hw m) = [] \<and> (\<forall>n. length (disk (hw m) n) = 128)
          \<and> length (block_buf m) = 512 \<longrightarrow>
        (\<exists>m' s. stage0_main ideal_card wd junk m = Some (Jumped (jump_value s), m')
          \<and> active_slot s = ucast t \<and> disk_payload (disk (hw m)) s = msg))"
proof -
  have "generation r \<noteq> - 1" using gen by (auto simp: unat_max)
  from streamed_commits [OF sound works bufs sel this prog msg wire run alive lossless enough, folded t_def line_def]
  obtain s2 u r' where s2: "stream_run env (stream_command env (length msg) s) acc s2 None" and wf: "up_wf (upl s2)"
    and commit: "kernelupload_commit (sio_dev env) line 19 (length line) (upl s2) = Some u"
    and r': "record_upload t (of_nat (length msg)) (sha256_digest msg) r = Some r'"
    and sel3: "\<exists>stale'. card_select (slot_copies (view (sd u))) = Some (r', stale')"
    and img: "card_image (view (sd u)) (slot_base_block t) (length msg) = msg"
    by blast
  have t: "t = 0 \<or> t = 1" by (simp add: t_def)
  show ?thesis
    using committed_boots [OF stream_soundD(1) [OF sound] works(1,2) gen msg junk t wf commit r' sel3 img, where wd = wd and 'z = 'z] s2 commit
    by blast
qed

theorem streamed_kernel_boots_witness:
  "\<exists>s2 u buf d ack m' s. stream_run line_io (stream_command line_io 3 (sample_line [7, 8, 9])) [7, 8, 9] s2 None
    \<and> kernelupload_commit (sio_dev line_io) (commit_line 3 (sha256_digest [7, 8, 9])) 19
        (length (commit_line 3 (sha256_digest [7, 8, 9]))) (upl s2) = Some u
    \<and> kernelslot_activate (io_read (sio_dev line_io)) (io_write (sio_dev line_io)) 0 False True (up_record_buf u, sd u) = Some (ack, buf, d)
    \<and> stage0_main ideal_card True example_ctx (example_start (\<lambda>n. words_of (board_view d (ucast n)))) = Some (Jumped (jump_value s), m')
    \<and> active_slot s = 1"
proof -
  have gen: "unat (generation sample_slot) + 2 < 2 ^ 32" by (simp add: sample_slot_def)
  note l = sample_session(3)
  from streamed_kernel_boots [where wd = True and 'z = unit, OF line_works(1-4) sample_line_ok(1,2) gen sample_line_ok(3) sample_session(2,4)
      sample_wire, unfolded l, OF sample_stream(1,2) sample_lossless(1,2) example_ctx_fresh, unfolded sample_session(6)]
  obtain s2 u buf d ack where
    run: "stream_run line_io (stream_command line_io 3 (sample_line [7, 8, 9])) [7, 8, 9] s2 None"
    and commit: "kernelupload_commit (sio_dev line_io) (commit_line 3 (sha256_digest [7, 8, 9])) 19
        (length (commit_line 3 (sha256_digest [7, 8, 9]))) (upl s2) = Some u"
    and act: "kernelslot_activate (io_read (sio_dev line_io)) (io_write (sio_dev line_io)) 0 ((1 :: u32) = 0) ((1 :: u32) \<noteq> 0)
      (up_record_buf u, sd u) = Some (ack, buf, d)"
    and boot: "\<forall>m :: card stage0. card_shows (disk (hw m)) (board_view d) \<and> rx (hw m) = [] \<and> (\<forall>n. length (disk (hw m) n) = 128)
          \<and> length (block_buf m) = 512 \<longrightarrow>
        (\<exists>m' s. stage0_main ideal_card True example_ctx m = Some (Jumped (jump_value s), m')
          \<and> active_slot s = ucast (1 :: u32) \<and> disk_payload (disk (hw m)) s = [7, 8, 9])"
    by (elim exE conjE) (rule that)
  have len: "length (board_view d b) = 512" for b by (simp add: board_view_def ram_view_def)
  obtain m' s where "stage0_main ideal_card True example_ctx (example_start (\<lambda>n. words_of (board_view d (ucast n)))) = Some (Jumped (jump_value s), m')"
      "active_slot s = 1"
    using spec [OF boot, of "example_start (\<lambda>n. words_of (board_view d (ucast n)))"] shown_words [OF len] by auto
  moreover have "kernelslot_activate (io_read (sio_dev line_io)) (io_write (sio_dev line_io)) 0 False True (up_record_buf u, sd u) = Some (ack, buf, d)"
    using act by simp
  ultimately show ?thesis using run commit by blast
qed

end
